(* ===== verification/Hb_Prelude.thy ===== *)
theory Hb_Prelude
  imports Main "HOL-Library.Word"
begin

text \<open>
  Shared vocabulary of the development: the machine integers of the Rust sources
  (\<open>u8\<close>, \<open>u16\<close>, \<open>u32\<close>, \<open>u64\<close>; \<open>usize\<close> is \<open>u64\<close> on the only supported target,
  x86-64), Rust's checked, saturating and little-endian integer operations, and the
  generic lemmas on words, byte lists and options that the component theories use.

  \<open>le_bytes n w\<close> is \<open>w.to_le_bytes()\<close> for an \<open>n\<close>-byte integer and
  \<open>of_le bs\<close> is \<open>from_le_bytes\<close>; the two round-trip laws below carry every
  wire-format and snapshot proof of the library.
\<close>

unbundle bit_operations_syntax

type_synonym u8 = "8 word"
type_synonym u16 = "16 word"
type_synonym u32 = "32 word"
type_synonym u64 = "64 word"
type_synonym byte = u8
type_synonym bytes = "byte list"

named_theorems le_simps \<open>round trips of little-endian encodings\<close>
named_theorems unat_simps \<open>reading word arithmetic as natural numbers\<close>

subsection \<open>Rust integer operations\<close>

definition checked_add :: "'a::len word \<Rightarrow> 'a word \<Rightarrow> 'a word option" where
  "checked_add a b = (if unat a + unat b < 2 ^ LENGTH('a) then Some (a + b) else None)"

definition checked_mul :: "'a::len word \<Rightarrow> 'a word \<Rightarrow> 'a word option" where
  "checked_mul a b = (if unat a * unat b < 2 ^ LENGTH('a) then Some (a * b) else None)"

definition saturating_add :: "'a::len word \<Rightarrow> 'a word \<Rightarrow> 'a word" where
  "saturating_add a b = (if unat a + unat b < 2 ^ LENGTH('a) then a + b else -1)"

definition saturating_sub :: "'a::len word \<Rightarrow> 'a word \<Rightarrow> 'a word" where
  "saturating_sub a b = (if b \<le> a then a - b else 0)"

text \<open>\<open>div_ceil\<close> is \<open>u64::div_ceil\<close>, for a divisor that is not 0.\<close>

definition div_ceil :: "u64 \<Rightarrow> u64 \<Rightarrow> u64" where
  "div_ceil a b = a div b + (if a mod b = 0 then 0 else 1)"

text \<open>\<open>then_some b x\<close> is \<open>b.then_some(x)\<close>.\<close>

definition then_some :: "bool \<Rightarrow> 'a \<Rightarrow> 'a option" where
  "then_some b x = (if b then Some x else None)"

subsection \<open>Little-endian bytes\<close>

primrec le_bytes :: "nat \<Rightarrow> 'a::len word \<Rightarrow> bytes" where
  "le_bytes 0 w = []"
| "le_bytes (Suc n) w = ucast w # le_bytes n (drop_bit 8 w)"

primrec of_le :: "bytes \<Rightarrow> 'a::len word" where
  "of_le [] = 0"
| "of_le (b # bs) = ucast b OR push_bit 8 (of_le bs)"

abbreviation le16 :: "u16 \<Rightarrow> bytes" where "le16 \<equiv> le_bytes 2"
abbreviation le32 :: "u32 \<Rightarrow> bytes" where "le32 \<equiv> le_bytes 4"
abbreviation le64 :: "u64 \<Rightarrow> bytes" where "le64 \<equiv> le_bytes 8"

text \<open>\<open>subslice xs a n\<close> is the slice \<open>xs[a .. a + n]\<close> of the code, used where it is in range.\<close>

definition subslice :: "'a list \<Rightarrow> nat \<Rightarrow> nat \<Rightarrow> 'a list" where
  "subslice xs a n = take n (drop a xs)"

subsection \<open>Lemmas\<close>

lemma length_le_bytes [simp]: "length (le_bytes n w) = n"
  by (induction n arbitrary: w) auto

lemma le_bytes_zero: "le_bytes n 0 = replicate n 0"
  by (induction n) simp_all

lemma of_le_zero [simp]: "of_le (replicate n 0) = 0"
  by (induction n) simp_all

lemma ucast_byte_take_bit: "(ucast (ucast (w :: 'a::len word) :: byte) :: 'a word) = take_bit 8 w"
  by (rule bit_word_eqI) (auto simp: bit_simps)

lemma take_bit_split_byte:
  "take_bit 8 w OR push_bit 8 (take_bit m (drop_bit 8 w)) = take_bit (8 + m) (w :: 'a::len word)"
  by (rule bit_word_eqI) (auto simp: bit_simps)

lemma of_le_le_bytes: "of_le (le_bytes n w) = take_bit (8 * n) (w :: 'a::len word)"
proof (induction n arbitrary: w)
  case 0
  then show ?case by simp
next
  case (Suc n)
  show ?case
    by (simp add: Suc ucast_byte_take_bit take_bit_split_byte)
qed

lemma of_le_le_bytes_full [le_simps]:
  "LENGTH('a) \<le> 8 * n \<Longrightarrow> of_le (le_bytes n w) = (w :: 'a::len word)"
  by (simp add: of_le_le_bytes take_bit_word_eq_self)

lemma le16_inverse [simp]: "of_le (le16 w) = w"
  by (simp add: le_simps)

lemma le32_inverse [simp]: "of_le (le32 w) = w"
  by (simp add: le_simps)

lemma le64_inverse [simp]: "of_le (le64 w) = w"
  by (simp add: le_simps)

lemma drop_bit_of_le_Cons:
  assumes "8 * Suc (length bs) \<le> LENGTH('a)"
  shows "drop_bit 8 (of_le (b # bs) :: 'a::len word) = of_le bs"
    and "(ucast (of_le (b # bs) :: 'a::len word) :: byte) = b"
proof -
  have small: "take_bit (8 * length bs) (of_le bs :: 'a word) = of_le bs"
  proof (induction bs)
    case Nil
    then show ?case by simp
  next
    case (Cons c cs)
    have nb: "bit (of_le cs :: 'a word) n \<Longrightarrow> n < 8 * length cs" for n
      by (metis Cons bit_take_bit_iff)
    show ?case
    proof (rule bit_word_eqI)
      fix n
      assume "n < LENGTH('a)"
      then show "bit (take_bit (8 * length (c # cs)) (of_le (c # cs) :: 'a word)) n
        = bit (of_le (c # cs) :: 'a word) n"
        by (cases "n < 8") (auto simp: bit_simps dest: nb bit_imp_le_length)
    qed
  qed
  have nb: "bit (of_le bs :: 'a word) n \<Longrightarrow> n < 8 * length bs" for n
    by (metis small bit_take_bit_iff)
  show "drop_bit 8 (of_le (b # bs) :: 'a word) = of_le bs"
  proof (rule bit_word_eqI)
    fix n
    assume n: "n < LENGTH('a)"
    show "bit (drop_bit 8 (of_le (b # bs) :: 'a word)) n = bit (of_le bs :: 'a word) n"
      using assms nb [of n] bit_imp_le_length [of b "8 + n"] by (auto simp: bit_simps)
  qed
  show "(ucast (of_le (b # bs) :: 'a word) :: byte) = b"
    using assms by (intro bit_word_eqI) (auto simp: bit_simps)
qed

lemma le_bytes_of_le [le_simps]:
  assumes "8 * length bs \<le> LENGTH('a)"
  shows "le_bytes (length bs) (of_le bs :: 'a::len word) = bs"
  using assms
proof (induction bs)
  case Nil
  then show ?case by simp
next
  case (Cons b bs)
  then show ?case
    using drop_bit_of_le_Cons [where bs = bs and b = b and 'a = 'a] by simp
qed

lemma length_subslice [simp]: "a + n \<le> length xs \<Longrightarrow> length (subslice xs a n) = n"
  by (simp add: subslice_def)

lemma subslice_append1: "a + n \<le> length xs \<Longrightarrow> subslice (xs @ ys) a n = subslice xs a n"
  by (simp add: subslice_def)

lemma subslice_append2: "length xs \<le> a \<Longrightarrow> subslice (xs @ ys) a n = subslice ys (a - length xs) n"
  by (simp add: subslice_def)

lemma unat_lt_pow [simp]: "unat (w :: 'a::len word) < 2 ^ LENGTH('a)"
  using unsigned_less [where 'a = nat and w = w] by simp

lemma bit_times_two: "bit (w * 2) n \<longleftrightarrow> n \<noteq> 0 \<and> n < LENGTH('a) \<and> bit w (n - 1)" for w :: "'a::len word"
proof -
  have "w * 2 = push_bit 1 w" by (simp add: push_bit_eq_mult)
  then show ?thesis by (simp only: bit_push_bit_iff) (auto simp: bit_simps)
qed

lemma unat_of_nat_lt: "n < 2 ^ LENGTH('a) \<Longrightarrow> unat (of_nat n :: 'a::len word) = n"
  by (simp add: unat_of_nat)

lemma eq_of_nat_if_unat: "unat w = n \<Longrightarrow> w = of_nat n" for w :: "'a::len word"
  by auto

lemma unat_pow2: "k < LENGTH('a) \<Longrightarrow> unat (2 ^ k :: 'a::len word) = 2 ^ k"
  using unat_of_nat_lt [of "2 ^ k", where 'a = 'a] by simp

lemma unat_add_no_overflow [unat_simps]:
  "unat a + unat b < 2 ^ LENGTH('a) \<Longrightarrow> unat (a + b :: 'a::len word) = unat a + unat b"
  by (simp add: unat_word_ariths)

lemma unat_mult_no_overflow [unat_simps]:
  "unat a * unat b < 2 ^ LENGTH('a) \<Longrightarrow> unat (a * b :: 'a::len word) = unat a * unat b"
  by (simp add: unat_word_ariths)

lemma unat_sub_no_overflow [unat_simps]:
  "b \<le> a \<Longrightarrow> unat (a - b :: 'a::len word) = unat a - unat b"
  by (simp add: unat_sub)

lemma unat_add_scaled:
  assumes "unat a + i * numeral k < 2 ^ LENGTH('a)" and "numeral k < (2 :: nat) ^ LENGTH('a)"
  shows "unat (a + of_nat i * numeral k :: 'a::len word) = unat a + i * numeral k"
proof -
  have "i \<le> i * numeral k" by (cases "i = 0") auto
  with assms have "i < 2 ^ LENGTH('a)" by linarith
  moreover have "unat (numeral k :: 'a word) = numeral k"
    using assms(2) by (simp only: unat_numeral mod_less)
  ultimately show ?thesis using assms(1) by (simp only: unat_word_ariths unat_of_nat mod_less)
qed

lemma unat_ucast_up [unat_simps]:
  "LENGTH('a) \<le> LENGTH('b) \<Longrightarrow> unat (ucast (w :: 'a::len word) :: 'b::len word) = unat w"
  by (simp add: unsigned_ucast_eq take_bit_nat_eq_self_iff
      order_less_le_trans [OF unat_lt_pow power_increasing])

lemma checked_add_Some_iff:
  "checked_add a b = Some c \<longleftrightarrow> unat a + unat b < 2 ^ LENGTH('a) \<and> c = (a + b :: 'a::len word)"
  by (auto simp: checked_add_def)

lemma checked_mul_Some_iff:
  "checked_mul a b = Some c \<longleftrightarrow> unat a * unat b < 2 ^ LENGTH('a) \<and> c = (a * b :: 'a::len word)"
  by (auto simp: checked_mul_def)

lemma unat_minus_one_max [simp]: "unat (-1 :: 'a::len word) = 2 ^ LENGTH('a) - 1"
  by (simp add: unsigned_minus_1_eq_mask mask_eq_exp_minus_1)

lemma unat_saturating_add:
  "unat (saturating_add a b :: 'a::len word) = min (unat a + unat b) (2 ^ LENGTH('a) - 1)"
  by (auto simp: saturating_add_def unat_simps)

lemma unat_saturating_sub:
  "unat (saturating_sub a b :: 'a::len word) = unat a - unat b"
  by (auto simp: saturating_sub_def unat_simps word_le_nat_alt)

lemma unat_div_ceil: "b \<noteq> 0 \<Longrightarrow> unat (div_ceil a b) = (unat a + unat b - 1) div unat b"
proof -
  assume "b \<noteq> 0"
  then have b: "0 < unat b" by (simp add: unat_gt_0)
  have cl: "(x + y - 1) div y = x div y + (if x mod y = 0 then 0 else 1)" if "0 < y" for x y :: nat
  proof -
    have e: "x + y - 1 = (x mod y + y - 1) + x div y * y" using that div_mult_mod_eq [of x y] by linarith
    have "(x + y - 1) div y = x div y + (x mod y + y - 1) div y" unfolding e using that by (subst div_mult_self1) auto
    also have "(x mod y + y - 1) div y = (if x mod y = 0 then 0 else 1)"
    proof (cases "x mod y = 0")
      case False
      then have "x mod y + y - 1 = y + (x mod y - 1)" "x mod y - 1 < y"
        using that mod_less_divisor [OF that, of x] by linarith+
      then have "(x mod y + y - 1) div y = 1" using that by (simp only: div_add_self1) simp
      with False show ?thesis by simp
    qed (use that in simp)
    finally show ?thesis .
  qed
  show ?thesis
  proof (cases "a mod b = 0")
    case True
    then have "unat a mod unat b = 0" by (metis unat_mod unat_0)
    with True cl [OF b, of "unat a"] show ?thesis by (simp add: div_ceil_def unat_div)
  next
    case False
    then have ne: "unat a mod unat b \<noteq> 0" by (metis unat_mod unat_eq_zero)
    then have "unat b \<noteq> 1" by auto
    with b have "unat a div unat b < 2 ^ 63"
      using unat_lt_pow [of a] div_le_mono2 [of 2 "unat b" "unat a"] by simp
    then have "unat (a div b + 1) = unat a div unat b + 1" by (simp add: unat_word_ariths unat_div)
    with False ne cl [OF b, of "unat a"] show ?thesis by (simp add: div_ceil_def)
  qed
qed

lemma find_SomeD: "find P xs = Some x \<Longrightarrow> x \<in> set xs \<and> P x"
  by (induction xs) (auto split: if_splits)

lemma find_append: "find P (xs @ ys) = (case find P xs of None \<Rightarrow> find P ys | Some x \<Rightarrow> Some x)"
  by (induction xs) auto

lemma then_some_eq_Some [simp]: "then_some b x = Some y \<longleftrightarrow> b \<and> x = y"
  by (auto simp: then_some_def)

lemma then_some_eq_None [simp]: "then_some b x = None \<longleftrightarrow> \<not> b"
  by (auto simp: then_some_def)

text \<open>\<open>?\<close> on a result.\<close>

definition try_bind :: "'e + 'a \<Rightarrow> ('a \<Rightarrow> 'e + 'b) \<Rightarrow> 'e + 'b" where
  "try_bind r f = (case r of Inl e \<Rightarrow> Inl e | Inr x \<Rightarrow> f x)"

end
