(* ===== verification/Guest_Memory.thy ===== *)
theory Guest_Memory
  imports Hb_Prelude
begin

text \<open>
  Guest physical memory (\<open>src/mem.rs\<close>): one identity-addressed mapping of
  \<open>mem_size\<close> bytes. The mapping itself is the function \<open>mem_bytes\<close>; only
  addresses below \<open>mem_size\<close> are ever read or written by the checked accessors.
  A failed read is \<open>None\<close> (the destination is not touched), a failed write
  returns \<open>False\<close> and the memory unchanged.

  The locale \<open>checked_memory\<close> is the contract the rest of the program relies on
  (acceptance depends on the size only, read-after-write, frame); it is
  interpreted on the accessors of the model.
\<close>

record guest_memory =
  mem_size :: u64
  mem_bytes :: "nat \<Rightarrow> byte"

text \<open>\<open>GuestMemory::new\<close>: an anonymous mapping reads as zero.\<close>

definition mem_new :: "u64 \<Rightarrow> guest_memory" where
  "mem_new sz = \<lparr>mem_size = sz, mem_bytes = (\<lambda>_. 0)\<rparr>"

definition in_bounds :: "guest_memory \<Rightarrow> u64 \<Rightarrow> u64 \<Rightarrow> bool" where
  "in_bounds m addr len =
     (case checked_add addr len of None \<Rightarrow> False | Some e \<Rightarrow> e \<le> mem_size m)"

definition mem_read :: "guest_memory \<Rightarrow> nat \<Rightarrow> nat \<Rightarrow> bytes" where
  "mem_read m a n = map (mem_bytes m) [a..<a + n]"

definition mem_write :: "guest_memory \<Rightarrow> nat \<Rightarrow> bytes \<Rightarrow> guest_memory" where
  "mem_write m a src = m\<lparr>mem_bytes :=
     (\<lambda>i. if a \<le> i \<and> i < a + length src then src ! (i - a) else mem_bytes m i)\<rparr>"

text \<open>
  \<open>read_checked m addr n\<close> fills a destination of \<open>n\<close> bytes. A Rust slice is at most
  \<open>isize::MAX\<close> bytes long, so \<open>dst.len() as u64\<close> is exact; the model rejects
  an \<open>n\<close> that is no \<open>u64\<close> explicitly.
\<close>

definition read_checked :: "guest_memory \<Rightarrow> u64 \<Rightarrow> nat \<Rightarrow> bytes option" where
  "read_checked m addr n =
     (if n < 2 ^ 64 \<and> in_bounds m addr (of_nat n) then Some (mem_read m (unat addr) n) else None)"

definition write_checked :: "guest_memory \<Rightarrow> u64 \<Rightarrow> bytes \<Rightarrow> bool \<times> guest_memory" where
  "write_checked m addr src =
     (if length src < 2 ^ 64 \<and> in_bounds m addr (of_nat (length src))
      then (True, mem_write m (unat addr) src) else (False, m))"

definition read_u16_checked :: "guest_memory \<Rightarrow> u64 \<Rightarrow> u16 option" where
  "read_u16_checked m addr = map_option of_le (read_checked m addr 2)"

definition read_u32_checked :: "guest_memory \<Rightarrow> u64 \<Rightarrow> u32 option" where
  "read_u32_checked m addr = map_option of_le (read_checked m addr 4)"

definition read_u64_checked :: "guest_memory \<Rightarrow> u64 \<Rightarrow> u64 option" where
  "read_u64_checked m addr = map_option of_le (read_checked m addr 8)"

definition write_u16_checked :: "guest_memory \<Rightarrow> u64 \<Rightarrow> u16 \<Rightarrow> bool \<times> guest_memory" where
  "write_u16_checked m addr v = write_checked m addr (le16 v)"

definition write_u32_checked :: "guest_memory \<Rightarrow> u64 \<Rightarrow> u32 \<Rightarrow> bool \<times> guest_memory" where
  "write_u32_checked m addr v = write_checked m addr (le32 v)"

text \<open>The byte addresses of a buffer, as a set: \<open>span addr n\<close> is \<open>[addr, addr + n)\<close>.\<close>

definition span :: "u64 \<Rightarrow> nat \<Rightarrow> nat set" where
  "span addr n = {unat addr ..< unat addr + n}"

text \<open>\<open>same_outside S m m'\<close>: the two memories have one size and agree outside \<open>S\<close>.\<close>

definition same_outside :: "nat set \<Rightarrow> guest_memory \<Rightarrow> guest_memory \<Rightarrow> bool" where
  "same_outside S m m' \<longleftrightarrow>
     mem_size m' = mem_size m \<and> (\<forall>i. i \<notin> S \<longrightarrow> mem_bytes m' i = mem_bytes m i)"

subsection \<open>Bounds\<close>

lemma in_bounds_iff:
  "in_bounds m addr len \<longleftrightarrow> unat addr + unat len \<le> unat (mem_size m)"
proof -
  have "unat addr + unat len \<le> unat (mem_size m) \<Longrightarrow> unat addr + unat len < 2 ^ 64"
    using unat_lt_pow [of "mem_size m"] by simp
  then show ?thesis
    by (auto simp: in_bounds_def checked_add_def word_le_nat_alt unat_simps)
qed

lemma in_bounds_of_nat:
  "n < 2 ^ 64 \<Longrightarrow> in_bounds m addr (of_nat n) \<longleftrightarrow> unat addr + n \<le> unat (mem_size m)"
  by (simp add: in_bounds_iff unat_of_nat)

lemma fits_64: "unat (a :: u64) + n \<le> unat (s :: u64) \<Longrightarrow> n < 2 ^ 64"
  using unat_lt_pow [of s] by simp

lemma read_checked_eq:
  "read_checked m addr n =
     (if unat addr + n \<le> unat (mem_size m) then Some (mem_read m (unat addr) n) else None)"
  using fits_64 [of addr n "mem_size m"] by (auto simp: read_checked_def in_bounds_of_nat)

lemma write_checked_eq:
  "write_checked m addr src =
     (if unat addr + length src \<le> unat (mem_size m) then (True, mem_write m (unat addr) src)
      else (False, m))"
  using fits_64 [of addr "length src" "mem_size m"] by (auto simp: write_checked_def in_bounds_of_nat)

subsection \<open>Reads and writes\<close>

lemma length_mem_read [simp]: "length (mem_read m a n) = n"
  by (simp add: mem_read_def)

lemma mem_size_write [simp]: "mem_size (mem_write m a src) = mem_size m"
  by (simp add: mem_write_def)

lemma mem_bytes_write:
  "mem_bytes (mem_write m a src) i =
     (if a \<le> i \<and> i < a + length src then src ! (i - a) else mem_bytes m i)"
  by (simp add: mem_write_def)

lemma mem_write_Nil [simp]: "mem_write m a [] = m"
  by (cases m) (auto simp: mem_write_def fun_eq_iff)

lemma mem_read_write_same: "mem_read (mem_write m a src) a (length src) = src"
  by (rule nth_equalityI) (auto simp: mem_read_def mem_bytes_write)

lemma mem_read_cong:
  "(\<And>i. a \<le> i \<Longrightarrow> i < a + n \<Longrightarrow> mem_bytes m' i = mem_bytes m i) \<Longrightarrow> mem_read m' a n = mem_read m a n"
  by (simp add: mem_read_def)

lemma mem_read_write_disjoint:
  "b + n \<le> a \<or> a + length src \<le> b \<Longrightarrow> mem_read (mem_write m a src) b n = mem_read m b n"
  by (rule mem_read_cong) (auto simp: mem_bytes_write)

lemma mem_size_write_checked [simp]: "mem_size (snd (write_checked m addr src)) = mem_size m"
  by (simp add: write_checked_def)

lemma fst_write_checked:
  "fst (write_checked m addr src) \<longleftrightarrow> unat addr + length src \<le> unat (mem_size m)"
  by (simp add: write_checked_eq)

subsection \<open>The frame relation\<close>

lemma same_outside_refl [simp]: "same_outside S m m"
  by (simp add: same_outside_def)

lemma same_outside_trans [trans]:
  "same_outside S m m' \<Longrightarrow> same_outside T m' m'' \<Longrightarrow> same_outside (S \<union> T) m m''"
  by (auto simp: same_outside_def)

lemma same_outside_step:
  "same_outside S m m' \<Longrightarrow> same_outside S m' m'' \<Longrightarrow> same_outside S m m''"
  by (auto simp: same_outside_def)

lemma same_outside_mono: "same_outside S m m' \<Longrightarrow> S \<subseteq> T \<Longrightarrow> same_outside T m m'"
  by (auto simp: same_outside_def)

lemma same_outside_size: "same_outside S m m' \<Longrightarrow> mem_size m' = mem_size m"
  by (simp add: same_outside_def)

lemma same_outside_write_checked: "same_outside (span addr (length src)) m (snd (write_checked m addr src))"
  by (auto simp: same_outside_def write_checked_eq mem_bytes_write span_def)

lemma read_checked_same_outside:
  assumes "same_outside S m m'" and "span addr n \<inter> S = {}"
  shows "read_checked m' addr n = read_checked m addr n"
  using assms by (fastforce simp: read_checked_eq same_outside_def span_def intro!: mem_read_cong)

subsection \<open>The contract of checked memory\<close>

text \<open>
  What a client may rely on, whatever the memory is made of: whether an access is
  accepted depends on the size only, an accepted write is read back, a disjoint
  read does not see it, a rejected write changes nothing.
\<close>

locale checked_memory =
  fixes rd :: "'m \<Rightarrow> u64 \<Rightarrow> nat \<Rightarrow> bytes option"
    and wr :: "'m \<Rightarrow> u64 \<Rightarrow> bytes \<Rightarrow> bool \<times> 'm"
    and fits :: "'m \<Rightarrow> u64 \<Rightarrow> nat \<Rightarrow> bool"
  assumes rd_fits: "rd m a n = None \<longleftrightarrow> \<not> fits m a n"
    and wr_fits: "fst (wr m a bs) \<longleftrightarrow> fits m a (length bs)"
    and fits_wr: "fits (snd (wr m a bs)) b n \<longleftrightarrow> fits m b n"
    and rd_wr_same: "fits m a (length bs) \<Longrightarrow> rd (snd (wr m a bs)) a (length bs) = Some bs"
    and rd_wr_disjoint: "span a (length bs) \<inter> span b n = {} \<Longrightarrow> rd (snd (wr m a bs)) b n = rd m b n"
    and wr_rejected: "\<not> fits m a (length bs) \<Longrightarrow> snd (wr m a bs) = m"
begin

definition wr_word :: "nat \<Rightarrow> 'm \<Rightarrow> u64 \<Rightarrow> 'a::len word \<Rightarrow> bool \<times> 'm" where
  "wr_word n m a w = wr m a (le_bytes n w)"

definition rd_word :: "nat \<Rightarrow> 'm \<Rightarrow> u64 \<Rightarrow> 'a::len word option" where
  "rd_word n m a = map_option of_le (rd m a n)"

lemma rd_word_wr_word:
  "fits m a n \<Longrightarrow> LENGTH('a) \<le> 8 * n \<Longrightarrow> rd_word n (snd (wr_word n m a w)) a = Some (w :: 'a::len word)"
  using rd_wr_same [of m a "le_bytes n w"] by (simp add: rd_word_def wr_word_def le_simps)

lemma rd_word_wr_disjoint:
  "span a (length bs) \<inter> span b n = {} \<Longrightarrow> rd_word n (snd (wr m a bs)) b = rd_word n m b"
  by (simp add: rd_word_def rd_wr_disjoint)

lemma rd_after_writes:
  "\<forall>(a, bs) \<in> set ws. span a (length bs) \<inter> span b n = {} \<Longrightarrow>
   rd (fold (\<lambda>(a, bs) m. snd (wr m a bs)) ws m) b n = rd m b n"
  by (induction ws arbitrary: m) (auto simp: rd_wr_disjoint)

end

definition mem_fits :: "guest_memory \<Rightarrow> u64 \<Rightarrow> nat \<Rightarrow> bool" where
  "mem_fits m a n \<longleftrightarrow> unat a + n \<le> unat (mem_size m)"

interpretation gm: checked_memory read_checked write_checked mem_fits
proof
  fix m :: guest_memory and a b :: u64 and bs :: bytes and n :: nat
  show "read_checked m a n = None \<longleftrightarrow> \<not> mem_fits m a n"
    by (simp add: read_checked_eq mem_fits_def)
  show "fst (write_checked m a bs) \<longleftrightarrow> mem_fits m a (length bs)"
    by (simp add: write_checked_eq mem_fits_def)
  show "mem_fits (snd (write_checked m a bs)) b n \<longleftrightarrow> mem_fits m b n"
    by (simp add: mem_fits_def)
  show "mem_fits m a (length bs) \<Longrightarrow> read_checked (snd (write_checked m a bs)) a (length bs) = Some bs"
    by (simp add: write_checked_eq read_checked_eq mem_fits_def mem_read_write_same)
  show "span a (length bs) \<inter> span b n = {} \<Longrightarrow>
      read_checked (snd (write_checked m a bs)) b n = read_checked m b n"
    by (rule read_checked_same_outside [OF same_outside_write_checked]) auto
  show "\<not> mem_fits m a (length bs) \<Longrightarrow> snd (write_checked m a bs) = m"
    by (simp add: write_checked_eq mem_fits_def)
qed

lemma read_u16_write_u16:
  "mem_fits m a 2 \<Longrightarrow> read_u16_checked (snd (write_u16_checked m a v)) a = Some v"
  using gm.rd_word_wr_word [of m a 2 v]
  by (simp add: gm.rd_word_def gm.wr_word_def read_u16_checked_def write_u16_checked_def)

lemma read_u32_write_u32:
  "mem_fits m a 4 \<Longrightarrow> read_u32_checked (snd (write_u32_checked m a v)) a = Some v"
  using gm.rd_word_wr_word [of m a 4 v]
  by (simp add: gm.rd_word_def gm.wr_word_def read_u32_checked_def write_u32_checked_def)

lemma same_outside_write_u16: "same_outside (span a 2) m (snd (write_u16_checked m a v))"
  using same_outside_write_checked [of a "le16 v" m] by (simp add: write_u16_checked_def)

lemma same_outside_write_u32: "same_outside (span a 4) m (snd (write_u32_checked m a v))"
  using same_outside_write_checked [of a "le32 v" m] by (simp add: write_u32_checked_def)

lemma read_u16_same_outside:
  "same_outside S m m' \<Longrightarrow> span a 2 \<inter> S = {} \<Longrightarrow> read_u16_checked m' a = read_u16_checked m a"
  by (simp add: read_u16_checked_def read_checked_same_outside)

lemma read_u32_same_outside:
  "same_outside S m m' \<Longrightarrow> span a 4 \<inter> S = {} \<Longrightarrow> read_u32_checked m' a = read_u32_checked m a"
  by (simp add: read_u32_checked_def read_checked_same_outside)

lemmas same_outside_writes = same_outside_write_checked same_outside_write_u16 same_outside_write_u32

subsection \<open>Properties\<close>

text \<open>A checked write is accepted exactly when all its bytes lie inside guest memory, computed
  without wrap-around; an accepted write is read back in full and changes no byte outside its
  own range, and a refused one changes nothing.\<close>

lemma write_checked_exact:
  "case write_checked m addr src of (ok, m') \<Rightarrow>
     ok = (unat addr + length src \<le> unat (mem_size m)) \<and>
     (if ok then read_checked m' addr (length src) = Some src \<and> same_outside (span addr (length src)) m m'
      else m' = m)"
  using same_outside_write_checked [of addr src m]
  by (auto simp: write_checked_eq read_checked_eq mem_read_write_same)

text \<open>A checked read returns the addressed bytes exactly when they all lie inside guest memory and
  refuses otherwise, also where \<open>addr + len\<close> wraps around in 64 bits.\<close>

lemma read_checked_exact:
  "read_checked m addr n =
     (if unat addr + n \<le> unat (mem_size m) then Some (map (mem_bytes m) [unat addr..<unat addr + n]) else None)"
  by (simp add: read_checked_eq mem_read_def)

end
