(* ===== verification/Virtqueue.thy ===== *)
theory Virtqueue
  imports Guest_Memory
begin

text \<open>
  The split virtqueue of \<open>src/virtio.rs\<close>: the queue's location (\<open>set_pfn\<close> for the
  legacy transport, the three addresses of the modern one), the guest-controlled
  descriptor-chain walk (\<open>try_pop\<close>), and the used ring (\<open>push_used\<close>). Address
  arithmetic is \<open>u64\<close> arithmetic and wraps, as the release build does.

  \<open>desc_path\<close> is the abstract specification of a descriptor chain, a rule-defined
  relation on the descriptor table; the refinement lemmas at the end relate the
  bounded walk of the code to it.
\<close>

definition QUEUE_ALIGN :: u64 where "QUEUE_ALIGN = 4096"
definition DESC_SIZE :: u64 where "DESC_SIZE = 16"
definition VIRTQ_DESC_F_NEXT :: u16 where "VIRTQ_DESC_F_NEXT = 1"
definition VIRTQ_DESC_F_WRITE :: u16 where "VIRTQ_DESC_F_WRITE = 2"

record desc_buffer =
  buf_addr :: u64
  buf_len :: u32
  device_writable :: bool

record desc_chain =
  head_index :: u16
  buffers :: "desc_buffer list"

definition chain_default :: desc_chain where
  "chain_default = \<lparr>head_index = 0, buffers = []\<rparr>"

record virtqueue =
  q_size :: u16
  q_pfn :: u32
  q_desc :: u64
  q_avail :: u64
  q_used :: u64
  q_enabled :: bool
  last_avail_idx :: u16

definition vq_new :: "u16 \<Rightarrow> virtqueue" where
  "vq_new sz = \<lparr>q_size = sz, q_pfn = 0, q_desc = 0, q_avail = 0, q_used = 0, q_enabled = False,
     last_avail_idx = 0\<rparr>"

definition is_live :: "virtqueue \<Rightarrow> bool" where
  "is_live q \<longleftrightarrow> q_enabled q \<and> q_size q \<noteq> 0"

definition set_pfn :: "u32 \<Rightarrow> virtqueue \<Rightarrow> virtqueue" where
  "set_pfn p q =
     (let q = q\<lparr>q_pfn := p\<rparr> in
      if p = 0 then q\<lparr>q_enabled := False\<rparr>
      else
        let desc = push_bit 12 (ucast p);
            avail = desc + DESC_SIZE * ucast (q_size q);
            avail_size = 4 + 2 * ucast (q_size q) + 2
        in q\<lparr>q_desc := desc, q_avail := avail,
             q_used := div_ceil (avail + avail_size) QUEUE_ALIGN * QUEUE_ALIGN,
             q_enabled := True\<rparr>)"

text \<open>
  One 16-byte descriptor: address, length, flags and the next index.
\<close>

definition decode_desc :: "bytes \<Rightarrow> u64 \<times> u32 \<times> u16 \<times> u16" where
  "decode_desc d = (of_le (subslice d 0 8), of_le (subslice d 8 4), of_le (subslice d 12 2),
     of_le (subslice d 14 2))"

text \<open>
  The loop \<open>for _ in 0..self.size\<close> of \<open>try_pop\<close>; the first argument counts the
  iterations left. The result is the value \<open>try_pop\<close> returns and the buffers
  pushed so far (the scratch chain keeps them on failure too).
\<close>

fun walk_chain :: "nat \<Rightarrow> virtqueue \<Rightarrow> guest_memory \<Rightarrow> u16 \<Rightarrow> u64 \<Rightarrow> desc_buffer list \<Rightarrow>
    bool \<times> desc_buffer list" where
  "walk_chain 0 q m idx tot bufs = (True, bufs)"
| "walk_chain (Suc n) q m idx tot bufs =
     (if q_size q \<le> idx then (False, bufs)
      else
        case read_checked m (q_desc q + ucast idx * DESC_SIZE) 16 of
          None \<Rightarrow> (False, bufs)
        | Some d \<Rightarrow>
            (case decode_desc d of (addr, len, flags, nxt) \<Rightarrow>
              if \<not> in_bounds m addr (ucast len) then (False, bufs)
              else
                let tot' = tot + ucast len in
                if mem_size m < tot' then (False, bufs)
                else
                  let bufs' = bufs @ [\<lparr>buf_addr = addr, buf_len = len,
                        device_writable = (flags AND VIRTQ_DESC_F_WRITE \<noteq> 0)\<rparr>] in
                  if flags AND VIRTQ_DESC_F_NEXT = 0 then (True, bufs')
                  else walk_chain n q m nxt tot' bufs'))"

definition try_pop :: "virtqueue \<Rightarrow> guest_memory \<Rightarrow> desc_chain \<Rightarrow> bool \<times> virtqueue \<times> desc_chain" where
  "try_pop q m chain =
     (if \<not> is_live q then (False, q, chain)
      else
        case read_u16_checked m (q_avail q + 2) of
          None \<Rightarrow> (False, q, chain)
        | Some avail_idx \<Rightarrow>
            if last_avail_idx q = avail_idx then (False, q, chain)
            else
              case read_u16_checked m
                     (q_avail q + 4 + ucast (last_avail_idx q mod q_size q) * 2) of
                None \<Rightarrow> (False, q, chain)
              | Some head \<Rightarrow>
                  let q' = q\<lparr>last_avail_idx := last_avail_idx q + 1\<rparr>;
                      (ok, bufs) = walk_chain (unat (q_size q)) q m head 0 []
                  in (ok, q', \<lparr>head_index = head, buffers = bufs\<rparr>))"

definition push_used_head :: "virtqueue \<Rightarrow> guest_memory \<Rightarrow> u16 \<Rightarrow> u32 \<Rightarrow> guest_memory" where
  "push_used_head q m head written =
     (if \<not> is_live q then m
      else
        let us = q_used q;
            idx = (case read_u16_checked m (us + 2) of None \<Rightarrow> 0 | Some i \<Rightarrow> i);
            slot = us + 4 + ucast (idx mod q_size q) * 8;
            m1 = snd (write_u32_checked m slot (ucast head));
            m2 = snd (write_u32_checked m1 (slot + 4) written)
        in snd (write_u16_checked m2 (us + 2) (idx + 1)))"

definition push_used :: "virtqueue \<Rightarrow> guest_memory \<Rightarrow> desc_chain \<Rightarrow> u32 \<Rightarrow> guest_memory" where
  "push_used q m chain written = push_used_head q m (head_index chain) written"

text \<open>
  \<open>copy_config config offset n\<close>: the window of a device's config space at \<open>offset\<close>,
  zero-filled to the \<open>n\<close> bytes of the destination.
\<close>

definition copy_config :: "bytes \<Rightarrow> u64 \<Rightarrow> nat \<Rightarrow> bytes" where
  "copy_config config off n =
     (if length config < unat off then replicate n 0
      else
        let window = drop (unat off) config; k = min (length window) n
        in take k window @ replicate (n - k) 0)"

subsection \<open>Specification of a descriptor chain\<close>

definition desc_at :: "virtqueue \<Rightarrow> guest_memory \<Rightarrow> u16 \<Rightarrow> (desc_buffer \<times> u16 \<times> u16) option" where
  "desc_at q m idx =
     (if q_size q \<le> idx then None
      else
        case read_checked m (q_desc q + ucast idx * DESC_SIZE) 16 of
          None \<Rightarrow> None
        | Some d \<Rightarrow>
            (case decode_desc d of (addr, len, flags, nxt) \<Rightarrow>
              if in_bounds m addr (ucast len)
              then Some (\<lparr>buf_addr = addr, buf_len = len,
                     device_writable = (flags AND VIRTQ_DESC_F_WRITE \<noteq> 0)\<rparr>, flags, nxt)
              else None))"

text \<open>\<open>desc_seg q m idx bs nxt\<close>: the descriptors from \<open>idx\<close> on are \<open>bs\<close>, each chained to the next,
  the last one chained to \<open>nxt\<close>; \<open>desc_path\<close>: the same, the last one ending the chain.\<close>

inductive desc_seg :: "virtqueue \<Rightarrow> guest_memory \<Rightarrow> u16 \<Rightarrow> desc_buffer list \<Rightarrow> u16 \<Rightarrow> bool"
  for q m where
  seg_nil: "desc_seg q m idx [] idx"
| seg_cons: "\<lbrakk>desc_at q m idx = Some (b, flags, nxt); flags AND VIRTQ_DESC_F_NEXT \<noteq> 0;
    desc_seg q m nxt bs final\<rbrakk> \<Longrightarrow> desc_seg q m idx (b # bs) final"

inductive desc_path :: "virtqueue \<Rightarrow> guest_memory \<Rightarrow> u16 \<Rightarrow> desc_buffer list \<Rightarrow> bool"
  for q m where
  path_end: "\<lbrakk>desc_at q m idx = Some (b, flags, nxt); flags AND VIRTQ_DESC_F_NEXT = 0\<rbrakk> \<Longrightarrow>
    desc_path q m idx [b]"
| path_next: "\<lbrakk>desc_at q m idx = Some (b, flags, nxt); flags AND VIRTQ_DESC_F_NEXT \<noteq> 0;
    desc_path q m nxt bs\<rbrakk> \<Longrightarrow> desc_path q m idx (b # bs)"

inductive_cases desc_path_ConsE: "desc_path q m idx (b # bs)"
inductive_cases desc_path_NilE: "desc_path q m idx []"

definition total_len :: "desc_buffer list \<Rightarrow> nat" where
  "total_len bs = sum_list (map (\<lambda>b. unat (buf_len b)) bs)"

definition buf_span :: "desc_buffer \<Rightarrow> nat set" where
  "buf_span b = span (buf_addr b) (unat (buf_len b))"

definition buf_ok :: "guest_memory \<Rightarrow> desc_buffer \<Rightarrow> bool" where
  "buf_ok m b \<longleftrightarrow> mem_fits m (buf_addr b) (unat (buf_len b))"

lemma total_len_simps [simp]:
  "total_len [] = 0"
  "total_len (b # bs) = unat (buf_len b) + total_len bs"
  "total_len (bs @ cs) = total_len bs + total_len cs"
  by (simp_all add: total_len_def)

subsection \<open>The walk\<close>

lemma walk_chain_Suc:
  "walk_chain (Suc n) q m idx tot bufs =
     (case desc_at q m idx of
        None \<Rightarrow> (False, bufs)
      | Some (b, flags, nxt) \<Rightarrow>
          let tot' = tot + ucast (buf_len b) in
          if mem_size m < tot' then (False, bufs)
          else if flags AND VIRTQ_DESC_F_NEXT = 0 then (True, bufs @ [b])
          else walk_chain n q m nxt tot' (bufs @ [b]))"
  by (auto simp: desc_at_def Let_def split: option.splits prod.splits)

declare walk_chain.simps(2) [simp del]

lemma desc_at_ok: "desc_at q m idx = Some (b, flags, nxt) \<Longrightarrow> buf_ok m b"
  by (auto simp: desc_at_def buf_ok_def mem_fits_def in_bounds_iff unat_simps
      split: if_splits option.splits prod.splits)

text \<open>
  The running total never wraps: a chain has at most \<open>2 ^ 16\<close> buffers of less than
  \<open>2 ^ 32\<close> bytes each.
\<close>

lemma walk_chain_sound:
  assumes "walk_chain n q m idx tot bufs = (True, res)"
    and "unat tot + 2 ^ 32 * n < 2 ^ 64"
    and "unat tot = total_len bufs" and "total_len bufs \<le> unat (mem_size m)"
  shows "\<exists>new. res = bufs @ new \<and> list_all (buf_ok m) new \<and> total_len res \<le> unat (mem_size m) \<and>
    (desc_path q m idx new \<and> length new \<le> n \<or> (\<exists>nxt. desc_seg q m idx new nxt) \<and> length new = n)"
  using assms
proof (induction n arbitrary: idx tot bufs)
  case 0
  then show ?case by (auto intro: seg_nil)
next
  case (Suc n)
  from Suc.prems(1) obtain b flags nxt where d: "desc_at q m idx = Some (b, flags, nxt)"
    by (auto simp: walk_chain_Suc split: option.splits)
  let ?t = "tot + ucast (buf_len b) :: u64"
  have len: "unat (buf_len b) < 2 ^ 32" using unat_lt_pow [of "buf_len b"] by simp
  then have ut: "unat ?t = unat tot + unat (buf_len b)"
    using Suc.prems(2) by (intro trans [OF unat_add_no_overflow]) (simp_all add: unat_ucast_up)
  have fits: "\<not> mem_size m < ?t" and
    step: "if flags AND VIRTQ_DESC_F_NEXT = 0 then res = bufs @ [b]
           else walk_chain n q m nxt ?t (bufs @ [b]) = (True, res)"
    using Suc.prems(1) d by (auto simp: walk_chain_Suc Let_def split: if_splits)
  have tot: "total_len (bufs @ [b]) \<le> unat (mem_size m)"
    using fits ut Suc.prems(3) by (simp add: word_less_nat_alt)
  show ?case
  proof (cases "flags AND VIRTQ_DESC_F_NEXT = 0")
    case True
    with step d tot show ?thesis by (auto intro: path_end desc_at_ok)
  next
    case False
    with step have w: "walk_chain n q m nxt ?t (bufs @ [b]) = (True, res)" by simp
    have pre: "unat ?t + 2 ^ 32 * n < 2 ^ 64" "unat ?t = total_len (bufs @ [b])"
      using ut len Suc.prems(2,3) by auto
    from Suc.IH [OF w pre tot] obtain new where new: "res = (bufs @ [b]) @ new" "list_all (buf_ok m) new"
        "total_len res \<le> unat (mem_size m)"
        "desc_path q m nxt new \<and> length new \<le> n \<or> (\<exists>f. desc_seg q m nxt new f) \<and> length new = n"
      by blast
    with False d have "desc_path q m idx (b # new) \<and> length (b # new) \<le> Suc n \<or>
        (\<exists>f. desc_seg q m idx (b # new) f) \<and> length (b # new) = Suc n"
      by (auto intro: path_next seg_cons)
    with new d show ?thesis by (intro exI [of _ "b # new"]) (auto dest: desc_at_ok)
  qed
qed

lemma walk_chain_complete:
  assumes "desc_path q m idx bs"
    and "length bs \<le> n" and "unat tot + total_len bs \<le> unat (mem_size m)"
  shows "walk_chain n q m idx tot bufs = (True, bufs @ bs)"
  using assms
proof (induction bs arbitrary: n tot bufs rule: desc_path.induct)
  case (path_end idx b flags nxt)
  then obtain k where n: "n = Suc k" by (cases n) auto
  have "unat (tot + ucast (buf_len b) :: u64) = unat tot + unat (buf_len b)"
    using path_end.prems unat_lt_pow [of "mem_size m"]
    by (intro trans [OF unat_add_no_overflow]) (simp_all add: unat_ucast_up)
  with path_end show ?case by (simp add: n walk_chain_Suc Let_def word_less_nat_alt)
next
  case (path_next idx b flags nxt bs)
  then obtain k where n: "n = Suc k" by (cases n) auto
  let ?t = "tot + ucast (buf_len b) :: u64"
  have ut: "unat ?t = unat tot + unat (buf_len b)"
    using path_next.prems unat_lt_pow [of "mem_size m"]
    by (intro trans [OF unat_add_no_overflow]) (simp_all add: unat_ucast_up)
  have "walk_chain k q m nxt ?t (bufs @ [b]) = (True, (bufs @ [b]) @ bs)"
    using path_next.prems ut n by (intro path_next.IH) auto
  with path_next ut show ?case by (simp add: n walk_chain_Suc Let_def word_less_nat_alt)
qed

subsection \<open>Popping\<close>

lemma try_pop_Some:
  assumes "try_pop q m chain = (True, q', chain')"
  shows "is_live q" and "q' = q\<lparr>last_avail_idx := last_avail_idx q + 1\<rparr>"
    and "read_u16_checked m (q_avail q + 2) \<noteq> Some (last_avail_idx q)"
    and "read_u16_checked m (q_avail q + 4 + ucast (last_avail_idx q mod q_size q) * 2) =
      Some (head_index chain')"
    and "walk_chain (unat (q_size q)) q m (head_index chain') 0 [] = (True, buffers chain')"
  using assms by (auto simp: try_pop_def Let_def split: if_splits option.splits prod.splits)

lemma try_pop_buffers:
  assumes "try_pop q m chain = (True, q', chain')"
  shows "list_all (buf_ok m) (buffers chain')" and "total_len (buffers chain') \<le> unat (mem_size m)"
    and "length (buffers chain') \<le> unat (q_size q)" and "buffers chain' \<noteq> []"
    and "desc_path q m (head_index chain') (buffers chain') \<or>
      (\<exists>nxt. desc_seg q m (head_index chain') (buffers chain') nxt) \<and>
      length (buffers chain') = unat (q_size q)"
proof -
  have sz: "unat (q_size q) < 2 ^ 16" using unat_lt_pow [of "q_size q"] by simp
  have nz: "unat (q_size q) \<noteq> 0" using try_pop_Some(1) [OF assms] by (simp add: is_live_def unat_0_iff)
  from walk_chain_sound [OF try_pop_Some(5) [OF assms]] sz
  have *: "list_all (buf_ok m) (buffers chain')" "total_len (buffers chain') \<le> unat (mem_size m)"
    "desc_path q m (head_index chain') (buffers chain') \<and> length (buffers chain') \<le> unat (q_size q) \<or>
      (\<exists>nxt. desc_seg q m (head_index chain') (buffers chain') nxt) \<and>
      length (buffers chain') = unat (q_size q)"
    by auto
  then show "list_all (buf_ok m) (buffers chain')" "total_len (buffers chain') \<le> unat (mem_size m)"
    "length (buffers chain') \<le> unat (q_size q)"
    "desc_path q m (head_index chain') (buffers chain') \<or>
      (\<exists>nxt. desc_seg q m (head_index chain') (buffers chain') nxt) \<and>
      length (buffers chain') = unat (q_size q)"
    by auto
  show "buffers chain' \<noteq> []" using *(3) nz by (auto elim: desc_path_NilE)
qed

lemma try_pop_queue_frame:
  assumes "try_pop q m chain = (ok, q', chain')"
  shows "q' = q\<lparr>last_avail_idx := last_avail_idx q'\<rparr>"
    and "last_avail_idx q' = last_avail_idx q \<or> last_avail_idx q' = last_avail_idx q + 1"
  using assms by (auto simp: try_pop_def Let_def split: if_splits option.splits prod.splits)

lemma try_pop_idle:
  "read_u16_checked m (q_avail q + 2) = Some (last_avail_idx q) \<Longrightarrow> try_pop q m chain = (False, q, chain)"
  by (simp add: try_pop_def)

subsection \<open>The used ring\<close>

definition elem_addr :: "virtqueue \<Rightarrow> nat \<Rightarrow> u64" where
  "elem_addr q i = q_used q + 4 + of_nat i * 8"

definition idx_addr :: "virtqueue \<Rightarrow> u64" where
  "idx_addr q = q_used q + 2"

text \<open>The addresses \<open>push_used\<close> can write, wrap-around included.\<close>

definition used_foot :: "virtqueue \<Rightarrow> nat set" where
  "used_foot q = span (idx_addr q) 2 \<union>
     (\<Union>i < unat (q_size q). span (elem_addr q i) 4 \<union> span (elem_addr q i + 4) 4)"

text \<open>The abstract used ring: its free-running index and its entries.\<close>

definition used_ring_ok :: "virtqueue \<Rightarrow> guest_memory \<Rightarrow> bool" where
  "used_ring_ok q m \<longleftrightarrow> unat (q_used q) + 4 + 8 * unat (q_size q) \<le> unat (mem_size m)"

definition used_idx :: "virtqueue \<Rightarrow> guest_memory \<Rightarrow> u16" where
  "used_idx q m = (case read_u16_checked m (idx_addr q) of None \<Rightarrow> 0 | Some i \<Rightarrow> i)"

definition used_elem :: "virtqueue \<Rightarrow> guest_memory \<Rightarrow> nat \<Rightarrow> u32 option \<times> u32 option" where
  "used_elem q m i = (read_u32_checked m (elem_addr q i), read_u32_checked m (elem_addr q i + 4))"

lemma unat_mod_lt: "s \<noteq> 0 \<Longrightarrow> unat (i mod s) < unat (s :: u16)"
  by (simp add: unat_mod unat_gt_0)

lemma ucast_of_nat_unat: "(ucast (w :: u16) :: u64) = of_nat (unat w)"
  by simp

lemma push_used_head_live:
  assumes "is_live q"
  shows "push_used_head q m head written =
    (let a = elem_addr q (unat (used_idx q m mod q_size q));
         m1 = snd (write_u32_checked m a (ucast head));
         m2 = snd (write_u32_checked m1 (a + 4) written)
     in snd (write_u16_checked m2 (idx_addr q) (used_idx q m + 1)))"
  using assms by (simp add: push_used_head_def elem_addr_def idx_addr_def used_idx_def Let_def)

lemma push_used_head_foot: "same_outside (used_foot q) m (push_used_head q m head written)"
proof (cases "is_live q")
  case True
  define a where "a = elem_addr q (unat (used_idx q m mod q_size q))"
  define m1 where "m1 = snd (write_u32_checked m a (ucast head))"
  define m2 where "m2 = snd (write_u32_checked m1 (a + 4) written)"
  define m3 where "m3 = snd (write_u16_checked m2 (idx_addr q) (used_idx q m + 1))"
  have "unat (used_idx q m mod q_size q) < unat (q_size q)"
    using True by (simp add: is_live_def unat_mod_lt)
  then have s: "span a 4 \<subseteq> used_foot q" "span (a + 4) 4 \<subseteq> used_foot q" "span (idx_addr q) 2 \<subseteq> used_foot q"
    unfolding a_def used_foot_def by blast+
  have "same_outside (used_foot q) m m1" "same_outside (used_foot q) m1 m2" "same_outside (used_foot q) m2 m3"
    unfolding m1_def m2_def m3_def
    by (rule same_outside_mono [OF same_outside_write_u32 s(1)] same_outside_mono [OF same_outside_write_u32 s(2)]
        same_outside_mono [OF same_outside_write_u16 s(3)])+
  then have "same_outside (used_foot q) m m3" by (blast intro: same_outside_step)
  with True show ?thesis by (simp add: push_used_head_live Let_def a_def m1_def m2_def m3_def)
qed (simp add: push_used_head_def)

lemma push_used_foot: "same_outside (used_foot q) m (push_used q m chain written)"
  by (simp add: push_used_def push_used_head_foot)

definition used_no_wrap :: "virtqueue \<Rightarrow> bool" where
  "used_no_wrap q \<longleftrightarrow> unat (q_used q) + 4 + 8 * unat (q_size q) < 2 ^ 64"

lemma used_ring_ok_no_wrap: "used_ring_ok q m \<Longrightarrow> used_no_wrap q"
  using unat_lt_pow [of "mem_size m"] by (simp add: used_ring_ok_def used_no_wrap_def)

lemma used_addr_unat:
  assumes "used_no_wrap q"
  shows "unat (idx_addr q) = unat (q_used q) + 2"
    and "i < unat (q_size q) \<Longrightarrow> unat (elem_addr q i) = unat (q_used q) + 4 + 8 * i"
    and "i < unat (q_size q) \<Longrightarrow> unat (elem_addr q i + 4) = unat (q_used q) + 8 + 8 * i"
proof -
  have b: "unat (q_used q) + 4 + 8 * unat (q_size q) < 2 ^ 64"
    using assms by (simp add: used_no_wrap_def)
  show "unat (idx_addr q) = unat (q_used q) + 2" using b by (simp add: idx_addr_def unat_simps)
  assume i: "i < unat (q_size q)"
  have u4: "unat (q_used q + 4) = unat (q_used q) + 4" using b by (simp add: unat_simps)
  show u: "unat (elem_addr q i) = unat (q_used q) + 4 + 8 * i"
    using b i u4 by (simp add: elem_addr_def unat_add_scaled)
  show "unat (elem_addr q i + 4) = unat (q_used q) + 8 + 8 * i"
    using b i u by (simp add: unat_simps)
qed

lemma used_slot_fits:
  assumes "used_ring_ok q m" and "i < unat (q_size q)"
  shows "mem_fits m (elem_addr q i) 4" and "mem_fits m (elem_addr q i + 4) 4"
    and "mem_fits m (idx_addr q) 2"
  using assms by (auto simp: mem_fits_def used_addr_unat [OF used_ring_ok_no_wrap [OF assms(1)]] used_ring_ok_def)

text \<open>
  Pushing one completion: the index advances by one, the slot it named holds the
  chain's head and the byte count, every other slot is as before.
\<close>

lemma push_used_spec:
  assumes live: "is_live q" and ok: "used_ring_ok q m"
  shows "used_idx q (push_used_head q m head written) = used_idx q m + 1"
    and "used_elem q (push_used_head q m head written) (unat (used_idx q m mod q_size q)) =
      (Some (ucast head), Some written)"
    and "j < unat (q_size q) \<Longrightarrow> j \<noteq> unat (used_idx q m mod q_size q) \<Longrightarrow>
      used_elem q (push_used_head q m head written) j = used_elem q m j"
proof -
  define i where "i = unat (used_idx q m mod q_size q)"
  have i: "i < unat (q_size q)" using live by (simp add: i_def is_live_def unat_mod_lt)
  note nw = used_ring_ok_no_wrap [OF ok]
  note addr = used_addr_unat(1) [OF nw] used_addr_unat(2,3) [OF nw i]
  define m1 where "m1 = snd (write_u32_checked m (elem_addr q i) (ucast head))"
  define m2 where "m2 = snd (write_u32_checked m1 (elem_addr q i + 4) written)"
  define m3 where "m3 = snd (write_u16_checked m2 (idx_addr q) (used_idx q m + 1))"
  have p: "push_used_head q m head written = m3"
    by (simp add: push_used_head_live [OF live] Let_def i_def m1_def m2_def m3_def)
  have sz: "mem_size m1 = mem_size m" "mem_size m2 = mem_size m"
    by (simp_all add: m1_def m2_def write_u32_checked_def)
  have r: "read_u32_checked m3 a = read_u32_checked m2 a" if "span a 4 \<inter> span (idx_addr q) 2 = {}" for a
    using that unfolding m3_def by (rule read_u32_same_outside [OF same_outside_write_u16])
  have r2: "read_u32_checked m2 a = read_u32_checked m1 a" if "span a 4 \<inter> span (elem_addr q i + 4) 4 = {}" for a
    using that unfolding m2_def by (rule read_u32_same_outside [OF same_outside_write_u32])
  have r1: "read_u32_checked m1 a = read_u32_checked m a" if "span a 4 \<inter> span (elem_addr q i) 4 = {}" for a
    using that unfolding m1_def by (rule read_u32_same_outside [OF same_outside_write_u32])
  have "mem_fits m2 (idx_addr q) 2" "mem_fits m1 (elem_addr q i + 4) 4"
    using used_slot_fits [OF ok i] sz by (simp_all add: mem_fits_def)
  then show "used_idx q (push_used_head q m head written) = used_idx q m + 1"
    unfolding p used_idx_def [of q m3] by (simp add: m3_def read_u16_write_u16)
  have "read_u32_checked m3 (elem_addr q i) = Some (ucast head)"
    using r [of "elem_addr q i"] r2 [of "elem_addr q i"] used_slot_fits(1) [OF ok i]
    by (simp add: span_def addr m1_def read_u32_write_u32)
  moreover have "read_u32_checked m3 (elem_addr q i + 4) = Some written"
    using r [of "elem_addr q i + 4"] \<open>mem_fits m1 (elem_addr q i + 4) 4\<close>
    by (simp add: span_def addr m2_def read_u32_write_u32)
  ultimately show "used_elem q (push_used_head q m head written) (unat (used_idx q m mod q_size q)) =
      (Some (ucast head), Some written)"
    by (simp add: p used_elem_def flip: i_def)
  assume j: "j < unat (q_size q)" and "j \<noteq> unat (used_idx q m mod q_size q)"
  then have "j \<noteq> i" by (simp add: i_def)
  then have "i < j \<or> j < i" by auto
  then have d: "span (elem_addr q j) 4 \<inter> span (elem_addr q i) 4 = {}"
    "span (elem_addr q j) 4 \<inter> span (elem_addr q i + 4) 4 = {}"
    "span (elem_addr q j + 4) 4 \<inter> span (elem_addr q i) 4 = {}"
    "span (elem_addr q j + 4) 4 \<inter> span (elem_addr q i + 4) 4 = {}"
    "span (elem_addr q j) 4 \<inter> span (idx_addr q) 2 = {}"
    "span (elem_addr q j + 4) 4 \<inter> span (idx_addr q) 2 = {}"
    by (auto simp: span_def addr used_addr_unat(2,3) [OF nw j])
  then show "used_elem q (push_used_head q m head written) j = used_elem q m j"
    by (simp add: p used_elem_def r r1 r2)
qed

subsection \<open>Scattering bytes over buffers\<close>

text \<open>
  The specification of filling a list of buffers, front to back, with one byte
  string, and of reading the buffers back.
\<close>

fun scatter :: "guest_memory \<Rightarrow> desc_buffer list \<Rightarrow> bytes \<Rightarrow> guest_memory" where
  "scatter m [] d = m"
| "scatter m (b # bs) d =
     scatter (mem_write m (unat (buf_addr b)) (take (unat (buf_len b)) d)) bs (drop (unat (buf_len b)) d)"

definition gather :: "guest_memory \<Rightarrow> desc_buffer list \<Rightarrow> bytes" where
  "gather m bs = concat (map (\<lambda>b. mem_read m (unat (buf_addr b)) (unat (buf_len b))) bs)"

fun bufs_disjoint :: "desc_buffer list \<Rightarrow> bool" where
  "bufs_disjoint [] \<longleftrightarrow> True"
| "bufs_disjoint (b # bs) \<longleftrightarrow> (\<forall>c \<in> set bs. buf_span b \<inter> buf_span c = {}) \<and> bufs_disjoint bs"

lemma scatter_Nil [simp]: "scatter m bs [] = m"
  by (induction bs) auto

lemma mem_size_scatter [simp]: "mem_size (scatter m bs d) = mem_size m"
  by (induction m bs d rule: scatter.induct) auto

lemma mem_write_append:
  "mem_write (mem_write m a xs) (a + length xs) ys = mem_write m a (xs @ ys)"
  by (cases m) (auto simp: mem_write_def fun_eq_iff nth_append)

lemma scatter_outside:
  "\<forall>b \<in> set bs. i \<notin> buf_span b \<Longrightarrow> mem_bytes (scatter m bs d) i = mem_bytes m i"
  by (induction m bs d rule: scatter.induct) (auto simp: mem_bytes_write buf_span_def span_def)

lemma length_gather [simp]: "length (gather m bs) = total_len bs"
  by (induction bs) (simp_all add: gather_def)

lemma mem_read_write_prefix:
  "length xs \<le> n \<Longrightarrow> take (length xs) (mem_read (mem_write m a xs) a n) = xs"
  by (rule nth_equalityI) (auto simp: mem_read_def mem_bytes_write)

lemma gather_scatter:
  "bufs_disjoint bs \<Longrightarrow>
   take (min (length d) (total_len bs)) (gather (scatter m bs d) bs) = take (min (length d) (total_len bs)) d"
proof (induction m bs d rule: scatter.induct)
  case (1 m d)
  then show ?case by simp
next
  case (2 m b bs d)
  let ?n = "unat (buf_len b)" and ?a = "unat (buf_addr b)"
  let ?m = "mem_write m ?a (take ?n d)"
  let ?s = "scatter ?m bs (drop ?n d)"
  have eq: "mem_read ?s ?a ?n = mem_read ?m ?a ?n"
  proof (rule mem_read_cong)
    fix i
    assume "?a \<le> i" "i < ?a + ?n"
    then have "i \<in> buf_span b" by (simp add: buf_span_def span_def)
    with 2 show "mem_bytes ?s i = mem_bytes ?m i" by (intro scatter_outside) auto
  qed
  have g: "gather (scatter m (b # bs) d) (b # bs) = mem_read ?m ?a ?n @ gather ?s bs"
    by (simp add: gather_def eq)
  show ?case
  proof (cases "length d \<le> ?n")
    case True
    then show ?thesis using mem_read_write_prefix [of d ?n m ?a] by (simp add: gather_def)
  next
    case False
    then have hd: "mem_read ?m ?a ?n = take ?n d"
      using mem_read_write_same [of m ?a "take ?n d"] by (simp add: min_def)
    let ?k = "min (length d - ?n) (total_len bs)"
    have IH: "take ?k (gather ?s bs) = take ?k (drop ?n d)" using 2 by simp
    have k: "min (length d) (total_len (b # bs)) = ?n + ?k" using False by simp
    have "take (?n + ?k) (take ?n d @ gather ?s bs) = take ?n d @ take ?k (gather ?s bs)"
      using False by simp
    also have "\<dots> = take (?n + ?k) d" by (simp only: IH take_add)
    finally show ?thesis by (simp only: k g hd)
  qed
qed

subsection \<open>A concrete queue\<close>

text \<open>A queue of four descriptors with one posted chain: a 16-byte readable buffer chained to an
  8-byte writable one.\<close>

definition demo_queue :: virtqueue where
  "demo_queue = \<lparr>q_size = 4, q_pfn = 0, q_desc = 0x1000, q_avail = 0x2000, q_used = 0x3000,
     q_enabled = True, last_avail_idx = 0\<rparr>"

definition demo_mem :: guest_memory where
  "demo_mem = mem_write (mem_write (mem_new 0x10000) 0x1000
     (le64 0x4000 @ le32 16 @ le16 1 @ le16 1 @ le64 0x5000 @ le32 8 @ le16 2 @ le16 0)) 0x2002 (le16 1)"

definition demo_chain :: desc_chain where
  "demo_chain = \<lparr>head_index = 0, buffers =
     [\<lparr>buf_addr = 0x4000, buf_len = 16, device_writable = False\<rparr>,
      \<lparr>buf_addr = 0x5000, buf_len = 8, device_writable = True\<rparr>]\<rparr>"

lemma mem_read_write_inside:
  "\<lbrakk>a \<le> b; b + n \<le> a + length src\<rbrakk> \<Longrightarrow> mem_read (mem_write m a src) b n = subslice src (b - a) n"
  by (rule nth_equalityI) (auto simp: mem_read_def mem_bytes_write subslice_def)

lemma decode_desc_bytes [simp]: "decode_desc (le64 a @ le32 l @ le16 f @ le16 n) = (a, l, f, n)"
  by (simp add: decode_desc_def subslice_def)

lemma demo_mem_simps:
  "mem_size demo_mem = 0x10000"
  "mem_read demo_mem 0x1000 16 = le64 0x4000 @ le32 16 @ le16 1 @ le16 1"
  "mem_read demo_mem 0x1010 16 = le64 0x5000 @ le32 8 @ le16 2 @ le16 0"
  "mem_read demo_mem 0x2002 2 = le16 1"
  "mem_read demo_mem 0x2004 2 = le16 0"
  by (simp_all add: demo_mem_def mem_new_def mem_read_write_inside mem_read_write_disjoint subslice_def le_bytes_zero)
    (simp add: mem_read_def numeral_2_eq_2)

lemma demo_ring: "read_u16_checked demo_mem (q_avail demo_queue + 2) = Some 1"
  "read_u16_checked demo_mem (q_avail demo_queue + 4 + ucast (last_avail_idx demo_queue mod q_size demo_queue) * 2) = Some 0"
  by (simp_all add: demo_queue_def read_u16_checked_def read_checked_eq demo_mem_simps)

lemma demo_live: "is_live demo_queue" "used_ring_ok demo_queue demo_mem"
  by (simp_all add: demo_queue_def is_live_def used_ring_ok_def demo_mem_simps)

lemma demo_desc:
  "desc_at demo_queue demo_mem 0 = Some (\<lparr>buf_addr = 0x4000, buf_len = 16, device_writable = False\<rparr>, 1, 1)"
  "desc_at demo_queue demo_mem 1 = Some (\<lparr>buf_addr = 0x5000, buf_len = 8, device_writable = True\<rparr>, 2, 0)"
  by (simp_all add: desc_at_def demo_queue_def DESC_SIZE_def read_checked_eq demo_mem_simps in_bounds_iff
      VIRTQ_DESC_F_WRITE_def word_le_nat_alt)

lemma demo_path: "desc_path demo_queue demo_mem 0 (buffers demo_chain)"
  unfolding demo_chain_def desc_chain.select_convs
  by (rule path_next [OF demo_desc(1)], simp add: VIRTQ_DESC_F_NEXT_def)
    (rule path_end [OF demo_desc(2)], simp add: VIRTQ_DESC_F_NEXT_def)

lemma demo_pop: "try_pop demo_queue demo_mem chain_default = (True, demo_queue\<lparr>last_avail_idx := 1\<rparr>, demo_chain)"
proof -
  have "walk_chain 4 demo_queue demo_mem 0 0 [] = (True, [] @ buffers demo_chain)"
    using demo_path by (rule walk_chain_complete) (simp_all add: demo_chain_def demo_mem_simps)
  then show ?thesis
    using demo_ring demo_live(1) by (simp add: try_pop_def) (simp add: demo_queue_def demo_chain_def)
qed

subsection \<open>Properties\<close>

text \<open>C1: Whatever the guest has written to the rings, a chain that \<open>try_pop\<close> accepts is safe: it is not
  empty, has at most as many buffers as the queue has descriptors, every buffer lies inside guest
  memory, their lengths add up to at most the memory size, and only the avail cursor advanced.\<close>

theorem try_pop_safe:
  assumes "try_pop q m chain = (True, q', chain')"
  shows "buffers chain' \<noteq> [] \<and> length (buffers chain') \<le> unat (q_size q) \<and>
    list_all (buf_ok m) (buffers chain') \<and> total_len (buffers chain') \<le> unat (mem_size m) \<and>
    q' = q\<lparr>last_avail_idx := last_avail_idx q + 1\<rparr>"
  using try_pop_buffers [OF assms] try_pop_Some(2) [OF assms] by simp

theorem try_pop_safe_witness:
  "list_all (buf_ok demo_mem) (buffers demo_chain) \<and> total_len (buffers demo_chain) \<le> unat (mem_size demo_mem)"
  using try_pop_safe [OF demo_pop] by simp

text \<open>C7: The bounded walk implements the specification of a descriptor chain: if the ring names a head
  whose descriptors form a terminated path that fits the queue and the memory, \<open>try_pop\<close> returns
  exactly that path; conversely an accepted chain is such a path, or (a cycle) a walk along
  chained descriptors cut off at the queue size.\<close>

theorem try_pop_refines_path:
  assumes "is_live q" and "read_u16_checked m (q_avail q + 2) = Some avail_idx"
    and "avail_idx \<noteq> last_avail_idx q"
    and "read_u16_checked m (q_avail q + 4 + ucast (last_avail_idx q mod q_size q) * 2) = Some head"
  shows "(\<forall>bs. desc_path q m head bs \<and> length bs \<le> unat (q_size q) \<and> total_len bs \<le> unat (mem_size m) \<longrightarrow>
      try_pop q m chain = (True, q\<lparr>last_avail_idx := last_avail_idx q + 1\<rparr>, \<lparr>head_index = head, buffers = bs\<rparr>)) \<and>
    (\<forall>q' c. try_pop q m chain = (True, q', c) \<longrightarrow> head_index c = head \<and>
      (desc_path q m head (buffers c) \<or>
       (\<exists>nxt. desc_seg q m head (buffers c) nxt) \<and> length (buffers c) = unat (q_size q)))"
proof (intro conjI allI impI)
  fix bs
  assume "desc_path q m head bs \<and> length bs \<le> unat (q_size q) \<and> total_len bs \<le> unat (mem_size m)"
  then have "walk_chain (unat (q_size q)) q m head 0 [] = (True, [] @ bs)"
    by (intro walk_chain_complete) auto
  then show "try_pop q m chain =
      (True, q\<lparr>last_avail_idx := last_avail_idx q + 1\<rparr>, \<lparr>head_index = head, buffers = bs\<rparr>)"
    using assms by (simp add: try_pop_def Let_def)
next
  fix q' c
  assume pop: "try_pop q m chain = (True, q', c)"
  from try_pop_Some(4) [OF pop] assms(4) show h: "head_index c = head" by simp
  from try_pop_buffers(5) [OF pop] show "desc_path q m head (buffers c) \<or>
       (\<exists>nxt. desc_seg q m head (buffers c) nxt) \<and> length (buffers c) = unat (q_size q)"
    by (simp add: h)
qed

theorem try_pop_refines_path_witness:
  "desc_path demo_queue demo_mem 0 (buffers demo_chain) \<or>
    (\<exists>nxt. desc_seg demo_queue demo_mem 0 (buffers demo_chain) nxt) \<and> length (buffers demo_chain) = unat (q_size demo_queue)"
  using try_pop_refines_path [OF demo_live(1) demo_ring(1) _ demo_ring(2), of chain_default] demo_pop
  by (simp add: demo_queue_def)

text \<open>Pushing a completion appends one entry to the used ring: the slot the ring index names holds the
  chain's head and the byte count, every other slot is as before, the index advances by one
  (wrapping at 16 bits), and no byte outside the used ring changes.\<close>

lemma push_used_appends:
  assumes "is_live q" and "used_ring_ok q m"
  shows "let m' = push_used_head q m head written; i = used_idx q m in
    used_idx q m' = i + 1 \<and>
    (\<forall>j < unat (q_size q). used_elem q m' j =
       (if j = unat (i mod q_size q) then (Some (ucast head), Some written) else used_elem q m j)) \<and>
    same_outside (used_foot q) m m'"
  using push_used_spec [OF assms, where head = head and written = written]
    push_used_head_foot [of q m head written]
  by (auto simp: Let_def)

end
