(* ===== verification/Virtio_Ops.thy ===== *)
theory Virtio_Ops
  imports Virtqueue
begin

text \<open>
  The device side of a virtio transport (\<open>trait VirtioDeviceOps\<close>, \<open>ChainOutcome\<close>,
  \<open>CompletionResult\<close> in \<open>src/virtio.rs\<close>) and the loop both transports drain a queue
  with. The trait is a record of functions over the device's own state \<open>'d\<close>; a
  \<open>&mut self\<close> method returns the new device state, a \<open>&mut [u8]\<close> read returns the bytes.

  The drain loop pops until \<open>try_pop\<close> declines. Whether that ever happens depends on
  the guest's memory layout, so the loop is a partial function and \<open>None\<close> means that
  it runs forever. \<open>drain_trace\<close> is its big-step specification; the locale
  \<open>virtio_device\<close> is the contract of a device (which addresses it may write), from
  which the isolation and termination lemmas of the loop follow for every device.
\<close>

datatype chain_outcome = Done u32 | Pending

record completion_result =
  c_queue_idx :: u16
  c_head_index :: u16
  c_written_len :: u32
  c_status_byte :: u8
  c_status_buf_addr :: u64

record 'd device_ops =
  legacy_pci_device_id :: "'d \<Rightarrow> u16"
  virtio_device_type :: "'d \<Rightarrow> u16"
  wants_queue_notify :: "'d \<Rightarrow> u16 \<Rightarrow> bool"
  pci_class_code :: "'d \<Rightarrow> u32"
  num_queues :: "'d \<Rightarrow> u16"
  queue_size :: "'d \<Rightarrow> u16 \<Rightarrow> u16"
  host_features :: "'d \<Rightarrow> u32"
  read_config :: "'d \<Rightarrow> u64 \<Rightarrow> nat \<Rightarrow> bytes"
  write_config :: "'d \<Rightarrow> u64 \<Rightarrow> bytes \<Rightarrow> 'd"
  process_chain :: "'d \<Rightarrow> u16 \<Rightarrow> guest_memory \<Rightarrow> desc_chain \<Rightarrow> chain_outcome \<times> 'd \<times> guest_memory"
  poll_completions :: "'d \<Rightarrow> completion_result list \<times> 'd"
  take_outbox :: "'d \<Rightarrow> (u16 \<times> bytes) list \<times> 'd"

definition ISR_USED_BUFFER :: u8 where "ISR_USED_BUFFER = 1"

text \<open>
  \<open>drain_queue\<close>'s loop on the queue it looked up. \<open>processed\<close> is \<open>processed_any\<close>.
\<close>

partial_function (option) drain_loop ::
  "'d device_ops \<Rightarrow> u16 \<Rightarrow> bool \<Rightarrow> 'd \<Rightarrow> virtqueue \<Rightarrow> desc_chain \<Rightarrow> guest_memory \<Rightarrow>
   (bool \<times> 'd \<times> virtqueue \<times> desc_chain \<times> guest_memory) option" where
  "drain_loop ops qi processed d q chain m =
     (case try_pop q m chain of (ok, q', chain') \<Rightarrow>
        if \<not> ok then Some (processed, d, q', chain', m)
        else
          (case process_chain ops d qi m chain' of (outcome, d', m') \<Rightarrow>
             (case outcome of
                Done written \<Rightarrow> drain_loop ops qi True d' q' chain' (push_used q' m' chain' written)
              | Pending \<Rightarrow> drain_loop ops qi processed d' q' chain' m')))"

subsection \<open>The loop's specification\<close>

definition chain_step ::
  "'d device_ops \<Rightarrow> u16 \<Rightarrow> 'd \<Rightarrow> virtqueue \<Rightarrow> desc_chain \<Rightarrow> guest_memory \<Rightarrow> bool \<times> 'd \<times> guest_memory" where
  "chain_step ops qi d q c m =
     (case process_chain ops d qi m c of (outcome, d', m') \<Rightarrow>
        (case outcome of Done w \<Rightarrow> (True, d', push_used q m' c w) | Pending \<Rightarrow> (False, d', m')))"

inductive drain_trace ::
  "'d device_ops \<Rightarrow> u16 \<Rightarrow> bool \<Rightarrow> 'd \<Rightarrow> virtqueue \<Rightarrow> desc_chain \<Rightarrow> guest_memory \<Rightarrow> desc_chain list \<Rightarrow>
   bool \<times> 'd \<times> virtqueue \<times> desc_chain \<times> guest_memory \<Rightarrow> bool"
  for ops qi where
  stop: "try_pop q m chain = (False, q', chain') \<Longrightarrow>
    drain_trace ops qi processed d q chain m [] (processed, d, q', chain', m)"
| pop: "\<lbrakk>try_pop q m chain = (True, q', c); chain_step ops qi d q' c m = (fin, d', m');
    drain_trace ops qi (processed \<or> fin) d' q' c m' cs res\<rbrakk> \<Longrightarrow>
    drain_trace ops qi processed d q chain m (c # cs) res"

lemma drain_loop_step:
  "drain_loop ops qi processed d q chain m =
     (case try_pop q m chain of (ok, q', c) \<Rightarrow>
        if \<not> ok then Some (processed, d, q', c, m)
        else (case chain_step ops qi d q' c m of (fin, d', m') \<Rightarrow>
                drain_loop ops qi (processed \<or> fin) d' q' c m'))"
  by (subst drain_loop.simps)
    (auto simp: chain_step_def split: prod.splits chain_outcome.splits)

lemma drain_loop_trace:
  assumes "drain_loop ops qi processed d q chain m = Some res"
  shows "\<exists>cs. drain_trace ops qi processed d q chain m cs res"
proof (rule drain_loop.raw_induct
    [where P = "\<lambda>ops qi processed d q chain m res. \<exists>cs. drain_trace ops qi processed d q chain m cs res",
      OF _ assms])
  fix f and ops :: "'a device_ops" and qi processed d q chain m res
  assume IH: "\<And>ops qi p d q c m res. f ops qi p d q c m = Some res \<Longrightarrow> \<exists>cs. drain_trace ops qi p d q c m cs res"
    and eq: "(case try_pop q m chain of (ok, q', chain') \<Rightarrow>
        if \<not> ok then Some (processed, d, q', chain', m)
        else (case process_chain ops d qi m chain' of (outcome, d', m') \<Rightarrow>
               (case outcome of Done written \<Rightarrow> f ops qi True d' q' chain' (push_used q' m' chain' written)
                | Pending \<Rightarrow> f ops qi processed d' q' chain' m'))) = Some res"
  obtain ok q' c where pop: "try_pop q m chain = (ok, q', c)" by (cases "try_pop q m chain")
  obtain fin d' m' where step: "chain_step ops qi d q' c m = (fin, d', m')"
    by (cases "chain_step ops qi d q' c m")
  show "\<exists>cs. drain_trace ops qi processed d q chain m cs res"
  proof (cases ok)
    case False
    with eq pop show ?thesis by (auto intro: drain_trace.stop)
  next
    case True
    with eq pop step have "f ops qi (processed \<or> fin) d' q' c m' = Some res"
      by (auto simp: chain_step_def split: prod.splits chain_outcome.splits)
    from IH [OF this] obtain cs where "drain_trace ops qi (processed \<or> fin) d' q' c m' cs res" ..
    with pop step True have "drain_trace ops qi processed d q chain m (c # cs) res"
      by (auto intro: drain_trace.pop)
    then show ?thesis ..
  qed
qed

lemma drain_trace_loop:
  "drain_trace ops qi processed d q chain m cs res \<Longrightarrow> drain_loop ops qi processed d q chain m = Some res"
  by (induction rule: drain_trace.induct) (simp_all add: drain_loop_step)

lemma drain_trace_queue:
  assumes "drain_trace ops qi processed d q chain m cs (p', d', q', chain', m')"
  shows "\<exists>i. q' = q\<lparr>last_avail_idx := i\<rparr>"
  using assms
proof (induction processed d q chain m cs "(p', d', q', chain', m')" rule: drain_trace.induct)
  case stop
  then show ?case by (metis try_pop_queue_frame(1))
next
  case (pop q m chain q1 c)
  then show ?case using try_pop_Some(2) by force
qed

text \<open>
  A set of states that the loop can only leave into itself is a set from which it
  never returns.
\<close>

lemma drain_loop_diverges:
  assumes bad: "Bad processed d q chain m"
    and closed: "\<And>processed d q chain m. Bad processed d q chain m \<Longrightarrow>
      \<exists>q' c fin d' m'. try_pop q m chain = (True, q', c) \<and> chain_step ops qi d q' c m = (fin, d', m') \<and>
        Bad (processed \<or> fin) d' q' c m'"
  shows "drain_loop ops qi processed d q chain m = None"
proof (rule ccontr)
  assume "drain_loop ops qi processed d q chain m \<noteq> None"
  then obtain res where "drain_loop ops qi processed d q chain m = Some res" by blast
  from drain_loop_trace [OF this] obtain cs where "drain_trace ops qi processed d q chain m cs res" ..
  then show False using bad
  proof (induction rule: drain_trace.induct)
    case stop
    then show ?case using closed by fastforce
  next
    case pop
    then show ?case using closed by fastforce
  qed
qed

subsection \<open>What the queue's own memory says\<close>

text \<open>
  \<open>queue_mem\<close>: the descriptor table and the avail ring, the part of guest memory the
  walk reads. \<open>avail_chain q m i\<close>: the chain the avail ring names at position \<open>i\<close>, if
  the ring entry is readable and the chain is accepted.
\<close>

definition queue_mem :: "virtqueue \<Rightarrow> nat set" where
  "queue_mem q = span (q_avail q + 2) 2 \<union>
     (\<Union>i < unat (q_size q). span (q_desc q + of_nat i * DESC_SIZE) 16 \<union> span (q_avail q + 4 + of_nat i * 2) 2)"

definition avail_chain :: "virtqueue \<Rightarrow> guest_memory \<Rightarrow> u16 \<Rightarrow> desc_chain option" where
  "avail_chain q m i =
     (if \<not> is_live q then None
      else case read_u16_checked m (q_avail q + 4 + ucast (i mod q_size q) * 2) of
        None \<Rightarrow> None
      | Some head \<Rightarrow>
          (case walk_chain (unat (q_size q)) q m head 0 [] of (ok, bufs) \<Rightarrow>
             if ok then Some \<lparr>head_index = head, buffers = bufs\<rparr> else None))"

text \<open>The chains a drain has to process: from \<open>last_avail_idx\<close> up to the ring's index, stopping
  at the first one that is rejected.\<close>

definition pending_chains :: "virtqueue \<Rightarrow> guest_memory \<Rightarrow> desc_chain list" where
  "pending_chains q m =
     (case read_u16_checked m (q_avail q + 2) of
        None \<Rightarrow> []
      | Some a \<Rightarrow>
          map the (takeWhile (\<lambda>c. c \<noteq> None)
            (map (\<lambda>k. avail_chain q m (last_avail_idx q + of_nat k)) [0..<unat (a - last_avail_idx q)])))"

text \<open>
  The layout a well-behaved guest gives a queue: the used ring and what the device
  may write for any chain of the table stay clear of the table and the avail ring.
\<close>

definition separated :: "(desc_chain \<Rightarrow> nat set) \<Rightarrow> virtqueue \<Rightarrow> guest_memory \<Rightarrow> bool" where
  "separated foot q m \<longleftrightarrow> used_foot q \<inter> queue_mem q = {} \<and>
     (\<forall>i c. avail_chain q m i = Some c \<longrightarrow> foot c \<inter> queue_mem q = {})"

lemma queue_mem_idx [simp]: "queue_mem (q\<lparr>last_avail_idx := i\<rparr>) = queue_mem q"
  by (simp add: queue_mem_def)

lemma used_foot_idx [simp]: "used_foot (q\<lparr>last_avail_idx := i\<rparr>) = used_foot q"
  by (simp add: used_foot_def idx_addr_def elem_addr_def)

lemma desc_at_idx [simp]: "desc_at (q\<lparr>last_avail_idx := i\<rparr>) m idx = desc_at q m idx"
  by (simp add: desc_at_def)

lemma walk_chain_idx [simp]:
  "walk_chain n (q\<lparr>last_avail_idx := i\<rparr>) m idx tot bufs = walk_chain n q m idx tot bufs"
  by (induction n arbitrary: idx tot bufs) (simp_all add: walk_chain_Suc Let_def split: option.split)

lemma avail_chain_idx [simp]: "avail_chain (q\<lparr>last_avail_idx := i\<rparr>) m j = avail_chain q m j"
  by (simp add: avail_chain_def is_live_def split: option.split)

lemma read_desc_frame:
  assumes "same_outside S m m'" and "S \<inter> queue_mem q = {}" and "\<not> q_size q \<le> idx"
  shows "read_checked m' (q_desc q + ucast idx * DESC_SIZE) 16 = read_checked m (q_desc q + ucast idx * DESC_SIZE) 16"
proof (rule read_checked_same_outside [OF assms(1)])
  have "unat idx < unat (q_size q)" using assms(3) by (simp add: word_le_nat_alt)
  then have "span (q_desc q + of_nat (unat idx) * DESC_SIZE) 16 \<subseteq> queue_mem q"
    unfolding queue_mem_def by blast
  with assms(2) show "span (q_desc q + ucast idx * DESC_SIZE) 16 \<inter> S = {}"
    unfolding ucast_of_nat_unat by blast
qed

lemma desc_at_frame:
  assumes "same_outside S m m'" and "S \<inter> queue_mem q = {}"
  shows "desc_at q m' idx = desc_at q m idx"
proof (cases "q_size q \<le> idx")
  case False
  have "in_bounds m' = in_bounds m"
    using same_outside_size [OF assms(1)] by (simp add: fun_eq_iff in_bounds_iff)
  then show ?thesis
    using read_desc_frame [OF assms False] by (simp add: desc_at_def split: option.split)
qed (simp add: desc_at_def)

lemma walk_chain_frame:
  assumes "same_outside S m m'" and "S \<inter> queue_mem q = {}"
  shows "walk_chain n q m' idx tot bufs = walk_chain n q m idx tot bufs"
proof (induction n arbitrary: idx tot bufs)
  case (Suc n)
  then show ?case
    by (simp add: walk_chain_Suc Let_def desc_at_frame [OF assms] same_outside_size [OF assms(1)]
        split: option.split)
qed simp

lemma avail_frame:
  assumes "same_outside S m m'" and "S \<inter> queue_mem q = {}"
  shows "read_u16_checked m' (q_avail q + 2) = read_u16_checked m (q_avail q + 2)"
    and "avail_chain q m' i = avail_chain q m i"
proof -
  have "span (q_avail q + 2) 2 \<subseteq> queue_mem q" by (simp add: queue_mem_def)
  then show "read_u16_checked m' (q_avail q + 2) = read_u16_checked m (q_avail q + 2)"
    using assms by (intro read_u16_same_outside [OF assms(1)]) blast
  show "avail_chain q m' i = avail_chain q m i"
  proof (cases "is_live q")
    case True
    then have "unat (i mod q_size q) < unat (q_size q)" by (simp add: is_live_def unat_mod_lt)
    then have "span (q_avail q + 4 + of_nat (unat (i mod q_size q)) * 2) 2 \<subseteq> queue_mem q"
      unfolding queue_mem_def by blast
    then have "read_u16_checked m' (q_avail q + 4 + ucast (i mod q_size q) * 2) =
        read_u16_checked m (q_avail q + 4 + ucast (i mod q_size q) * 2)"
      using assms(2) unfolding ucast_of_nat_unat by (intro read_u16_same_outside [OF assms(1)]) blast
    then show ?thesis by (simp add: avail_chain_def walk_chain_frame [OF assms] split: option.split)
  qed (simp add: avail_chain_def)
qed

lemma try_pop_avail:
  assumes "read_u16_checked m (q_avail q + 2) = Some a" and "a \<noteq> last_avail_idx q"
  shows "avail_chain q m (last_avail_idx q) = None \<Longrightarrow> \<not> fst (try_pop q m chain)"
    and "avail_chain q m (last_avail_idx q) = Some c \<Longrightarrow>
      try_pop q m chain = (True, q\<lparr>last_avail_idx := last_avail_idx q + 1\<rparr>, c)"
  using assms
  by (auto simp: try_pop_def avail_chain_def Let_def split: if_splits option.splits prod.splits)

lemma pending_chains_stop:
  assumes "pending_chains q m = []"
  shows "\<not> fst (try_pop q m chain)"
proof (cases "read_u16_checked m (q_avail q + 2)")
  case None
  then show ?thesis by (simp add: try_pop_def)
next
  case (Some a)
  show ?thesis
  proof (cases "a = last_avail_idx q")
    case True
    with Some show ?thesis by (simp add: try_pop_idle)
  next
    case False
    then have "0 < unat (a - last_avail_idx q)" by (simp add: unat_gt_0)
    then have "avail_chain q m (last_avail_idx q) = None"
      using assms Some by (simp add: pending_chains_def upt_conv_Cons split: if_splits)
    with Some False show ?thesis by (rule try_pop_avail(1) [where chain = chain])
  qed
qed

lemma pending_chains_Cons:
  assumes "pending_chains q m = c # cs"
  shows "try_pop q m chain = (True, q\<lparr>last_avail_idx := last_avail_idx q + 1\<rparr>, c)"
    and "pending_chains (q\<lparr>last_avail_idx := last_avail_idx q + 1\<rparr>) m = cs"
    and "avail_chain q m (last_avail_idx q) = Some c"
proof -
  let ?l = "last_avail_idx q"
  from assms obtain a where a: "read_u16_checked m (q_avail q + 2) = Some a"
    by (auto simp: pending_chains_def split: option.splits)
  with assms have ne: "a \<noteq> ?l" by (auto simp: pending_chains_def)
  then have pos: "unat (a - ?l) = Suc (unat (a - (?l + 1)))"
    using unat_minus_one [of "a - ?l"] unat_gt_0 [of "a - ?l"] by (simp add: diff_diff_eq)
  have upt: "[0..<unat (a - ?l)] = 0 # map Suc [0..<unat (a - (?l + 1))]"
    by (simp add: pos map_Suc_upt upt_conv_Cons del: upt_Suc)
  have *: "avail_chain q m ?l = Some c \<and>
      map the (takeWhile (\<lambda>c. c \<noteq> None)
        (map (\<lambda>k. avail_chain q m (?l + of_nat (Suc k))) [0..<unat (a - (?l + 1))])) = cs"
    using assms a upt by (auto simp: pending_chains_def comp_def split: if_splits)
  then show "avail_chain q m ?l = Some c" ..
  with a ne show "try_pop q m chain = (True, q\<lparr>last_avail_idx := ?l + 1\<rparr>, c)"
    by (rule try_pop_avail(2))
  show "pending_chains (q\<lparr>last_avail_idx := ?l + 1\<rparr>) m = cs"
    using * a by (simp add: pending_chains_def add.assoc)
qed

lemma pending_chains_frame:
  assumes "same_outside S m m'" and "S \<inter> queue_mem q = {}"
  shows "pending_chains q m' = pending_chains q m"
  by (simp add: pending_chains_def avail_frame [OF assms] split: option.split)

subsection \<open>The contract of a device\<close>

text \<open>
  A device may write only inside \<open>foot qi c\<close> when it is handed chain \<open>c\<close> of queue \<open>qi\<close>.
\<close>

locale virtio_device =
  fixes ops :: "'d device_ops" and foot :: "u16 \<Rightarrow> desc_chain \<Rightarrow> nat set"
  assumes confined: "process_chain ops d qi m c = (outcome, d', m') \<Longrightarrow> same_outside (foot qi c) m m'"
begin

lemma chain_step_confined:
  assumes "chain_step ops qi d q c m = (fin, d', m')"
  shows "same_outside (foot qi c \<union> used_foot q) m m'"
proof -
  obtain outcome d1 m1 where p: "process_chain ops d qi m c = (outcome, d1, m1)"
    by (cases "process_chain ops d qi m c")
  have c: "same_outside (foot qi c) m m1" by (rule confined [OF p])
  show ?thesis
  proof (cases outcome)
    case (Done w)
    with assms p have "m' = push_used q m1 c w" by (simp add: chain_step_def)
    with c push_used_foot [of q m1 c w] show ?thesis by (simp add: same_outside_trans)
  next
    case Pending
    with assms p c show ?thesis by (auto simp: chain_step_def intro: same_outside_mono)
  qed
qed

text \<open>Whatever the guest posts, one drain writes only what the popped chains offer and the used ring.\<close>

lemma drain_trace_confined:
  assumes "drain_trace ops qi processed d q chain m cs (p', d', q', chain', m')"
  shows "same_outside (used_foot q \<union> (\<Union>c \<in> set cs. foot qi c)) m m'"
  using assms
proof (induction processed d q chain m cs "(p', d', q', chain', m')" rule: drain_trace.induct)
  case stop
  show ?case by simp
next
  case (pop q m chain q1 c d fin d1 m1 processed cs)
  have q1: "used_foot q1 = used_foot q" by (simp add: try_pop_Some(2) [OF pop(1)])
  from chain_step_confined [OF pop(2)] pop(4) show ?case
    by (auto simp: q1 same_outside_def)
qed

lemma drain_trace_chains_ok:
  assumes "drain_trace ops qi processed d q chain m cs res" and "c \<in> set cs"
  shows "list_all (buf_ok m) (buffers c) \<and> length (buffers c) \<le> unat (q_size q) \<and>
    total_len (buffers c) \<le> unat (mem_size m)"
  using assms
proof (induction rule: drain_trace.induct)
  case stop
  then show ?case by simp
next
  case (pop q m chain q1 c1 d fin d1 m1 processed cs res)
  have "mem_size m1 = mem_size m"
    using chain_step_confined [OF pop(2)] by (rule same_outside_size)
  then have "buf_ok m1 = buf_ok m" by (simp add: fun_eq_iff buf_ok_def mem_fits_def)
  moreover have "q_size q1 = q_size q" by (simp add: try_pop_Some(2) [OF pop(1)])
  ultimately show ?case
    using pop.IH pop.prems try_pop_buffers [OF pop(1)] \<open>mem_size m1 = mem_size m\<close> by auto
qed

text \<open>
  On a separated layout the loop returns, having processed exactly the pending chains,
  each once and in ring order.
\<close>

lemma drain_exact:
  assumes "separated (foot qi) q m"
  shows "\<exists>res. drain_trace ops qi processed d q chain m (pending_chains q m) res"
  using assms
proof (induction "pending_chains q m" arbitrary: processed d q chain m)
  case Nil
  then have "\<not> fst (try_pop q m chain)" by (intro pending_chains_stop) simp
  then obtain q' chain' where "try_pop q m chain = (False, q', chain')"
    by (cases "try_pop q m chain") auto
  from drain_trace.stop [OF this] Nil(1) show ?case by metis
next
  case (Cons c cs)
  let ?q = "q\<lparr>last_avail_idx := last_avail_idx q + 1\<rparr>"
  note pc = pending_chains_Cons [OF Cons(2) [symmetric]]
  obtain fin d' m' where step: "chain_step ops qi d ?q c m = (fin, d', m')"
    by (cases "chain_step ops qi d ?q c m")
  have fr: "same_outside (foot qi c \<union> used_foot q) m m'" using chain_step_confined [OF step] by simp
  have dis: "(foot qi c \<union> used_foot q) \<inter> queue_mem q = {}"
    using Cons.prems pc(3) by (auto simp: separated_def)
  have "separated (foot qi) ?q m'"
    using Cons.prems avail_frame(2) [OF fr dis] by (simp add: separated_def)
  moreover have "cs = pending_chains ?q m'"
    using pc(2) pending_chains_frame [OF fr, of ?q] dis by simp
  ultimately obtain res where "drain_trace ops qi (processed \<or> fin) d' ?q c m' cs res"
    using Cons(1) by metis
  with pc(1) step have "drain_trace ops qi processed d q chain m (c # cs) res"
    by (rule drain_trace.pop)
  with Cons(2) show ?case by metis
qed

end

end
