(* ===== verification/Snapshot_Codec.thy ===== *)
theory Snapshot_Codec
  imports Hb_Prelude
begin

text \<open>
  The byte-level helpers of \<open>src/snapshot.rs\<close> that every \<open>restore_state\<close> is written
  with: \<open>take\<close> splits a prefix off a cursor or reports truncation, \<open>take_u8\<close> to
  \<open>take_u64\<close> decode a little-endian integer from it. An error string of the code is a
  constructor of \<open>snap_error\<close> carrying the values the message prints.

  The locale \<open>wire_codec\<close> states what an encoder and a cursor decoder promise each
  other; it is interpreted for the four integer widths. \<open>take_into\<close> is the shape of
  one line \<open>self.field = take_uN(&mut buf)?;\<close>: on truncation the method returns the
  error and keeps the fields assigned so far.
\<close>

datatype snap_error =
    Truncated nat nat
  | Queue_count nat nat
  | Unknown_devfn u8

type_synonym 'a taken = "snap_error + ('a \<times> bytes)"

definition take_bytes :: "nat \<Rightarrow> bytes \<Rightarrow> bytes taken" where
  "take_bytes n buf =
     (if length buf < n then Inl (Truncated n (length buf)) else Inr (take n buf, drop n buf))"

definition take_u8 :: "bytes \<Rightarrow> u8 taken" where
  "take_u8 buf =
     (case take_bytes 1 buf of Inl e \<Rightarrow> Inl e | Inr (h, t) \<Rightarrow> Inr (hd h, t))"

definition take_u16 :: "bytes \<Rightarrow> u16 taken" where
  "take_u16 buf =
     (case take_bytes 2 buf of Inl e \<Rightarrow> Inl e | Inr (h, t) \<Rightarrow> Inr (of_le h, t))"

definition take_u32 :: "bytes \<Rightarrow> u32 taken" where
  "take_u32 buf =
     (case take_bytes 4 buf of Inl e \<Rightarrow> Inl e | Inr (h, t) \<Rightarrow> Inr (of_le h, t))"

definition take_u64 :: "bytes \<Rightarrow> u64 taken" where
  "take_u64 buf =
     (case take_bytes 8 buf of Inl e \<Rightarrow> Inl e | Inr (h, t) \<Rightarrow> Inr (of_le h, t))"

definition take_into ::
  "(bytes \<Rightarrow> 'a taken) \<Rightarrow> ('a \<Rightarrow> 's \<Rightarrow> 's) \<Rightarrow> (bytes \<Rightarrow> 's \<Rightarrow> (snap_error + 'r) \<times> 's) \<Rightarrow>
   bytes \<Rightarrow> 's \<Rightarrow> (snap_error + 'r) \<times> 's" where
  "take_into p f k buf s = (case p buf of Inl e \<Rightarrow> (Inl e, s) | Inr (v, rest) \<Rightarrow> k rest (f v s))"

locale wire_codec =
  fixes enc :: "'v \<Rightarrow> bytes" and dec :: "bytes \<Rightarrow> 'v taken"
  assumes dec_enc: "dec (enc v @ rest) = Inr (v, rest)"
begin

lemma take_into_enc: "take_into dec f k (enc v @ rest) s = k rest (f v s)"
  by (simp add: take_into_def dec_enc)

lemma take_into_enc_end: "take_into dec f k (enc v) s = k [] (f v s)"
  using take_into_enc [where rest = "[]"] by simp

lemma enc_inj: "enc v @ r = enc w @ r' \<longleftrightarrow> v = w \<and> r = r'"
  by (metis dec_enc sum.inject(2) prod.inject)

end

lemma take_bytes_append [simp]: "n = length h \<Longrightarrow> take_bytes n (h @ t) = Inr (h, t)"
  by (simp add: take_bytes_def)

lemma take_bytes_short: "length buf < n \<Longrightarrow> take_bytes n buf = Inl (Truncated n (length buf))"
  by (simp add: take_bytes_def)

interpretation c8: wire_codec "\<lambda>b. [b]" take_u8
  by unfold_locales (simp add: take_u8_def take_bytes_def)

interpretation c16: wire_codec le16 take_u16
  by unfold_locales (simp add: take_u16_def)

interpretation c32: wire_codec le32 take_u32
  by unfold_locales (simp add: take_u32_def)

interpretation c64: wire_codec le64 take_u64
  by unfold_locales (simp add: take_u64_def)

lemma take_into_byte: "take_into take_u8 f k (b # rest) s = k rest (f b s)"
  using c8.take_into_enc [of f k b rest s] by simp

lemmas take_into_simps =
  take_into_byte c16.take_into_enc c32.take_into_enc c64.take_into_enc
  c16.take_into_enc_end c32.take_into_enc_end c64.take_into_enc_end

end
