(* ===== verification/Virtio_Legacy.thy ===== *)
theory Virtio_Legacy
  imports Virtio_Ops Snapshot_Codec
begin

text \<open>
  The legacy virtio-PCI transport (\<open>VirtioLegacyPci\<close> in \<open>src/virtio.rs\<close>): the flat
  register file, queue notification, asynchronous completions, receive delivery and
  the snapshot of the transport. Guest memory is shared with the rest of the machine,
  so every operation that touches it takes it and returns it. An operation that drains
  a queue returns an \<open>option\<close>: \<open>None\<close> is a drain that never ends.
\<close>

definition VIRTIO_VENDOR_ID :: u16 where "VIRTIO_VENDOR_ID = 0x1af4"
definition REG_HOST_FEATURES :: u64 where "REG_HOST_FEATURES = 0x00"
definition REG_GUEST_FEATURES :: u64 where "REG_GUEST_FEATURES = 0x04"
definition REG_QUEUE_ADDRESS :: u64 where "REG_QUEUE_ADDRESS = 0x08"
definition REG_QUEUE_SIZE :: u64 where "REG_QUEUE_SIZE = 0x0c"
definition REG_QUEUE_SELECT :: u64 where "REG_QUEUE_SELECT = 0x0e"
definition REG_QUEUE_NOTIFY :: u64 where "REG_QUEUE_NOTIFY = 0x10"
definition REG_DEVICE_STATUS :: u64 where "REG_DEVICE_STATUS = 0x12"
definition REG_ISR_STATUS :: u64 where "REG_ISR_STATUS = 0x13"
definition DEVICE_CONFIG_START :: u64 where "DEVICE_CONFIG_START = 0x14"

lemmas legacy_reg_defs = REG_HOST_FEATURES_def REG_GUEST_FEATURES_def REG_QUEUE_ADDRESS_def
  REG_QUEUE_SIZE_def REG_QUEUE_SELECT_def REG_QUEUE_NOTIFY_def REG_DEVICE_STATUS_def
  REG_ISR_STATUS_def DEVICE_CONFIG_START_def

record 'd legacy_pci =
  l_dev :: 'd
  l_irq :: u8
  l_guest_features :: u32
  l_queue_select :: u16
  l_status :: u8
  l_isr :: u8
  l_queues :: "virtqueue list"
  l_chain :: desc_chain

definition new_queues :: "'d device_ops \<Rightarrow> 'd \<Rightarrow> virtqueue list" where
  "new_queues ops d = map (\<lambda>i. vq_new (queue_size ops d (of_nat i))) [0..<unat (num_queues ops d)]"

definition legacy_new :: "'d device_ops \<Rightarrow> 'd \<Rightarrow> u8 \<Rightarrow> 'd legacy_pci" where
  "legacy_new ops d irq = \<lparr>l_dev = d, l_irq = irq, l_guest_features = 0, l_queue_select = 0,
     l_status = 0, l_isr = 0, l_queues = new_queues ops d, l_chain = chain_default\<rparr>"

text \<open>\<open>queues.get(i)\<close>.\<close>

definition get_queue :: "virtqueue list \<Rightarrow> u16 \<Rightarrow> virtqueue option" where
  "get_queue qs i = (if unat i < length qs then Some (qs ! unat i) else None)"

definition legacy_drain_queue ::
  "'d device_ops \<Rightarrow> 'd legacy_pci \<Rightarrow> guest_memory \<Rightarrow> u16 \<Rightarrow> (bool \<times> 'd legacy_pci \<times> guest_memory) option" where
  "legacy_drain_queue ops s m qi =
     (if \<not> wants_queue_notify ops (l_dev s) qi then Some (False, s, m)
      else
        case get_queue (l_queues s) qi of
          None \<Rightarrow> Some (False, s, m)
        | Some q \<Rightarrow>
            (case drain_loop ops qi False (l_dev s) q (l_chain s) m of
               None \<Rightarrow> None
             | Some (processed, d', q', chain', m') \<Rightarrow>
                 Some (processed, s\<lparr>l_dev := d', l_queues := (l_queues s)[unat qi := q'],
                   l_chain := chain'\<rparr>, m')))"

text \<open>One finished request: its status byte, then its used-ring entry if the queue exists.\<close>

definition complete_one :: "virtqueue list \<Rightarrow> completion_result \<Rightarrow> guest_memory \<Rightarrow> guest_memory" where
  "complete_one qs c m =
     (let m = snd (write_checked m (c_status_buf_addr c) [c_status_byte c]) in
      case get_queue qs (c_queue_idx c) of
        None \<Rightarrow> m
      | Some q \<Rightarrow> push_used_head q m (c_head_index c) (c_written_len c + 1))"

definition legacy_drain_completions ::
  "'d device_ops \<Rightarrow> 'd legacy_pci \<Rightarrow> guest_memory \<Rightarrow> u32 option \<times> 'd legacy_pci \<times> guest_memory" where
  "legacy_drain_completions ops s m =
     (case poll_completions ops (l_dev s) of (completions, d') \<Rightarrow>
        let s = s\<lparr>l_dev := d'\<rparr> in
        if completions = [] then (None, s, m)
        else
          let m = fold (complete_one (l_queues s)) completions m
          in (Some (ucast (l_irq s)), s\<lparr>l_isr := l_isr s OR ISR_USED_BUFFER\<rparr>, m))"

text \<open>
  \<open>try_deliver_rx\<close>, inner loop: the remaining source slices into one buffer of
  \<open>room\<close> bytes at \<open>dst\<close>. A failed write or a full buffer leaves the loop, an empty
  source is skipped.
\<close>

fun rx_fill :: "bytes list \<Rightarrow> nat \<Rightarrow> u64 \<Rightarrow> u32 \<Rightarrow> guest_memory \<Rightarrow> bytes list \<times> u32 \<times> guest_memory" where
  "rx_fill [] room dst w m = ([], w, m)"
| "rx_fill (src # rest) room dst w m =
     (if room = 0 then (src # rest, w, m)
      else
        let n = min (length src) room in
        if n = 0 then (case rx_fill rest room dst w m of (r, w', m') \<Rightarrow> (src # r, w', m'))
        else
          (case write_checked m dst (take n src) of (ok, m1) \<Rightarrow>
             if \<not> ok then (src # rest, w, m1)
             else
               (case rx_fill rest (room - n) (dst + of_nat n) (w + of_nat n) m1 of
                  (r, w', m') \<Rightarrow> (drop n src # r, w', m'))))"

text \<open>Outer loop over the chain's buffers.\<close>

fun rx_buffers :: "desc_buffer list \<Rightarrow> bytes list \<Rightarrow> u32 \<Rightarrow> guest_memory \<Rightarrow> u32 \<times> guest_memory" where
  "rx_buffers [] sources w m = (w, m)"
| "rx_buffers (b # bs) sources w m =
     (if \<not> device_writable b then (w, m)
      else
        (case rx_fill sources (unat (buf_len b)) (buf_addr b) w m of (sources', w', m') \<Rightarrow>
           if list_all (\<lambda>s. s = []) sources' then (w', m')
           else rx_buffers bs sources' w' m'))"

definition try_deliver_rx ::
  "'d legacy_pci \<Rightarrow> guest_memory \<Rightarrow> u16 \<Rightarrow> bytes \<Rightarrow> bytes \<Rightarrow> u32 option \<times> 'd legacy_pci \<times> guest_memory" where
  "try_deliver_rx s m qi header frame =
     (case get_queue (l_queues s) qi of
        None \<Rightarrow> (None, s, m)
      | Some q \<Rightarrow>
          (case try_pop q m (l_chain s) of (ok, q', chain') \<Rightarrow>
             let s = s\<lparr>l_queues := (l_queues s)[unat qi := q'], l_chain := chain'\<rparr> in
             if \<not> ok then (None, s, m)
             else
               (case rx_buffers (buffers chain') [header, frame] 0 m of (written, m') \<Rightarrow>
                  (Some (ucast (l_irq s)), s\<lparr>l_isr := l_isr s OR ISR_USED_BUFFER\<rparr>,
                   push_used q' m' chain' written))))"

subsection \<open>Snapshot\<close>

definition legacy_save_state :: "'d legacy_pci \<Rightarrow> bytes" where
  "legacy_save_state s = le32 (l_guest_features s) @ le16 (l_queue_select s) @ [l_status s] @ [l_isr s] @
     le32 (of_nat (length (l_queues s))) @
     concat (map (\<lambda>q. le32 (q_pfn q) @ le16 (last_avail_idx q)) (l_queues s))"

fun legacy_restore_queues :: "bytes \<Rightarrow> virtqueue list \<Rightarrow> (snap_error + unit) \<times> virtqueue list" where
  "legacy_restore_queues buf [] = (Inr (), [])"
| "legacy_restore_queues buf (q # qs) =
     (case take_u32 buf of
        Inl e \<Rightarrow> (Inl e, q # qs)
      | Inr (p, buf1) \<Rightarrow>
          let q1 = set_pfn p q in
          (case take_u16 buf1 of
             Inl e \<Rightarrow> (Inl e, q1 # qs)
           | Inr (i, buf2) \<Rightarrow>
               (case legacy_restore_queues buf2 qs of (r, qs') \<Rightarrow>
                  (r, q1\<lparr>last_avail_idx := i\<rparr> # qs'))))"

definition legacy_restore_state :: "bytes \<Rightarrow> 'd legacy_pci \<Rightarrow> (snap_error + unit) \<times> 'd legacy_pci" where
  "legacy_restore_state =
     take_into take_u32 (\<lambda>v. l_guest_features_update (\<lambda>_. v))
     (take_into take_u16 (\<lambda>v. l_queue_select_update (\<lambda>_. v))
     (take_into take_u8 (\<lambda>v. l_status_update (\<lambda>_. v))
     (take_into take_u8 (\<lambda>v. l_isr_update (\<lambda>_. v))
     (\<lambda>buf s.
        case take_u32 buf of
          Inl e \<Rightarrow> (Inl e, s)
        | Inr (n, buf) \<Rightarrow>
            if unat n \<noteq> length (l_queues s) then (Inl (Queue_count (unat n) (length (l_queues s))), s)
            else
              (case legacy_restore_queues buf (l_queues s) of (r, qs) \<Rightarrow> (r, s\<lparr>l_queues := qs\<rparr>))))))"

subsection \<open>PCI identity and register file\<close>

definition legacy_bar_sizes :: "u32 list" where
  "legacy_bar_sizes = [0x40, 0, 0, 0, 0, 0]"

definition legacy_bar_is_io :: "nat \<Rightarrow> bool" where
  "legacy_bar_is_io index \<longleftrightarrow> index = 0"

definition legacy_ioevent_entries :: "'d device_ops \<Rightarrow> 'd legacy_pci \<Rightarrow> (u8 \<times> u64 \<times> u16) list" where
  "legacy_ioevent_entries ops s =
     map (\<lambda>q. (0, REG_QUEUE_NOTIFY, of_nat q)) [0..<unat (num_queues ops (l_dev s))]"

definition legacy_handle_ioevent ::
  "'d device_ops \<Rightarrow> 'd legacy_pci \<Rightarrow> guest_memory \<Rightarrow> u16 \<Rightarrow> (bool \<times> 'd legacy_pci \<times> guest_memory) option" where
  "legacy_handle_ioevent ops s m datamatch =
     (case legacy_drain_queue ops s m datamatch of
        None \<Rightarrow> None
      | Some (True, s', m') \<Rightarrow> Some (True, s'\<lparr>l_isr := l_isr s' OR ISR_USED_BUFFER\<rparr>, m')
      | Some (False, s', m') \<Rightarrow> Some (False, s', m'))"

text \<open>\<open>read_le\<close> into a zero-filled destination of \<open>n\<close> bytes.\<close>

definition read_le :: "bytes \<Rightarrow> nat \<Rightarrow> bytes" where
  "read_le bs n = take n bs @ replicate (n - length bs) 0"

definition legacy_read :: "'d device_ops \<Rightarrow> 'd legacy_pci \<Rightarrow> u64 \<Rightarrow> nat \<Rightarrow> bytes \<times> 'd legacy_pci" where
  "legacy_read ops s off n =
     (if DEVICE_CONFIG_START \<le> off then (read_config ops (l_dev s) (off - DEVICE_CONFIG_START) n, s)
      else
        let selected = get_queue (l_queues s) (l_queue_select s) in
        if off = REG_HOST_FEATURES then (read_le (le32 (host_features ops (l_dev s))) n, s)
        else if off = REG_GUEST_FEATURES then (read_le (le32 (l_guest_features s)) n, s)
        else if off = REG_QUEUE_ADDRESS then
          (read_le (le32 (case selected of None \<Rightarrow> 0 | Some q \<Rightarrow> q_pfn q)) n, s)
        else if off = REG_QUEUE_SIZE then
          (read_le (le16 (case selected of None \<Rightarrow> 0 | Some q \<Rightarrow> q_size q)) n, s)
        else if off = REG_QUEUE_SELECT then (read_le (le16 (l_queue_select s)) n, s)
        else if off = REG_DEVICE_STATUS then (read_le [l_status s] n, s)
        else if off = REG_ISR_STATUS then (read_le [l_isr s] n, s\<lparr>l_isr := 0\<rparr>)
        else (replicate n 0, s))"

definition legacy_reset_queue :: "virtqueue \<Rightarrow> virtqueue" where
  "legacy_reset_queue q = (set_pfn 0 q)\<lparr>last_avail_idx := 0\<rparr>"

definition update_queue :: "virtqueue list \<Rightarrow> u16 \<Rightarrow> (virtqueue \<Rightarrow> virtqueue) \<Rightarrow> virtqueue list" where
  "update_queue qs i f = (if unat i < length qs then qs[unat i := f (qs ! unat i)] else qs)"

definition legacy_write ::
  "'d device_ops \<Rightarrow> 'd legacy_pci \<Rightarrow> guest_memory \<Rightarrow> u64 \<Rightarrow> bytes \<Rightarrow>
   (bool \<times> 'd legacy_pci \<times> guest_memory) option" where
  "legacy_write ops s m off data =
     (if DEVICE_CONFIG_START \<le> off then
        Some (False, s\<lparr>l_dev := write_config ops (l_dev s) (off - DEVICE_CONFIG_START) data\<rparr>, m)
      else if off = REG_GUEST_FEATURES \<and> length data = 4 then
        Some (False, s\<lparr>l_guest_features := of_le data\<rparr>, m)
      else if off = REG_QUEUE_ADDRESS \<and> length data = 4 then
        Some (False, s\<lparr>l_queues := update_queue (l_queues s) (l_queue_select s) (set_pfn (of_le data))\<rparr>, m)
      else if off = REG_QUEUE_SELECT \<and> length data = 2 then
        Some (False, s\<lparr>l_queue_select := of_le data\<rparr>, m)
      else if off = REG_QUEUE_NOTIFY \<and> length data = 2 then
        (case legacy_drain_queue ops s m (of_le data) of
           None \<Rightarrow> None
         | Some (drained, s', m') \<Rightarrow>
             if drained then Some (True, s'\<lparr>l_isr := l_isr s' OR ISR_USED_BUFFER\<rparr>, m')
             else Some (False, s', m'))
      else if off = REG_DEVICE_STATUS \<and> data \<noteq> [] then
        let s = s\<lparr>l_status := hd data\<rparr> in
        if l_status s = 0 then
          Some (False, s\<lparr>l_queues := map legacy_reset_queue (l_queues s), l_isr := 0\<rparr>, m)
        else Some (False, s, m)
      else Some (False, s, m))"

subsection \<open>The layout \<open>set_pfn\<close> computes\<close>

lemma set_pfn_simps [simp]:
  "q_size (set_pfn p q) = q_size q" "q_pfn (set_pfn p q) = p"
  "last_avail_idx (set_pfn p q) = last_avail_idx q" "q_enabled (set_pfn p q) \<longleftrightarrow> p \<noteq> 0"
  by (auto simp: set_pfn_def Let_def)

lemma set_pfn_idem [simp]: "set_pfn p (set_pfn p q) = set_pfn p q"
  by (simp add: set_pfn_def Let_def)

text \<open>A legacy queue's addresses are always the ones its page frame number gives.\<close>

definition legacy_q_ok :: "virtqueue \<Rightarrow> bool" where
  "legacy_q_ok q \<longleftrightarrow> set_pfn (q_pfn q) q = q"

definition legacy_inv :: "'d legacy_pci \<Rightarrow> bool" where
  "legacy_inv s \<longleftrightarrow> list_all legacy_q_ok (l_queues s)"

lemma legacy_q_ok_set_pfn [simp]: "legacy_q_ok (set_pfn p q)"
  by (simp add: legacy_q_ok_def)

lemma set_pfn_last: "set_pfn p (q\<lparr>last_avail_idx := i\<rparr>) = (set_pfn p q)\<lparr>last_avail_idx := i\<rparr>"
  by (simp add: set_pfn_def Let_def)

lemma legacy_q_ok_last [simp]: "legacy_q_ok (q\<lparr>last_avail_idx := i\<rparr>)" if "legacy_q_ok q"
  using that by (simp add: legacy_q_ok_def set_pfn_last)

lemma legacy_q_ok_new [simp]: "legacy_q_ok (vq_new n)"
  by (simp add: legacy_q_ok_def set_pfn_def vq_new_def Let_def)

lemma nat_div_ceil:
  fixes e n :: nat
  assumes "0 < n"
  shows "e \<le> n * (e div n + (if e mod n = 0 then 0 else 1))"
    and "n * (e div n + (if e mod n = 0 then 0 else 1)) < e + n"
proof -
  obtain k r where e: "e = n * k + r" and r: "r < n" and k: "e div n = k" "e mod n = r"
    using assms by (metis mult_div_mod_eq mod_less_divisor)
  show "e \<le> n * (e div n + (if e mod n = 0 then 0 else 1))"
    and "n * (e div n + (if e mod n = 0 then 0 else 1)) < e + n"
    unfolding k using r assms by (auto simp: e)
qed

lemma legacy_layout:
  assumes "p \<noteq> 0"
  shows "unat (q_desc (set_pfn p q)) = 4096 * unat p"
    and "unat (q_avail (set_pfn p q)) = 4096 * unat p + 16 * unat (q_size q)"
    and "unat (q_used (set_pfn p q)) \<ge> 4096 * unat p + 18 * unat (q_size q) + 6"
    and "unat (q_used (set_pfn p q)) < 4096 * unat p + 18 * unat (q_size q) + 6 + 4096"
    and "unat (q_used (set_pfn p q)) mod 4096 = 0"
proof -
  define n where "n = unat (q_size q)"
  define P where "P = unat p"
  have n: "n < 2 ^ 16" and P: "P < 2 ^ 32"
    using unat_lt_pow [of "q_size q"] unat_lt_pow [of p] by (simp_all add: n_def P_def)
  have uq: "unat (ucast (q_size q) :: u64) = n" and up: "unat (ucast p :: u64) = P"
    by (simp_all add: unat_ucast_up n_def P_def)
  have d: "unat (push_bit 12 (ucast p) :: u64) = 4096 * P"
    using P by (simp add: push_bit_eq_mult unat_word_ariths up)
  have s16: "unat (DESC_SIZE * ucast (q_size q) :: u64) = 16 * n"
    using n by (simp add: DESC_SIZE_def unat_word_ariths uq)
  have a: "unat (push_bit 12 (ucast p) + DESC_SIZE * ucast (q_size q) :: u64) = 4096 * P + 16 * n"
    using n P d s16 by (simp add: unat_word_ariths)
  have z: "unat (4 + 2 * ucast (q_size q) + 2 :: u64) = 2 * n + 6"
    using n by (simp add: unat_word_ariths uq)
  define e :: u64 where "e = push_bit 12 (ucast p) + DESC_SIZE * ucast (q_size q) + (4 + 2 * ucast (q_size q) + 2)"
  have e: "unat e = 4096 * P + 18 * n + 6"
  proof -
    have "4096 * P + 16 * n + (2 * n + 6) < 2 ^ 64" using n P by simp
    then show ?thesis
      unfolding e_def by (subst unat_add_no_overflow) (simp_all only: a z len_num1 len_bit0, simp_all)
  qed
  define k where "k = unat e div 4096 + (if unat e mod 4096 = 0 then 0 else 1)"
  have mod0: "e mod QUEUE_ALIGN = 0 \<longleftrightarrow> unat e mod 4096 = 0"
    unfolding unat_0_iff [symmetric, of "e mod QUEUE_ALIGN"] by (simp add: unat_mod QUEUE_ALIGN_def)
  have "unat e < 2 ^ 44 * 4096" using e n P by simp
  then have "unat e div 4096 < 2 ^ 44" by (rule less_mult_imp_div_less)
  then have kb: "k \<le> 2 ^ 45" by (simp add: k_def)
  have "unat (div_ceil e QUEUE_ALIGN) = k"
    using kb unfolding div_ceil_def mod0 k_def
    by (simp add: unat_word_ariths unat_div QUEUE_ALIGN_def split: if_splits)
  then have u: "unat (div_ceil e QUEUE_ALIGN * QUEUE_ALIGN) = 4096 * k"
    using kb by (simp add: unat_word_ariths QUEUE_ALIGN_def)
  have "unat e \<le> 4096 * k" and "4096 * k < unat e + 4096"
    using nat_div_ceil [of 4096 "unat e"] by (simp_all add: k_def)
  moreover have "q_used (set_pfn p q) = div_ceil e QUEUE_ALIGN * QUEUE_ALIGN"
    using assms by (simp add: set_pfn_def Let_def e_def)
  ultimately show "unat (q_used (set_pfn p q)) \<ge> 4096 * unat p + 18 * unat (q_size q) + 6"
    and "unat (q_used (set_pfn p q)) < 4096 * unat p + 18 * unat (q_size q) + 6 + 4096"
    and "unat (q_used (set_pfn p q)) mod 4096 = 0"
    using u e by (simp_all add: n_def P_def)
  show "unat (q_desc (set_pfn p q)) = 4096 * unat p"
    and "unat (q_avail (set_pfn p q)) = 4096 * unat p + 16 * unat (q_size q)"
    using assms d a by (simp_all add: set_pfn_def Let_def n_def P_def)
qed

text \<open>
  Hence the used ring of a legacy queue never overlaps the table and the avail ring,
  whatever page the guest chooses.
\<close>

lemma legacy_used_separate:
  assumes ok: "legacy_q_ok q" and en: "q_enabled q"
  shows "used_foot q \<inter> queue_mem q = {}"
proof -
  define p where "p = q_pfn q"
  have q: "set_pfn p q = q" using ok by (simp add: legacy_q_ok_def p_def)
  have p: "p \<noteq> 0" using en set_pfn_simps(4) [of p q] by (simp add: q)
  note lay = legacy_layout [OF p, of q, unfolded q]
  define n where "n = unat (q_size q)"
  have n: "n < 2 ^ 16" and P: "unat p < 2 ^ 32"
    using unat_lt_pow [of "q_size q"] unat_lt_pow [of p] by (simp_all add: n_def)
  have nw: "used_no_wrap q" using lay(4) n P by (simp add: used_no_wrap_def n_def)
  have d: "unat (q_desc q + of_nat i * DESC_SIZE) = 4096 * unat p + 16 * i" if "i < n" for i
    using lay(1) n P that by (simp add: DESC_SIZE_def unat_add_scaled)
  have a: "unat (q_avail q + 4 + of_nat i * 2) = 4096 * unat p + 16 * n + 4 + 2 * i" if "i < n" for i
  proof -
    have "unat (q_avail q + 4) = 4096 * unat p + 16 * n + 4"
      using lay(2) n P by (simp add: unat_simps n_def)
    then show ?thesis using n P that by (simp add: unat_add_scaled)
  qed
  have a2: "unat (q_avail q + 2) = 4096 * unat p + 16 * n + 2"
    using lay(2) n P by (simp add: unat_simps n_def)
  have lo: "x < 4096 * unat p + 18 * n + 6" if "x \<in> queue_mem q" for x
    using that unfolding queue_mem_def n_def [symmetric]
    by (auto simp: span_def d a a2)
  have "4096 * unat p + 18 * n + 6 \<le> x" if "x \<in> used_foot q" for x
    using that lay(3) unfolding used_foot_def n_def [symmetric]
    by (auto simp: span_def used_addr_unat [OF nw, folded n_def])
  with lo show ?thesis by fastforce
qed

subsection \<open>Invariant\<close>

lemma get_queue_Some: "get_queue qs i = Some q \<Longrightarrow> unat i < length qs \<and> q = qs ! unat i"
  by (simp add: get_queue_def split: if_splits)

lemma list_all_update: "list_all P xs \<Longrightarrow> P x \<Longrightarrow> list_all P (xs[i := x])"
  by (auto simp: list_all_iff dest!: set_update_subset_insert [THEN subsetD])

lemma drain_loop_last:
  assumes "drain_loop ops qi p d q c m = Some (p', d', q', c', m')"
  shows "\<exists>i. q' = q\<lparr>last_avail_idx := i\<rparr>"
  using drain_loop_trace [OF assms] drain_trace_queue by metis

lemma legacy_drain_queue_inv:
  assumes "legacy_inv s" and "legacy_drain_queue ops s m qi = Some (b, s', m')"
  shows "legacy_inv s'"
proof (cases "wants_queue_notify ops (l_dev s) qi \<and> get_queue (l_queues s) qi \<noteq> None")
  case False
  with assms show ?thesis by (auto simp: legacy_drain_queue_def split: if_splits)
next
  case True
  then obtain q where q: "get_queue (l_queues s) qi = Some q" by auto
  with True assms(2) obtain d' q' c' where
    l: "drain_loop ops qi False (l_dev s) q (l_chain s) m = Some (b, d', q', c', m')" and
    s': "s' = s\<lparr>l_dev := d', l_queues := (l_queues s)[unat qi := q'], l_chain := c'\<rparr>"
    by (auto simp: legacy_drain_queue_def split: option.splits prod.splits)
  have "legacy_q_ok q"
    using assms(1) get_queue_Some [OF q] by (simp add: legacy_inv_def list_all_length)
  then have "legacy_q_ok q'" using drain_loop_last [OF l] by auto
  with assms(1) show ?thesis by (simp add: s' legacy_inv_def list_all_update)
qed

lemma legacy_new_inv: "legacy_inv (legacy_new ops d irq)"
  by (simp add: legacy_inv_def legacy_new_def new_queues_def list_all_iff)

lemma legacy_write_inv:
  assumes "legacy_inv s" and "legacy_write ops s m off data = Some (b, s', m')"
  shows "legacy_inv s'"
proof (cases "off = REG_QUEUE_NOTIFY \<and> length data = 2")
  case True
  with assms obtain b1 s1 where "legacy_drain_queue ops s m (of_le data) = Some (b1, s1, m')"
    and "l_queues s' = l_queues s1"
    by (auto simp: legacy_write_def legacy_reg_defs split: option.splits prod.splits if_splits)
  with legacy_drain_queue_inv [OF assms(1)] show ?thesis by (metis legacy_inv_def)
next
  case False
  have u: "list_all legacy_q_ok (update_queue (l_queues s) i (set_pfn p))" for i p
    using assms(1) by (simp add: legacy_inv_def update_queue_def list_all_update)
  have r: "list_all legacy_q_ok (map legacy_reset_queue qs)" for qs
    by (simp add: list_all_iff legacy_reset_queue_def)
  from assms False u r show ?thesis
    by (auto simp: legacy_write_def legacy_inv_def Let_def split: if_splits)
qed

lemma try_deliver_rx_inv: "legacy_inv s \<Longrightarrow> legacy_inv (fst (snd (try_deliver_rx s m qi h f)))"
proof (cases "get_queue (l_queues s) qi")
  case None
  then show "legacy_inv s \<Longrightarrow> ?thesis" by (simp add: try_deliver_rx_def)
next
  case (Some q)
  assume inv: "legacy_inv s"
  obtain ok q' c' where pop: "try_pop q m (l_chain s) = (ok, q', c')" by (cases "try_pop q m (l_chain s)")
  have "legacy_q_ok q" using inv get_queue_Some [OF Some] by (simp add: legacy_inv_def list_all_length)
  then have "legacy_q_ok q'" using try_pop_queue_frame(1) [OF pop] by (metis legacy_q_ok_last)
  with inv show ?thesis
    by (simp add: try_deliver_rx_def Some pop legacy_inv_def list_all_update Let_def split: prod.splits)
qed

subsection \<open>Receive delivery\<close>

lemma mem_fits_mem_size: "mem_size m' = mem_size m \<Longrightarrow> mem_fits m' = mem_fits m"
  by (simp add: fun_eq_iff mem_fits_def)

lemma buf_ok_mem_size: "mem_size m' = mem_size m \<Longrightarrow> buf_ok m' = buf_ok m"
  by (simp add: fun_eq_iff buf_ok_def mem_fits_def)

lemma rx_fill_spec:
  assumes "mem_fits m dst room"
  shows "\<exists>srcs'. rx_fill srcs room dst w m =
      (srcs', w + of_nat (min (length (concat srcs)) room), mem_write m (unat dst) (take room (concat srcs))) \<and>
    concat srcs' = drop room (concat srcs)"
  using assms
proof (induction srcs room dst w m rule: rx_fill.induct)
  case (1 room dst w m)
  then show ?case by simp
next
  case (2 src rest room dst w m)
  let ?n = "min (length src) room"
  show ?case
  proof (cases "room = 0 \<or> src = []")
    case True
    then show ?thesis using 2 by (fastforce simp: Let_def)
  next
    case False
    then have nz: "?n \<noteq> 0" by simp
    have fits: "unat dst + room \<le> unat (mem_size m)" using 2(3) by (simp add: mem_fits_def)
    have wr: "write_checked m dst (take ?n src) = (True, mem_write m (unat dst) (take ?n src))"
      using fits by (simp add: write_checked_eq)
    have room: "room < 2 ^ 64" using fits unat_lt_pow [of "mem_size m"] by simp
    have dst: "unat (dst + of_nat ?n) = unat dst + ?n"
      using fits unat_lt_pow [of "mem_size m"] room by (simp add: unat_word_ariths unat_of_nat)
    have "mem_fits (mem_write m (unat dst) (take ?n src)) (dst + of_nat ?n) (room - ?n)"
      using fits dst by (simp add: mem_fits_def)
    from 2(2) [OF _ refl nz wr [symmetric] _ this] False obtain srcs' where
      r: "rx_fill rest (room - ?n) (dst + of_nat ?n) (w + of_nat ?n) (mem_write m (unat dst) (take ?n src)) =
        (srcs', w + of_nat ?n + of_nat (min (length (concat rest)) (room - ?n)),
         mem_write (mem_write m (unat dst) (take ?n src)) (unat (dst + of_nat ?n)) (take (room - ?n) (concat rest)))"
      and c: "concat srcs' = drop (room - ?n) (concat rest)"
      by auto
    have mw: "mem_write (mem_write m (unat dst) (take ?n src)) (unat (dst + of_nat ?n)) (take (room - ?n) (concat rest)) =
        mem_write m (unat dst) (take room (src @ concat rest))"
      using mem_write_append [of m "unat dst" "take ?n src" "take (room - ?n) (concat rest)"] dst
      by (simp add: min_def split: if_splits)
    have "?n + min (length (concat rest)) (room - ?n) = min (length (src @ concat rest)) room"
      unfolding length_append by linarith
    then have wn: "w + of_nat ?n + of_nat (min (length (concat rest)) (room - ?n)) =
        w + of_nat (min (length (src @ concat rest)) room)"
      by (simp only: add.assoc flip: of_nat_add)
    show ?thesis
      using False nz r c mw wn wr by (auto simp: Let_def min_def split: if_splits)
  qed
qed

text \<open>
  Delivery fills the device-writable prefix of the chain, front to back, with header
  and frame, and reports how many bytes that is.
\<close>

lemma rx_buffers_spec:
  assumes "list_all (buf_ok m) bs"
  shows "rx_buffers bs srcs w m =
    (w + of_nat (min (length (concat srcs)) (total_len (takeWhile device_writable bs))),
     scatter m (takeWhile device_writable bs) (concat srcs))"
  using assms
proof (induction bs arbitrary: srcs w m)
  case Nil
  then show ?case by simp
next
  case (Cons b bs)
  show ?case
  proof (cases "device_writable b")
    case False
    then show ?thesis by simp
  next
    case True
    let ?n = "unat (buf_len b)" and ?d = "concat srcs"
    let ?m = "mem_write m (unat (buf_addr b)) (take ?n ?d)"
    from Cons.prems have "mem_fits m (buf_addr b) ?n" by (simp add: buf_ok_def)
    from rx_fill_spec [OF this] obtain srcs' where
      f: "rx_fill srcs ?n (buf_addr b) w m = (srcs', w + of_nat (min (length ?d) ?n), ?m)" and
      c: "concat srcs' = drop ?n ?d" by blast
    have e: "list_all (\<lambda>s. s = []) srcs' \<longleftrightarrow> length ?d \<le> ?n"
      using c by (simp add: list_all_iff flip: concat_eq_Nil_conv)
    have IH: "rx_buffers bs srcs' (w + of_nat (min (length ?d) ?n)) ?m =
      (w + of_nat (min (length ?d) ?n) + of_nat (min (length ?d - ?n) (total_len (takeWhile device_writable bs))),
       scatter ?m (takeWhile device_writable bs) (drop ?n ?d))"
      using Cons.prems by (subst Cons.IH) (simp_all add: buf_ok_mem_size [of ?m m] c)
    show ?thesis
    proof (cases "length ?d \<le> ?n")
      case True
      with \<open>device_writable b\<close> f e show ?thesis by (simp add: min_def)
    next
      case False
      then have "min (length ?d) (?n + total_len (takeWhile device_writable bs)) =
          ?n + min (length ?d - ?n) (total_len (takeWhile device_writable bs))" by simp
      with False \<open>device_writable b\<close> f e IH show ?thesis by (simp add: min_def add.assoc)
    qed
  qed
qed

subsection \<open>Snapshot round trip\<close>

text \<open>
  Two queues a guest and a drain cannot tell apart: equal as soon as they are enabled;
  a disabled queue may carry stale addresses, which nothing reads.
\<close>

definition queue_equiv :: "virtqueue \<Rightarrow> virtqueue \<Rightarrow> bool" where
  "queue_equiv q r \<longleftrightarrow> q_size q = q_size r \<and> q_pfn q = q_pfn r \<and> last_avail_idx q = last_avail_idx r \<and>
     q_enabled q = q_enabled r \<and> (q_enabled r \<longrightarrow> q = r)"

lemma set_pfn_cong:
  "q_size q = q_size r \<Longrightarrow> p \<noteq> 0 \<Longrightarrow> (set_pfn p q)\<lparr>last_avail_idx := i\<rparr> = (set_pfn p r)\<lparr>last_avail_idx := i\<rparr>"
  by (cases q; cases r) (simp add: set_pfn_def Let_def)

lemma queue_equiv_restored:
  assumes "legacy_q_ok q" and "q_size t = q_size q"
  shows "queue_equiv ((set_pfn (q_pfn q) t)\<lparr>last_avail_idx := last_avail_idx q\<rparr>) q"
proof (cases "q_pfn q = 0")
  case True
  have "q_enabled q \<longleftrightarrow> q_pfn q \<noteq> 0" using assms(1) by (metis legacy_q_ok_def set_pfn_simps(4))
  with True assms(2) show ?thesis by (simp add: queue_equiv_def)
next
  case False
  have "(set_pfn (q_pfn q) t)\<lparr>last_avail_idx := last_avail_idx q\<rparr> =
      (set_pfn (q_pfn q) q)\<lparr>last_avail_idx := last_avail_idx q\<rparr>"
    by (rule set_pfn_cong [OF assms(2) False])
  also have "\<dots> = q" using assms(1) by (simp add: legacy_q_ok_def)
  finally show ?thesis by (simp add: queue_equiv_def)
qed

lemma legacy_restore_queues_save:
  assumes "list_all legacy_q_ok qs" and "map q_size ts = map q_size qs"
  shows "\<exists>qs'. legacy_restore_queues (concat (map (\<lambda>q. le32 (q_pfn q) @ le16 (last_avail_idx q)) qs) @ rest) ts =
    (Inr (), qs') \<and> list_all2 queue_equiv qs' qs"
  using assms
proof (induction qs arbitrary: ts)
  case Nil
  then show ?case by simp
next
  case (Cons q qs)
  then obtain t us where ts: "ts = t # us" and sz: "q_size t = q_size q" "map q_size us = map q_size qs"
    by (cases ts) auto
  from Cons obtain qs' where "legacy_restore_queues
      (concat (map (\<lambda>q. le32 (q_pfn q) @ le16 (last_avail_idx q)) qs) @ rest) us = (Inr (), qs')"
    and "list_all2 queue_equiv qs' qs" using sz by auto
  with Cons.prems sz show ?case
    by (simp add: ts c16.dec_enc c32.dec_enc Let_def queue_equiv_restored)
qed

text \<open>Restoring a legacy transport's snapshot into a transport with the same queue sizes
  succeeds and gives back every register; each queue comes back as a queue no drain can tell
  from the saved one (identical as soon as it is enabled).\<close>

lemma legacy_snapshot_roundtrip:
  assumes "legacy_inv s" and "map q_size (l_queues t) = map q_size (l_queues s)"
    and "length (l_queues s) < 2 ^ 32"
  shows "\<exists>qs. legacy_restore_state (legacy_save_state s) t =
      (Inr (), t\<lparr>l_guest_features := l_guest_features s, l_queue_select := l_queue_select s,
         l_status := l_status s, l_isr := l_isr s, l_queues := qs\<rparr>) \<and>
    list_all2 queue_equiv qs (l_queues s)"
proof -
  have len: "length (l_queues t) = length (l_queues s)" using assms(2) by (metis length_map)
  have n: "unat (of_nat (length (l_queues s)) :: u32) = length (l_queues s)"
    using assms(3) by (simp add: unat_of_nat)
  have "list_all legacy_q_ok (l_queues s)" using assms(1) by (simp add: legacy_inv_def)
  from legacy_restore_queues_save [OF this assms(2), of "[]"] obtain qs where
    "legacy_restore_queues (concat (map (\<lambda>q. le32 (q_pfn q) @ le16 (last_avail_idx q)) (l_queues s)))
       (l_queues t) = (Inr (), qs)" and "list_all2 queue_equiv qs (l_queues s)" by auto
  then show ?thesis
    by (intro exI [of _ qs])
      (simp add: legacy_restore_state_def legacy_save_state_def take_into_simps c32.dec_enc n len)
qed

subsection \<open>Registers\<close>

lemma legacy_drain_dead:
  assumes "\<And>q. q \<in> set (l_queues s) \<Longrightarrow> \<not> is_live q"
  shows "legacy_drain_queue ops s m qi = Some (False, s, m)"
proof (cases "get_queue (l_queues s) qi")
  case None
  then show ?thesis by (simp add: legacy_drain_queue_def)
next
  case (Some q)
  then have q: "q \<in> set (l_queues s)" "(l_queues s)[unat qi := q] = l_queues s"
    by (auto simp: get_queue_def split: if_splits)
  from assms [OF q(1)] have "drain_loop ops qi False (l_dev s) q (l_chain s) m = Some (False, l_dev s, q, l_chain s, m)"
    by (simp add: drain_loop_step try_pop_def)
  then show ?thesis using Some q(2) by (simp add: legacy_drain_queue_def)
qed

text \<open>Writing zero to the device-status register resets the transport: status and ISR are
  zero, no queue is live, every avail cursor is rewound, and until the driver programs a queue
  again a notification of any queue returns at once, raises nothing and touches no memory.\<close>

lemma legacy_reset_quiesces:
  "\<exists>s'. legacy_write ops s m REG_DEVICE_STATUS [0] = Some (False, s', m) \<and>
     l_status s' = 0 \<and> l_isr s' = 0 \<and> l_dev s' = l_dev s \<and>
     list_all (\<lambda>q. \<not> is_live q \<and> last_avail_idx q = 0 \<and> q_pfn q = 0) (l_queues s') \<and>
     map q_size (l_queues s') = map q_size (l_queues s) \<and>
     (\<forall>qi. legacy_write ops s' m REG_QUEUE_NOTIFY (le16 qi) = Some (False, s', m))"
proof -
  let ?s = "s\<lparr>l_status := 0, l_queues := map legacy_reset_queue (l_queues s), l_isr := 0\<rparr>"
  have dead: "legacy_drain_queue ops ?s m qi = Some (False, ?s, m)" for qi
    by (rule legacy_drain_dead) (auto simp: legacy_reset_queue_def is_live_def)
  have "legacy_write ops s m REG_DEVICE_STATUS [0] = Some (False, ?s, m)"
    by (simp add: legacy_write_def legacy_reg_defs)
  moreover have "legacy_write ops ?s m REG_QUEUE_NOTIFY (le16 qi) = Some (False, ?s, m)" for qi
    using dead [of qi] by (simp add: legacy_write_def legacy_reg_defs)
  ultimately show ?thesis
    by (auto simp: list_all_iff legacy_reset_queue_def is_live_def intro!: exI [of _ ?s])
qed

text \<open>The interrupt handshake: after a notification that completed something, the ISR register
  reads with the used-buffer bit set, and that read acknowledges it: the next read is zero.\<close>

lemma legacy_isr_handshake:
  assumes "legacy_write ops s m REG_QUEUE_NOTIFY data = Some (True, s', m')"
  shows "\<exists>b s''. legacy_read ops s' REG_ISR_STATUS 1 = ([b], s'') \<and> b AND ISR_USED_BUFFER \<noteq> 0 \<and>
    legacy_read ops s'' REG_ISR_STATUS 1 = ([0], s'')"
proof -
  from assms have isr: "bit (l_isr s') 0"
    by (auto simp: legacy_write_def legacy_reg_defs ISR_USED_BUFFER_def bit_or_iff
        split: if_splits option.splits prod.splits)
  then have "l_isr s' AND 1 \<noteq> 0" by (simp add: and_one_eq odd_iff_mod_2_eq_one bit_0)
  then show ?thesis
    by (intro exI [of _ "l_isr s'"] exI [of _ "s'\<lparr>l_isr := 0\<rparr>"])
      (simp add: legacy_read_def legacy_reg_defs read_le_def ISR_USED_BUFFER_def)
qed

text \<open>Receive delivery: when a chain is popped, header and frame fill its device-writable prefix
  front to back, nothing else changes but the used ring, and the used entry reports exactly the
  bytes stored (a frame that does not fit is truncated to the room there is).\<close>

lemma rx_delivery:
  assumes "get_queue (l_queues s) qi = Some q" and "try_pop q m (l_chain s) = (True, q', c)"
  shows "try_deliver_rx s m qi header frame =
    (let bs = takeWhile device_writable (buffers c); d = header @ frame
     in (Some (ucast (l_irq s)),
         s\<lparr>l_queues := (l_queues s)[unat qi := q'], l_chain := c, l_isr := l_isr s OR ISR_USED_BUFFER\<rparr>,
         push_used q' (scatter m bs d) c (of_nat (min (length d) (total_len bs)))))"
  using rx_buffers_spec [OF try_pop_buffers(1) [OF assms(2)], of "[header, frame]" 0]
  by (simp add: try_deliver_rx_def assms Let_def)

end
