(* ===== verification/Device_Bus.thy ===== *)
theory Device_Bus
  imports Hb_Prelude
begin

text \<open>
  The device bus (\<open>src/device.rs\<close>): regions of an address space, each owned by a
  device. A shared handle \<open>Arc<Mutex<dyn Device>>\<close> is its identity, a number
  (\<open>Arc::ptr_eq\<close> is equality). \<open>MmioBus\<close> and \<open>IoBus\<close> are the same type.

  The locale \<open>address_space\<close> is what the PCI bus relies on: a partial map from
  addresses to (device, offset, interrupt) with map and unmap operations. The
  interpretation \<open>db\<close> shows that the region list implements it.
\<close>

type_synonym device_id = nat

record region =
  base :: u64
  last_addr :: u64
  device :: device_id
  region_irq :: "u32 option"

type_synonym bus = "region list"

definition contains :: "region \<Rightarrow> u64 \<Rightarrow> bool" where
  "contains r addr \<longleftrightarrow> base r \<le> addr \<and> addr \<le> last_addr r"

definition bus_new :: bus where
  "bus_new = []"

definition unregister :: "bus \<Rightarrow> device_id \<Rightarrow> bus" where
  "unregister b d = filter (\<lambda>r. device r \<noteq> d) b"

definition register :: "bus \<Rightarrow> u64 \<Rightarrow> u64 \<Rightarrow> device_id \<Rightarrow> u32 option \<Rightarrow> bus" where
  "register b bs sz d irq =
     (let b = unregister b d in
      if sz = 0 then b
      else
        let l = saturating_add bs (sz - 1) in
        case find (\<lambda>r. bs \<le> last_addr r \<and> base r \<le> l) b of
          Some clash \<Rightarrow> b
        | None \<Rightarrow> b @ [\<lparr>base = bs, last_addr = l, device = d, region_irq = irq\<rparr>])"

definition bus_find :: "bus \<Rightarrow> u64 \<Rightarrow> (region \<times> u64) option" where
  "bus_find b addr = map_option (\<lambda>r. (r, addr - base r)) (find (\<lambda>r. contains r addr) b)"

definition find_device :: "bus \<Rightarrow> u64 \<Rightarrow> (device_id \<times> u64 \<times> u32 option) option" where
  "find_device b addr =
     (case bus_find b addr of
        None \<Rightarrow> None
      | Some (r, off) \<Rightarrow> Some (device r, off, region_irq r))"

text \<open>Host-side DMA confinement of one plugin: a \<open>(base, size)\<close> range, or none.\<close>

definition dma_range_allows :: "(u64 \<times> u64) option \<Rightarrow> u64 \<Rightarrow> u64 \<Rightarrow> bool" where
  "dma_range_allows rng addr len =
     (case rng of
        None \<Rightarrow> True
      | Some (bs, sz) \<Rightarrow>
          (case checked_add addr len of
             None \<Rightarrow> False
           | Some e \<Rightarrow>
               (case checked_add bs sz of
                  None \<Rightarrow> False
                | Some range_end \<Rightarrow> bs \<le> addr \<and> e \<le> range_end)))"

subsection \<open>Invariant\<close>

definition regions_disjoint :: "region \<Rightarrow> region \<Rightarrow> bool" where
  "regions_disjoint r s \<longleftrightarrow> last_addr r < base s \<or> last_addr s < base r"

fun bus_inv :: "bus \<Rightarrow> bool" where
  "bus_inv [] \<longleftrightarrow> True"
| "bus_inv (r # b) \<longleftrightarrow>
     base r \<le> last_addr r \<and> (\<forall>s \<in> set b. regions_disjoint r s \<and> device s \<noteq> device r) \<and> bus_inv b"

lemma bus_inv_append:
  "bus_inv (b @ c) \<longleftrightarrow> bus_inv b \<and> bus_inv c \<and>
     (\<forall>r \<in> set b. \<forall>s \<in> set c. regions_disjoint r s \<and> device s \<noteq> device r)"
  by (induction b) auto

lemma bus_inv_filter: "bus_inv b \<Longrightarrow> bus_inv (filter P b)"
  by (induction b) auto

lemma disjoint_contains:
  "regions_disjoint r s \<Longrightarrow> contains r a \<Longrightarrow> \<not> contains s a"
  by (auto simp: regions_disjoint_def contains_def)

lemma regions_disjoint_sym: "regions_disjoint r s \<longleftrightarrow> regions_disjoint s r"
  by (auto simp: regions_disjoint_def)

lemma saturating_last_ge: "bs \<le> saturating_add bs (l :: u64)"
  unfolding word_le_nat_alt unat_saturating_add using unat_lt_pow [of bs] by (simp add: min_def)

lemma unregister_inv: "bus_inv b \<Longrightarrow> bus_inv (unregister b d)"
  by (simp add: unregister_def bus_inv_filter)

lemma register_inv: "bus_inv b \<Longrightarrow> bus_inv (register b bs sz d irq)"
proof -
  assume inv: "bus_inv b"
  let ?u = "unregister b d" and ?l = "saturating_add bs (sz - 1)"
  have "bus_inv (?u @ [\<lparr>base = bs, last_addr = ?l, device = d, region_irq = irq\<rparr>])"
    if "find (\<lambda>r. bs \<le> last_addr r \<and> base r \<le> ?l) ?u = None"
    using that unregister_inv [OF inv, of d] saturating_last_ge [of bs "sz - 1"]
    by (auto simp: bus_inv_append find_None_iff regions_disjoint_def unregister_def not_le)
  then show ?thesis
    using unregister_inv [OF inv, of d] by (auto simp: register_def Let_def split: option.splits)
qed

text \<open>At most one region of a bus answers at an address, so the first hit is the only one.\<close>

lemma find_contains_eq:
  "bus_inv b \<Longrightarrow> r \<in> set b \<Longrightarrow> contains r a \<Longrightarrow> find (\<lambda>r. contains r a) b = Some r"
  by (induction b) (auto dest: disjoint_contains)

lemma find_device_eq:
  assumes "bus_inv b" and "r \<in> set b" and "contains r a"
  shows "find_device b a = Some (device r, a - base r, region_irq r)"
  using find_contains_eq [OF assms] by (simp add: find_device_def bus_find_def)

lemma find_device_None_iff: "find_device b a = None \<longleftrightarrow> (\<forall>r \<in> set b. \<not> contains r a)"
  by (auto simp: find_device_def bus_find_def find_None_iff split: option.splits dest: find_SomeD)

lemma find_device_SomeE:
  assumes "find_device b a = Some (d, off, irq)"
  obtains r where "r \<in> set b" and "contains r a" and "d = device r" and "off = a - base r"
    and "irq = region_irq r"
  using assms
  by (auto simp: find_device_def bus_find_def split: option.splits dest!: find_SomeD)

subsection \<open>Operations as updates of a partial map\<close>

lemma find_device_unregister:
  assumes "bus_inv b"
  shows "find_device (unregister b d) a =
    (case find_device b a of
       None \<Rightarrow> None
     | Some (d', off, irq) \<Rightarrow> if d' = d then None else Some (d', off, irq))"
proof (cases "find_device b a")
  case None
  then have "find_device (unregister b d) a = None"
    by (auto simp: find_device_None_iff unregister_def)
  with None show ?thesis by simp
next
  case (Some x)
  obtain d' off irq where x: "x = (d', off, irq)" by (cases x)
  with Some obtain r where r: "r \<in> set b" "contains r a" "d' = device r" "off = a - base r"
      "irq = region_irq r"
    by (auto elim: find_device_SomeE)
  show ?thesis
  proof (cases "d' = d")
    case True
    have "\<not> contains s a" if "s \<in> set b" "device s \<noteq> d" for s
      using find_device_eq [OF assms r(1,2)] find_device_eq [OF assms that(1)] that(2) r(3) True by auto
    then have "find_device (unregister b d) a = None"
      by (auto simp: find_device_None_iff unregister_def)
    with Some x True show ?thesis by simp
  next
    case False
    with r have "r \<in> set (unregister b d)" by (simp add: unregister_def)
    with r assms have "find_device (unregister b d) a = Some (d', off, irq)"
      by (simp add: find_device_eq unregister_inv)
    with Some x False show ?thesis by simp
  qed
qed

lemma find_device_snoc:
  assumes "\<forall>r \<in> set b. regions_disjoint r s"
  shows "find_device (b @ [s]) a =
    (if contains s a then Some (device s, a - base s, region_irq s) else find_device b a)"
proof (cases "find (\<lambda>r. contains r a) b")
  case None
  then show ?thesis by (simp add: find_device_def bus_find_def find_append)
next
  case (Some r)
  then have "\<not> contains s a"
    using assms by (auto dest!: find_SomeD dest: disjoint_contains)
  with Some show ?thesis by (simp add: find_device_def bus_find_def find_append)
qed

locale address_space =
  fixes lookup :: "'b \<Rightarrow> u64 \<Rightarrow> (device_id \<times> u64 \<times> u32 option) option"
    and map_dev :: "'b \<Rightarrow> u64 \<Rightarrow> u64 \<Rightarrow> device_id \<Rightarrow> u32 option \<Rightarrow> 'b"
    and unmap :: "'b \<Rightarrow> device_id \<Rightarrow> 'b"
    and invar :: "'b \<Rightarrow> bool"
  assumes invar_map: "invar b \<Longrightarrow> invar (map_dev b bs sz d irq)"
    and invar_unmap: "invar b \<Longrightarrow> invar (unmap b d)"
    and lookup_unmap: "invar b \<Longrightarrow> lookup (unmap b d) a =
      (case lookup b a of None \<Rightarrow> None | Some (d', off, irq) \<Rightarrow> if d' = d then None else Some (d', off, irq))"
    and lookup_map_free: "\<lbrakk>invar b; sz \<noteq> 0;
       \<And>a. bs \<le> a \<Longrightarrow> a \<le> saturating_add bs (sz - 1) \<Longrightarrow> lookup (unmap b d) a = None\<rbrakk> \<Longrightarrow>
      lookup (map_dev b bs sz d irq) a =
        (if bs \<le> a \<and> a \<le> saturating_add bs (sz - 1) then Some (d, a - bs, irq) else lookup (unmap b d) a)"
    and lookup_map_clash: "\<lbrakk>invar b; bs \<le> a'; a' \<le> saturating_add bs (sz - 1);
       lookup (unmap b d) a' \<noteq> None\<rbrakk> \<Longrightarrow> lookup (map_dev b bs sz d irq) a = lookup (unmap b d) a"
begin

lemma unmap_no_device: "invar b \<Longrightarrow> lookup (unmap b d) a \<noteq> Some (d, off, irq)"
  by (simp add: lookup_unmap split: option.splits)

lemma unmap_other:
  "invar b \<Longrightarrow> lookup b a = Some (d', off, irq) \<Longrightarrow> d' \<noteq> d \<Longrightarrow> lookup (unmap b d) a = Some (d', off, irq)"
  by (simp add: lookup_unmap)

text \<open>Mapping a device never takes an address away from another device.\<close>

lemma map_keeps_others:
  assumes "invar b" and "sz \<noteq> 0" and "lookup b a = Some (d', off, irq')" and "d' \<noteq> d"
  shows "lookup (map_dev b bs sz d irq) a = Some (d', off, irq')"
proof (cases "\<forall>a. bs \<le> a \<and> a \<le> saturating_add bs (sz - 1) \<longrightarrow> lookup (unmap b d) a = None")
  case True
  have "lookup (unmap b d) a = Some (d', off, irq')" using assms unmap_other by blast
  with True have "\<not> (bs \<le> a \<and> a \<le> saturating_add bs (sz - 1))" by (metis option.distinct(1))
  with True assms lookup_map_free [of b sz bs d irq a] unmap_other [of b a] show ?thesis by auto
next
  case False
  then obtain a' where "bs \<le> a'" "a' \<le> saturating_add bs (sz - 1)" "lookup (unmap b d) a' \<noteq> None"
    by blast
  with assms lookup_map_clash unmap_other show ?thesis by metis
qed

text \<open>Whatever happens, the device answers afterwards only inside the range it asked for.\<close>

lemma map_only_new_range:
  assumes "invar b" and "sz \<noteq> 0" and "lookup (map_dev b bs sz d irq) a = Some (d, off, irq')"
  shows "bs \<le> a \<and> a \<le> saturating_add bs (sz - 1) \<and> off = a - bs"
proof (cases "\<forall>a. bs \<le> a \<and> a \<le> saturating_add bs (sz - 1) \<longrightarrow> lookup (unmap b d) a = None")
  case True
  then show ?thesis
    using assms lookup_map_free [of b sz bs d irq a] unmap_no_device [of b d a]
    by (auto split: if_splits)
next
  case False
  then obtain a' where "bs \<le> a'" "a' \<le> saturating_add bs (sz - 1)" "lookup (unmap b d) a' \<noteq> None"
    by blast
  with assms lookup_map_clash unmap_no_device show ?thesis by metis
qed

end

lemma overlap_witness:
  assumes "base r \<le> last_addr r" and "bs \<le> (l :: u64)"
  shows "bs \<le> last_addr r \<and> base r \<le> l \<longleftrightarrow> (\<exists>a. bs \<le> a \<and> a \<le> l \<and> contains r a)"
proof
  assume "bs \<le> last_addr r \<and> base r \<le> l"
  then have "bs \<le> max bs (base r) \<and> max bs (base r) \<le> l \<and> contains r (max bs (base r))"
    using assms by (simp add: contains_def)
  then show "\<exists>a. bs \<le> a \<and> a \<le> l \<and> contains r a" by blast
qed (auto simp: contains_def intro: order_trans)

lemma bus_inv_nonempty: "bus_inv b \<Longrightarrow> r \<in> set b \<Longrightarrow> base r \<le> last_addr r"
  by (induction b) auto

lemma register_clash_iff:
  assumes "bus_inv b" and "bs \<le> l"
  shows "find (\<lambda>r. bs \<le> last_addr r \<and> base r \<le> l) b = None \<longleftrightarrow>
    (\<forall>a. bs \<le> a \<and> a \<le> l \<longrightarrow> find_device b a = None)"
proof -
  have "find (\<lambda>r. bs \<le> last_addr r \<and> base r \<le> l) b = None \<longleftrightarrow>
      (\<forall>r \<in> set b. \<not> (bs \<le> last_addr r \<and> base r \<le> l))"
    by (auto simp: find_None_iff)
  also have "\<dots> \<longleftrightarrow> (\<forall>r \<in> set b. \<not> (\<exists>a. bs \<le> a \<and> a \<le> l \<and> contains r a))"
    using overlap_witness [OF bus_inv_nonempty [OF assms(1)] assms(2)] by simp
  also have "\<dots> \<longleftrightarrow> (\<forall>a. bs \<le> a \<and> a \<le> l \<longrightarrow> find_device b a = None)"
    unfolding find_device_None_iff by blast
  finally show ?thesis .
qed

lemma register_free:
  assumes "sz \<noteq> 0" and "find (\<lambda>r. bs \<le> last_addr r \<and> base r \<le> saturating_add bs (sz - 1)) (unregister b d) = None"
  shows "find_device (register b bs sz d irq) a =
    (if bs \<le> a \<and> a \<le> saturating_add bs (sz - 1) then Some (d, a - bs, irq)
     else find_device (unregister b d) a)"
proof -
  let ?s = "\<lparr>base = bs, last_addr = saturating_add bs (sz - 1), device = d, region_irq = irq\<rparr>"
  have "register b bs sz d irq = unregister b d @ [?s]"
    using assms by (simp add: register_def Let_def)
  moreover have "\<forall>r \<in> set (unregister b d). regions_disjoint r ?s"
    using assms(2) by (auto simp: find_None_iff regions_disjoint_def not_le)
  ultimately show ?thesis
    by (simp add: find_device_snoc contains_def)
qed

lemma register_refused:
  assumes "find (\<lambda>r. bs \<le> last_addr r \<and> base r \<le> saturating_add bs (sz - 1)) (unregister b d) \<noteq> None"
  shows "register b bs sz d irq = unregister b d"
  using assms by (auto simp: register_def Let_def)

interpretation db: address_space find_device register unregister bus_inv
proof (standard, goal_cases)
  case (1 b bs sz d irq)
  then show ?case by (rule register_inv)
next
  case (2 b d)
  then show ?case by (rule unregister_inv)
next
  case (3 b d a)
  then show ?case by (rule find_device_unregister)
next
  case (4 b sz bs d irq a)
  have "find (\<lambda>r. bs \<le> last_addr r \<and> base r \<le> saturating_add bs (sz - 1)) (unregister b d) = None"
    using 4 register_clash_iff [OF unregister_inv [OF 4(1)] saturating_last_ge] by blast
  with 4(2) show ?case by (rule register_free)
next
  case (5 b bs a' sz d irq a)
  have "find (\<lambda>r. bs \<le> last_addr r \<and> base r \<le> saturating_add bs (sz - 1)) (unregister b d) \<noteq> None"
    using register_clash_iff [OF unregister_inv [OF 5(1)] saturating_last_ge, of bs "sz - 1" d] 5(2-4)
    by metis
  then show ?case by (simp add: register_refused)
qed

subsection \<open>Properties\<close>

text \<open>The bus refines a partial map from addresses to devices: registering on a bus whose regions
  are disjoint keeps them disjoint, takes no address away from any other device, and the device
  answers afterwards only inside the range it asked for, at the right offset.\<close>

lemma register_refines_map:
  assumes "bus_inv b" and "sz \<noteq> 0"
  shows "bus_inv (register b bs sz d irq) \<and>
    (\<forall>a d' off i. d' \<noteq> d \<and> find_device b a = Some (d', off, i) \<longrightarrow>
       find_device (register b bs sz d irq) a = Some (d', off, i)) \<and>
    (\<forall>a off i. find_device (register b bs sz d irq) a = Some (d, off, i) \<longrightarrow>
       bs \<le> a \<and> a \<le> saturating_add bs (sz - 1) \<and> off = a - bs)"
  using assms
  by (auto simp: register_inv dest: db.map_only_new_range intro: db.map_keeps_others [OF assms])

definition demo_bus :: bus where
  "demo_bus = register bus_new 0x1000 0x100 7 (Some 5)"

lemma register_refines_map_example:
  "find_device (register demo_bus 0x10f0 0x20 8 None) 0x10f8 = Some (7, 0xf8, Some 5)"
proof -
  have "bus_inv demo_bus" by (simp add: demo_bus_def register_inv bus_new_def)
  moreover have "find_device demo_bus 0x10f8 = Some (7, 0xf8, Some 5)"
    by (simp add: demo_bus_def register_def unregister_def bus_new_def find_device_def bus_find_def contains_def
        saturating_add_def)
  ultimately show ?thesis
    using register_refines_map [where b = demo_bus and sz = "0x20"] by auto
qed

text \<open>The DMA confinement check admits a transfer exactly when it lies inside the declared range as
  mathematical intervals: no wrap-around of either bound can admit one that does not.\<close>

lemma dma_range_allows_exact:
  "dma_range_allows (Some (bs, sz)) addr len \<longleftrightarrow>
     unat bs \<le> unat addr \<and> unat addr + unat len \<le> unat bs + unat sz \<and> unat bs + unat sz < 2 ^ 64"
  by (auto simp: dma_range_allows_def checked_add_def word_le_nat_alt unat_simps split: option.splits)

end
