(* ===== verification/Pci_Bus.thy ===== *)
theory Pci_Bus
  imports Device_Bus Snapshot_Codec
begin

text \<open>
  The PCI bus (\<open>src/pci.rs\<close>): the CF8/CFC configuration mechanism, base address registers and
  their mapping into the MMIO and port buses of \<open>Device_Bus\<close>, the MSI capability, the
  \<open>KVM_IOEVENTFD\<close> bindings, and the snapshot of the configuration space.

  KVM's side of an ioeventfd is a parameter: \<open>kvm_ops\<close> gives the result of the two ioctls on an
  abstract kernel state \<open>'k\<close>. A device is the record of the answers \<open>trait PciDevice\<close> gives at
  registration; the results of \<open>EventFd::new\<close> are an argument of \<open>pci_register\<close>.
\<close>

definition CONFIG_ADDRESS :: u16 where "CONFIG_ADDRESS = 0xcf8"
definition CONFIG_DATA :: u16 where "CONFIG_DATA = 0xcfc"
definition CONFIG_DATA_END :: u16 where "CONFIG_DATA_END = CONFIG_DATA + 3"
definition NUM_BARS :: nat where "NUM_BARS = 6"
definition BAR_OFFSET :: u16 where "BAR_OFFSET = 0x10"
definition BAR_OFFSET_END :: u16 where "BAR_OFFSET_END = BAR_OFFSET + (of_nat NUM_BARS - 1) * 4"
definition REG_ID :: u16 where "REG_ID = 0x00"
definition REG_COMMAND_STATUS :: u16 where "REG_COMMAND_STATUS = 0x04"
definition REG_CLASS :: u16 where "REG_CLASS = 0x08"
definition REG_HEADER_TYPE :: u16 where "REG_HEADER_TYPE = 0x0c"
definition REG_SUBSYSTEM :: u16 where "REG_SUBSYSTEM = 0x2c"
definition REG_CAPABILITIES_PTR :: u16 where "REG_CAPABILITIES_PTR = 0x34"
definition REG_INTERRUPT :: u16 where "REG_INTERRUPT = 0x3c"
definition STATUS_CAP_LIST :: u16 where "STATUS_CAP_LIST = 0x0010"
definition CAP_ID_MSI :: u8 where "CAP_ID_MSI = 0x05"
definition MSI_CAP_OFFSET :: u16 where "MSI_CAP_OFFSET = 0x40"
definition MSI_CAP_ADDRESS :: u16 where "MSI_CAP_ADDRESS = MSI_CAP_OFFSET + 4"
definition MSI_CAP_DATA :: u16 where "MSI_CAP_DATA = MSI_CAP_OFFSET + 8"
definition MSI_CTRL_ENABLE :: u16 where "MSI_CTRL_ENABLE = push_bit 0 1"
definition MSI_CTRL_BYTE :: u16 where "MSI_CTRL_BYTE = 2"
definition EXTRA_CAP_OFFSET :: u16 where "EXTRA_CAP_OFFSET = 0x50"

lemmas pci_reg_defs = CONFIG_ADDRESS_def CONFIG_DATA_def CONFIG_DATA_END_def NUM_BARS_def BAR_OFFSET_def
  BAR_OFFSET_END_def REG_ID_def REG_COMMAND_STATUS_def REG_CLASS_def REG_HEADER_TYPE_def REG_SUBSYSTEM_def
  REG_CAPABILITIES_PTR_def REG_INTERRUPT_def MSI_CAP_OFFSET_def MSI_CAP_ADDRESS_def MSI_CAP_DATA_def
  MSI_CTRL_BYTE_def EXTRA_CAP_OFFSET_def

record pci_identity =
  id_vendor_id :: u16
  id_device_id :: u16
  id_subsystem_vendor_id :: u16
  id_subsystem_device_id :: u16
  id_class_code :: u32
  id_revision_id :: u8
  id_interrupt_line :: u8
  id_interrupt_pin :: u8
  id_msi_capable :: bool
  id_extra_caps :: bytes

text \<open>The answers of \<open>trait PciDevice\<close>: the identity of \<open>PciIdentity::snapshot\<close>, BARs, ioevents.\<close>

record pci_device =
  dev_identity :: pci_identity
  dev_bar_sizes :: "u32 list"
  dev_bar_is_io :: "nat \<Rightarrow> bool"
  dev_ioevent_entries :: "(u8 \<times> u64 \<times> u16) list"

definition host_bridge :: pci_device where
  "host_bridge = \<lparr>dev_identity = \<lparr>id_vendor_id = 0x1234, id_device_id = 0x0001, id_subsystem_vendor_id = 0,
       id_subsystem_device_id = 0, id_class_code = 0x060000, id_revision_id = 0, id_interrupt_line = 0,
       id_interrupt_pin = 0, id_msi_capable = False, id_extra_caps = []\<rparr>,
     dev_bar_sizes = replicate 6 0, dev_bar_is_io = (\<lambda>_. False), dev_ioevent_entries = []\<rparr>"

definition identity_irq :: "pci_identity \<Rightarrow> u32 option" where
  "identity_irq i = then_some (id_interrupt_line i \<noteq> 0) (ucast (id_interrupt_line i))"

record bar_state =
  bar_size :: u32
  bar_io :: bool
  bar_base :: "u32 option"
  bar_sizing :: bool

definition align_mask :: "bar_state \<Rightarrow> u32" where
  "align_mask b = (if bar_io b then NOT 0x3 else NOT 0xf)"

definition space_bit :: "bar_state \<Rightarrow> u32" where
  "space_bit b = of_bool (bar_io b)"

definition implemented :: "bar_state \<Rightarrow> bool" where
  "implemented b \<longleftrightarrow> bar_size b \<noteq> 0"

record msi_regs =
  msi_enabled :: bool
  msi_address :: u32
  msi_data :: u16

definition msi_default :: msi_regs where
  "msi_default = \<lparr>msi_enabled = False, msi_address = 0, msi_data = 0\<rparr>"

record ioevent_binding =
  ie_bar :: u8
  ie_offset :: u64
  ie_match :: u16
  ie_fd :: nat
  ie_addr :: "u64 option"

record pci_slot =
  s_identity :: pci_identity
  s_device :: device_id
  s_bars :: "bar_state list"
  s_command :: u16
  s_msi :: msi_regs
  s_ioevents :: "ioevent_binding list"

text \<open>The two ioctls: (port space?, address, datamatch, eventfd) to success and new kernel state.\<close>

record 'k kvm_ops =
  register_ioevent :: "'k \<Rightarrow> bool \<Rightarrow> u64 \<Rightarrow> u16 \<Rightarrow> nat \<Rightarrow> bool \<times> 'k"
  unregister_ioevent :: "'k \<Rightarrow> bool \<Rightarrow> u64 \<Rightarrow> u16 \<Rightarrow> nat \<Rightarrow> bool \<times> 'k"

record 'k pci_bus =
  slots :: "(u8 \<times> pci_slot) list"
  config_address :: u32
  pci_vm :: "'k option"

definition pci_with_vm :: "'k \<Rightarrow> 'k pci_bus" where
  "pci_with_vm k = \<lparr>slots = [], config_address = 0, pci_vm = Some k\<rparr>"

definition owns_port :: "u16 \<Rightarrow> bool" where
  "owns_port port \<longleftrightarrow> port = CONFIG_ADDRESS \<or> CONFIG_DATA \<le> port \<and> port \<le> CONFIG_DATA_END"

datatype pci_error = Devfn_in_use u8 | Eventfd_failed u8

text \<open>The loop that creates one eventfd per entry; \<open>None\<close> is a failed \<open>EventFd::new\<close>.\<close>

fun make_ioevents :: "(u8 \<times> u64 \<times> u16) list \<Rightarrow> nat option list \<Rightarrow> (ioevent_binding list \<times> (nat \<times> u16) list) option" where
  "make_ioevents [] fds = Some ([], [])"
| "make_ioevents ((bi, off, dm) # es) (Some fd # fds) =
     (case make_ioevents es fds of
        None \<Rightarrow> None
      | Some (bs, outs) \<Rightarrow>
          Some (\<lparr>ie_bar = bi, ie_offset = off, ie_match = dm, ie_fd = fd, ie_addr = None\<rparr> # bs, (fd, dm) # outs))"
| "make_ioevents (e # es) fds = None"

definition pci_register ::
  "'k pci_bus \<Rightarrow> u8 \<Rightarrow> pci_device \<Rightarrow> device_id \<Rightarrow> nat option list \<Rightarrow> pci_error + ((nat \<times> u16) list \<times> 'k pci_bus)" where
  "pci_register bus devfn dev mmio_device fds =
     (if list_ex (\<lambda>(d, s). d = devfn) (slots bus) then Inl (Devfn_in_use devfn)
      else
        let bars = map (\<lambda>i. \<lparr>bar_size = dev_bar_sizes dev ! i, bar_io = dev_bar_is_io dev i, bar_base = None,
                         bar_sizing = False\<rparr>) [0..<NUM_BARS] in
        (case make_ioevents (dev_ioevent_entries dev) fds of
           None \<Rightarrow> Inl (Eventfd_failed devfn)
         | Some (ioevents, notify_out) \<Rightarrow>
             Inr (notify_out, bus\<lparr>slots := slots bus @ [(devfn,
               \<lparr>s_identity = dev_identity dev, s_device = mmio_device, s_bars = bars, s_command = 0,
                s_msi = msi_default, s_ioevents = ioevents\<rparr>)]\<rparr>)))"

definition decode_address :: "'k pci_bus \<Rightarrow> (u8 \<times> u16) option" where
  "decode_address bus =
     (let a = config_address bus in
      if a AND 0x80000000 = 0 then None
      else if drop_bit 16 a AND 0xff \<noteq> 0 then None
      else Some (ucast (drop_bit 8 a AND 0xff), ucast (a AND 0xfc)))"

definition find_slot :: "(u8 \<times> pci_slot) list \<Rightarrow> u8 \<Rightarrow> pci_slot option" where
  "find_slot ss devfn = map_option snd (find (\<lambda>(d, s). d = devfn) ss)"

text \<open>Writing through the \<open>&mut Slot\<close> that \<open>find_slot\<close> returned.\<close>

fun put_slot :: "(u8 \<times> pci_slot) list \<Rightarrow> u8 \<Rightarrow> pci_slot \<Rightarrow> (u8 \<times> pci_slot) list" where
  "put_slot [] devfn s = []"
| "put_slot ((d, s0) # ss) devfn s = (if d = devfn then (d, s) # ss else (d, s0) # put_slot ss devfn s)"

definition bar_index :: "u16 \<Rightarrow> nat option" where
  "bar_index reg =
     then_some (BAR_OFFSET \<le> reg \<and> reg \<le> BAR_OFFSET_END \<and> (reg - BAR_OFFSET) mod 4 = 0)
       (unat ((reg - BAR_OFFSET) div 4))"

definition read_extra_cap :: "bytes \<Rightarrow> u16 \<Rightarrow> u32" where
  "read_extra_cap bs reg =
     (if reg < EXTRA_CAP_OFFSET then 0
      else of_le (take 4 (drop (unat (reg - EXTRA_CAP_OFFSET)) bs)))"

definition read_bar :: "bar_state \<Rightarrow> bool \<Rightarrow> u32 \<times> bar_state" where
  "read_bar b full_dword =
     (if \<not> implemented b then (0, b)
      else if bar_sizing b then
        ((NOT (bar_size b - 1) AND align_mask b) OR space_bit b, if full_dword then b\<lparr>bar_sizing := False\<rparr> else b)
      else (case bar_base b of None \<Rightarrow> 0 | Some a \<Rightarrow> a OR space_bit b, b))"

text \<open>The \<open>match reg\<close> of \<open>config_read\<close>; only a BAR read can change the slot.\<close>

definition config_dword :: "pci_slot \<Rightarrow> u16 \<Rightarrow> bool \<Rightarrow> u32 \<times> pci_slot" where
  "config_dword s reg full_dword =
     (let i = s_identity s; has_caps = (id_msi_capable i \<or> id_extra_caps i \<noteq> []) in
      if reg = REG_ID then (push_bit 16 (ucast (id_device_id i)) OR ucast (id_vendor_id i), s)
      else if reg = REG_COMMAND_STATUS then
        (push_bit 16 (ucast (if has_caps then STATUS_CAP_LIST else 0)) OR ucast (s_command s), s)
      else if reg = REG_CLASS then (push_bit 8 (id_class_code i) OR ucast (id_revision_id i), s)
      else if reg = REG_HEADER_TYPE then (0, s)
      else if reg = REG_SUBSYSTEM then
        (push_bit 16 (ucast (id_subsystem_device_id i)) OR ucast (id_subsystem_vendor_id i), s)
      else if reg = REG_CAPABILITIES_PTR \<and> id_msi_capable i then (ucast MSI_CAP_OFFSET, s)
      else if reg = REG_CAPABILITIES_PTR \<and> id_extra_caps i \<noteq> [] then (ucast EXTRA_CAP_OFFSET, s)
      else if reg = REG_INTERRUPT then
        (ucast (id_interrupt_line i) OR push_bit 8 (ucast (id_interrupt_pin i)), s)
      else if reg = MSI_CAP_OFFSET \<and> id_msi_capable i then
        let ctrl = (if msi_enabled (s_msi s) then MSI_CTRL_ENABLE else 0);
            nxt = (if id_extra_caps i = [] then 0 else ucast EXTRA_CAP_OFFSET) :: u32
        in (ucast CAP_ID_MSI OR push_bit 8 nxt OR push_bit 16 (ucast ctrl), s)
      else if reg = MSI_CAP_ADDRESS \<and> id_msi_capable i then (msi_address (s_msi s), s)
      else if reg = MSI_CAP_DATA \<and> id_msi_capable i then (ucast (msi_data (s_msi s)), s)
      else
        case bar_index reg of
          Some j \<Rightarrow> (case read_bar (s_bars s ! j) full_dword of (v, b) \<Rightarrow> (v, s\<lparr>s_bars := (s_bars s)[j := b]\<rparr>))
        | None \<Rightarrow> (read_extra_cap (id_extra_caps i) reg, s))"

definition config_read :: "'k pci_bus \<Rightarrow> u16 \<Rightarrow> nat \<Rightarrow> bytes \<times> 'k pci_bus" where
  "config_read bus byte_offset n =
     (case decode_address bus of
        None \<Rightarrow> (replicate n 0xff, bus)
      | Some (devfn, reg) \<Rightarrow>
          let full_dword = (byte_offset = 0 \<and> n = 4) in
          (case find_slot (slots bus) devfn of
             None \<Rightarrow> (replicate n 0xff, bus)
           | Some s \<Rightarrow>
               (case config_dword s reg full_dword of (dword, s') \<Rightarrow>
                  let off = unat (byte_offset mod 4); k = min n (4 - off)
                  in (take k (drop off (le32 dword)) @ replicate (n - k) 0xff,
                      bus\<lparr>slots := put_slot (slots bus) devfn s'\<rparr>))))"

text \<open>\<open>rebind_ioevents\<close>: its loop over the bindings of one BAR, with the kernel state threaded through.\<close>

fun rebind_all ::
  "'k kvm_ops \<Rightarrow> nat \<Rightarrow> bool \<Rightarrow> u32 \<Rightarrow> ioevent_binding list \<Rightarrow> 'k \<Rightarrow> ioevent_binding list \<times> 'k" where
  "rebind_all kops index is_io bs [] k = ([], k)"
| "rebind_all kops index is_io bs (b # rest) k =
     (if unat (ie_bar b) \<noteq> index
      then (case rebind_all kops index is_io bs rest k of (r, k') \<Rightarrow> (b # r, k'))
      else
        let k1 = (case ie_addr b of
                    None \<Rightarrow> k
                  | Some old \<Rightarrow> snd (unregister_ioevent kops k is_io old (ie_match b) (ie_fd b)));
            b1 = b\<lparr>ie_addr := None\<rparr>;
            new_addr = ucast bs + ie_offset b;
            (b2, k2) =
              (if bs = 0 then (b1, k1)
               else (case register_ioevent kops k1 is_io new_addr (ie_match b) (ie_fd b) of (ok, k2) \<Rightarrow>
                       (if ok then b1\<lparr>ie_addr := Some new_addr\<rparr> else b1, k2)))
        in (case rebind_all kops index is_io bs rest k2 of (r, k') \<Rightarrow> (b2 # r, k')))"

definition rebind_ioevents ::
  "'k kvm_ops \<Rightarrow> pci_slot \<Rightarrow> nat \<Rightarrow> bool \<Rightarrow> u32 \<Rightarrow> 'k option \<Rightarrow> pci_slot \<times> 'k option" where
  "rebind_ioevents kops s index is_io bs v =
     (case v of
        None \<Rightarrow> (s, None)
      | Some k \<Rightarrow>
          (case rebind_all kops index is_io bs (s_ioevents s) k of (ies, k') \<Rightarrow> (s\<lparr>s_ioevents := ies\<rparr>, Some k')))"

text \<open>The two buses a BAR can be mapped in.\<close>

type_synonym buses = "bus \<times> bus"

definition on_bus :: "bool \<Rightarrow> (bus \<Rightarrow> bus) \<Rightarrow> buses \<Rightarrow> buses" where
  "on_bus is_io f bb = (case bb of (mmio, io) \<Rightarrow> if is_io then (mmio, f io) else (f mmio, io))"

definition write_bar ::
  "'k kvm_ops \<Rightarrow> pci_slot \<Rightarrow> nat \<Rightarrow> u32 \<Rightarrow> buses \<Rightarrow> 'k option \<Rightarrow> pci_slot \<times> buses \<times> 'k option" where
  "write_bar kops s index val bb v =
     (let irq = identity_irq (s_identity s); b = s_bars s ! index in
      if \<not> implemented b then (s, bb, v)
      else if val = 0xffffffff then (s\<lparr>s_bars := (s_bars s)[index := b\<lparr>bar_sizing := True\<rparr>]\<rparr>, bb, v)
      else
        let bs = val AND align_mask b; is_io = bar_io b;
            s1 = s\<lparr>s_bars := (s_bars s)[index := b\<lparr>bar_base := Some bs\<rparr>]\<rparr>;
            bb' = on_bus is_io
              (\<lambda>bus. if bs = 0 then unregister bus (s_device s)
                     else register bus (ucast bs) (ucast (bar_size b)) (s_device s) irq) bb
        in (case rebind_ioevents kops s1 index is_io bs v of (s2, v') \<Rightarrow> (s2, bb', v')))"

definition config_write ::
  "'k kvm_ops \<Rightarrow> 'k pci_bus \<Rightarrow> u16 \<Rightarrow> bytes \<Rightarrow> buses \<Rightarrow> 'k pci_bus \<times> buses" where
  "config_write kops bus byte_offset data bb =
     (case decode_address bus of
        None \<Rightarrow> (bus, bb)
      | Some (devfn, reg) \<Rightarrow>
          (case find_slot (slots bus) devfn of
             None \<Rightarrow> (bus, bb)
           | Some s \<Rightarrow>
               let msi_capable = id_msi_capable (s_identity s);
                   put = (\<lambda>s'. bus\<lparr>slots := put_slot (slots bus) devfn s'\<rparr>)
               in
               if reg = REG_COMMAND_STATUS \<and> byte_offset = 0 \<and> 2 \<le> length data then
                 (put (s\<lparr>s_command := of_le (take 2 data)\<rparr>), bb)
               else if reg = MSI_CAP_OFFSET \<and> msi_capable \<and> byte_offset = MSI_CTRL_BYTE \<and> 2 \<le> length data then
                 (put (s\<lparr>s_msi := (s_msi s)\<lparr>msi_enabled := ((of_le (take 2 data) :: u16) AND MSI_CTRL_ENABLE \<noteq> 0)\<rparr>\<rparr>), bb)
               else if reg = MSI_CAP_ADDRESS \<and> msi_capable \<and> byte_offset = 0 \<and> length data = 4 then
                 (put (s\<lparr>s_msi := (s_msi s)\<lparr>msi_address := of_le data\<rparr>\<rparr>), bb)
               else if reg = MSI_CAP_DATA \<and> msi_capable \<and> byte_offset = 0 \<and> 2 \<le> length data then
                 (put (s\<lparr>s_msi := (s_msi s)\<lparr>msi_data := of_le (take 2 data)\<rparr>\<rparr>), bb)
               else
                 (case bar_index reg of
                    Some i \<Rightarrow>
                      if byte_offset = 0 \<and> length data = 4 then
                        (case write_bar kops s i (of_le data) bb (pci_vm bus) of (s', bb', v') \<Rightarrow>
                           ((put s')\<lparr>pci_vm := v'\<rparr>, bb'))
                      else (bus, bb)
                  | None \<Rightarrow> (bus, bb))))"

definition io_out :: "'k kvm_ops \<Rightarrow> 'k pci_bus \<Rightarrow> u16 \<Rightarrow> bytes \<Rightarrow> buses \<Rightarrow> 'k pci_bus \<times> buses" where
  "io_out kops bus port data bb =
     (if port = CONFIG_ADDRESS \<and> length data = 4 then (bus\<lparr>config_address := of_le data\<rparr>, bb)
      else if CONFIG_DATA \<le> port \<and> port \<le> CONFIG_DATA_END then config_write kops bus (port - CONFIG_DATA) data bb
      else (bus, bb))"

definition io_in :: "'k pci_bus \<Rightarrow> u16 \<Rightarrow> nat \<Rightarrow> bytes \<times> 'k pci_bus" where
  "io_in bus port n =
     (if port = CONFIG_ADDRESS \<and> n = 4 then (le32 (config_address bus), bus)
      else if CONFIG_DATA \<le> port \<and> port \<le> CONFIG_DATA_END then config_read bus (port - CONFIG_DATA) n
      else (replicate n 0xff, bus))"

definition msi_state :: "'k pci_bus \<Rightarrow> u8 \<Rightarrow> (u32 \<times> u16) option" where
  "msi_state bus devfn =
     (case find_slot (slots bus) devfn of
        None \<Rightarrow> None
      | Some s \<Rightarrow> then_some (msi_enabled (s_msi s)) (msi_address (s_msi s), msi_data (s_msi s)))"

subsection \<open>Snapshot\<close>

definition save_bar :: "bar_state \<Rightarrow> bytes" where
  "save_bar b = (case bar_base b of Some a \<Rightarrow> 1 # le32 a | None \<Rightarrow> [0])"

definition save_slot :: "u8 \<times> pci_slot \<Rightarrow> bytes" where
  "save_slot = (\<lambda>(devfn, s). devfn # concat (map save_bar (s_bars s)) @ le16 (s_command s) @
     [of_bool (msi_enabled (s_msi s))] @ le32 (msi_address (s_msi s)) @ le16 (msi_data (s_msi s)))"

definition pci_save_state :: "'k pci_bus \<Rightarrow> bytes" where
  "pci_save_state bus = le32 (of_nat (length (slots bus))) @ concat (map save_slot (slots bus))"

text \<open>The six optional BAR values of one slot.\<close>

fun take_bars :: "nat \<Rightarrow> bytes \<Rightarrow> (u32 option list) taken" where
  "take_bars 0 buf = Inr ([], buf)"
| "take_bars (Suc n) buf =
     (case take_u8 buf of
        Inl e \<Rightarrow> Inl e
      | Inr (tag, buf) \<Rightarrow>
          if tag \<noteq> 0 then
            (case take_u32 buf of
               Inl e \<Rightarrow> Inl e
             | Inr (a, buf) \<Rightarrow>
                 (case take_bars n buf of Inl e \<Rightarrow> Inl e | Inr (bars, buf) \<Rightarrow> Inr (Some a # bars, buf)))
          else (case take_bars n buf of Inl e \<Rightarrow> Inl e | Inr (bars, buf) \<Rightarrow> Inr (None # bars, buf)))"

definition take_slot :: "bytes \<Rightarrow> (u8 \<times> u32 option list \<times> u16 \<times> msi_regs) taken" where
  "take_slot buf =
     (case take_u8 buf of Inl e \<Rightarrow> Inl e | Inr (devfn, buf) \<Rightarrow>
     (case take_bars NUM_BARS buf of Inl e \<Rightarrow> Inl e | Inr (bars, buf) \<Rightarrow>
     (case take_u16 buf of Inl e \<Rightarrow> Inl e | Inr (command, buf) \<Rightarrow>
     (case take_u8 buf of Inl e \<Rightarrow> Inl e | Inr (en, buf) \<Rightarrow>
     (case take_u32 buf of Inl e \<Rightarrow> Inl e | Inr (addr, buf) \<Rightarrow>
     (case take_u16 buf of Inl e \<Rightarrow> Inl e | Inr (data, buf) \<Rightarrow>
        Inr ((devfn, bars, command, \<lparr>msi_enabled = (en \<noteq> 0), msi_address = addr, msi_data = data\<rparr>), buf)))))))"

fun restore_bars ::
  "'k kvm_ops \<Rightarrow> nat \<Rightarrow> u32 option list \<Rightarrow> pci_slot \<Rightarrow> buses \<Rightarrow> 'k option \<Rightarrow> pci_slot \<times> buses \<times> 'k option" where
  "restore_bars kops i [] s bb v = (s, bb, v)"
| "restore_bars kops i (None # bars) s bb v = restore_bars kops (Suc i) bars s bb v"
| "restore_bars kops i (Some a # bars) s bb v =
     (case write_bar kops s i a bb v of (s', bb', v') \<Rightarrow> restore_bars kops (Suc i) bars s' bb' v')"

fun restore_slots ::
  "'k kvm_ops \<Rightarrow> nat \<Rightarrow> bytes \<Rightarrow> 'k pci_bus \<Rightarrow> buses \<Rightarrow> (snap_error + unit) \<times> 'k pci_bus \<times> buses" where
  "restore_slots kops 0 buf bus bb = (Inr (), bus, bb)"
| "restore_slots kops (Suc n) buf bus bb =
     (case take_slot buf of
        Inl e \<Rightarrow> (Inl e, bus, bb)
      | Inr ((devfn, bars, command, msi), buf') \<Rightarrow>
          (case find_slot (slots bus) devfn of
             None \<Rightarrow> (Inl (Unknown_devfn devfn), bus, bb)
           | Some s \<Rightarrow>
               (case restore_bars kops 0 bars (s\<lparr>s_command := command, s_msi := msi\<rparr>) bb (pci_vm bus) of
                  (s', bb', v') \<Rightarrow>
                    restore_slots kops n buf'
                      (bus\<lparr>slots := put_slot (slots bus) devfn s', pci_vm := v'\<rparr>) bb')))"

definition pci_restore_state ::
  "'k kvm_ops \<Rightarrow> bytes \<Rightarrow> 'k pci_bus \<Rightarrow> buses \<Rightarrow> (snap_error + unit) \<times> 'k pci_bus \<times> buses" where
  "pci_restore_state kops data bus bb =
     (case take_u32 data of
        Inl e \<Rightarrow> (Inl e, bus, bb)
      | Inr (count, buf) \<Rightarrow> restore_slots kops (unat count) buf bus bb)"

subsection \<open>Slots\<close>

lemma find_slot_simps [simp]:
  "find_slot [] d = None"
  "find_slot ((e, s) # ss) d = (if e = d then Some s else find_slot ss d)"
  by (simp_all add: find_slot_def)

lemma find_put_slot: "find_slot ss d \<noteq> None \<Longrightarrow> find_slot (put_slot ss d s) e = (if e = d then Some s else find_slot ss e)"
  by (induction ss d s rule: put_slot.induct) auto

lemma put_put_slot [simp]: "put_slot (put_slot ss d s) d t = put_slot ss d t"
  by (induction ss d s rule: put_slot.induct) auto

lemma put_find_slot: "find_slot ss d = Some s \<Longrightarrow> put_slot ss d s = ss"
  by (induction ss d s rule: put_slot.induct) (auto split: if_splits)

lemma map_fst_put_slot [simp]: "map fst (put_slot ss d s) = map fst ss"
  by (induction ss d s rule: put_slot.induct) auto

lemma put_slot_all: "list_all (\<lambda>(d, s). P s) ss \<Longrightarrow> P s' \<Longrightarrow> list_all (\<lambda>(d, s). P s) (put_slot ss d s')"
  by (induction ss d s' rule: put_slot.induct) auto

lemma find_slot_all: "list_all (\<lambda>(d, s). P s) ss \<Longrightarrow> find_slot ss d = Some s \<Longrightarrow> P s"
  by (induction ss) (auto split: if_splits)

lemma write_bar_frame:
  assumes "write_bar kops s i v bb k = (s', bb', k')"
  shows "s_identity s' = s_identity s" "s_device s' = s_device s" "s_command s' = s_command s" "s_msi s' = s_msi s"
    and "s_bars s' = (let b = s_bars s ! i in
      if \<not> implemented b then s_bars s
      else if v = 0xffffffff then (s_bars s)[i := b\<lparr>bar_sizing := True\<rparr>]
      else (s_bars s)[i := b\<lparr>bar_base := Some (v AND align_mask b)\<rparr>])"
  using assms
  by (auto simp: write_bar_def rebind_ioevents_def Let_def split: if_splits option.splits prod.splits)

lemma write_bar_bus_inv:
  assumes "write_bar kops s i v (mm, io) k = (s', (mm', io'), k')" and "bus_inv mm" and "bus_inv io"
  shows "bus_inv mm' \<and> bus_inv io'"
  using assms
  by (auto simp: write_bar_def on_bus_def Let_def register_inv unregister_inv split: if_splits prod.splits)

subsection \<open>Invariant\<close>

definition bar_ok :: "bar_state \<Rightarrow> bool" where
  "bar_ok b \<longleftrightarrow> (case bar_base b of None \<Rightarrow> True | Some a \<Rightarrow> implemented b \<and> a AND align_mask b = a)"

definition slot_ok :: "pci_slot \<Rightarrow> bool" where
  "slot_ok s \<longleftrightarrow> length (s_bars s) = NUM_BARS \<and> list_all bar_ok (s_bars s) \<and>
     (\<not> id_msi_capable (s_identity s) \<longrightarrow> \<not> msi_enabled (s_msi s))"

definition pci_inv :: "'k pci_bus \<Rightarrow> buses \<Rightarrow> bool" where
  "pci_inv bus bb \<longleftrightarrow> distinct (map fst (slots bus)) \<and> list_all (\<lambda>(d, s). slot_ok s) (slots bus) \<and>
     bus_inv (fst bb) \<and> bus_inv (snd bb)"

lemma list_all_upd: "list_all P xs \<Longrightarrow> (i < length xs \<Longrightarrow> P x) \<Longrightarrow> list_all P (xs[i := x])"
  by (cases "i < length xs") (auto simp: list_all_length nth_list_update)

lemma bar_index_lt: "bar_index reg = Some i \<Longrightarrow> i < NUM_BARS"
proof -
  assume "bar_index reg = Some i"
  then have "i = unat ((reg - 0x10) div 4)" "reg \<le> 0x24" "0x10 \<le> reg"
    by (auto simp: bar_index_def pci_reg_defs)
  moreover from this(2,3) have "unat (reg - 0x10) = unat reg - 16" "unat reg \<le> 0x24"
    by (simp_all add: unat_simps word_le_nat_alt)
  ultimately show ?thesis by (simp add: NUM_BARS_def unat_div)
qed

lemma bar_ok_update:
  "bar_ok b \<Longrightarrow> bar_ok (b\<lparr>bar_sizing := x\<rparr>)"
  "implemented b \<Longrightarrow> bar_ok (b\<lparr>bar_base := Some (v AND align_mask b)\<rparr>)"
  by (auto simp: bar_ok_def implemented_def align_mask_def and.assoc split: option.splits)

lemma write_bar_slot_ok:
  assumes "write_bar kops s i v bb k = (s', bb', k')" and "slot_ok s" and "i < NUM_BARS"
  shows "slot_ok s'"
proof -
  have "bar_ok (s_bars s ! i)" using assms(2,3) by (simp add: slot_ok_def list_all_length)
  then show ?thesis
    using assms(2) write_bar_frame [OF assms(1)]
    by (auto simp: slot_ok_def Let_def bar_ok_update intro!: list_all_upd)
qed

lemma config_dword_slot_ok:
  assumes "config_dword s reg f = (v, s')" and "slot_ok s"
  shows "slot_ok s'"
proof (cases "s' = s")
  case False
  with assms(1) obtain j b where j: "bar_index reg = Some j" and s': "s' = s\<lparr>s_bars := (s_bars s)[j := b]\<rparr>"
    and b: "b = snd (read_bar (s_bars s ! j) f)"
    by (auto simp: config_dword_def Let_def split: if_splits option.splits prod.splits)
  have "bar_ok (s_bars s ! j)"
    using assms(2) bar_index_lt [OF j] by (simp add: slot_ok_def list_all_length)
  then have "bar_ok b" by (auto simp: b read_bar_def bar_ok_update)
  with assms(2) show ?thesis by (simp add: s' slot_ok_def list_all_upd)
qed (use assms in simp)

lemma config_write_inv:
  assumes "pci_inv bus bb" and "config_write kops bus off data bb = (bus', bb')"
  shows "pci_inv bus' bb'"
proof (cases "decode_address bus")
  case None
  with assms show ?thesis by (simp add: config_write_def)
next
  case (Some dr)
  obtain devfn reg where dr: "dr = (devfn, reg)" by (cases dr)
  show ?thesis
  proof (cases "find_slot (slots bus) devfn")
    case None
    with Some dr assms show ?thesis by (simp add: config_write_def)
  next
    case (Some s)
    have ok: "slot_ok s" using assms(1) Some by (auto simp: pci_inv_def intro: find_slot_all)
    have put: "pci_inv (bus\<lparr>slots := put_slot (slots bus) devfn s'\<rparr>) bb" if "slot_ok s'" for s'
      using assms(1) that put_slot_all [of slot_ok] by (auto simp: pci_inv_def)
    have bar: "pci_inv (bus\<lparr>slots := put_slot (slots bus) devfn s', pci_vm := v'\<rparr>) bb1"
      if "write_bar kops s i (of_le data) bb (pci_vm bus) = (s', bb1, v')" and "bar_index reg = Some i" for i s' bb1 v'
    proof -
      have "slot_ok s'" using write_bar_slot_ok [OF that(1) ok bar_index_lt [OF that(2)]] .
      moreover have "bus_inv (fst bb1) \<and> bus_inv (snd bb1)"
        using that(1) assms(1) by (cases bb; cases bb1) (auto simp: pci_inv_def dest: write_bar_bus_inv)
      ultimately show ?thesis
        using assms(1) put_slot_all [of slot_ok "slots bus" s' devfn] by (simp add: pci_inv_def)
    qed
    have msi: "slot_ok (s\<lparr>s_msi := x\<rparr>)" if "id_msi_capable (s_identity s)" for x
      using ok that by (simp add: slot_ok_def)
    have cmd: "slot_ok (s\<lparr>s_command := x\<rparr>)" for x using ok by (simp add: slot_ok_def)
    have "pci_inv (fst (config_write kops bus off data bb)) (snd (config_write kops bus off data bb))"
      using assms(1) Some \<open>decode_address bus = Some dr\<close>
      by (auto simp: config_write_def dr Let_def put msi cmd bar split: option.split prod.split)
    with assms(2) show ?thesis by simp
  qed
qed

text \<open>A concrete bus: one device at devfn 8 with a 4 KiB and a 256 byte memory BAR, no KVM behind it.\<close>

definition demo_kvm :: "unit kvm_ops" where
  "demo_kvm = \<lparr>register_ioevent = (\<lambda>k _ _ _ _. (True, k)), unregister_ioevent = (\<lambda>k _ _ _ _. (True, k))\<rparr>"

definition demo_bars :: "bar_state list" where
  "demo_bars = \<lparr>bar_size = 0x1000, bar_io = False, bar_base = None, bar_sizing = False\<rparr> #
     \<lparr>bar_size = 0x100, bar_io = False, bar_base = None, bar_sizing = False\<rparr> #
     replicate 4 \<lparr>bar_size = 0, bar_io = False, bar_base = None, bar_sizing = False\<rparr>"

definition demo_slot :: pci_slot where
  "demo_slot = \<lparr>s_identity = (dev_identity host_bridge)\<lparr>id_interrupt_line := 11\<rparr>, s_device = 3,
     s_bars = demo_bars, s_command = 0, s_msi = msi_default, s_ioevents = []\<rparr>"

definition demo_pci :: "unit pci_bus" where
  "demo_pci = \<lparr>slots = [(8, demo_slot)], config_address = 0, pci_vm = None\<rparr>"

lemma demo_pci_inv: "pci_inv demo_pci ([], [])"
  by (simp add: pci_inv_def demo_pci_def demo_slot_def demo_bars_def slot_ok_def bar_ok_def NUM_BARS_def
      msi_default_def list_all_iff)

lemma demo_pci_slot: "find_slot (slots demo_pci) 8 = Some demo_slot"
  by (simp add: demo_pci_def)

lemma demo_bar:
  "length (s_bars demo_slot) = 6"
  "s_bars demo_slot ! 0 = \<lparr>bar_size = 0x1000, bar_io = False, bar_base = None, bar_sizing = False\<rparr>"
  "s_bars demo_slot ! Suc 0 = \<lparr>bar_size = 0x100, bar_io = False, bar_base = None, bar_sizing = False\<rparr>"
  by (simp_all add: demo_slot_def demo_bars_def)

text \<open>C10: Every configuration access keeps the PCI state well-formed: device numbers stay distinct, each
  slot keeps six BARs whose programmed bases are aligned and belong to implemented BARs, MSI is
  never enabled on a device without the capability, and the regions of both buses stay disjoint.\<close>

theorem io_out_preserves_pci_inv:
  assumes "pci_inv bus bb" and "io_out kops bus port data bb = (bus', bb')"
  shows "pci_inv bus' bb'"
proof (cases "port = CONFIG_ADDRESS \<and> length data = 4")
  case True
  with assms show ?thesis by (auto simp: io_out_def pci_inv_def)
next
  case False
  with assms config_write_inv [OF assms(1)] show ?thesis by (auto simp: io_out_def split: if_splits)
qed

theorem io_out_preserves_pci_inv_witness:
  "\<exists>bus' bb'. io_out demo_kvm demo_pci CONFIG_DATA [1, 2] ([], []) = (bus', bb') \<and> pci_inv bus' bb'"
proof -
  obtain bus' bb' where "io_out demo_kvm demo_pci CONFIG_DATA [1, 2] ([], []) = (bus', bb')"
    by (cases "io_out demo_kvm demo_pci CONFIG_DATA [1, 2] ([], [])")
  with io_out_preserves_pci_inv [OF demo_pci_inv this] show ?thesis by blast
qed

subsection \<open>Guest access sequences\<close>

text \<open>A driver's dword access: select the function and register through CONFIG_ADDRESS, then use
  the CONFIG_DATA port.\<close>

definition cfg_addr :: "u8 \<Rightarrow> u16 \<Rightarrow> u32" where
  "cfg_addr devfn reg = 0x80000000 OR push_bit 8 (ucast devfn) OR ucast reg"

definition cfg_write32 :: "'k kvm_ops \<Rightarrow> 'k pci_bus \<Rightarrow> u8 \<Rightarrow> u16 \<Rightarrow> u32 \<Rightarrow> buses \<Rightarrow> 'k pci_bus \<times> buses" where
  "cfg_write32 kops bus devfn reg v bb =
     (case io_out kops bus CONFIG_ADDRESS (le32 (cfg_addr devfn reg)) bb of (bus, bb) \<Rightarrow>
        io_out kops bus CONFIG_DATA (le32 v) bb)"

definition cfg_read32 :: "'k kvm_ops \<Rightarrow> 'k pci_bus \<Rightarrow> u8 \<Rightarrow> u16 \<Rightarrow> buses \<Rightarrow> u32 \<times> 'k pci_bus" where
  "cfg_read32 kops bus devfn reg bb =
     (case io_out kops bus CONFIG_ADDRESS (le32 (cfg_addr devfn reg)) bb of (bus, bb) \<Rightarrow>
        (case io_in bus CONFIG_DATA 4 of (bs, bus') \<Rightarrow> (of_le bs, bus')))"

definition bar_reg :: "nat \<Rightarrow> u16" where
  "bar_reg i = 0x10 + 4 * of_nat i"

lemma bar_reg_cases: "i < 6 \<Longrightarrow> bar_reg i \<in> {0x10, 0x14, 0x18, 0x1c, 0x20, 0x24}"
proof -
  assume "i < 6"
  then have "i \<in> {0, 1, 2, 3, 4, 5}" by auto
  then show ?thesis by (auto simp: bar_reg_def)
qed

lemma bar_reg_simps:
  assumes "i < 6"
  shows "bar_index (bar_reg i) = Some i" and "bar_reg i AND 0xfc = bar_reg i"
    and "bar_reg i \<notin> {REG_ID, REG_COMMAND_STATUS, REG_CLASS, REG_HEADER_TYPE, REG_SUBSYSTEM, REG_CAPABILITIES_PTR,
      REG_INTERRUPT, MSI_CAP_OFFSET, MSI_CAP_ADDRESS, MSI_CAP_DATA}"
proof -
  have i: "i \<in> {0, 1, 2, 3, 4, 5}" using assms by auto
  then show "bar_index (bar_reg i) = Some i"
    by (auto simp: bar_index_def bar_reg_def pci_reg_defs word_le_nat_alt)
  show "bar_reg i AND 0xfc = bar_reg i" using i by (auto simp: bar_reg_def)
  show "bar_reg i \<notin> {REG_ID, REG_COMMAND_STATUS, REG_CLASS, REG_HEADER_TYPE, REG_SUBSYSTEM, REG_CAPABILITIES_PTR,
      REG_INTERRUPT, MSI_CAP_OFFSET, MSI_CAP_ADDRESS, MSI_CAP_DATA}"
    using i by (auto simp: bar_reg_def pci_reg_defs)
qed

lemma bit_hex:
  "bit (0x80000000 :: u32) n \<longleftrightarrow> n = 31" "bit (0xff :: u32) n \<longleftrightarrow> n < 8"
proof -
  have "(0x80000000 :: u32) = 2 ^ 31" "(0xff :: u32) = mask 8" by (simp_all add: mask_eq_exp_minus_1)
  then show "bit (0x80000000 :: u32) n \<longleftrightarrow> n = 31" "bit (0xff :: u32) n \<longleftrightarrow> n < 8"
    by (simp_all only: bit_exp_iff bit_mask_iff) auto
qed

lemma decode_cfg_addr:
  assumes "reg AND 0xfc = reg"
  shows "decode_address (bus\<lparr>config_address := cfg_addr devfn reg\<rparr>) = Some (devfn, reg)"
proof -
  let ?a = "cfg_addr devfn reg"
  have hi: "n < 8" if "bit reg n" for n
  proof -
    from that assms have "bit (0xfc :: u16) n" by (metis bit_and_iff)
    moreover have "(0xfc :: u16) AND mask 8 = 0xfc" by (simp add: mask_eq_exp_minus_1)
    ultimately show ?thesis by (metis bit_and_iff bit_mask_iff)
  qed
  have bits: "bit ?a n \<longleftrightarrow> n = 31 \<or> 8 \<le> n \<and> n < 16 \<and> bit devfn (n - 8) \<or> bit reg n" for n
    unfolding cfg_addr_def bit_or_iff bit_hex bit_push_bit_iff bit_unsigned_iff
    by (auto dest: hi bit_imp_le_length)
  have "?a AND 0x80000000 \<noteq> 0"
  proof
    assume "?a AND 0x80000000 = 0"
    then have "\<not> bit (?a AND 0x80000000) 31" by simp
    then show False using bits [of 31] by (simp add: bit_simps bit_hex)
  qed
  moreover have "drop_bit 16 ?a AND 0xff = 0"
    by (rule bit_word_eqI) (auto simp: bit_and_iff bit_drop_bit_eq bit_hex bits dest: hi)
  moreover have "ucast (drop_bit 8 ?a AND 0xff) = devfn"
    by (rule bit_word_eqI, unfold bit_unsigned_iff bit_and_iff bit_drop_bit_eq bit_hex comp_def bits) (auto dest: hi)
  moreover have "ucast (?a AND 0xfc) = reg"
  proof (rule bit_word_eqI)
    fix n assume "n < LENGTH(16)"
    have fc: "bit (0xfc :: u32) n \<longleftrightarrow> bit (0xfc :: u16) n"
    proof -
      have "(0xfc :: u32) = ucast (0xfc :: u16)" by simp
      then show ?thesis using \<open>n < LENGTH(16)\<close> by (simp only: bit_ucast_iff) auto
    qed
    have "bit reg n \<Longrightarrow> bit (0xfc :: u16) n" using assms by (metis bit_and_iff)
    moreover have "bit (0xfc :: u16) n \<Longrightarrow> n < 8"
    proof -
      assume "bit (0xfc :: u16) n"
      moreover have "(0xfc :: u16) AND mask 8 = 0xfc" by (simp add: mask_eq_exp_minus_1)
      ultimately show "n < 8" by (metis bit_and_iff bit_mask_iff)
    qed
    ultimately show "bit (ucast (?a AND 0xfc) :: u16) n \<longleftrightarrow> bit reg n"
      using \<open>n < LENGTH(16)\<close> fc by (auto simp: bit_simps bits)
  qed
  ultimately show ?thesis by (simp add: decode_address_def Let_def)
qed

lemma cfg_write32_bar:
  assumes "find_slot (slots bus) devfn = Some s" and "i < 6"
  shows "cfg_write32 kops bus devfn (bar_reg i) v bb =
    (case write_bar kops s i v bb (pci_vm bus) of (s', bb', k) \<Rightarrow>
       (bus\<lparr>config_address := cfg_addr devfn (bar_reg i), slots := put_slot (slots bus) devfn s', pci_vm := k\<rparr>, bb'))"
  using assms bar_reg_simps [OF assms(2)]
  by (simp add: cfg_write32_def io_out_def config_write_def decode_cfg_addr Let_def split: prod.split)
    (simp add: pci_reg_defs)

lemma cfg_read32_bar:
  assumes "find_slot (slots bus) devfn = Some s" and "i < 6"
  shows "cfg_read32 kops bus devfn (bar_reg i) bb =
    (case read_bar (s_bars s ! i) True of (v, b) \<Rightarrow>
       (v, bus\<lparr>config_address := cfg_addr devfn (bar_reg i),
            slots := put_slot (slots bus) devfn (s\<lparr>s_bars := (s_bars s)[i := b]\<rparr>)\<rparr>))"
  using assms bar_reg_simps [OF assms(2)]
  by (simp add: cfg_read32_def io_out_def io_in_def config_read_def config_dword_def decode_cfg_addr Let_def
      split: prod.split) (simp add: pci_reg_defs)

subsection \<open>Sizing a BAR\<close>

text \<open>Bits of a BAR that are flags: two in port space, four in memory space.\<close>

definition bar_flag_bits :: "bar_state \<Rightarrow> nat" where
  "bar_flag_bits b = (if bar_io b then 2 else 4)"

lemma align_mask_bits: "align_mask b = NOT (mask (bar_flag_bits b))"
  by (simp add: align_mask_def bar_flag_bits_def mask_eq_exp_minus_1)

lemma space_bit_flag: "space_bit b AND align_mask b = 0"
  by (simp add: align_mask_def space_bit_def)

lemma sizing_value:
  assumes "bar_size b = 2 ^ k" and "bar_flag_bits b \<le> k" and "k < 32"
  shows "NOT (((NOT (bar_size b - 1) AND align_mask b) OR space_bit b) AND align_mask b) + 1 = bar_size b"
proof -
  have m: "bar_size b - 1 = mask k" by (simp add: assms(1) mask_eq_exp_minus_1)
  have "(NOT (mask k) AND align_mask b) AND align_mask b = NOT (mask k)"
    unfolding align_mask_bits by (rule bit_word_eqI) (use assms(2) in \<open>auto simp: bit_simps\<close>)
  then have "((NOT (mask k) AND align_mask b) OR space_bit b) AND align_mask b = NOT (mask k)"
    by (simp add: bit.conj_disj_distrib2 space_bit_flag)
  then show ?thesis by (simp add: m) (simp add: assms(1) mask_eq_exp_minus_1)
qed

text \<open>The standard sizing protocol works on every implemented BAR whose size is a power of two (at
  least 16 bytes in memory space, 4 in port space): writing all ones and reading back yields the
  BAR's size and space bit, no mapping changes meanwhile, and the next read shows the
  programmed base again.\<close>

lemma bar_sizing_protocol:
  assumes "find_slot (slots bus) devfn = Some s" and "i < 6" and "length (s_bars s) = 6"
    and "b = s_bars s ! i" and "bar_size b = 2 ^ k" and "bar_flag_bits b \<le> k" and "k < 32"
    and "cfg_write32 kops bus devfn (bar_reg i) 0xffffffff bb = (bus1, bb1)"
    and "cfg_read32 kops bus1 devfn (bar_reg i) bb1 = (v, bus2)"
  shows "bb1 = bb \<and> NOT (v AND align_mask b) + 1 = bar_size b \<and> v AND NOT (align_mask b) = space_bit b \<and>
    fst (cfg_read32 kops bus2 devfn (bar_reg i) bb1) =
      (case bar_base b of None \<Rightarrow> 0 | Some a \<Rightarrow> a OR space_bit b)"
proof -
  have "unat (2 ^ k :: u32) = 2 ^ k" using assms(7) by (intro unat_pow2) simp
  then have imp: "implemented b" using assms(5,7) by (auto simp: implemented_def)
  have set: "find_slot (slots bus) devfn \<noteq> None" using assms(1) by simp
  have w: "write_bar kops s i 0xffffffff bb (pci_vm bus) =
      (s\<lparr>s_bars := (s_bars s)[i := b\<lparr>bar_sizing := True\<rparr>]\<rparr>, bb, pci_vm bus)"
    using imp assms(4) by (simp add: write_bar_def Let_def)
  let ?s1 = "s\<lparr>s_bars := (s_bars s)[i := b\<lparr>bar_sizing := True\<rparr>]\<rparr>"
  have 1: "bb1 = bb" "slots bus1 = put_slot (slots bus) devfn ?s1"
    using assms(8) by (auto simp: cfg_write32_bar [OF assms(1,2)] w)
  have f1: "find_slot (slots bus1) devfn = Some ?s1" using 1 find_put_slot [OF set] by simp
  have imp1: "implemented (b\<lparr>bar_sizing := x\<rparr>)" for x using imp by (simp add: implemented_def)
  have rd1: "read_bar (b\<lparr>bar_sizing := True\<rparr>) True =
      ((NOT (bar_size b - 1) AND align_mask b) OR space_bit b, b\<lparr>bar_sizing := False\<rparr>)"
    using imp1 [of True] by (simp add: read_bar_def align_mask_def space_bit_def)
  have v: "v = (NOT (bar_size b - 1) AND align_mask b) OR space_bit b"
    and 2: "slots bus2 = put_slot (slots bus1) devfn (?s1\<lparr>s_bars := (s_bars ?s1)[i := b\<lparr>bar_sizing := False\<rparr>]\<rparr>)"
    using assms(2,3,9) by (auto simp: cfg_read32_bar [OF f1 assms(2)] rd1)
  let ?s2 = "?s1\<lparr>s_bars := (s_bars ?s1)[i := b\<lparr>bar_sizing := False\<rparr>]\<rparr>"
  have f2: "find_slot (slots bus2) devfn = Some ?s2" using 1 2 find_put_slot [OF set] by simp
  have "fst (cfg_read32 kops bus2 devfn (bar_reg i) bb1) = (case bar_base b of None \<Rightarrow> 0 | Some a \<Rightarrow> a OR space_bit b)"
    using imp1 [of False] assms(2,3)
    by (simp add: cfg_read32_bar [OF f2 assms(2)] read_bar_def space_bit_def split: option.split)
  moreover have "v AND NOT (align_mask b) = space_bit b"
    unfolding v align_mask_bits
    by (rule bit_word_eqI) (auto simp: bit_simps space_bit_def bar_flag_bits_def)
  ultimately show ?thesis using 1 sizing_value [OF assms(5-7)] by (simp add: v)
qed

subsection \<open>Mapping a BAR\<close>

text \<open>The bus a BAR is mapped in.\<close>

definition bar_bus :: "bar_state \<Rightarrow> buses \<Rightarrow> bus" where
  "bar_bus b bb = (if bar_io b then snd bb else fst bb)"

text \<open>Programming a BAR with a non-zero aligned base in free address space makes exactly that device
  answer at every address of the BAR's range, with the offset into the BAR and the device's
  interrupt line; the other address space is not touched, and the BAR keeps the base.\<close>

lemma bar_programming_maps:
  assumes "find_slot (slots bus) devfn = Some s" and "i < 6" and "i < length (s_bars s)" and "b = s_bars s ! i"
    and "implemented b" and "bs AND align_mask b = bs" and "bs \<noteq> 0"
    and "\<And>a. ucast bs \<le> a \<Longrightarrow> a \<le> ucast bs + ucast (bar_size b) - 1 \<Longrightarrow>
      find_device (unregister (bar_bus b bb) (s_device s)) a = None"
    and "bus_inv (bar_bus b bb)"
    and "cfg_write32 kops bus devfn (bar_reg i) bs bb = (bus', bb')"
  shows "(\<forall>k < bar_size b. find_device (bar_bus b bb') (ucast bs + ucast k) =
      Some (s_device s, ucast k, identity_irq (s_identity s))) \<and>
    (if bar_io b then fst bb' = fst bb else snd bb' = snd bb) \<and>
    (\<exists>s'. find_slot (slots bus') devfn = Some s' \<and> bar_base (s_bars s' ! i) = Some bs)"
proof -
  let ?n = "ucast (bar_size b) :: u64" let ?bus = "bar_bus b bb" let ?irq = "identity_irq (s_identity s)"
  obtain s' bb1 k where w: "write_bar kops s i bs bb (pci_vm bus) = (s', bb1, k)" by (metis prod_cases3)
  have bb1: "bb1 = bb'" and sl: "slots bus' = put_slot (slots bus) devfn s'"
    using assms(10) by (auto simp: cfg_write32_bar [OF assms(1,2)] w)
  have ne: "bs \<noteq> 0xffffffff"
  proof
    assume "bs = 0xffffffff"
    with assms(6) show False by (simp add: align_mask_def split: if_splits)
  qed
  have bb': "bb' = on_bus (bar_io b) (\<lambda>bus. register bus (ucast bs) ?n (s_device s) ?irq) bb"
    using w assms(4,5,6,7) ne
    by (auto simp: write_bar_def Let_def simp flip: bb1 split: prod.splits)
  have reg: "bar_bus b bb' = register ?bus (ucast bs) ?n (s_device s) ?irq"
    by (cases bb) (simp add: bb' on_bus_def bar_bus_def)
  have n: "unat ?n = unat (bar_size b)" "0 < unat (bar_size b)"
    using assms(5) by (simp_all add: unat_ucast_up implemented_def unat_gt_0)
  have ub: "unat (ucast bs :: u64) + unat ?n < 2 ^ 64"
    using unat_lt_pow [of bs] unat_lt_pow [of "bar_size b"] n by (simp add: unat_ucast_up)
  have n1: "unat (?n - 1) = unat ?n - 1" using n by (simp add: unat_simps word_le_nat_alt)
  have sat: "saturating_add (ucast bs) (?n - 1) = ucast bs + ?n - 1"
  proof -
    have "unat (ucast bs :: u64) + unat (?n - 1) < 2 ^ 64" using ub unfolding n1 by linarith
    then show ?thesis by (simp add: saturating_add_def)
  qed
  have "find_device (bar_bus b bb') (ucast bs + ucast k) = Some (s_device s, ucast k, ?irq)"
    if k: "k < bar_size b" for k
  proof -
    have uk: "unat (ucast bs + ucast k :: u64) = unat bs + unat k"
      using ub k by (simp add: unat_simps word_less_nat_alt unat_ucast_up)
    have "ucast bs \<le> (ucast bs + ucast k :: u64)"
      using uk by (simp add: word_le_nat_alt unat_ucast_up)
    moreover have "(ucast bs + ucast k :: u64) \<le> saturating_add (ucast bs) (?n - 1)"
      using uk k n n1 ub unat_saturating_add [of "ucast bs" "?n - 1"]
      by (simp add: word_le_nat_alt word_less_nat_alt unat_ucast_up)
    moreover have "?n \<noteq> 0" using n by (metis less_irrefl unat_0)
    ultimately show ?thesis
      unfolding reg
      using db.lookup_map_free [OF assms(9), of ?n "ucast bs" "s_device s" ?irq "ucast bs + ucast k"]
        assms(8) sat by simp
  qed
  moreover have "if bar_io b then fst bb' = fst bb else snd bb' = snd bb"
    by (cases bb) (simp add: bb' on_bus_def)
  moreover have "bar_base (s_bars s' ! i) = Some bs"
    using write_bar_frame(5) [OF w] assms(3-6) ne by (simp add: Let_def)
  ultimately show ?thesis using sl find_put_slot assms(1) by simp
qed

subsection \<open>Snapshot round trip\<close>

lemma take_bars_save:
  "n = length bars \<Longrightarrow> take_bars n (concat (map save_bar bars) @ rest) = Inr (map bar_base bars, rest)"
proof (induction bars arbitrary: n)
  case (Cons b bars)
  have u8: "take_u8 (x # buf) = Inr (x, buf)" for x buf using c8.dec_enc [of x buf] by simp
  show ?case using Cons by (cases "bar_base b") (simp_all add: save_bar_def u8 c32.dec_enc)
qed simp

lemma take_slot_save:
  "length (s_bars s) = NUM_BARS \<Longrightarrow>
   take_slot (save_slot (d, s) @ rest) = Inr ((d, map bar_base (s_bars s), s_command s, s_msi s), rest)"
proof -
  assume len: "length (s_bars s) = NUM_BARS"
  have u8: "take_u8 (x # buf) = Inr (x, buf)" for x buf using c8.dec_enc [of x buf] by simp
  show ?thesis
    using take_bars_save [OF len [symmetric]]
    by (cases "s_msi s") (simp add: save_slot_def take_slot_def u8 c16.dec_enc c32.dec_enc)
qed

definition bar_restored :: "bar_state \<Rightarrow> u32 option \<Rightarrow> bar_state" where
  "bar_restored b v =
     (case v of
        None \<Rightarrow> b
      | Some a \<Rightarrow>
          if \<not> implemented b then b
          else if a = 0xffffffff then b\<lparr>bar_sizing := True\<rparr>
          else b\<lparr>bar_base := Some (a AND align_mask b)\<rparr>)"

lemma restore_bars_frame:
  assumes "restore_bars kops i vs s bb k = (s', bb', k')"
  shows "s_command s' = s_command s \<and> s_msi s' = s_msi s \<and> length (s_bars s') = length (s_bars s) \<and>
    (\<forall>j < length (s_bars s). s_bars s' ! j =
       (if i \<le> j \<and> j < i + length vs then bar_restored (s_bars s ! j) (vs ! (j - i)) else s_bars s ! j))"
  using assms
proof (induction kops i vs s bb k rule: restore_bars.induct)
  case (1 kops i s bb v)
  then show ?case by auto
next
  case (2 kops i bars s bb v)
  have "bar_restored b None = b" for b by (simp add: bar_restored_def)
  with 2 show ?case by (auto simp: nth_Cons' not_le Suc_le_eq less_Suc_eq split: if_splits)
next
  case (3 kops i a bars s bb v)
  obtain s1 bb1 v1 where w: "write_bar kops s i a bb v = (s1, bb1, v1)" by (metis prod_cases3)
  with 3(2) have r: "restore_bars kops (Suc i) bars s1 bb1 v1 = (s', bb', k')" by simp
  note fr = write_bar_frame [OF w]
  have b1: "s_bars s1 = (if i < length (s_bars s) then (s_bars s)[i := bar_restored (s_bars s ! i) (Some a)] else s_bars s)"
    using fr(5) by (auto simp: Let_def bar_restored_def list_update_beyond not_less)
  from "3.IH" [OF w [symmetric] refl r] show ?case
    using fr(3,4) by (auto simp: b1 nth_list_update nth_Cons' Suc_le_eq less_Suc_eq)
qed

text \<open>The configuration state a snapshot carries, and a freshly registered slot of the same shape.\<close>

definition same_config :: "pci_slot \<Rightarrow> pci_slot \<Rightarrow> bool" where
  "same_config s t \<longleftrightarrow> map bar_base (s_bars t) = map bar_base (s_bars s) \<and> s_command t = s_command s \<and> s_msi t = s_msi s"

definition fresh_shape :: "pci_slot \<Rightarrow> pci_slot \<Rightarrow> bool" where
  "fresh_shape s t \<longleftrightarrow> map (\<lambda>b. (bar_size b, bar_io b)) (s_bars t) = map (\<lambda>b. (bar_size b, bar_io b)) (s_bars s) \<and>
     list_all (\<lambda>b. bar_base b = None) (s_bars t)"

lemma restored_base:
  assumes "bar_ok b" and "bar_size t = bar_size b" and "bar_io t = bar_io b" and "bar_base t = None"
  shows "bar_base (bar_restored t (bar_base b)) = bar_base b"
proof (cases "bar_base b")
  case None
  with assms show ?thesis by (simp add: bar_restored_def)
next
  case (Some a)
  with assms have "implemented t" "a AND align_mask t = a"
    by (simp_all add: bar_ok_def implemented_def align_mask_def)
  moreover from this(2) have "a \<noteq> 0xffffffff" by (auto simp: align_mask_def split: if_splits)
  ultimately show ?thesis by (simp add: bar_restored_def Some)
qed

lemma restore_slot_config:
  assumes "slot_ok s" and "fresh_shape s t"
    and "restore_bars kops 0 (map bar_base (s_bars s)) (t\<lparr>s_command := s_command s, s_msi := s_msi s\<rparr>) bb k = (t', bb', k')"
  shows "same_config s t'"
proof -
  have len: "length (s_bars t) = length (s_bars s)" using assms(2) unfolding fresh_shape_def by (blast dest: map_eq_imp_length_eq)
  note fr = restore_bars_frame [OF assms(3), simplified]
  have "bar_base (s_bars t' ! j) = bar_base (s_bars s ! j)" if j: "j < length (s_bars s)" for j
  proof -
    have "s_bars t' ! j = bar_restored (s_bars t ! j) (bar_base (s_bars s ! j))" using fr len j by simp
    moreover have "bar_ok (s_bars s ! j)" using assms(1) j by (simp add: slot_ok_def list_all_length)
    moreover have "(bar_size (s_bars t ! j), bar_io (s_bars t ! j)) = (bar_size (s_bars s ! j), bar_io (s_bars s ! j))"
      using assms(2) j len unfolding fresh_shape_def by (metis (mono_tags, lifting) nth_map)
    moreover have "bar_base (s_bars t ! j) = None" using assms(2) j len by (simp add: fresh_shape_def list_all_length)
    ultimately show ?thesis using restored_base by simp
  qed
  then show ?thesis using fr len by (simp add: same_config_def list_eq_iff_nth_eq)
qed

lemma restore_slots_save:
  assumes "distinct (map fst ss)" and "list_all (\<lambda>(d, s). slot_ok s) ss"
    and "\<And>d s. (d, s) \<in> set ss \<Longrightarrow> \<exists>t. find_slot (slots tgt) d = Some t \<and> fresh_shape s t"
  shows "\<exists>tgt' bb'. restore_slots kops (length ss) (concat (map save_slot ss)) tgt bb = (Inr (), tgt', bb') \<and>
    (\<forall>(d, s) \<in> set ss. \<exists>t. find_slot (slots tgt') d = Some t \<and> same_config s t) \<and>
    (\<forall>d. d \<notin> fst ` set ss \<longrightarrow> find_slot (slots tgt') d = find_slot (slots tgt) d)"
  using assms
proof (induction ss arbitrary: tgt bb)
  case Nil
  then show ?case by simp
next
  case (Cons ds ss)
  obtain d s where ds: "ds = (d, s)" by (cases ds)
  have ok: "slot_ok s" using Cons.prems(2) by (simp add: ds)
  obtain t where t: "find_slot (slots tgt) d = Some t" "fresh_shape s t" using Cons.prems(3) [of d s] by (auto simp: ds)
  obtain t' bb1 k' where r: "restore_bars kops 0 (map bar_base (s_bars s))
      (t\<lparr>s_command := s_command s, s_msi := s_msi s\<rparr>) bb (pci_vm tgt) = (t', bb1, k')" by (metis prod_cases3)
  let ?tgt = "tgt\<lparr>slots := put_slot (slots tgt) d t', pci_vm := k'\<rparr>"
  have f: "find_slot (slots ?tgt) e = (if e = d then Some t' else find_slot (slots tgt) e)" for e
    using find_put_slot [of "slots tgt" d t' e] t(1) by simp
  have nd: "d \<notin> fst ` set ss" "distinct (map fst ss)" using Cons.prems(1) by (simp_all add: ds)
  have "\<exists>t. find_slot (slots ?tgt) e = Some t \<and> fresh_shape u t" if "(e, u) \<in> set ss" for e u
  proof -
    have "e \<noteq> d" using that nd(1) by force
    then show ?thesis using Cons.prems(3) [of e u] that f by simp
  qed
  from Cons.IH [OF nd(2) _ this, of bb1] Cons.prems(2) obtain tgt' bb' where IH:
    "restore_slots kops (length ss) (concat (map save_slot ss)) ?tgt bb1 = (Inr (), tgt', bb')"
    "\<forall>(d, s) \<in> set ss. \<exists>t. find_slot (slots tgt') d = Some t \<and> same_config s t"
    "\<forall>e. e \<notin> fst ` set ss \<longrightarrow> find_slot (slots tgt') e = find_slot (slots ?tgt) e"
    by auto
  have "restore_slots kops (length (ds # ss)) (concat (map save_slot (ds # ss))) tgt bb = (Inr (), tgt', bb')"
    using ok t(1) r IH(1) by (simp add: ds take_slot_save slot_ok_def)
  moreover have "find_slot (slots tgt') d = Some t'" using IH(3) nd(1) f by simp
  moreover have "same_config s t'" by (rule restore_slot_config [OF ok t(2) r])
  ultimately show ?case using IH(2,3) f by (auto simp: ds)
qed

text \<open>Restoring a PCI snapshot into a bus with the same devices, freshly registered, succeeds and gives
  every function its saved BAR bases, command register and MSI state.\<close>

lemma pci_snapshot_roundtrip:
  assumes "pci_inv bus bb" and "length (slots bus) < 2 ^ 32"
    and "\<forall>(d, s) \<in> set (slots bus). \<exists>t. find_slot (slots tgt) d = Some t \<and> fresh_shape s t"
  shows "\<exists>tgt' bb'. pci_restore_state kops (pci_save_state bus) tgt bb0 = (Inr (), tgt', bb') \<and>
    (\<forall>(d, s) \<in> set (slots bus). \<exists>t. find_slot (slots tgt') d = Some t \<and> same_config s t)"
proof -
  have "unat (of_nat (length (slots bus)) :: u32) = length (slots bus)" using assms(2) by (intro unat_of_nat_lt) simp
  moreover have "\<exists>t. find_slot (slots tgt) d = Some t \<and> fresh_shape s t" if "(d, s) \<in> set (slots bus)" for d s
    using assms(3) that by blast
  with assms(1) have "\<exists>tgt' bb'. restore_slots kops (length (slots bus)) (concat (map save_slot (slots bus))) tgt bb0 =
      (Inr (), tgt', bb') \<and> (\<forall>(d, s) \<in> set (slots bus). \<exists>t. find_slot (slots tgt') d = Some t \<and> same_config s t) \<and>
      (\<forall>d. d \<notin> fst ` set (slots bus) \<longrightarrow> find_slot (slots tgt') d = find_slot (slots tgt) d)"
    by (intro restore_slots_save) (simp_all add: pci_inv_def)
  ultimately show ?thesis
    by (auto simp: pci_restore_state_def pci_save_state_def c32.dec_enc)
qed

subsection \<open>Two memory BARs\<close>

text \<open>A device can have only one memory BAR mapped at a time: programming a second, disjoint
  memory BAR silently takes the first one's addresses away from it.\<close>

lemma second_bar_unmaps_first:
  assumes "find_slot (slots bus) devfn = Some s" and "i < 6" and "j < 6" and "i \<noteq> j" and "length (s_bars s) = 6"
    and "implemented (s_bars s ! i)" and "implemented (s_bars s ! j)"
    and "\<not> bar_io (s_bars s ! i)" and "\<not> bar_io (s_bars s ! j)"
    and "y AND align_mask (s_bars s ! j) = y" and "y \<noteq> 0" and "bus_inv (fst bb)"
    and "cfg_write32 kops bus devfn (bar_reg i) x bb = (bus1, bb1)"
    and "cfg_write32 kops bus1 devfn (bar_reg j) y bb1 = (bus2, bb2)"
    and "find_device (fst bb2) a = Some (s_device s, off, irq)"
  shows "ucast y \<le> a \<and> a \<le> saturating_add (ucast y) (ucast (bar_size (s_bars s ! j)) - 1)"
proof -
  obtain s1 b1 k1 where w1: "write_bar kops s i x bb (pci_vm bus) = (s1, b1, k1)" by (metis prod_cases3)
  have 1: "bb1 = b1" "slots bus1 = put_slot (slots bus) devfn s1"
    using assms(13) by (auto simp: cfg_write32_bar [OF assms(1,2)] w1)
  note fr = write_bar_frame [OF w1]
  have f1: "find_slot (slots bus1) devfn = Some s1" using 1 find_put_slot assms(1) by simp
  have bj: "s_bars s1 ! j = s_bars s ! j" using fr(5) assms(4) by (auto simp: Let_def)
  obtain s2 b2 k2 where w2: "write_bar kops s1 j y bb1 (pci_vm bus1) = (s2, b2, k2)" by (metis prod_cases3)
  have "bb2 = b2" using assms(14) by (auto simp: cfg_write32_bar [OF f1 assms(3)] w2)
  moreover have "y \<noteq> 0xffffffff" using assms(9,10) by (auto simp: align_mask_def)
  ultimately have reg: "fst bb2 = register (fst bb1) (ucast y) (ucast (bar_size (s_bars s ! j))) (s_device s) (identity_irq (s_identity s))"
    using w2 assms(7,9,10,11) fr(1,2)
    by (cases bb1) (auto simp: write_bar_def bj Let_def on_bus_def split: prod.splits)
  have inv: "bus_inv (fst bb1)"
    using w1 assms(8,12) 1(1)
    by (cases bb) (auto simp: write_bar_def on_bus_def Let_def register_inv unregister_inv split: if_splits prod.splits)
  have "ucast (bar_size (s_bars s ! j)) \<noteq> (0 :: u64)"
    using assms(7) unat_ucast_up [of "bar_size (s_bars s ! j)", where 'b = 64]
    by (auto simp: implemented_def unat_eq_zero)
  from db.map_only_new_range [OF inv this assms(15) [unfolded reg]] show ?thesis by blast
qed

lemma second_bar_unmaps_first_example:
  "\<exists>bus1 bb1 bus2 bb2. cfg_write32 demo_kvm demo_pci 8 (bar_reg 0) 0xd0000000 ([], []) = (bus1, bb1) \<and>
    cfg_write32 demo_kvm bus1 8 (bar_reg 1) 0xe0000000 bb1 = (bus2, bb2) \<and>
    find_device (fst bb2) 0xd0000010 \<noteq> Some (3, 0x10, Some 11)"
proof -
  obtain bus1 bb1 where w: "cfg_write32 demo_kvm demo_pci 8 (bar_reg 0) 0xd0000000 ([], []) = (bus1, bb1)"
    by (cases "cfg_write32 demo_kvm demo_pci 8 (bar_reg 0) 0xd0000000 ([], [])")
  obtain bus2 bb2 where w2: "cfg_write32 demo_kvm bus1 8 (bar_reg 1) 0xe0000000 bb1 = (bus2, bb2)"
    by (cases "cfg_write32 demo_kvm bus1 8 (bar_reg 1) 0xe0000000 bb1")
  have d: "s_device demo_slot = 3" by (simp add: demo_slot_def)
  have "ucast (0xe0000000 :: u32) \<le> (0xd0000010 :: u64) \<and>
      0xd0000010 \<le> saturating_add (ucast (0xe0000000 :: u32)) (ucast (bar_size (s_bars demo_slot ! 1)) - 1)"
    if "find_device (fst bb2) 0xd0000010 = Some (s_device demo_slot, 0x10, Some 11)"
    using second_bar_unmaps_first [OF demo_pci_slot _ _ _ demo_bar(1) _ _ _ _ _ _ _ w w2 that]
    by (simp add: demo_bar implemented_def align_mask_def)
  with w w2 d show ?thesis by fastforce
qed

end
