(* ===== verification/Virtio_Modern.thy ===== *)
theory Virtio_Modern
  imports Virtio_Legacy Pci_Bus
begin

text \<open>
  The modern virtio 1.0 PCI transport (\<open>VirtioModernPci\<close> in \<open>src/virtio.rs\<close>): the common
  configuration structure, the notify, ISR and device regions of BAR 0, the capability
  list that advertises them, asynchronous delivery, and the snapshot of the transport.
  Here the guest programs the three addresses of a queue freely, which the last section
  uses: a queue whose used ring is its own avail ring makes the drain loop run forever.
\<close>

definition VIRTIO_PCI_CAP_LEN :: nat where "VIRTIO_PCI_CAP_LEN = 16"
definition VIRTIO_PCI_NOTIFY_CAP_LEN :: nat where "VIRTIO_PCI_NOTIFY_CAP_LEN = 20"
definition CAP_ID_VENDOR_SPECIFIC :: u8 where "CAP_ID_VENDOR_SPECIFIC = 0x09"
definition VIRTIO_PCI_CAP_COMMON_CFG :: u8 where "VIRTIO_PCI_CAP_COMMON_CFG = 1"
definition VIRTIO_PCI_CAP_NOTIFY_CFG :: u8 where "VIRTIO_PCI_CAP_NOTIFY_CFG = 2"
definition VIRTIO_PCI_CAP_ISR_CFG :: u8 where "VIRTIO_PCI_CAP_ISR_CFG = 3"
definition VIRTIO_PCI_CAP_DEVICE_CFG :: u8 where "VIRTIO_PCI_CAP_DEVICE_CFG = 4"
definition NO_VECTOR :: u16 where "NO_VECTOR = 0xffff"

lemmas virtio_cap_defs = VIRTIO_PCI_CAP_LEN_def VIRTIO_PCI_NOTIFY_CAP_LEN_def CAP_ID_VENDOR_SPECIFIC_def
  VIRTIO_PCI_CAP_COMMON_CFG_def VIRTIO_PCI_CAP_NOTIFY_CFG_def VIRTIO_PCI_CAP_ISR_CFG_def
  VIRTIO_PCI_CAP_DEVICE_CFG_def

definition CFG_DFSELECT :: u64 where "CFG_DFSELECT = 0"
definition CFG_DF :: u64 where "CFG_DF = 4"
definition CFG_GFSELECT :: u64 where "CFG_GFSELECT = 8"
definition CFG_GF :: u64 where "CFG_GF = 12"
definition CFG_MSIX :: u64 where "CFG_MSIX = 16"
definition CFG_NUMQ :: u64 where "CFG_NUMQ = 18"
definition CFG_STATUS :: u64 where "CFG_STATUS = 20"
definition CFG_CFGGEN :: u64 where "CFG_CFGGEN = 21"
definition CFG_QSELECT :: u64 where "CFG_QSELECT = 22"
definition CFG_QSIZE :: u64 where "CFG_QSIZE = 24"
definition CFG_QMSIX :: u64 where "CFG_QMSIX = 26"
definition CFG_QENABLE :: u64 where "CFG_QENABLE = 28"
definition CFG_QNOFF :: u64 where "CFG_QNOFF = 30"
definition CFG_QDESCLO :: u64 where "CFG_QDESCLO = 32"
definition CFG_QDESCHI :: u64 where "CFG_QDESCHI = 36"
definition CFG_QAVAILLO :: u64 where "CFG_QAVAILLO = 40"
definition CFG_QAVAILHI :: u64 where "CFG_QAVAILHI = 44"
definition CFG_QUSEDLO :: u64 where "CFG_QUSEDLO = 48"
definition CFG_QUSEDHI :: u64 where "CFG_QUSEDHI = 52"
definition COMMON_CFG_LEN :: u64 where "COMMON_CFG_LEN = 56"
definition NOTIFY_MULTIPLIER :: u32 where "NOTIFY_MULTIPLIER = 4"
definition ISR_REGION_LEN :: u64 where "ISR_REGION_LEN = 4"
definition VIRTIO_F_VERSION_1 :: u64 where "VIRTIO_F_VERSION_1 = push_bit 32 1"

lemmas cfg_defs = CFG_DFSELECT_def CFG_DF_def CFG_GFSELECT_def CFG_GF_def CFG_MSIX_def CFG_NUMQ_def
  CFG_STATUS_def CFG_CFGGEN_def CFG_QSELECT_def CFG_QSIZE_def CFG_QMSIX_def CFG_QENABLE_def CFG_QNOFF_def
  CFG_QDESCLO_def CFG_QDESCHI_def CFG_QAVAILLO_def CFG_QAVAILHI_def CFG_QUSEDLO_def CFG_QUSEDHI_def
  COMMON_CFG_LEN_def NOTIFY_MULTIPLIER_def ISR_REGION_LEN_def

definition set_addr_lo :: "u64 \<Rightarrow> u32 \<Rightarrow> u64" where
  "set_addr_lo cur val = (cur AND NOT 0xffffffff) OR ucast val"

definition set_addr_hi :: "u64 \<Rightarrow> u32 \<Rightarrow> u64" where
  "set_addr_hi cur val = (cur AND 0xffffffff) OR push_bit 32 (ucast val)"

definition lo32 :: "u64 \<Rightarrow> u32" where "lo32 addr = ucast addr"
definition hi32 :: "u64 \<Rightarrow> u32" where "hi32 addr = ucast (drop_bit 32 addr)"

text \<open>The structure of \<open>virtio_pci_cap\<close>: bytes 5 to 7 are padding.\<close>

definition build_cap :: "u8 \<Rightarrow> u8 \<Rightarrow> u32 \<Rightarrow> u32 \<Rightarrow> u8 \<Rightarrow> bytes" where
  "build_cap cfg_type bar offset len next_offset =
     [CAP_ID_VENDOR_SPECIFIC, next_offset, of_nat VIRTIO_PCI_CAP_LEN, cfg_type, bar, 0, 0, 0] @
     le32 offset @ le32 len"

record 'd modern_pci =
  m_dev :: 'd
  m_irq :: u8
  m_device_type :: u16
  m_device_feature_select :: u32
  m_guest_feature_select :: u32
  m_guest_features :: u64
  m_status :: u8
  m_config_generation :: u8
  m_queue_select :: u16
  m_queues :: "virtqueue list"
  m_isr :: u8
  m_chain :: desc_chain
  m_notify_base :: u64
  m_isr_base :: u64
  m_device_base :: u64
  m_bar_len :: u32

text \<open>\<open>u32::next_power_of_two\<close>: the least power of two not below the argument (one for zero); its
  value is zero where the code would overflow.\<close>

definition next_power_of_two :: "u32 \<Rightarrow> u32" where
  "next_power_of_two x =
     (case find (\<lambda>k. unat x \<le> 2 ^ k) [0..<32] of None \<Rightarrow> 0 | Some k \<Rightarrow> push_bit k 1)"

definition modern_new :: "'d device_ops \<Rightarrow> 'd \<Rightarrow> u8 \<Rightarrow> u16 \<Rightarrow> u32 \<Rightarrow> 'd modern_pci" where
  "modern_new ops d irq device_type device_config_len =
     (let notify_base = COMMON_CFG_LEN;
          notify_len = ucast (num_queues ops d) * ucast NOTIFY_MULTIPLIER;
          isr_base = notify_base + notify_len;
          device_base = isr_base + ISR_REGION_LEN;
          device_end = device_base + ucast device_config_len
      in \<lparr>m_dev = d, m_irq = irq, m_device_type = device_type, m_device_feature_select = 0,
          m_guest_feature_select = 0, m_guest_features = 0, m_status = 0, m_config_generation = 0,
          m_queue_select = 0, m_queues = new_queues ops d, m_isr = 0, m_chain = chain_default,
          m_notify_base = notify_base, m_isr_base = isr_base, m_device_base = device_base,
          m_bar_len = max (next_power_of_two (ucast device_end)) 4096\<rparr>)"

text \<open>The buffer loop of \<open>try_deliver_async\<close>; \<open>data\<close> is what is left to write.\<close>

fun async_buffers :: "desc_buffer list \<Rightarrow> bytes \<Rightarrow> nat \<Rightarrow> guest_memory \<Rightarrow> nat \<times> guest_memory" where
  "async_buffers [] data written m = (written, m)"
| "async_buffers (b # bs) data written m =
     (if \<not> device_writable b then (written, m)
      else
        let room = min (unat (buf_len b)) (length data - written) in
        if room = 0 then (written, m)
        else
          (case write_checked m (buf_addr b) (subslice data written room) of (ok, m') \<Rightarrow>
             if \<not> ok then (written, m')
             else if length data \<le> written + room then (written + room, m')
             else async_buffers bs data (written + room) m'))"

definition try_deliver_async ::
  "'d modern_pci \<Rightarrow> guest_memory \<Rightarrow> u16 \<Rightarrow> bytes \<Rightarrow> u32 option \<times> 'd modern_pci \<times> guest_memory" where
  "try_deliver_async s m qi data =
     (case get_queue (m_queues s) qi of
        None \<Rightarrow> (None, s, m)
      | Some q \<Rightarrow>
          (case try_pop q m (m_chain s) of (ok, q', chain') \<Rightarrow>
             let s = s\<lparr>m_queues := (m_queues s)[unat qi := q'], m_chain := chain'\<rparr> in
             if \<not> ok then (None, s, m)
             else
               (case async_buffers (buffers chain') data 0 m of (written, m') \<Rightarrow>
                  (Some (ucast (m_irq s)), s\<lparr>m_isr := m_isr s OR ISR_USED_BUFFER\<rparr>,
                   push_used q' m' chain' (of_nat written)))))"

text \<open>\<open>deliver_outbox\<close>: its loop over the packets the device handed out.\<close>

fun deliver_packets ::
  "(u16 \<times> bytes) list \<Rightarrow> bool \<Rightarrow> 'd modern_pci \<Rightarrow> guest_memory \<Rightarrow> bool \<times> 'd modern_pci \<times> guest_memory" where
  "deliver_packets [] delivered s m = (delivered, s, m)"
| "deliver_packets ((qi, bs) # rest) delivered s m =
     (case try_deliver_async s m qi bs of (r, s', m') \<Rightarrow>
        deliver_packets rest (delivered \<or> r \<noteq> None) s' m')"

definition deliver_outbox ::
  "'d device_ops \<Rightarrow> 'd modern_pci \<Rightarrow> guest_memory \<Rightarrow> bool \<times> 'd modern_pci \<times> guest_memory" where
  "deliver_outbox ops s m =
     (case take_outbox ops (m_dev s) of (outbox, d') \<Rightarrow> deliver_packets outbox False (s\<lparr>m_dev := d'\<rparr>) m)"

definition modern_drain_completions ::
  "'d device_ops \<Rightarrow> 'd modern_pci \<Rightarrow> guest_memory \<Rightarrow> u32 option \<times> 'd modern_pci \<times> guest_memory" where
  "modern_drain_completions ops s m =
     (case poll_completions ops (m_dev s) of (completions, d') \<Rightarrow>
        let s = s\<lparr>m_dev := d'\<rparr> in
        if completions = [] then (None, s, m)
        else
          let m = fold (complete_one (m_queues s)) completions m
          in (Some (ucast (m_irq s)), s\<lparr>m_isr := m_isr s OR ISR_USED_BUFFER\<rparr>, m))"

definition modern_drain_queue ::
  "'d device_ops \<Rightarrow> 'd modern_pci \<Rightarrow> guest_memory \<Rightarrow> u16 \<Rightarrow> (bool \<times> 'd modern_pci \<times> guest_memory) option" where
  "modern_drain_queue ops s m qi =
     (if \<not> wants_queue_notify ops (m_dev s) qi then Some (False, s, m)
      else
        case get_queue (m_queues s) qi of
          None \<Rightarrow> Some (False, s, m)
        | Some q \<Rightarrow>
            (case drain_loop ops qi False (m_dev s) q (m_chain s) m of
               None \<Rightarrow> None
             | Some (processed, d', q', chain', m') \<Rightarrow>
                 Some (processed, s\<lparr>m_dev := d', m_queues := (m_queues s)[unat qi := q'],
                   m_chain := chain'\<rparr>, m')))"

definition host_features64 :: "'d device_ops \<Rightarrow> 'd modern_pci \<Rightarrow> u64" where
  "host_features64 ops s = ucast (host_features ops (m_dev s)) OR VIRTIO_F_VERSION_1"

definition sel_addr :: "(virtqueue \<Rightarrow> u64) \<Rightarrow> virtqueue option \<Rightarrow> u64" where
  "sel_addr f q = (case q of None \<Rightarrow> 0 | Some q \<Rightarrow> f q)"

definition read_common_cfg :: "'d device_ops \<Rightarrow> 'd modern_pci \<Rightarrow> u64 \<Rightarrow> nat \<Rightarrow> bytes" where
  "read_common_cfg ops s off n =
     (let selected = get_queue (m_queues s) (m_queue_select s) in
      if off = CFG_DFSELECT then read_le (le32 (m_device_feature_select s)) n
      else if off = CFG_DF then
        read_le (le32 (if m_device_feature_select s = 1 then hi32 (host_features64 ops s)
                       else lo32 (host_features64 ops s))) n
      else if off = CFG_GFSELECT then read_le (le32 (m_guest_feature_select s)) n
      else if off = CFG_GF then
        read_le (le32 (if m_guest_feature_select s = 1 then hi32 (m_guest_features s)
                       else lo32 (m_guest_features s))) n
      else if off = CFG_MSIX then read_le (le16 NO_VECTOR) n
      else if off = CFG_NUMQ then read_le (le16 (of_nat (length (m_queues s)) :: u16)) n
      else if off = CFG_STATUS then read_le [m_status s] n
      else if off = CFG_CFGGEN then read_le [m_config_generation s] n
      else if off = CFG_QSELECT then read_le (le16 (m_queue_select s)) n
      else if off = CFG_QSIZE then read_le (le16 (case selected of None \<Rightarrow> 0 | Some q \<Rightarrow> q_size q)) n
      else if off = CFG_QMSIX then read_le (le16 NO_VECTOR) n
      else if off = CFG_QENABLE then
        read_le (le16 (of_bool (case selected of None \<Rightarrow> False | Some q \<Rightarrow> is_live q) :: u16)) n
      else if off = CFG_QNOFF then read_le (le16 (m_queue_select s)) n
      else if off = CFG_QDESCLO then read_le (le32 (lo32 (sel_addr q_desc selected))) n
      else if off = CFG_QDESCHI then read_le (le32 (hi32 (sel_addr q_desc selected))) n
      else if off = CFG_QAVAILLO then read_le (le32 (lo32 (sel_addr q_avail selected))) n
      else if off = CFG_QAVAILHI then read_le (le32 (hi32 (sel_addr q_avail selected))) n
      else if off = CFG_QUSEDLO then read_le (le32 (lo32 (sel_addr q_used selected))) n
      else if off = CFG_QUSEDHI then read_le (le32 (hi32 (sel_addr q_used selected))) n
      else replicate n 0)"

definition modern_reset_queue :: "virtqueue \<Rightarrow> virtqueue" where
  "modern_reset_queue q = q\<lparr>q_enabled := False, last_avail_idx := 0\<rparr>"

definition set_queue_addr :: "u64 \<Rightarrow> u32 \<Rightarrow> virtqueue \<Rightarrow> virtqueue" where
  "set_queue_addr off val q =
     (if off = CFG_QDESCLO then q\<lparr>q_desc := set_addr_lo (q_desc q) val\<rparr>
      else if off = CFG_QDESCHI then q\<lparr>q_desc := set_addr_hi (q_desc q) val\<rparr>
      else if off = CFG_QAVAILLO then q\<lparr>q_avail := set_addr_lo (q_avail q) val\<rparr>
      else if off = CFG_QAVAILHI then q\<lparr>q_avail := set_addr_hi (q_avail q) val\<rparr>
      else if off = CFG_QUSEDLO then q\<lparr>q_used := set_addr_lo (q_used q) val\<rparr>
      else q\<lparr>q_used := set_addr_hi (q_used q) val\<rparr>)"

definition write_common_cfg :: "'d modern_pci \<Rightarrow> u64 \<Rightarrow> bytes \<Rightarrow> 'd modern_pci" where
  "write_common_cfg s off data =
     (if off = CFG_DFSELECT \<and> length data = 4 then s\<lparr>m_device_feature_select := of_le data\<rparr>
      else if off = CFG_GFSELECT \<and> length data = 4 then s\<lparr>m_guest_feature_select := of_le data\<rparr>
      else if off = CFG_GF \<and> length data = 4 then
        s\<lparr>m_guest_features :=
            (if m_guest_feature_select s = 1 then set_addr_hi (m_guest_features s) (of_le data)
             else set_addr_lo (m_guest_features s) (of_le data))\<rparr>
      else if off = CFG_STATUS \<and> data \<noteq> [] then
        let s = s\<lparr>m_status := hd data\<rparr> in
        if m_status s = 0 then
          s\<lparr>m_queues := map modern_reset_queue (m_queues s), m_isr := 0,
            m_config_generation := m_config_generation s + 1\<rparr>
        else s
      else if off = CFG_QSELECT \<and> length data = 2 then s\<lparr>m_queue_select := of_le data\<rparr>
      else if off = CFG_QENABLE \<and> 2 \<le> length data then
        let val = of_le (take 2 data) :: u16 in
        s\<lparr>m_queues := update_queue (m_queues s) (m_queue_select s) (q_enabled_update (\<lambda>_. val AND 1 \<noteq> 0))\<rparr>
      else if off \<in> {CFG_QDESCLO, CFG_QDESCHI, CFG_QAVAILLO, CFG_QAVAILHI, CFG_QUSEDLO, CFG_QUSEDHI} \<and>
          length data = 4 then
        s\<lparr>m_queues := update_queue (m_queues s) (m_queue_select s) (set_queue_addr off (of_le data))\<rparr>
      else s)"

subsection \<open>Snapshot\<close>

definition modern_save_queue :: "virtqueue \<Rightarrow> bytes" where
  "modern_save_queue q = le64 (q_desc q) @ le64 (q_avail q) @ le64 (q_used q) @ [of_bool (q_enabled q)] @
     le16 (last_avail_idx q)"

definition modern_save_state :: "'d modern_pci \<Rightarrow> bytes" where
  "modern_save_state s = le32 (m_device_feature_select s) @ le32 (m_guest_feature_select s) @
     le64 (m_guest_features s) @ [m_status s] @ [m_config_generation s] @ le16 (m_queue_select s) @
     [m_isr s] @ le32 (of_nat (length (m_queues s))) @ concat (map modern_save_queue (m_queues s))"

definition modern_restore_queue :: "bytes \<Rightarrow> virtqueue \<Rightarrow> (snap_error + bytes) \<times> virtqueue" where
  "modern_restore_queue =
     take_into take_u64 (\<lambda>v. q_desc_update (\<lambda>_. v))
     (take_into take_u64 (\<lambda>v. q_avail_update (\<lambda>_. v))
     (take_into take_u64 (\<lambda>v. q_used_update (\<lambda>_. v))
     (take_into take_u8 (\<lambda>v. q_enabled_update (\<lambda>_. v \<noteq> 0))
     (take_into take_u16 (\<lambda>v. last_avail_idx_update (\<lambda>_. v)) (\<lambda>buf q. (Inr buf, q))))))"

fun modern_restore_queues :: "bytes \<Rightarrow> virtqueue list \<Rightarrow> (snap_error + unit) \<times> virtqueue list" where
  "modern_restore_queues buf [] = (Inr (), [])"
| "modern_restore_queues buf (q # qs) =
     (case modern_restore_queue buf q of
        (Inl e, q') \<Rightarrow> (Inl e, q' # qs)
      | (Inr buf', q') \<Rightarrow>
          (case modern_restore_queues buf' qs of (r, qs') \<Rightarrow> (r, q' # qs')))"

definition modern_restore_state :: "bytes \<Rightarrow> 'd modern_pci \<Rightarrow> (snap_error + unit) \<times> 'd modern_pci" where
  "modern_restore_state =
     take_into take_u32 (\<lambda>v. m_device_feature_select_update (\<lambda>_. v))
     (take_into take_u32 (\<lambda>v. m_guest_feature_select_update (\<lambda>_. v))
     (take_into take_u64 (\<lambda>v. m_guest_features_update (\<lambda>_. v))
     (take_into take_u8 (\<lambda>v. m_status_update (\<lambda>_. v))
     (take_into take_u8 (\<lambda>v. m_config_generation_update (\<lambda>_. v))
     (take_into take_u16 (\<lambda>v. m_queue_select_update (\<lambda>_. v))
     (take_into take_u8 (\<lambda>v. m_isr_update (\<lambda>_. v))
     (\<lambda>buf s.
        case take_u32 buf of
          Inl e \<Rightarrow> (Inl e, s)
        | Inr (n, buf) \<Rightarrow>
            if unat n \<noteq> length (m_queues s) then (Inl (Queue_count (unat n) (length (m_queues s))), s)
            else
              (case modern_restore_queues buf (m_queues s) of (r, qs) \<Rightarrow> (r, s\<lparr>m_queues := qs\<rparr>)))))))))"

subsection \<open>PCI identity, BAR 0 and its capability list\<close>

definition modern_device_id :: "'d modern_pci \<Rightarrow> u16" where
  "modern_device_id s = 0x1040 + m_device_type s"

definition modern_bar_sizes :: "'d modern_pci \<Rightarrow> u32 list" where
  "modern_bar_sizes s = [m_bar_len s, 0, 0, 0, 0, 0]"

definition extra_capabilities :: "'d modern_pci \<Rightarrow> bytes" where
  "extra_capabilities s =
     (let common_off = EXTRA_CAP_OFFSET;
          notify_off = common_off + of_nat VIRTIO_PCI_CAP_LEN;
          isr_off = notify_off + of_nat VIRTIO_PCI_NOTIFY_CAP_LEN;
          device_off = isr_off + of_nat VIRTIO_PCI_CAP_LEN;
          notify_len = ucast (m_isr_base s - m_notify_base s) :: u32;
          common = build_cap VIRTIO_PCI_CAP_COMMON_CFG 0 0 (ucast COMMON_CFG_LEN) (ucast notify_off);
          isr = build_cap VIRTIO_PCI_CAP_ISR_CFG 0 (ucast (m_isr_base s)) (ucast ISR_REGION_LEN) (ucast device_off);
          device = build_cap VIRTIO_PCI_CAP_DEVICE_CFG 0 (ucast (m_device_base s))
            (m_bar_len s - ucast (m_device_base s)) 0;
          notify = (build_cap VIRTIO_PCI_CAP_NOTIFY_CFG 0 (ucast (m_notify_base s)) notify_len (ucast isr_off))
            [2 := of_nat VIRTIO_PCI_NOTIFY_CAP_LEN] @ le32 NOTIFY_MULTIPLIER
      in common @ notify @ isr @ device)"

definition modern_read :: "'d device_ops \<Rightarrow> 'd modern_pci \<Rightarrow> u64 \<Rightarrow> nat \<Rightarrow> bytes \<times> 'd modern_pci" where
  "modern_read ops s off n =
     (if off < COMMON_CFG_LEN then (read_common_cfg ops s off n, s)
      else if off = m_isr_base s then (read_le [m_isr s] n, s\<lparr>m_isr := 0\<rparr>)
      else if m_device_base s \<le> off then (read_config ops (m_dev s) (off - m_device_base s) n, s)
      else (replicate n 0, s))"

definition modern_write ::
  "'d device_ops \<Rightarrow> 'd modern_pci \<Rightarrow> guest_memory \<Rightarrow> u64 \<Rightarrow> bytes \<Rightarrow>
   (bool \<times> 'd modern_pci \<times> guest_memory) option" where
  "modern_write ops s m off data =
     (if off < COMMON_CFG_LEN then Some (False, write_common_cfg s off data, m)
      else if m_notify_base s \<le> off \<and> off < m_isr_base s then
        let idx = ucast ((off - m_notify_base s) div ucast NOTIFY_MULTIPLIER) in
        (case modern_drain_queue ops s m idx of
           None \<Rightarrow> None
         | Some (drained, s1, m1) \<Rightarrow>
             (case deliver_outbox ops s1 m1 of (delivered, s2, m2) \<Rightarrow>
                if drained \<or> delivered then Some (True, s2\<lparr>m_isr := m_isr s2 OR ISR_USED_BUFFER\<rparr>, m2)
                else Some (False, s2, m2)))
      else if m_device_base s \<le> off then
        Some (False, s\<lparr>m_dev := write_config ops (m_dev s) (off - m_device_base s) data\<rparr>, m)
      else Some (False, s, m))"

subsection \<open>Address halves\<close>

lemma low_mask: "(0xffffffff :: u64) = mask 32"
  by (simp add: mask_eq_exp_minus_1)

lemmas addr_half_defs = set_addr_hi_def set_addr_lo_def lo32_def hi32_def low_mask

lemma set_addr_halves: "set_addr_hi (set_addr_lo cur (lo32 a)) (hi32 a) = a"
  by (rule bit_word_eqI) (auto simp: addr_half_defs bit_simps)

lemma lo32_set_lo [simp]: "lo32 (set_addr_lo cur v) = v"
  by (rule bit_word_eqI) (auto simp: addr_half_defs bit_simps)

lemma hi32_set_hi [simp]: "hi32 (set_addr_hi cur v) = v"
  by (rule bit_word_eqI) (auto simp: addr_half_defs bit_simps dest: bit_imp_le_length)

lemma lo32_set_hi [simp]: "lo32 (set_addr_hi cur v) = lo32 cur"
  by (rule bit_word_eqI) (auto simp: addr_half_defs bit_simps)

lemma hi32_set_lo [simp]: "hi32 (set_addr_lo cur v) = hi32 cur"
  by (rule bit_word_eqI) (auto simp: addr_half_defs bit_simps dest: bit_imp_le_length)

subsection \<open>Snapshot round trip\<close>

lemma modern_restore_queue_save:
  assumes "q_size t = q_size q" and "q_pfn t = q_pfn q"
  shows "modern_restore_queue (modern_save_queue q @ rest) t = (Inr rest, q)"
  using assms
  by (cases q; cases t) (simp add: modern_restore_queue_def modern_save_queue_def take_into_simps)

lemma modern_restore_queues_save:
  assumes "map (\<lambda>q. (q_size q, q_pfn q)) ts = map (\<lambda>q. (q_size q, q_pfn q)) qs"
  shows "modern_restore_queues (concat (map modern_save_queue qs)) ts = (Inr (), qs)"
  using assms
proof (induction qs arbitrary: ts)
  case (Cons q qs)
  then obtain t us where "ts = t # us" "q_size t = q_size q" "q_pfn t = q_pfn q"
    "map (\<lambda>q. (q_size q, q_pfn q)) us = map (\<lambda>q. (q_size q, q_pfn q)) qs" by (cases ts) auto
  with Cons.IH show ?case by (simp add: modern_restore_queue_save)
qed simp

text \<open>Restoring a modern transport's snapshot into a transport of the same device shape gives back
  the whole saved register state, every queue included, whatever the target held before.\<close>

lemma modern_snapshot_roundtrip:
  assumes "map (\<lambda>q. (q_size q, q_pfn q)) (m_queues t) = map (\<lambda>q. (q_size q, q_pfn q)) (m_queues s)"
    and "length (m_queues s) < 2 ^ 32"
  shows "modern_restore_state (modern_save_state s) t =
    (Inr (), t\<lparr>m_device_feature_select := m_device_feature_select s,
       m_guest_feature_select := m_guest_feature_select s, m_guest_features := m_guest_features s,
       m_status := m_status s, m_config_generation := m_config_generation s,
       m_queue_select := m_queue_select s, m_isr := m_isr s, m_queues := m_queues s\<rparr>)"
proof -
  have "length (m_queues t) = length (m_queues s)" using assms(1) by (rule map_eq_imp_length_eq)
  moreover have "unat (of_nat (length (m_queues s)) :: u32) = length (m_queues s)"
    using assms(2) by (simp add: unat_of_nat)
  ultimately show ?thesis
    unfolding modern_restore_state_def modern_save_state_def append.simps take_into_simps c32.dec_enc
    by (simp add: modern_restore_queues_save [OF assms(1)])
qed

subsection \<open>Asynchronous delivery\<close>

text \<open>
  The buffers \<open>try_deliver_async\<close> really uses: it stops at the first buffer that is
  read-only or empty.
\<close>

definition async_room :: "desc_buffer list \<Rightarrow> desc_buffer list" where
  "async_room bs = takeWhile (\<lambda>b. device_writable b \<and> buf_len b \<noteq> 0) bs"

lemma async_buffers_spec:
  assumes "list_all (buf_ok m) bs" and "w \<le> length data"
  shows "async_buffers bs data w m =
    (w + min (length data - w) (total_len (async_room bs)), scatter m (async_room bs) (drop w data))"
  using assms
proof (induction bs arbitrary: w m)
  case Nil
  then show ?case by (simp add: async_room_def)
next
  case (Cons b bs)
  let ?n = "unat (buf_len b)" let ?r = "min ?n (length data - w)"
  let ?m = "mem_write m (unat (buf_addr b)) (take ?n (drop w data))"
  show ?case
  proof (cases "device_writable b \<and> buf_len b \<noteq> 0 \<and> w < length data")
    case False
    then consider "\<not> device_writable b" | "buf_len b = 0" | "w = length data" using Cons.prems by force
    then show ?thesis by cases (simp_all add: async_room_def Let_def)
  next
    case True
    then have nz: "?r \<noteq> 0" by (simp add: unat_gt_0)
    have sub: "subslice data w ?r = take ?n (drop w data)"
      by (simp add: subslice_def min_def)
    have wr: "write_checked m (buf_addr b) (subslice data w ?r) = (True, ?m)"
      using Cons.prems(1) unfolding sub by (auto simp: write_checked_eq buf_ok_def mem_fits_def)
    have ok: "list_all (buf_ok ?m) bs" using Cons.prems by (simp add: buf_ok_mem_size [of ?m m])
    show ?thesis
    proof (cases "length data \<le> w + ?r")
      case True
      with \<open>device_writable b \<and> _\<close> nz wr show ?thesis by (auto simp: Let_def async_room_def)
    next
      case False
      then have r: "?r = ?n" by simp
      with False have "w + ?n \<le> length data" by simp
      from Cons.IH [OF ok this] show ?thesis
        using \<open>device_writable b \<and> _\<close> False nz wr r by (auto simp: Let_def async_room_def ac_simps)
    qed
  qed
qed

text \<open>Asynchronous delivery writes the packet into the device-writable, non-empty prefix of the
  popped chain, front to back, and the used entry carries exactly the number of bytes stored.\<close>

lemma async_delivery:
  assumes "get_queue (m_queues s) qi = Some q" and "try_pop q m (m_chain s) = (True, q', c)"
  shows "try_deliver_async s m qi data =
    (let bs = async_room (buffers c)
     in (Some (ucast (m_irq s)),
         s\<lparr>m_queues := (m_queues s)[unat qi := q'], m_chain := c, m_isr := m_isr s OR ISR_USED_BUFFER\<rparr>,
         push_used q' (scatter m bs data) c (of_nat (min (length data) (total_len bs)))))"
  using async_buffers_spec [OF try_pop_buffers(1) [OF assms(2)], of 0 data]
  by (simp add: try_deliver_async_def assms Let_def)

subsection \<open>The regions a driver discovers\<close>

text \<open>What a driver reads off the capability list: per structure its type, offset and length in
  BAR 0. \<open>off\<close> is the config-space offset of the next capability, zero ends the list.\<close>

definition decode_cap :: "bytes \<Rightarrow> u8 \<times> u8 \<times> u32 \<times> u32" where
  "decode_cap b = (b ! 1, b ! 3, of_le (subslice b 8 4), of_le (subslice b 12 4))"

fun walk_caps :: "nat \<Rightarrow> bytes \<Rightarrow> u8 \<Rightarrow> (u8 \<times> u32 \<times> u32) list" where
  "walk_caps 0 buf off = []"
| "walk_caps (Suc n) buf off =
     (if off = 0 then []
      else case decode_cap (drop (unat off - unat EXTRA_CAP_OFFSET) buf) of
        (nxt, ty, start, len) \<Rightarrow> (ty, start, len) # walk_caps n buf nxt)"

lemma length_build_cap [simp]: "length (build_cap t b off len nxt) = 16"
  by (simp add: build_cap_def)

lemma decode_build_cap [simp]: "decode_cap (build_cap t b off len nxt @ rest) = (nxt, t, off, len)"
  by (simp add: decode_cap_def build_cap_def subslice_def)

lemma decode_notify_cap [simp]:
  "decode_cap ((build_cap t b off len nxt)[2 := v] @ rest) = (nxt, t, off, len)"
  by (simp add: decode_cap_def build_cap_def subslice_def)

lemma decode_last_cap [simp]: "decode_cap (build_cap t b off len nxt) = (nxt, t, off, len)"
  using decode_build_cap [where rest = "[]"] by simp

lemma walk_extra_capabilities:
  "walk_caps 5 (extra_capabilities s) (ucast EXTRA_CAP_OFFSET) =
     [(VIRTIO_PCI_CAP_COMMON_CFG, 0, 56),
      (VIRTIO_PCI_CAP_NOTIFY_CFG, ucast (m_notify_base s), ucast (m_isr_base s - m_notify_base s)),
      (VIRTIO_PCI_CAP_ISR_CFG, ucast (m_isr_base s), 4),
      (VIRTIO_PCI_CAP_DEVICE_CFG, ucast (m_device_base s), m_bar_len s - ucast (m_device_base s))]"
proof -
  have 5: "(5 :: nat) = Suc (Suc (Suc (Suc (Suc 0))))" by simp
  show ?thesis
    unfolding 5
    by (simp add: extra_capabilities_def Let_def EXTRA_CAP_OFFSET_def VIRTIO_PCI_CAP_LEN_def
        VIRTIO_PCI_NOTIFY_CAP_LEN_def COMMON_CFG_LEN_def ISR_REGION_LEN_def)
qed

lemma ucast_of_nat_32: "(ucast (of_nat k :: u64) :: u32) = of_nat k"
  by (simp add: unsigned_of_nat word_of_nat_eq_iff take_bit_take_bit)

lemma next_power_of_two_spec:
  assumes "unat x \<le> 2 ^ 31"
  shows "\<exists>k < 32. next_power_of_two x = push_bit k 1" and "unat x \<le> unat (next_power_of_two x)"
proof -
  have "31 \<in> set [0..<32]" by simp
  with assms have "find (\<lambda>k. unat x \<le> 2 ^ k) [0..<32] \<noteq> None" unfolding find_None_iff by blast
  then obtain k where k: "find (\<lambda>k. unat x \<le> 2 ^ k) [0..<32] = Some k" by blast
  from find_SomeD [OF this] have *: "k < 32" "unat x \<le> 2 ^ k" by auto
  have "unat (push_bit k 1 :: u32) = 2 ^ k" using *(1) by (simp add: push_bit_eq_mult unat_pow2)
  with k * show "\<exists>k < 32. next_power_of_two x = push_bit k 1" "unat x \<le> unat (next_power_of_two x)"
    by (auto simp: next_power_of_two_def)
qed

lemma modern_new_layout:
  fixes ops d clen
  defines "n \<equiv> unat (num_queues ops d)"
  assumes "60 + 4 * n + unat clen \<le> 2 ^ 31"
  shows "m_notify_base (modern_new ops d irq ty clen) = 56"
    and "m_isr_base (modern_new ops d irq ty clen) = 56 + 4 * of_nat n"
    and "m_device_base (modern_new ops d irq ty clen) = 60 + 4 * of_nat n"
    and "60 + 4 * n + unat clen \<le> unat (m_bar_len (modern_new ops d irq ty clen))"
proof -
  have n: "(ucast (num_queues ops d) :: u64) = of_nat n" by (simp add: n_def)
  show "m_notify_base (modern_new ops d irq ty clen) = 56"
    "m_isr_base (modern_new ops d irq ty clen) = 56 + 4 * of_nat n"
    and db: "m_device_base (modern_new ops d irq ty clen) = 60 + 4 * of_nat n"
    unfolding modern_new_def Let_def modern_pci.select_convs n
    by (simp_all add: cfg_defs mult.commute)
  let ?e = "60 + 4 * of_nat n + ucast clen :: u64"
  have "?e = of_nat (60 + 4 * n + unat clen)" by (simp add: n_def)
  then have e: "unat (ucast ?e :: u32) = 60 + 4 * n + unat clen"
    using assms(2) by (simp add: ucast_of_nat_32 unat_of_nat del: of_nat_add)
  have "m_bar_len (modern_new ops d irq ty clen) = max (next_power_of_two (ucast ?e)) 4096"
    unfolding modern_new_def Let_def modern_pci.select_convs n by (simp add: cfg_defs mult.commute)
  moreover have "unat (ucast ?e :: u32) \<le> unat (next_power_of_two (ucast ?e))"
    using assms(2) e by (intro next_power_of_two_spec(2)) simp
  ultimately show "60 + 4 * n + unat clen \<le> unat (m_bar_len (modern_new ops d irq ty clen))"
    using e by (simp add: max_def word_le_nat_alt)
qed

text \<open>The capability list of a freshly built transport advertises, in order, the common, notify,
  ISR and device structures; they lie back to back in BAR 0 without overlap, and the device
  structure has room for the whole device-specific configuration.\<close>

lemma modern_capability_layout:
  assumes "s = modern_new ops d irq ty clen" and "n = unat (num_queues ops d)"
    and "60 + 4 * n + unat clen \<le> 2 ^ 31"
  shows "\<exists>len. walk_caps 5 (extra_capabilities s) (ucast EXTRA_CAP_OFFSET) =
      [(VIRTIO_PCI_CAP_COMMON_CFG, 0, 56),
       (VIRTIO_PCI_CAP_NOTIFY_CFG, 56, 4 * of_nat n),
       (VIRTIO_PCI_CAP_ISR_CFG, 56 + 4 * of_nat n, 4),
       (VIRTIO_PCI_CAP_DEVICE_CFG, 60 + 4 * of_nat n, len)] \<and>
    unat clen \<le> unat len \<and> 60 + 4 * n + unat len = unat (m_bar_len s)"
proof -
  note lay = modern_new_layout [OF assms(3) [unfolded assms(2)], of irq ty, folded assms(1,2)]
  have n: "n < 2 ^ 16" using assms(2) unat_lt_pow [of "num_queues ops d"] by simp
  have u: "(ucast (60 + 4 * of_nat n :: u64) :: u32) = of_nat (60 + 4 * n)"
    "(ucast (56 + 4 * of_nat n :: u64) :: u32) = of_nat (56 + 4 * n)"
    "(ucast (4 * of_nat n :: u64) :: u32) = of_nat (4 * n)"
    using ucast_of_nat_32 [of "60 + 4 * n"] ucast_of_nat_32 [of "56 + 4 * n"] ucast_of_nat_32 [of "4 * n"]
    by simp_all
  have "unat (of_nat (60 + 4 * n) :: u32) = 60 + 4 * n" using n by (intro unat_of_nat_lt) simp
  then have "unat (m_bar_len s - of_nat (60 + 4 * n)) = unat (m_bar_len s) - (60 + 4 * n)"
    using lay(4) by (simp add: unat_simps word_le_nat_alt)
  then show ?thesis
    using lay(4)
    by (intro exI [of _ "m_bar_len s - of_nat (60 + 4 * n)"])
      (simp add: walk_extra_capabilities lay(1-3) u)
qed

subsection \<open>A queue that is its own used ring\<close>

text \<open>
  The guest may set the used ring to the address of the avail ring. Then every
  completion the device reports advances the very index the drain loop compares
  against. \<open>alias_queue\<close> and \<open>alias_mem\<close> are such a queue and the (almost zero) guest
  memory behind it; a device that answers the one empty chain there with
  \<open>Done 0\<close> keeps the loop going forever.
\<close>

definition alias_queue :: "u16 \<Rightarrow> virtqueue" where
  "alias_queue i = \<lparr>q_size = 64, q_pfn = 0, q_desc = 0x1000, q_avail = 0x2000, q_used = 0x2000,
     q_enabled = True, last_avail_idx = i\<rparr>"

definition alias_mem :: "u64 \<Rightarrow> u16 \<Rightarrow> guest_memory" where
  "alias_mem sz i = mem_write (mem_new sz) 0x2002 (le16 i)"

definition empty_chain :: desc_chain where
  "empty_chain = \<lparr>head_index = 0, buffers = [\<lparr>buf_addr = 0, buf_len = 0, device_writable = False\<rparr>]\<rparr>"

lemma alias_bytes:
  "mem_size (alias_mem sz i) = sz"
  "mem_bytes (alias_mem sz i) a = (if a = 0x2002 then le16 i ! 0 else if a = 0x2003 then le16 i ! 1 else 0)"
  by (auto simp: alias_mem_def mem_new_def mem_bytes_write)

lemma mem_read_zero: "(\<And>i. a \<le> i \<Longrightarrow> i < a + n \<Longrightarrow> mem_bytes m i = 0) \<Longrightarrow> mem_read m a n = replicate n 0"
  by (rule nth_equalityI) (simp_all add: mem_read_def)

lemma alias_read_idx: "0x3000 \<le> sz \<Longrightarrow> read_u16_checked (alias_mem sz i) 0x2002 = Some i"
proof -
  have "mem_read (alias_mem sz i) 0x2002 2 = le16 i"
    using mem_read_write_same [where m = "mem_new sz" and src = "le16 i"] by (simp add: alias_mem_def)
  then show "0x3000 \<le> sz \<Longrightarrow> ?thesis"
    by (simp add: read_u16_checked_def read_checked_eq alias_bytes(1) word_le_nat_alt)
qed

lemma mod64: "unat ((i :: u16) mod 64) < 64"
  using unat_mod_lt [of 64 i] by simp

lemma alias_read_head:
  assumes "0x3000 \<le> sz"
  shows "read_u16_checked (alias_mem sz i) (0x2004 + ucast (k mod 64 :: u16) * 2) = Some 0"
proof -
  have u: "unat (0x2004 + ucast (k mod 64) * 2 :: u64) = 0x2004 + 2 * unat (k mod 64)"
    using mod64 [of k] by (simp add: ucast_of_nat_unat unat_add_scaled del: of_nat_unat)
  have "mem_read (alias_mem sz i) (0x2004 + 2 * unat (k mod 64)) 2 = replicate 2 0"
    by (rule mem_read_zero) (auto simp: alias_bytes)
  then show ?thesis
    using assms u mod64 [of k]
    by (simp add: read_u16_checked_def read_checked_eq alias_bytes(1) word_le_nat_alt)
qed

lemma alias_walk:
  assumes "0x3000 \<le> sz"
  shows "walk_chain 64 (alias_queue k) (alias_mem sz i) 0 0 [] = (True, buffers empty_chain)"
proof -
  have "mem_read (alias_mem sz i) 0x1000 16 = replicate 16 0"
    by (rule mem_read_zero) (auto simp: alias_bytes)
  then have "desc_at (alias_queue k) (alias_mem sz i) 0 = Some (\<lparr>buf_addr = 0, buf_len = 0, device_writable = False\<rparr>, 0, 0)"
    using assms
    by (simp add: desc_at_def alias_queue_def read_checked_eq alias_bytes(1) decode_desc_def subslice_def
        in_bounds_iff word_le_nat_alt)
  moreover have "(64 :: nat) = Suc 63" by simp
  ultimately show ?thesis by (simp only: walk_chain_Suc) (simp add: empty_chain_def)
qed

lemma alias_pop:
  assumes "0x3000 \<le> sz" and "i \<noteq> k"
  shows "try_pop (alias_queue k) (alias_mem sz i) chain = (True, alias_queue (k + 1), empty_chain)"
  using assms alias_read_idx [OF assms(1), of i] alias_read_head [OF assms(1), of i k] alias_walk [OF assms(1), of k i]
  by (simp add: try_pop_def alias_queue_def is_live_def Let_def empty_chain_def)

lemma mem_write_zero_id:
  "(\<And>j. a \<le> j \<Longrightarrow> j < a + n \<Longrightarrow> mem_bytes m j = 0) \<Longrightarrow> mem_write m a (replicate n 0) = m"
  by (cases m) (auto simp: mem_write_def fun_eq_iff)

lemma mem_write_twice: "length xs = length ys \<Longrightarrow> mem_write (mem_write m a xs) a ys = mem_write m a ys"
  by (cases m) (auto simp: mem_write_def fun_eq_iff)

lemma write_u32_zero:
  assumes "unat a + 4 \<le> unat (mem_size m)" and "\<And>j. unat a \<le> j \<Longrightarrow> j < unat a + 4 \<Longrightarrow> mem_bytes m j = 0"
  shows "snd (write_u32_checked m a 0) = m"
proof -
  show ?thesis using assms mem_write_zero_id [of "unat a" 4 m]
    by (simp add: write_u32_checked_def write_checked_eq le_bytes_zero)
qed

lemma alias_push:
  assumes "0x3000 \<le> sz"
  shows "push_used (alias_queue k) (alias_mem sz i) empty_chain 0 = alias_mem sz (i + 1)"
proof -
  let ?q = "alias_queue k" and ?m = "alias_mem sz i"
  have q: "q_used ?q = 0x2000" "q_size ?q = 64" "is_live ?q" by (simp_all add: alias_queue_def is_live_def)
  have ok: "used_no_wrap ?q" by (simp add: used_no_wrap_def q)
  let ?j = "unat (i mod 64)"
  have j: "?j < unat (q_size ?q)" using mod64 [of i] by (simp add: q)
  have u: "used_idx ?q ?m = i" using alias_read_idx [OF assms, of i] by (simp add: used_idx_def idx_addr_def q)
  note ad = used_addr_unat(2,3) [OF ok j]
  have w: "snd (write_u32_checked ?m (elem_addr ?q ?j) 0) = ?m"
    "snd (write_u32_checked ?m (elem_addr ?q ?j + 4) 0) = ?m"
    using assms j by (auto intro!: write_u32_zero simp: ad q alias_bytes word_le_nat_alt)
  have "snd (write_u16_checked ?m 0x2002 (i + 1)) = alias_mem sz (i + 1)"
    using assms
    by (simp add: write_u16_checked_def write_checked_eq alias_bytes(1) word_le_nat_alt)
      (simp add: alias_mem_def mem_write_twice)
  then show ?thesis
    by (simp add: push_used_def push_used_head_live [OF q(3)] u q(2) w empty_chain_def Let_def)
      (simp add: idx_addr_def q)
qed

lemma alias_drain_diverges:
  assumes "0x3000 \<le> sz"
    and idle: "\<And>d m. \<exists>d'. process_chain ops d qi m empty_chain = (Done 0, d', m)"
  shows "drain_loop ops qi processed d (alias_queue 0) chain (alias_mem sz 1) = None"
proof (rule drain_loop_diverges [where
      Bad = "\<lambda>processed d q chain m. \<exists>k. q = alias_queue k \<and> m = alias_mem sz (k + 1)"])
  show "\<exists>k. alias_queue 0 = alias_queue k \<and> alias_mem sz 1 = alias_mem sz (k + 1)"
    by (intro exI [of _ 0]) simp
next
  fix processed d q chain m
  assume "\<exists>k. q = alias_queue k \<and> m = alias_mem sz (k + 1)"
  then obtain k where k: "q = alias_queue k" "m = alias_mem sz (k + 1)" by blast
  obtain d' where "process_chain ops d qi m empty_chain = (Done 0, d', m)" using idle by blast
  then have "chain_step ops qi d (alias_queue (k + 1)) empty_chain m = (True, d', alias_mem sz (k + 1 + 1))"
    by (simp add: chain_step_def k alias_push [OF assms(1)])
  moreover have "try_pop q m chain = (True, alias_queue (k + 1), empty_chain)"
    unfolding k by (rule alias_pop [OF assms(1)]) simp
  ultimately show "\<exists>q' c fin d' m'. try_pop q m chain = (True, q', c) \<and> chain_step ops qi d q' c m = (fin, d', m') \<and>
      (\<exists>k. q' = alias_queue k \<and> m' = alias_mem sz (k + 1))"
    by blast
qed

end
