(* ===== verification/Virtio_I2c.thy ===== *)
theory Virtio_I2c
  imports Virtio_Modern
begin

text \<open>
  The virtual I2C bus (\<open>src/i2c.rs\<close>) and the virtio-i2c adapter (\<open>src/virtio_i2c.rs\<close>).
  A target device is an implementation of \<open>trait I2cTargetDevice\<close>, which plugins provide:
  its two methods are the parameter \<open>target_ops\<close> over a target state \<open>'t\<close>. The bus is the
  map from 7-bit addresses to targets, and is the whole state of the adapter.
\<close>

record 't target_ops =
  i2c_write :: "'t \<Rightarrow> bytes \<Rightarrow> 't"
  i2c_read :: "'t \<Rightarrow> nat \<Rightarrow> bytes \<times> 't"

definition MAX_I2C_ADDRESS :: u8 where "MAX_I2C_ADDRESS = 0x7f"

type_synonym 't i2c_bus = "u8 \<rightharpoonup> 't"

datatype i2c_error = Address_too_big u8 | Address_occupied u8

definition i2c_register :: "'t i2c_bus \<Rightarrow> u8 \<Rightarrow> 't \<Rightarrow> i2c_error + 't i2c_bus" where
  "i2c_register bus addr dev =
     (if MAX_I2C_ADDRESS < addr then Inl (Address_too_big addr)
      else if bus addr \<noteq> None then Inl (Address_occupied addr)
      else Inr (bus(addr \<mapsto> dev)))"

definition i2c_get :: "'t i2c_bus \<Rightarrow> u8 \<Rightarrow> 't option" where
  "i2c_get bus addr = bus addr"

definition F_ZERO_LENGTH_REQUEST :: u32 where "F_ZERO_LENGTH_REQUEST = push_bit 0 1"
definition FLAG_M_RD :: u32 where "FLAG_M_RD = push_bit 1 1"
definition I2C_STATUS_OK :: u8 where "I2C_STATUS_OK = 0"
definition I2C_STATUS_ERR :: u8 where "I2C_STATUS_ERR = 1"
definition OUT_HDR_LEN :: nat where "OUT_HDR_LEN = 8"

text \<open>The addressed message: status, byte count, the bus afterwards and the memory.\<close>

definition i2c_message ::
  "'t target_ops \<Rightarrow> 't i2c_bus \<Rightarrow> guest_memory \<Rightarrow> u8 \<Rightarrow> bool \<Rightarrow> desc_buffer option \<Rightarrow>
   (u8 \<times> u32) \<times> 't i2c_bus \<times> guest_memory" where
  "i2c_message tops bus m addr7 is_read data_buf =
     (case data_buf of
        None \<Rightarrow> ((if i2c_get bus addr7 \<noteq> None then I2C_STATUS_OK else I2C_STATUS_ERR, 0), bus, m)
      | Some buf \<Rightarrow>
          (case i2c_get bus addr7 of
             None \<Rightarrow> ((I2C_STATUS_ERR, 0), bus, m)
           | Some target \<Rightarrow>
               if is_read then
                 let want = unat (buf_len buf) in
                 (case i2c_read tops target want of (bs, target') \<Rightarrow>
                    let n = min (length bs) want; bus' = bus(addr7 \<mapsto> target') in
                    if n = 0 then ((I2C_STATUS_OK, of_nat n), bus', m)
                    else
                      (case write_checked m (buf_addr buf) (take n bs) of (ok, m') \<Rightarrow>
                         if \<not> ok then ((I2C_STATUS_ERR, 0), bus', m')
                         else ((I2C_STATUS_OK, of_nat n), bus', m')))
               else
                 (case read_checked m (buf_addr buf) (unat (buf_len buf)) of
                    None \<Rightarrow> ((I2C_STATUS_ERR, 0), bus, m)
                  | Some data \<Rightarrow>
                      ((I2C_STATUS_OK, of_nat (length data)), bus(addr7 \<mapsto> i2c_write tops target data), m))))"

definition i2c_process_chain ::
  "'t target_ops \<Rightarrow> 't i2c_bus \<Rightarrow> u16 \<Rightarrow> guest_memory \<Rightarrow> desc_chain \<Rightarrow> chain_outcome \<times> 't i2c_bus \<times> guest_memory" where
  "i2c_process_chain tops bus queue m chain =
     (let bufs = buffers chain in
      if length bufs \<noteq> 2 \<and> length bufs \<noteq> 3 then (Done 0, bus, m)
      else
        let hdr_buf = bufs ! 0; status_buf = last bufs in
        if device_writable hdr_buf \<or> unat (buf_len hdr_buf) \<noteq> OUT_HDR_LEN \<or>
            \<not> device_writable status_buf \<or> buf_len status_buf = 0
        then (Done 0, bus, m)
        else
          case read_checked m (buf_addr hdr_buf) OUT_HDR_LEN of
            None \<Rightarrow> (Done 0, bus, m)
          | Some hdr \<Rightarrow>
              let addr_field = of_le (subslice hdr 0 2) :: u16;
                  flags = of_le (subslice hdr 4 4) :: u32;
                  addr7 = ucast (drop_bit 1 addr_field);
                  is_read = (flags AND FLAG_M_RD \<noteq> 0);
                  data_buf = (if length bufs = 3 then Some (bufs ! 1) else None)
              in
              (case i2c_message tops bus m addr7 is_read data_buf of ((status, written), bus', m') \<Rightarrow>
                 (Done (1 + written), bus', snd (write_checked m' (buf_addr status_buf) [status]))))"

definition i2c_ops :: "'t target_ops \<Rightarrow> 't i2c_bus device_ops" where
  "i2c_ops tops = \<lparr>legacy_pci_device_id = (\<lambda>_. 0), virtio_device_type = (\<lambda>_. 34),
     wants_queue_notify = (\<lambda>_ _. True), pci_class_code = (\<lambda>_. 0x0c0500), num_queues = (\<lambda>_. 1),
     queue_size = (\<lambda>_ _. 64), host_features = (\<lambda>_. F_ZERO_LENGTH_REQUEST),
     read_config = (\<lambda>_ _ n. replicate n 0), write_config = (\<lambda>d _ _. d),
     process_chain = i2c_process_chain tops, poll_completions = (\<lambda>d. ([], d)),
     take_outbox = (\<lambda>d. ([], d))\<rparr>"

subsection \<open>The bus\<close>

text \<open>The bus holds 7-bit addresses only and one target per address: a registration succeeds exactly
  on a free 7-bit address, is then found there, and never changes who answers elsewhere.\<close>

lemma i2c_register_exact:
  "case i2c_register bus addr dev of
     Inl e \<Rightarrow> 0x7f < addr \<and> e = Address_too_big addr \<or>
       addr \<le> 0x7f \<and> i2c_get bus addr \<noteq> None \<and> e = Address_occupied addr
   | Inr bus' \<Rightarrow> addr \<le> 0x7f \<and> i2c_get bus addr = None \<and> i2c_get bus' = (i2c_get bus)(addr \<mapsto> dev)"
  by (auto simp: i2c_register_def i2c_get_def fun_eq_iff MAX_I2C_ADDRESS_def not_less split: sum.splits)

subsection \<open>Isolation\<close>

definition chain_foot :: "desc_chain \<Rightarrow> nat set" where
  "chain_foot c = (\<Union>b \<in> set (buffers c). buf_span b)"

lemma i2c_message_foot:
  assumes "i2c_message tops bus m a r db = (sw, bus', m')"
  shows "same_outside (case db of None \<Rightarrow> {} | Some b \<Rightarrow> if r then buf_span b else {}) m m'"
proof (cases db)
  case None
  with assms show ?thesis by (auto simp: i2c_message_def)
next
  case (Some b)
  have w: "same_outside (buf_span b) m (snd (write_checked m (buf_addr b) (take (min n (unat (buf_len b))) bs)))"
    for n and bs :: bytes
    by (rule same_outside_mono [OF same_outside_write_checked]) (auto simp: buf_span_def span_def)
  show ?thesis
    using assms Some w
    by (auto simp: i2c_message_def Let_def split: option.splits prod.splits if_splits) (metis snd_conv)+
qed

lemma last_in_chain: "length bs = 2 \<or> length bs = 3 \<Longrightarrow> last bs \<in> set bs"
  by (cases bs) auto

lemma i2c_confined:
  assumes "i2c_process_chain tops bus q m c = (out, bus', m')"
  shows "same_outside (chain_foot c) m m'"
proof (cases "m' = m")
  case False
  let ?b = "buffers c"
  from assms False obtain a r sw bus1 m1 st where
    len: "length ?b = 2 \<or> length ?b = 3" and st: "buf_len (last ?b) \<noteq> 0" and
    msg: "i2c_message tops bus m a r (if length ?b = 3 then Some (?b ! 1) else None) = (sw, bus1, m1)" and
    m': "m' = snd (write_checked m1 (buf_addr (last ?b)) [st])"
    by (auto simp: i2c_process_chain_def Let_def split: if_splits option.splits prod.splits)
  have "buf_span (?b ! 1) \<subseteq> chain_foot c" if "length ?b = 3"
    unfolding chain_foot_def using that by (intro UN_upper nth_mem) simp
  then have "same_outside (chain_foot c) m m1"
    using i2c_message_foot [OF msg]
    by (elim same_outside_mono) (auto split: if_splits)
  moreover have "same_outside (chain_foot c) m1 m'"
    unfolding m'
  proof (rule same_outside_mono [OF same_outside_write_checked])
    have "0 < unat (buf_len (last ?b))" using st by (simp add: unat_gt_0)
    then show "span (buf_addr (last ?b)) (length [st]) \<subseteq> chain_foot c"
      using last_in_chain [OF len] by (force simp: chain_foot_def buf_span_def span_def)
  qed
  ultimately show ?thesis by (blast intro: same_outside_step)
qed simp

interpretation i2c: virtio_device "i2c_ops tops" "\<lambda>_. chain_foot"
  by unfold_locales (auto simp: i2c_ops_def intro: i2c_confined)

subsection \<open>One message\<close>

lemma i2c_message_ok:
  assumes "buf_ok m d"
  shows "i2c_message tops bus m a r (Some d) =
    (let n = unat (buf_len d) in
     case bus a of
       None \<Rightarrow> ((I2C_STATUS_ERR, 0), bus, m)
     | Some t \<Rightarrow>
         if r then
           (case i2c_read tops t n of (bs, t') \<Rightarrow>
              ((I2C_STATUS_OK, of_nat (min (length bs) n)), bus(a \<mapsto> t'),
               mem_write m (unat (buf_addr d)) (take n bs)))
         else ((I2C_STATUS_OK, of_nat n), bus(a \<mapsto> i2c_write tops t (mem_read m (unat (buf_addr d)) n)), m))"
proof -
  let ?n = "unat (buf_len d)"
  have fit: "unat (buf_addr d) + ?n \<le> unat (mem_size m)" using assms by (simp add: buf_ok_def mem_fits_def)
  have rd: "read_checked m (buf_addr d) ?n = Some (mem_read m (unat (buf_addr d)) ?n)"
    using fit by (simp add: read_checked_eq)
  have wd: "write_checked m (buf_addr d) (take (min (length bs) ?n) bs) =
      (True, mem_write m (unat (buf_addr d)) (take ?n bs))" for bs
  proof -
    have "take (min (length bs) ?n) bs = take ?n bs" by (simp add: min_def)
    then show ?thesis using fit by (simp add: write_checked_eq)
  qed
  have z: "mem_write m x (take ?n bs) = m" if "min (length bs) ?n = 0" for x and bs :: bytes
    using that by (auto simp: min_def split: if_splits)
  show ?thesis by (auto simp: i2c_message_def i2c_get_def Let_def rd wd z split: option.split prod.split)
qed

text \<open>A well-formed three-buffer message reaches exactly the addressed target: a write hands it the
  bytes of the data buffer, a read stores what it returns (never more than the buffer holds), and
  an address nobody answers is reported as an error with the bus and the data buffer untouched.\<close>

lemma i2c_transfer:
  assumes "buffers c = [h, d, st]" and "list_all (buf_ok m) [h, d, st]"
    and "\<not> device_writable h" and "buf_len h = 8" and "device_writable st" and "buf_len st \<noteq> 0"
    and "mem_read m (unat (buf_addr h)) 8 = le16 (push_bit 1 (ucast (a :: u8))) @ [0, 0] @ le32 fl"
  shows "i2c_process_chain tops bus q m c =
    (let n = unat (buf_len d); reply = \<lambda>m x. mem_write m (unat (buf_addr st)) [x] in
     case bus a of
       None \<Rightarrow> (Done 1, bus, reply m 1)
     | Some t \<Rightarrow>
         if bit fl 1 then
           (case i2c_read tops t n of (bs, t') \<Rightarrow>
              (Done (1 + of_nat (min (length bs) n)), bus(a \<mapsto> t'),
               reply (mem_write m (unat (buf_addr d)) (take n bs)) 0))
         else (Done (1 + of_nat n),
           bus(a \<mapsto> i2c_write tops t (mem_read m (unat (buf_addr d)) n)), reply m 0))"
proof -
  let ?hdr = "le16 (push_bit 1 (ucast a)) @ [0, 0] @ le32 fl" and ?n = "unat (buf_len d)"
  have fit: "unat (buf_addr h) + 8 \<le> unat (mem_size m)" "unat (buf_addr d) + ?n \<le> unat (mem_size m)"
    "unat (buf_addr st) + 1 \<le> unat (mem_size m)"
    using assms(2,4,6) unat_gt_0 [of "buf_len st"] by (auto simp: buf_ok_def mem_fits_def)
  have hdr: "read_checked m (buf_addr h) 8 = Some ?hdr" using fit(1) assms(7) by (simp add: read_checked_eq)
  have a7: "ucast (drop_bit 1 (of_le (subslice ?hdr 0 2) :: u16)) = a"
  proof -
    have "subslice ?hdr 0 2 = le16 (push_bit 1 (ucast a))" by (simp add: subslice_def)
    moreover have "ucast (drop_bit 1 (push_bit 1 (ucast a) :: u16)) = a"
      by (rule bit_word_eqI) (auto simp: bit_simps bit_times_two)
    ultimately show ?thesis by simp
  qed
  have fl: "(of_le (subslice ?hdr 4 4) :: u32) AND FLAG_M_RD \<noteq> 0 \<longleftrightarrow> bit fl 1"
    using and_exp_eq_0_iff_not_bit [of fl 1] by (simp add: subslice_def FLAG_M_RD_def)
  have w: "write_checked m' (buf_addr st) [x] = (True, mem_write m' (unat (buf_addr st)) [x])"
    if "mem_size m' = mem_size m" for m' x using fit(3) that by (simp add: write_checked_eq)
  have ok: "buf_ok m d" using assms(2) by simp
  show ?thesis
    using a7 fl assms(1,3-6)
    by (simp add: i2c_process_chain_def OUT_HDR_LEN_def hdr i2c_message_ok [OF ok] Let_def w
        I2C_STATUS_OK_def I2C_STATUS_ERR_def split: option.split prod.split)
qed

subsection \<open>A notification that never returns\<close>

text \<open>A sequence of guest writes to BAR 0; \<open>None\<close> when one of them never returns.\<close>

fun guest_writes ::
  "'d device_ops \<Rightarrow> (u64 \<times> bytes) list \<Rightarrow> 'd modern_pci \<Rightarrow> guest_memory \<Rightarrow> ('d modern_pci \<times> guest_memory) option" where
  "guest_writes ops [] s m = Some (s, m)"
| "guest_writes ops ((off, data) # ws) s m =
     (case modern_write ops s m off data of None \<Rightarrow> None | Some (irq, s', m') \<Rightarrow> guest_writes ops ws s' m')"

definition alias_setup :: "(u64 \<times> bytes) list" where
  "alias_setup = [(CFG_QSELECT, le16 0), (CFG_QDESCLO, le32 0x1000), (CFG_QAVAILLO, le32 0x2000),
     (CFG_QUSEDLO, le32 0x2000), (CFG_QENABLE, le16 1)]"

lemma i2c_idle: "process_chain (i2c_ops tops) d qi m empty_chain = (Done 0, d, m)"
  by (simp add: i2c_ops_def i2c_process_chain_def empty_chain_def)

lemma alias_setup_runs:
  "guest_writes (i2c_ops tops) alias_setup (modern_new (i2c_ops tops) bus irq 34 0) m =
     Some ((modern_new (i2c_ops tops) bus irq 34 0)\<lparr>m_queues := [alias_queue 0]\<rparr>, m)"
  by (simp add: alias_setup_def modern_write_def write_common_cfg_def cfg_defs set_queue_addr_def
      update_queue_def modern_new_def new_queues_def i2c_ops_def vq_new_def alias_queue_def set_addr_lo_def)

text \<open>C39: A guest can hang the thread that handles its notification: it points the used ring of the
  virtio-i2c queue at the queue's own avail ring, through plain register writes that all
  return, and the following notification write never does.\<close>

theorem i2c_notify_hangs:
  "\<exists>s. guest_writes (i2c_ops tops) alias_setup (modern_new (i2c_ops tops) bus irq 34 0) (alias_mem 0x100000 1) =
       Some (s, alias_mem 0x100000 1) \<and>
     modern_write (i2c_ops tops) s (alias_mem 0x100000 1) (m_notify_base s) (le16 0) = None"
proof -
  let ?s = "(modern_new (i2c_ops tops) bus irq 34 0)\<lparr>m_queues := [alias_queue 0]\<rparr>"
  let ?m = "alias_mem 0x100000 1"
  have "drain_loop (i2c_ops tops) 0 False (m_dev ?s) (alias_queue 0) (m_chain ?s) ?m = None"
    by (rule alias_drain_diverges) (auto simp: i2c_idle)
  then have "modern_drain_queue (i2c_ops tops) ?s ?m 0 = None"
    by (simp add: modern_drain_queue_def get_queue_def i2c_ops_def)
  then have "modern_write (i2c_ops tops) ?s ?m (m_notify_base ?s) (le16 0) = None"
    by (simp add: modern_write_def modern_new_def i2c_ops_def cfg_defs)
  then show ?thesis using alias_setup_runs by blast
qed

end
