(* ===== verification/Virtio_Gpio.thy ===== *)
theory Virtio_Gpio
  imports Virtio_Modern
begin

text \<open>
  The GPIO adapter (\<open>src/virtio_gpio.rs\<close>) over a bank of lines (\<open>trait GpioBank\<close> of
  \<open>src/gpio.rs\<close>, which plugins implement: its methods are the parameter \<open>bank_ops\<close>).
  A request is answered at once; a buffer on the event queue is kept (\<open>Pending\<close>) until its line
  fires, and \<open>poll_completions\<close> then hands it back.
\<close>

definition DIRECTION_NONE :: u8 where "DIRECTION_NONE = 0x00"
definition DIRECTION_OUT :: u8 where "DIRECTION_OUT = 0x01"
definition DIRECTION_IN :: u8 where "DIRECTION_IN = 0x02"

record 'b bank_ops =
  ngpio :: "'b \<Rightarrow> u16"
  names :: "'b \<Rightarrow> bytes list"
  get_direction :: "'b \<Rightarrow> u16 \<Rightarrow> u8 \<times> 'b"
  set_direction :: "'b \<Rightarrow> u16 \<Rightarrow> u8 \<Rightarrow> 'b"
  get_value :: "'b \<Rightarrow> u16 \<Rightarrow> u8 \<times> 'b"
  set_value :: "'b \<Rightarrow> u16 \<Rightarrow> u8 \<Rightarrow> 'b"
  take_fired_irqs :: "'b \<Rightarrow> u16 list \<times> 'b"

definition REQUEST_QUEUE :: u16 where "REQUEST_QUEUE = 0"
definition EVENT_QUEUE :: u16 where "EVENT_QUEUE = 1"
definition F_IRQ :: u32 where "F_IRQ = push_bit 0 1"
definition MSG_GET_NAMES :: u16 where "MSG_GET_NAMES = 1"
definition MSG_GET_DIRECTION :: u16 where "MSG_GET_DIRECTION = 2"
definition MSG_SET_DIRECTION :: u16 where "MSG_SET_DIRECTION = 3"
definition MSG_GET_VALUE :: u16 where "MSG_GET_VALUE = 4"
definition MSG_SET_VALUE :: u16 where "MSG_SET_VALUE = 5"
definition MSG_IRQ_TYPE :: u16 where "MSG_IRQ_TYPE = 6"
definition GPIO_STATUS_OK :: u8 where "GPIO_STATUS_OK = 0"
definition GPIO_STATUS_ERR :: u8 where "GPIO_STATUS_ERR = 1"
definition IRQ_TYPE_NONE :: u8 where "IRQ_TYPE_NONE = 0"
definition IRQ_STATUS_VALID :: u8 where "IRQ_STATUS_VALID = 1"
definition REQUEST_LEN :: nat where "REQUEST_LEN = 8"
definition IRQ_REQUEST_LEN :: nat where "IRQ_REQUEST_LEN = 2"

lemmas gpio_msg_defs = MSG_GET_NAMES_def MSG_GET_DIRECTION_def MSG_SET_DIRECTION_def MSG_GET_VALUE_def
  MSG_SET_VALUE_def MSG_IRQ_TYPE_def GPIO_STATUS_OK_def GPIO_STATUS_ERR_def IRQ_TYPE_NONE_def
  DIRECTION_NONE_def DIRECTION_OUT_def DIRECTION_IN_def

record pending_arm =
  arm_head :: u16
  arm_status_addr :: u64

record 'b gpio_dev =
  g_bank :: 'b
  g_ngpio :: u16
  g_config :: bytes
  names_blob :: bytes
  pending_arms :: "u16 \<rightharpoonup> pending_arm"
  irq_enabled :: "u16 set"

definition gpio_new :: "'b bank_ops \<Rightarrow> 'b \<Rightarrow> 'b gpio_dev" where
  "gpio_new bops bank =
     (let blob = concat (map (\<lambda>nm. nm @ [0]) (names bops bank))
      in \<lparr>g_bank = bank, g_ngpio = ngpio bops bank,
          g_config = le16 (ngpio bops bank) @ [0, 0] @ le32 (of_nat (length blob)),
          names_blob = blob, pending_arms = Map.empty, irq_enabled = {}\<rparr>)"

text \<open>The \<open>match msg_type\<close> of \<open>handle_request\<close>: status and value of the response.\<close>

definition gpio_dispatch :: "'b bank_ops \<Rightarrow> 'b gpio_dev \<Rightarrow> u16 \<Rightarrow> u16 \<Rightarrow> u8 \<Rightarrow> (u8 \<times> u8) \<times> 'b gpio_dev" where
  "gpio_dispatch bops d msg_type gpio val =
     (if g_ngpio d \<le> gpio then ((GPIO_STATUS_ERR, 0), d)
      else if msg_type = MSG_GET_DIRECTION then
        (case get_direction bops (g_bank d) gpio of (v, bk) \<Rightarrow> ((GPIO_STATUS_OK, v), d\<lparr>g_bank := bk\<rparr>))
      else if msg_type = MSG_SET_DIRECTION then
        (if val = DIRECTION_NONE \<or> val = DIRECTION_OUT \<or> val = DIRECTION_IN
         then ((GPIO_STATUS_OK, 0), d\<lparr>g_bank := set_direction bops (g_bank d) gpio val\<rparr>)
         else ((GPIO_STATUS_ERR, 0), d))
      else if msg_type = MSG_GET_VALUE then
        (case get_value bops (g_bank d) gpio of (v, bk) \<Rightarrow> ((GPIO_STATUS_OK, v AND 1), d\<lparr>g_bank := bk\<rparr>))
      else if msg_type = MSG_SET_VALUE then
        ((GPIO_STATUS_OK, 0), d\<lparr>g_bank := set_value bops (g_bank d) gpio (val AND 1)\<rparr>)
      else if msg_type = MSG_IRQ_TYPE then
        ((GPIO_STATUS_OK, 0),
         d\<lparr>irq_enabled := (if val = IRQ_TYPE_NONE then irq_enabled d - {gpio} else insert gpio (irq_enabled d))\<rparr>)
      else ((GPIO_STATUS_ERR, 0), d))"

definition gpio_respond :: "guest_memory \<Rightarrow> desc_buffer \<Rightarrow> bytes \<Rightarrow> chain_outcome \<times> guest_memory" where
  "gpio_respond m res_buf response =
     (let n = min (length response) (unat (buf_len res_buf)) in
      case write_checked m (buf_addr res_buf) (take n response) of (ok, m') \<Rightarrow>
        if \<not> ok then (Done 0, m') else (Done (of_nat n), m'))"

definition gpio_handle_request ::
  "'b bank_ops \<Rightarrow> 'b gpio_dev \<Rightarrow> guest_memory \<Rightarrow> desc_chain \<Rightarrow> chain_outcome \<times> 'b gpio_dev \<times> guest_memory" where
  "gpio_handle_request bops d m chain =
     (if length (buffers chain) \<noteq> 2 then (Done 0, d, m)
      else
        let req_buf = buffers chain ! 0; res_buf = buffers chain ! 1 in
        if device_writable req_buf \<or> unat (buf_len req_buf) \<noteq> REQUEST_LEN \<or> \<not> device_writable res_buf
        then (Done 0, d, m)
        else
          case read_checked m (buf_addr req_buf) REQUEST_LEN of
            None \<Rightarrow> (Done 0, d, m)
          | Some req \<Rightarrow>
              let msg_type = of_le (subslice req 0 2) :: u16; gpio = of_le (subslice req 2 2) :: u16;
                  val = req ! 4
              in
              if msg_type = MSG_GET_NAMES then
                (case gpio_respond m res_buf (GPIO_STATUS_OK # names_blob d) of (out, m') \<Rightarrow> (out, d, m'))
              else
                (case gpio_dispatch bops d msg_type gpio val of ((status, out_value), d') \<Rightarrow>
                   (case gpio_respond m res_buf [status, out_value] of (out, m') \<Rightarrow> (out, d', m'))))"

definition gpio_handle_event_arm ::
  "'b gpio_dev \<Rightarrow> guest_memory \<Rightarrow> desc_chain \<Rightarrow> chain_outcome \<times> 'b gpio_dev \<times> guest_memory" where
  "gpio_handle_event_arm d m chain =
     (if length (buffers chain) \<noteq> 2 then (Done 0, d, m)
      else
        let req_buf = buffers chain ! 0; res_buf = buffers chain ! 1 in
        if device_writable req_buf \<or> unat (buf_len req_buf) \<noteq> IRQ_REQUEST_LEN \<or> \<not> device_writable res_buf
        then (Done 0, d, m)
        else
          case read_checked m (buf_addr req_buf) IRQ_REQUEST_LEN of
            None \<Rightarrow> (Done 0, d, m)
          | Some req \<Rightarrow>
              (Pending,
               d\<lparr>pending_arms := (pending_arms d)(of_le req \<mapsto>
                   \<lparr>arm_head = head_index chain, arm_status_addr = buf_addr res_buf\<rparr>)\<rparr>, m))"

definition gpio_process_chain ::
  "'b bank_ops \<Rightarrow> 'b gpio_dev \<Rightarrow> u16 \<Rightarrow> guest_memory \<Rightarrow> desc_chain \<Rightarrow> chain_outcome \<times> 'b gpio_dev \<times> guest_memory" where
  "gpio_process_chain bops d queue m chain =
     (if queue = REQUEST_QUEUE then gpio_handle_request bops d m chain
      else if queue = EVENT_QUEUE then gpio_handle_event_arm d m chain
      else (Done 0, d, m))"

definition arm_completion :: "pending_arm \<Rightarrow> completion_result" where
  "arm_completion arm = \<lparr>c_queue_idx = EVENT_QUEUE, c_head_index = arm_head arm, c_written_len = 0,
     c_status_byte = IRQ_STATUS_VALID, c_status_buf_addr = arm_status_addr arm\<rparr>"

text \<open>The loop of \<open>poll_completions\<close> over the fired lines.\<close>

fun gpio_fire :: "u16 set \<Rightarrow> u16 list \<Rightarrow> (u16 \<rightharpoonup> pending_arm) \<Rightarrow> completion_result list \<times> (u16 \<rightharpoonup> pending_arm)" where
  "gpio_fire enabled [] arms = ([], arms)"
| "gpio_fire enabled (line # fired) arms =
     (if line \<notin> enabled then gpio_fire enabled fired arms
      else
        case arms line of
          None \<Rightarrow> gpio_fire enabled fired arms
        | Some arm \<Rightarrow>
            (case gpio_fire enabled fired (arms(line := None)) of (out, arms') \<Rightarrow> (arm_completion arm # out, arms')))"

definition gpio_poll_completions :: "'b bank_ops \<Rightarrow> 'b gpio_dev \<Rightarrow> completion_result list \<times> 'b gpio_dev" where
  "gpio_poll_completions bops d =
     (case take_fired_irqs bops (g_bank d) of (fired, bk) \<Rightarrow>
        (case gpio_fire (irq_enabled d) fired (pending_arms d) of (out, arms) \<Rightarrow>
           (out, d\<lparr>g_bank := bk, pending_arms := arms\<rparr>)))"

definition gpio_ops :: "'b bank_ops \<Rightarrow> 'b gpio_dev device_ops" where
  "gpio_ops bops = \<lparr>legacy_pci_device_id = (\<lambda>_. 0), virtio_device_type = (\<lambda>_. 41),
     wants_queue_notify = (\<lambda>_ _. True), pci_class_code = (\<lambda>_. 0xff0000), num_queues = (\<lambda>_. 2),
     queue_size = (\<lambda>_ _. 64), host_features = (\<lambda>_. F_IRQ),
     read_config = (\<lambda>d off n. copy_config (g_config d) off n), write_config = (\<lambda>d _ _. d),
     process_chain = gpio_process_chain bops, poll_completions = gpio_poll_completions bops,
     take_outbox = (\<lambda>d. ([], d))\<rparr>"

subsection \<open>Isolation\<close>

text \<open>The device writes only the response buffer, and on the event queue nothing at all.\<close>

definition gpio_foot :: "u16 \<Rightarrow> desc_chain \<Rightarrow> nat set" where
  "gpio_foot qi c =
     (if qi = REQUEST_QUEUE \<and> length (buffers c) = 2 \<and> device_writable (buffers c ! 1)
      then buf_span (buffers c ! 1) else {})"

lemma gpio_respond_foot:
  assumes "gpio_respond m b resp = (out, m')"
  shows "same_outside (buf_span b) m m'"
proof -
  let ?w = "take (min (length resp) (unat (buf_len b))) resp"
  have "m' = snd (write_checked m (buf_addr b) ?w)"
    using assms by (auto simp: gpio_respond_def Let_def split: prod.splits if_splits)
  moreover have "same_outside (buf_span b) m (snd (write_checked m (buf_addr b) ?w))"
    by (rule same_outside_mono [OF same_outside_write_checked]) (auto simp: buf_span_def span_def)
  ultimately show ?thesis by simp
qed

lemma gpio_confined:
  assumes "gpio_process_chain bops d qi m c = (out, d', m')"
  shows "same_outside (gpio_foot qi c) m m'"
  using assms
  by (auto simp: gpio_process_chain_def gpio_handle_request_def gpio_handle_event_arm_def gpio_foot_def Let_def
      split: if_splits option.splits prod.splits dest: gpio_respond_foot)

interpretation gpio: virtio_device "gpio_ops bops" gpio_foot
  by unfold_locales (auto simp: gpio_ops_def intro: gpio_confined)

subsection \<open>Line interrupts\<close>

lemma gpio_fire_spec:
  assumes "gpio_fire enabled fired arms = (out, arms')"
  shows "\<exists>ls. distinct ls \<and> set ls = {l \<in> set fired. l \<in> enabled \<and> arms l \<noteq> None} \<and>
    out = map (\<lambda>l. arm_completion (the (arms l))) ls \<and> arms' = arms |` (- set ls)"
  using assms
proof (induction enabled fired arms arbitrary: out arms' rule: gpio_fire.induct)
  case (1 enabled arms)
  then show ?case by (auto simp: restrict_map_def)
next
  case (2 enabled line fired arms)
  show ?case
  proof (cases "line \<in> enabled \<and> arms line \<noteq> None")
    case False
    have f: "gpio_fire enabled fired arms = (out, arms')"
      using "2.prems" False by (auto split: option.splits if_splits)
    have "{l \<in> set (line # fired). l \<in> enabled \<and> arms l \<noteq> None} =
        {l \<in> set fired. l \<in> enabled \<and> arms l \<noteq> None}"
      using False by auto
    moreover have "\<exists>ls. distinct ls \<and> set ls = {l \<in> set fired. l \<in> enabled \<and> arms l \<noteq> None} \<and>
        out = map (\<lambda>l. arm_completion (the (arms l))) ls \<and> arms' = arms |` (- set ls)"
    proof (cases "line \<in> enabled")
      case True
      then show ?thesis using "2.IH"(2) [OF _ _ f] False by blast
    next
      case False
      then show ?thesis using "2.IH"(1) [OF _ f] by blast
    qed
    ultimately show ?thesis by simp
  next
    case True
    then obtain arm where arm: "arms line = Some arm" and en: "line \<in> enabled" by auto
    obtain out1 where f: "gpio_fire enabled fired (arms(line := None)) = (out1, arms')"
      and out: "out = arm_completion arm # out1"
      using "2.prems" arm en by (auto split: prod.splits)
    have nen: "\<not> line \<notin> enabled" using en by simp
    from "2.IH"(3) [OF nen arm f] obtain ls where ls: "distinct ls"
      "set ls = {l \<in> set fired. l \<in> enabled \<and> (arms(line := None)) l \<noteq> None}"
      "out1 = map (\<lambda>l. arm_completion (the ((arms(line := None)) l))) ls"
      "arms' = (arms(line := None)) |` (- set ls)" by blast
    from ls(2) have nin: "line \<notin> set ls" by simp
    show ?thesis
    proof (intro exI [of _ "line # ls"] conjI)
      show "distinct (line # ls)" using ls(1) nin by simp
      show "set (line # ls) = {l \<in> set (line # fired). l \<in> enabled \<and> arms l \<noteq> None}"
        using ls(2) arm en by auto
      show "out = map (\<lambda>l. arm_completion (the (arms l))) (line # ls)"
        using ls(3) nin out arm by (auto split: if_splits)
      show "arms' = arms |` (- set (line # ls))"
        using ls(4) nin by (auto simp: fun_eq_iff restrict_map_def)
    qed
  qed
qed

text \<open>Polling completes exactly the armed lines that fired while enabled: each such line once, with
  the head and status address it was armed with; those arms are consumed, all others stay
  armed, and a line that fires while masked or unarmed completes nothing.\<close>

lemma gpio_poll_exact:
  "case gpio_poll_completions bops d of (out, d') \<Rightarrow>
     \<exists>ls. distinct ls \<and>
       set ls = {l \<in> set (fst (take_fired_irqs bops (g_bank d))). l \<in> irq_enabled d \<and> pending_arms d l \<noteq> None} \<and>
       out = map (\<lambda>l. arm_completion (the (pending_arms d l))) ls \<and>
       pending_arms d' = pending_arms d |` (- set ls) \<and> irq_enabled d' = irq_enabled d"
proof -
  obtain fired bk where t: "take_fired_irqs bops (g_bank d) = (fired, bk)" by (cases "take_fired_irqs bops (g_bank d)")
  obtain out arms where f: "gpio_fire (irq_enabled d) fired (pending_arms d) = (out, arms)"
    by (cases "gpio_fire (irq_enabled d) fired (pending_arms d)")
  show ?thesis using gpio_fire_spec [OF f] by (simp add: gpio_poll_completions_def t f)
qed

end
