(* ===== verification/Virtio_Net.thy ===== *)
theory Virtio_Net
  imports Virtio_Legacy
begin

text \<open>
  The network device (\<open>src/virtio_net.rs\<close>): transmit requests, the configuration space, and the
  \<open>ifreq\<close> name buffer of the TAP setup. The TAP device itself is the host's; its state here
  is the list of frames handed to it, in order.
\<close>

definition IFNAMSIZ :: nat where "IFNAMSIZ = 16"

record ifreq =
  ifr_name :: bytes
  ifr_flags :: u16

definition ifreq_new :: "bytes \<Rightarrow> u16 \<Rightarrow> ifreq" where
  "ifreq_new name flags =
     (let n = min (length name) (IFNAMSIZ - 1)
      in \<lparr>ifr_name = take n name @ replicate (IFNAMSIZ - n) 0, ifr_flags = flags\<rparr>)"

definition name_string :: "ifreq \<Rightarrow> bytes" where
  "name_string r = takeWhile (\<lambda>b. b \<noteq> 0) (ifr_name r)"

definition VIRTIO_NET_F_MAC :: u32 where "VIRTIO_NET_F_MAC = push_bit 5 1"
definition VIRTIO_NET_S_LINK_UP :: u16 where "VIRTIO_NET_S_LINK_UP = 1"
definition VNET_HDR_LEN :: nat where "VNET_HDR_LEN = 10"
definition RX_QUEUE :: u16 where "RX_QUEUE = 0"
definition TX_QUEUE :: u16 where "TX_QUEUE = 1"

record net_dev =
  net_mac :: bytes
  tap_frames :: "bytes list"
  tx_frame :: bytes

definition net_new :: "bytes \<Rightarrow> net_dev" where
  "net_new mac = \<lparr>net_mac = mac, tap_frames = [], tx_frame = []\<rparr>"

definition tap_write_frame :: "bytes \<Rightarrow> net_dev \<Rightarrow> net_dev" where
  "tap_write_frame frame d = d\<lparr>tap_frames := tap_frames d @ [frame]\<rparr>"

definition net_read_config :: "net_dev \<Rightarrow> u64 \<Rightarrow> nat \<Rightarrow> bytes" where
  "net_read_config d off n = copy_config (net_mac d @ le16 VIRTIO_NET_S_LINK_UP) off n"

text \<open>The loop that reassembles a frame; a failed read leaves the zero-filled tail.\<close>

fun tx_collect :: "guest_memory \<Rightarrow> desc_buffer list \<Rightarrow> bytes \<Rightarrow> bool \<times> bytes" where
  "tx_collect m [] frame = (True, frame)"
| "tx_collect m (b # bs) frame =
     (case read_checked m (buf_addr b) (unat (buf_len b)) of
        None \<Rightarrow> (False, frame @ replicate (unat (buf_len b)) 0)
      | Some d \<Rightarrow> tx_collect m bs (frame @ d))"

definition net_process_chain ::
  "net_dev \<Rightarrow> u16 \<Rightarrow> guest_memory \<Rightarrow> desc_chain \<Rightarrow> chain_outcome \<times> net_dev \<times> guest_memory" where
  "net_process_chain d queue m chain =
     (if queue \<noteq> TX_QUEUE then (Done 0, d, m)
      else
        (case tx_collect m (buffers chain) [] of (ok, frame) \<Rightarrow>
           let d = d\<lparr>tx_frame := frame\<rparr> in
           if \<not> ok then (Done 0, d, m)
           else if VNET_HDR_LEN < length frame then (Done 0, tap_write_frame (drop VNET_HDR_LEN frame) d, m)
           else (Done 0, d, m)))"

definition net_ops :: "net_dev device_ops" where
  "net_ops = \<lparr>legacy_pci_device_id = (\<lambda>_. 0x1000), virtio_device_type = (\<lambda>_. 1),
     wants_queue_notify = (\<lambda>_ q. q \<noteq> RX_QUEUE), pci_class_code = (\<lambda>_. 0x020000), num_queues = (\<lambda>_. 2),
     queue_size = (\<lambda>_ _. 256), host_features = (\<lambda>_. VIRTIO_NET_F_MAC), read_config = net_read_config,
     write_config = (\<lambda>d _ _. d), process_chain = net_process_chain, poll_completions = (\<lambda>d. ([], d)),
     take_outbox = (\<lambda>d. ([], d))\<rparr>"

subsection \<open>Interface names\<close>

text \<open>The interface name survives the fixed-size \<open>ifreq\<close> buffer: a name without NUL bytes is read back
  in full when it fits and truncated to 15 bytes otherwise, and the buffer always is 16 bytes
  long and NUL-terminated.\<close>

lemma ifreq_name_roundtrip:
  assumes "0 \<notin> set name"
  shows "name_string (ifreq_new name flags) = take 15 name \<and>
    length (ifr_name (ifreq_new name flags)) = 16 \<and> last (ifr_name (ifreq_new name flags)) = 0"
proof -
  have "takeWhile (\<lambda>b. b \<noteq> 0) (take n name @ 0 # xs) = take n name" for n xs
    using assms by (induction name arbitrary: n) (auto simp: take_Cons split: nat.split)
  moreover have "take (min (length name) 15) name = take 15 name" by (simp add: min_def)
  moreover have "replicate (16 - min (length name) 15) (0 :: u8) = 0 # replicate (15 - min (length name) 15) 0"
    by (simp add: Suc_diff_le flip: replicate_Suc)
  ultimately show ?thesis
    by (simp add: name_string_def ifreq_new_def Let_def IFNAMSIZ_def)
qed

subsection \<open>Transmission\<close>

lemma tx_collect_gather:
  "list_all (buf_ok m) bs \<Longrightarrow> tx_collect m bs frame = (True, frame @ gather m bs)"
  by (induction bs arbitrary: frame) (auto simp: buf_ok_def mem_fits_def read_checked_eq gather_def)

lemma net_process_tx:
  "list_all (buf_ok m) (buffers c) \<Longrightarrow>
   net_process_chain d TX_QUEUE m c =
     (Done 0, d\<lparr>tx_frame := gather m (buffers c),
        tap_frames := tap_frames d @ (if 10 < total_len (buffers c) then [drop 10 (gather m (buffers c))] else [])\<rparr>, m)"
  by (cases d) (simp add: net_process_chain_def tx_collect_gather Let_def VNET_HDR_LEN_def tap_write_frame_def)

lemma net_no_writes: "net_process_chain d q m c = (out, d', m') \<Longrightarrow> m' = m"
  by (auto simp: net_process_chain_def Let_def split: if_splits prod.splits)

interpretation net: virtio_device net_ops "\<lambda>_ _. {}"
  by unfold_locales (auto simp: net_ops_def dest: net_no_writes)

definition tx_frames :: "guest_memory \<Rightarrow> desc_chain list \<Rightarrow> bytes list" where
  "tx_frames m cs = map (\<lambda>c. drop 10 (gather m (buffers c))) (filter (\<lambda>c. 10 < total_len (buffers c)) cs)"

lemma gather_same_outside:
  assumes "same_outside S m m'" and "\<And>b. b \<in> set bs \<Longrightarrow> buf_span b \<inter> S = {}"
  shows "gather m' bs = gather m bs"
proof -
  have "mem_read m' (unat (buf_addr b)) (unat (buf_len b)) = mem_read m (unat (buf_addr b)) (unat (buf_len b))"
    if "b \<in> set bs" for b
    using assms(1) assms(2) [OF that]
    by (intro mem_read_cong) (auto simp: same_outside_def buf_span_def span_def)
  then show ?thesis by (simp add: gather_def cong: map_cong)
qed

lemma net_drain_frames:
  assumes "drain_trace net_ops TX_QUEUE p d q chain m cs (p', d', q', chain', m')"
    and "same_outside (used_foot q) m0 m"
    and "\<And>c b. c \<in> set cs \<Longrightarrow> b \<in> set (buffers c) \<Longrightarrow> buf_span b \<inter> used_foot q = {}"
  shows "tap_frames d' = tap_frames d @ tx_frames m0 cs \<and> same_outside (used_foot q) m0 m'"
  using assms
proof (induction p d q chain m cs "(p', d', q', chain', m')" rule: drain_trace.induct)
  case stop
  then show ?case by (simp add: tx_frames_def)
next
  case (pop q m chain q1 c d fin d1 m1 p cs)
  have q1: "used_foot q1 = used_foot q" by (simp add: try_pop_Some(2) [OF pop(1)])
  have ok: "list_all (buf_ok m) (buffers c)" by (rule try_pop_buffers(1) [OF pop(1)])
  have g: "gather m (buffers c) = gather m0 (buffers c)"
    by (rule gather_same_outside [OF pop(5)], rule pop(6)) auto
  have d1: "tap_frames d1 = tap_frames d @ tx_frames m0 [c]" and m1: "m1 = push_used q1 m c 0"
    using pop(2) g by (auto simp: chain_step_def net_ops_def net_process_tx [OF ok] tx_frames_def)
  have "same_outside (used_foot q) m0 m1"
    using pop(5) push_used_foot [of q1 m c 0] unfolding m1 q1 by (rule same_outside_step)
  then have "tap_frames d' = tap_frames d1 @ tx_frames m0 cs \<and> same_outside (used_foot q) m0 m'"
    using pop(4,6) q1 by auto
  with d1 show ?case by (simp add: tx_frames_def)
qed

text \<open>A transmit notification always returns, and when no posted buffer overlaps the used ring it
  hands the TAP exactly the pending chains' frames: each chain once, in ring order, its buffers
  concatenated and the 10-byte virtio header stripped.\<close>

lemma net_tx_exact:
  assumes "legacy_inv s" and "get_queue (l_queues s) TX_QUEUE = Some q" and "q_enabled q"
  shows "\<exists>b s' m'. legacy_write net_ops s m REG_QUEUE_NOTIFY (le16 TX_QUEUE) = Some (b, s', m') \<and>
    same_outside (used_foot q) m m' \<and>
    ((\<forall>c \<in> set (pending_chains q m). \<forall>b \<in> set (buffers c). buf_span b \<inter> used_foot q = {}) \<longrightarrow>
      tap_frames (l_dev s') = tap_frames (l_dev s) @ tx_frames m (pending_chains q m))"
proof -
  let ?cs = "pending_chains q m"
  have "legacy_q_ok q"
    using assms(1) get_queue_Some [OF assms(2)] by (simp add: legacy_inv_def list_all_length)
  from legacy_used_separate [OF this assms(3)] have "separated (\<lambda>_. {}) q m" by (simp add: separated_def)
  from net.drain_exact [OF this, of TX_QUEUE False "l_dev s" "l_chain s"] obtain p' d' q' ch' m' where
    tr: "drain_trace net_ops TX_QUEUE False (l_dev s) q (l_chain s) m ?cs (p', d', q', ch', m')"
    by (metis prod_cases5)
  from drain_trace_loop [OF tr] have loop:
    "drain_loop net_ops TX_QUEUE False (l_dev s) q (l_chain s) m = Some (p', d', q', ch', m')" .
  let ?s = "s\<lparr>l_dev := d', l_queues := (l_queues s)[unat TX_QUEUE := q'], l_chain := ch'\<rparr>"
  have "wants_queue_notify net_ops (l_dev s) TX_QUEUE" by (simp add: net_ops_def TX_QUEUE_def RX_QUEUE_def)
  then have "legacy_drain_queue net_ops s m TX_QUEUE = Some (p', ?s, m')"
    by (simp add: legacy_drain_queue_def assms(2) loop)
  then have "\<exists>s'. legacy_write net_ops s m REG_QUEUE_NOTIFY (le16 TX_QUEUE) = Some (p', s', m') \<and> l_dev s' = d'"
    by (cases p') (simp_all add: legacy_write_def legacy_reg_defs)
  moreover have "same_outside (used_foot q) m m'" using net.drain_trace_confined [OF tr] by simp
  moreover have "tap_frames d' = tap_frames (l_dev s) @ tx_frames m ?cs"
    if "\<forall>c \<in> set ?cs. \<forall>b \<in> set (buffers c). buf_span b \<inter> used_foot q = {}"
    using net_drain_frames [OF tr same_outside_refl] that by blast
  ultimately show ?thesis by blast
qed

definition demo_net :: "net_dev legacy_pci" where
  "demo_net = (legacy_new net_ops (net_new [2, 0, 0, 0, 0, 1]) 5)\<lparr>l_queues := [vq_new 256, set_pfn 1 (vq_new 256)]\<rparr>"

lemma net_tx_exact_example:
  "\<exists>b s' m'. legacy_write net_ops demo_net (mem_new 0x100000) REG_QUEUE_NOTIFY (le16 TX_QUEUE) = Some (b, s', m')"
proof -
  have "legacy_inv demo_net" by (simp add: legacy_inv_def demo_net_def)
  moreover have "get_queue (l_queues demo_net) TX_QUEUE = Some (set_pfn 1 (vq_new 256))"
    by (simp add: get_queue_def demo_net_def TX_QUEUE_def)
  ultimately show ?thesis using net_tx_exact [of demo_net "set_pfn 1 (vq_new 256)" "mem_new 0x100000"] by auto
qed

end
