(* ===== verification/Record_Replay.thy ===== *)
theory Record_Replay
  imports Hb_Prelude
begin

text \<open>
  Record and replay (\<open>src/record.rs\<close>): the recording file that \<open>Recorder\<close> appends to, its
  reader \<open>read_all\<close>, and the \<open>Replayer\<close> that hands recorded keystrokes and random bytes
  back. The file is a byte list; the readings of the branch counter and of the clock are
  arguments, one pair per event. A failing \<open>read_exact\<close> is \<open>Rec_eof\<close>.
\<close>

datatype event_kind = KeyboardRx | NetRx | RngBytes

fun kind_to_byte :: "event_kind \<Rightarrow> u8" where
  "kind_to_byte KeyboardRx = 1"
| "kind_to_byte NetRx = 2"
| "kind_to_byte RngBytes = 3"

definition kind_from_byte :: "u8 \<Rightarrow> event_kind option" where
  "kind_from_byte b =
     (if b = 1 then Some KeyboardRx else if b = 2 then Some NetRx else if b = 3 then Some RngBytes else None)"

record recorded_event =
  branch_count :: u64
  elapsed_ms :: u64
  ev_kind :: event_kind
  ev_data :: bytes

definition MAGIC :: bytes where "MAGIC = [0x48, 0x42, 0x52, 0x52]"
definition FORMAT_VERSION :: u32 where "FORMAT_VERSION = 2"

record recording_header =
  h_mem_size :: u64
  h_precise :: bool

definition recorder_start :: "u64 \<Rightarrow> bool \<Rightarrow> bytes" where
  "recorder_start mem_sz precise = MAGIC @ le32 FORMAT_VERSION @ le64 mem_sz @ [of_bool precise]"

definition write_event :: "u64 \<Rightarrow> u64 \<Rightarrow> event_kind \<Rightarrow> bytes \<Rightarrow> bytes" where
  "write_event branches elapsed kind data =
     [kind_to_byte kind] @ le64 branches @ le64 elapsed @ le32 (of_nat (length data)) @ data"

text \<open>\<open>Recorder::record\<close> on the file written so far, at the given counter and clock readings.\<close>

definition recorder_record :: "bytes \<Rightarrow> u64 \<times> u64 \<Rightarrow> event_kind \<Rightarrow> bytes \<Rightarrow> bytes" where
  "recorder_record file now kind data = file @ write_event (fst now) (snd now) kind data"

datatype record_error = Rec_eof | Bad_magic | Bad_version u32 | Unknown_kind u8 | Mem_size_mismatch u64 u64

definition read_exact :: "nat \<Rightarrow> bytes \<Rightarrow> record_error + (bytes \<times> bytes)" where
  "read_exact n file = (if length file < n then Inl Rec_eof else Inr (take n file, drop n file))"

text \<open>The body of the event loop after the kind byte was read: one event and the rest of the file.\<close>

definition read_event :: "u8 \<Rightarrow> bytes \<Rightarrow> record_error + (recorded_event \<times> bytes)" where
  "read_event kb file =
     (case kind_from_byte kb of
        None \<Rightarrow> Inl (Unknown_kind kb)
      | Some kind \<Rightarrow>
          (case read_exact 8 file of Inl e \<Rightarrow> Inl e | Inr (bc, file) \<Rightarrow>
          (case read_exact 8 file of Inl e \<Rightarrow> Inl e | Inr (em, file) \<Rightarrow>
          (case read_exact 4 file of Inl e \<Rightarrow> Inl e | Inr (ln, file) \<Rightarrow>
          (case read_exact (unat (of_le ln :: u32)) file of Inl e \<Rightarrow> Inl e | Inr (data, file) \<Rightarrow>
             Inr (\<lparr>branch_count = of_le bc, elapsed_ms = of_le em, ev_kind = kind, ev_data = data\<rparr>, file))))))"

lemma read_exact_shrinks: "read_exact n file = Inr (h, t) \<Longrightarrow> length t \<le> length file"
  by (auto simp: read_exact_def split: if_splits)

lemma read_event_shrinks: "read_event kb file = Inr (ev, rest) \<Longrightarrow> length rest \<le> length file"
  by (auto simp: read_event_def split: option.splits sum.splits prod.splits dest!: read_exact_shrinks)

function read_events :: "bytes \<Rightarrow> record_error + recorded_event list" where
  "read_events [] = Inr []"
| "read_events (kb # file) =
     (case read_event kb file of
        Inl e \<Rightarrow> Inl e
      | Inr (ev, rest) \<Rightarrow> (case read_events rest of Inl e \<Rightarrow> Inl e | Inr evs \<Rightarrow> Inr (ev # evs)))"
  by pat_completeness auto
termination
  by (relation "measure length") (auto dest: read_event_shrinks simp: less_Suc_eq_le)

definition read_all :: "bytes \<Rightarrow> record_error + (recording_header \<times> recorded_event list)" where
  "read_all file =
     (case read_exact 4 file of Inl e \<Rightarrow> Inl e | Inr (magic, file) \<Rightarrow>
      if magic \<noteq> MAGIC then Inl Bad_magic
      else
        (case read_exact 4 file of Inl e \<Rightarrow> Inl e | Inr (v, file) \<Rightarrow>
         let version = of_le v :: u32 in
         if version \<noteq> FORMAT_VERSION then Inl (Bad_version version)
         else
           (case read_exact 8 file of Inl e \<Rightarrow> Inl e | Inr (ms, file) \<Rightarrow>
           (case read_exact 1 file of Inl e \<Rightarrow> Inl e | Inr (pr, file) \<Rightarrow>
           (case read_events file of Inl e \<Rightarrow> Inl e | Inr evs \<Rightarrow>
              Inr (\<lparr>h_mem_size = of_le ms, h_precise = (hd pr \<noteq> 0)\<rparr>, evs))))))"

subsection \<open>Replay\<close>

record replayer =
  keyboard_events :: "recorded_event list"
  next_keyboard :: nat
  rng_data :: "bytes list"
  skipped_net_events :: nat
  rng_exhausted_warned :: bool

definition replayer_start :: "bytes \<Rightarrow> u64 \<Rightarrow> record_error + replayer" where
  "replayer_start file mem_sz =
     (case read_all file of
        Inl e \<Rightarrow> Inl e
      | Inr (header, events) \<Rightarrow>
          if h_mem_size header \<noteq> mem_sz then Inl (Mem_size_mismatch (h_mem_size header) mem_sz)
          else Inr \<lparr>keyboard_events = filter (\<lambda>e. ev_kind e = KeyboardRx) events, next_keyboard = 0,
                 rng_data = map ev_data (filter (\<lambda>e. ev_kind e = RngBytes) events),
                 skipped_net_events = length (filter (\<lambda>e. ev_kind e = NetRx) events),
                 rng_exhausted_warned = False\<rparr>)"

definition poll_keyboard :: "replayer \<Rightarrow> u64 \<times> u64 \<Rightarrow> bytes option \<times> replayer" where
  "poll_keyboard r now =
     (if length (keyboard_events r) \<le> next_keyboard r then (None, r)
      else
        let nxt = keyboard_events r ! next_keyboard r in
        if branch_count nxt \<le> fst now \<or> elapsed_ms nxt \<le> snd now
        then (Some (ev_data nxt), r\<lparr>next_keyboard := next_keyboard r + 1\<rparr>)
        else (None, r))"

text \<open>The loop of \<open>next_rng_bytes\<close>, on the bytes still needed. The third clause is the \<open>expect\<close>,
  which the check before the loop rules out.\<close>

fun rng_loop :: "nat \<Rightarrow> bytes list \<Rightarrow> bytes \<times> bytes list" where
  "rng_loop 0 q = ([], q)"
| "rng_loop (Suc k) [] = ([], [])"
| "rng_loop (Suc k) (front # q) =
     (if length front \<le> Suc k
      then (case rng_loop (Suc k - length front) q of (out, q') \<Rightarrow> (front @ out, q'))
      else (take (Suc k) front, drop (Suc k) front # q))"

definition next_rng_bytes :: "replayer \<Rightarrow> nat \<Rightarrow> bytes option \<times> replayer" where
  "next_rng_bytes r want =
     (let total_available = sum_list (map length (rng_data r)) in
      if total_available < want then (None, r\<lparr>rng_exhausted_warned := True\<rparr>)
      else (case rng_loop want (rng_data r) of (out, q) \<Rightarrow> (Some out, r\<lparr>rng_data := q\<rparr>)))"

subsection \<open>The random tape\<close>

text \<open>The recorded random bytes as one string: what replay hands out is always its prefix.\<close>

definition rng_tape :: "replayer \<Rightarrow> bytes" where
  "rng_tape r = concat (rng_data r)"

lemma rng_loop_spec:
  "n \<le> length (concat q) \<Longrightarrow>
   fst (rng_loop n q) = take n (concat q) \<and> concat (snd (rng_loop n q)) = drop n (concat q)"
proof (induction n q rule: rng_loop.induct)
  case (3 k front q)
  show ?case
  proof (cases "length front \<le> Suc k")
    case True
    then have "Suc k - length front \<le> length (concat q)" using 3(2) by simp
    from 3(1) [OF True this] True show ?thesis by (auto split: prod.split)
  qed simp
qed simp_all

lemma next_rng_bytes_spec:
  "next_rng_bytes r want = (res, r') \<Longrightarrow>
   (if want \<le> length (rng_tape r) then res = Some (take want (rng_tape r)) \<and> rng_tape r' = drop want (rng_tape r)
    else res = None \<and> rng_tape r' = rng_tape r)"
  using rng_loop_spec [of want "rng_data r"]
  by (auto simp: next_rng_bytes_def rng_tape_def length_concat split: if_splits prod.splits)

lemma next_rng_bytes_length: "next_rng_bytes r want = (Some bs, r') \<Longrightarrow> length bs = want"
  by (auto dest!: next_rng_bytes_spec split: if_splits)

text \<open>Replayed random data is the recorded byte string, cut at whatever sizes the guest asks for: a
  request is served from the front of the string in full or, when too little is left, not at all
  and without consuming anything.\<close>

lemma next_rng_bytes_prefix:
  "case next_rng_bytes r want of (res, r') \<Rightarrow>
     (if want \<le> length (rng_tape r)
      then res = Some (take want (rng_tape r)) \<and> rng_tape r' = drop want (rng_tape r)
      else res = None \<and> rng_tape r' = rng_tape r)"
  by (auto dest!: next_rng_bytes_spec split: prod.split if_splits)

subsection \<open>The recording file\<close>

definition encode_event :: "recorded_event \<Rightarrow> bytes" where
  "encode_event e = write_event (branch_count e) (elapsed_ms e) (ev_kind e) (ev_data e)"

lemma read_exact_append [simp]: "n = length h \<Longrightarrow> read_exact n (h @ t) = Inr (h, t)"
  by (simp add: read_exact_def)

lemma kind_from_to [simp]: "kind_from_byte (kind_to_byte k) = Some k"
  by (cases k) (simp_all add: kind_from_byte_def)

lemma read_event_write:
  assumes "length (ev_data e) < 2 ^ 32"
  shows "read_events (encode_event e @ rest) =
    (case read_events rest of Inl err \<Rightarrow> Inl err | Inr evs \<Rightarrow> Inr (e # evs))"
  using assms by (cases e) (simp add: encode_event_def write_event_def read_event_def unat_of_nat_lt split: sum.split)

lemma read_events_encode:
  "list_all (\<lambda>e. length (ev_data e) < 2 ^ 32) evs \<Longrightarrow>
   read_events (concat (map encode_event evs) @ rest) =
     (case read_events rest of Inl err \<Rightarrow> Inl err | Inr evs' \<Rightarrow> Inr (evs @ evs'))"
  by (induction evs) (simp_all add: read_event_write split: sum.split)

lemma read_all_start:
  "read_all (recorder_start ms p @ body) =
     (case read_events body of Inl e \<Rightarrow> Inl e | Inr evs \<Rightarrow> Inr (\<lparr>h_mem_size = ms, h_precise = p\<rparr>, evs))"
  by (simp add: read_all_def recorder_start_def MAGIC_def read_exact_def Let_def split: sum.split)

text \<open>A whole recording: the header and one \<open>record\<close> call per event.\<close>

definition recording :: "u64 \<Rightarrow> bool \<Rightarrow> recorded_event list \<Rightarrow> bytes" where
  "recording ms p evs =
     fold (\<lambda>e file. recorder_record file (branch_count e, elapsed_ms e) (ev_kind e) (ev_data e)) evs
       (recorder_start ms p)"

lemma recording_eq: "recording ms p evs = recorder_start ms p @ concat (map encode_event evs)"
proof -
  have "fold (\<lambda>e file. recorder_record file (branch_count e, elapsed_ms e) (ev_kind e) (ev_data e)) evs f =
      f @ concat (map encode_event evs)" for f
    by (induction evs arbitrary: f) (simp_all add: recorder_record_def encode_event_def)
  then show ?thesis by (simp add: recording_def)
qed

text \<open>What was recorded is read back exactly: header and every event, in order.\<close>

lemma recording_roundtrip:
  assumes "list_all (\<lambda>e. length (ev_data e) < 2 ^ 32) evs"
  shows "read_all (recording ms p evs) = Inr (\<lparr>h_mem_size = ms, h_precise = p\<rparr>, evs)"
  using read_events_encode [OF assms, of "[]"] by (simp add: recording_eq read_all_start)

subsection \<open>A torn tail\<close>

lemma read_exact_short: "length file < n \<Longrightarrow> read_exact n file = Inl Rec_eof"
  by (simp add: read_exact_def)

lemma read_exact_split:
  "read_exact n xs = (if length xs < n then Inl Rec_eof else Inr (take n xs, drop n xs))"
  by (simp add: read_exact_def)

lemma read_events_torn:
  assumes "length (ev_data e) < 2 ^ 32" and "0 < k" and "k < length (encode_event e)"
  shows "read_events (take k (encode_event e)) = Inl Rec_eof"
proof -
  let ?l = "of_nat (length (ev_data e)) :: u32"
  let ?body = "le64 (branch_count e) @ le64 (elapsed_ms e) @ le32 ?l @ ev_data e"
  obtain j where k: "k = Suc j" using assms(2) gr0_implies_Suc by blast
  have enc: "take k (encode_event e) = kind_to_byte (ev_kind e) # take j ?body"
    by (simp add: k encode_event_def write_event_def)
  have j: "j < 20 + length (ev_data e)" using assms(3) by (simp add: k encode_event_def write_event_def)
  have l: "unat ?l = length (ev_data e)" using assms(1) by (simp add: unat_of_nat_lt)
  consider "j < 8" | "8 \<le> j" "j < 16" | "16 \<le> j" "j < 20" | "20 \<le> j" by linarith
  then have "read_event (kind_to_byte (ev_kind e)) (take j ?body) = Inl Rec_eof"
    by cases (use j l in \<open>auto simp: read_event_def read_exact_split min_def\<close>)
  then show ?thesis by (simp add: enc)
qed

text \<open>A recording whose last event was torn by a crash (any proper, non-empty part of it reached the
  file) cannot be read at all: the reader reports an error instead of the events before it.\<close>

lemma torn_recording_unreadable:
  assumes "list_all (\<lambda>e. length (ev_data e) < 2 ^ 32) (evs @ [e])"
    and "0 < k" and "k < length (encode_event e)"
  shows "read_all (recording ms p evs @ take k (encode_event e)) = Inl Rec_eof"
  using assms read_events_torn [of e k] read_events_encode [of evs "take k (encode_event e)"]
  by (simp add: recording_eq read_all_start)

lemma torn_recording_unreadable_example:
  "read_all (recording 0x1000 True [] @
     take 5 (encode_event \<lparr>branch_count = 5, elapsed_ms = 6, ev_kind = KeyboardRx, ev_data = [7]\<rparr>)) = Inl Rec_eof"
  by (rule torn_recording_unreadable) (simp_all add: encode_event_def write_event_def)

end
