(* ===== verification/Virtio_Rng.thy ===== *)
theory Virtio_Rng
  imports Virtio_Ops Record_Replay
begin

text \<open>
  The entropy device (\<open>src/virtio_rng.rs\<close>). \<open>getrandom(2)\<close> is a parameter: it maps an
  entropy state and a request to the bytes it stores, the empty string standing for a
  result of zero or less, of which at most \<open>want\<close> are used. The recorder is the file written so
  far with the number of events in it, \<open>clk\<close> giving the counter and clock readings of
  each event; the replayer is the one of \<open>Record_Replay\<close>.
\<close>

type_synonym 'e getrandom = "'e \<Rightarrow> nat \<Rightarrow> bytes \<times> 'e"
type_synonym clock = "nat \<Rightarrow> u64 \<times> u64"

definition CHUNK :: nat where "CHUNK = 4096"

record 'e rng_dev =
  rng_entropy :: 'e
  rng_recorder :: "(bytes \<times> nat) option"
  rng_replayer :: "replayer option"

definition fill_getrandom :: "'e getrandom \<Rightarrow> 'e rng_dev \<Rightarrow> nat \<Rightarrow> bytes option \<times> 'e rng_dev" where
  "fill_getrandom getrandom d want =
     (case getrandom (rng_entropy d) want of (bs, e') \<Rightarrow>
        let got = take want bs; d = d\<lparr>rng_entropy := e'\<rparr> in
        if got = [] then (None, d) else (Some got, d))"

definition fill_random :: "'e getrandom \<Rightarrow> 'e rng_dev \<Rightarrow> nat \<Rightarrow> bytes option \<times> 'e rng_dev" where
  "fill_random getrandom d want =
     (case rng_replayer d of
        None \<Rightarrow> fill_getrandom getrandom d want
      | Some r \<Rightarrow>
          (case next_rng_bytes r want of
             (Some bs, r') \<Rightarrow> (Some bs, d\<lparr>rng_replayer := Some r'\<rparr>)
           | (None, r') \<Rightarrow> fill_getrandom getrandom (d\<lparr>rng_replayer := Some r'\<rparr>) want))"

definition record_rng :: "clock \<Rightarrow> bytes \<Rightarrow> 'e rng_dev \<Rightarrow> 'e rng_dev" where
  "record_rng clk bs d =
     (case rng_recorder d of
        None \<Rightarrow> d
      | Some (file, n) \<Rightarrow> d\<lparr>rng_recorder := Some (recorder_record file (clk n) RngBytes bs, n + 1)\<rparr>)"

lemma fill_random_length:
  assumes "fill_random getrandom d want = (Some bs, d')" and "0 < want"
  shows "0 < length bs" and "length bs \<le> want"
  using assms
  by (auto simp: fill_random_def fill_getrandom_def Let_def
      split: option.splits prod.splits if_splits dest!: next_rng_bytes_length)

lemma fill_random_pos:
  "(Some bs, d') = fill_random getrandom d (min remaining CHUNK) \<Longrightarrow> remaining \<noteq> 0 \<Longrightarrow> 0 < length bs"
  using fill_random_length(1) [of getrandom d "min remaining CHUNK" bs d'] by (simp add: CHUNK_def)

text \<open>The \<open>while remaining > 0\<close> loop over one buffer. The flag says that the whole request stops here.\<close>

function rng_fill ::
  "'e getrandom \<Rightarrow> clock \<Rightarrow> nat \<Rightarrow> u64 \<Rightarrow> u32 \<Rightarrow> 'e rng_dev \<Rightarrow> guest_memory \<Rightarrow>
   bool \<times> u32 \<times> 'e rng_dev \<times> guest_memory" where
  "rng_fill getrandom clk remaining addr written d m =
     (if remaining = 0 then (False, written, d, m)
      else
        let want = min remaining CHUNK in
        (case fill_random getrandom d want of
           (None, d') \<Rightarrow> (True, written, d', m)
         | (Some bs, d') \<Rightarrow>
             (case write_checked m addr bs of (ok, m') \<Rightarrow>
                if \<not> ok then (True, written, d', m')
                else rng_fill getrandom clk (remaining - length bs) (addr + of_nat (length bs))
                       (written + of_nat (length bs)) (record_rng clk bs d') m')))"
  by pat_completeness auto
termination
  by (relation "measure (\<lambda>(_, _, remaining, _). remaining)") (auto dest: fill_random_pos)

declare rng_fill.simps [simp del]

lemma rng_fill_0 [simp]: "rng_fill getrandom clk 0 addr w d m = (False, w, d, m)"
  by (simp add: rng_fill.simps)

lemma rng_fill_None:
  "remaining \<noteq> 0 \<Longrightarrow> fill_random getrandom d (min remaining CHUNK) = (None, d') \<Longrightarrow>
   rng_fill getrandom clk remaining addr w d m = (True, w, d', m)"
  by (subst rng_fill.simps) (simp add: Let_def)

lemma rng_fill_Some:
  "remaining \<noteq> 0 \<Longrightarrow> fill_random getrandom d (min remaining CHUNK) = (Some bs, d') \<Longrightarrow>
   write_checked m addr bs = (ok, m') \<Longrightarrow>
   rng_fill getrandom clk remaining addr w d m =
     (if \<not> ok then (True, w, d', m')
      else rng_fill getrandom clk (remaining - length bs) (addr + of_nat (length bs)) (w + of_nat (length bs))
        (record_rng clk bs d') m')"
  by (subst rng_fill.simps) (simp add: Let_def)

fun rng_buffers ::
  "'e getrandom \<Rightarrow> clock \<Rightarrow> desc_buffer list \<Rightarrow> u32 \<Rightarrow> 'e rng_dev \<Rightarrow> guest_memory \<Rightarrow> u32 \<times> 'e rng_dev \<times> guest_memory" where
  "rng_buffers getrandom clk [] written d m = (written, d, m)"
| "rng_buffers getrandom clk (b # bs) written d m =
     (if \<not> device_writable b then rng_buffers getrandom clk bs written d m
      else
        (case rng_fill getrandom clk (unat (buf_len b)) (buf_addr b) written d m of (stop, written', d', m') \<Rightarrow>
           if stop then (written', d', m') else rng_buffers getrandom clk bs written' d' m'))"

definition rng_process_chain ::
  "'e getrandom \<Rightarrow> clock \<Rightarrow> 'e rng_dev \<Rightarrow> u16 \<Rightarrow> guest_memory \<Rightarrow> desc_chain \<Rightarrow>
   chain_outcome \<times> 'e rng_dev \<times> guest_memory" where
  "rng_process_chain getrandom clk d queue m chain =
     (case rng_buffers getrandom clk (buffers chain) 0 d m of (written, d', m') \<Rightarrow> (Done written, d', m'))"

definition rng_ops :: "'e getrandom \<Rightarrow> clock \<Rightarrow> 'e rng_dev device_ops" where
  "rng_ops getrandom clk = \<lparr>legacy_pci_device_id = (\<lambda>_. 0x1005), virtio_device_type = (\<lambda>_. 4),
     wants_queue_notify = (\<lambda>_ _. True), pci_class_code = (\<lambda>_. 0xff0000), num_queues = (\<lambda>_. 1),
     queue_size = (\<lambda>_ _. 64), host_features = (\<lambda>_. 0), read_config = (\<lambda>_ _ n. replicate n 0),
     write_config = (\<lambda>d _ _. d), process_chain = rng_process_chain getrandom clk,
     poll_completions = (\<lambda>d. ([], d)), take_outbox = (\<lambda>d. ([], d))\<rparr>"

subsection \<open>Isolation\<close>

definition writable_foot :: "desc_chain \<Rightarrow> nat set" where
  "writable_foot c = (\<Union>b \<in> set (filter device_writable (buffers c)). buf_span b)"

lemma rng_fill_confined:
  "rng_fill getrandom clk remaining addr written d m = (stop, w', d', m') \<Longrightarrow>
   same_outside (span addr remaining) m m'"
proof (induction getrandom clk remaining addr written d m rule: rng_fill.induct)
  case (1 getrandom clk remaining addr written d m)
  let ?want = "min remaining CHUNK"
  obtain got d1 where f0: "fill_random getrandom d ?want = (got, d1)" by (cases "fill_random getrandom d ?want")
  show ?case
  proof (cases "remaining = 0 \<or> got = None")
    case True
    with "1.prems" f0 show ?thesis by (cases "remaining = 0") (auto simp: rng_fill_None)
  next
    case False
    then obtain bs where f: "fill_random getrandom d ?want = (Some bs, d1)" and nz: "remaining \<noteq> 0"
      using f0 by auto
    obtain ok m1 where w: "write_checked m addr bs = (ok, m1)" by (cases "write_checked m addr bs")
    have len: "length bs \<le> remaining"
      using fill_random_length(2) [OF f] nz by (auto simp: CHUNK_def)
    have m1: "same_outside (span addr remaining) m m1"
    proof (rule same_outside_mono)
      show "same_outside (span addr (length bs)) m m1" using same_outside_write_checked [of addr bs m] w by simp
      show "span addr (length bs) \<subseteq> span addr remaining" using len by (auto simp: span_def)
    qed
    show ?thesis
    proof (cases ok)
      case False
      with "1.prems" m1 show ?thesis by (simp add: rng_fill_Some [OF nz f w])
    next
      case True
      with "1.prems" have r: "rng_fill getrandom clk (remaining - length bs) (addr + of_nat (length bs))
          (written + of_nat (length bs)) (record_rng clk bs d1) m1 = (stop, w', d', m')"
        by (simp add: rng_fill_Some [OF nz f w])
      have fits: "unat addr + length bs \<le> unat (mem_size m)"
        using w True by (simp add: write_checked_eq split: if_splits)
      then have "unat addr + length bs < 2 ^ 64" using unat_lt_pow [of "mem_size m"] by simp
      then have "unat (addr + of_nat (length bs)) = unat addr + length bs"
        by (simp add: unat_add_no_overflow unat_of_nat_lt)
      then have sub: "span (addr + of_nat (length bs)) (remaining - length bs) \<subseteq> span addr remaining"
        using len by (auto simp: span_def)
      have "same_outside (span (addr + of_nat (length bs)) (remaining - length bs)) m1 m'"
        using "1.IH" [OF nz refl f [symmetric] refl w [symmetric] _ r] True by simp
      then have "same_outside (span addr remaining) m1 m'" using sub by (rule same_outside_mono)
      with m1 show ?thesis by (blast intro: same_outside_step)
    qed
  qed
qed

lemma rng_buffers_confined:
  "rng_buffers getrandom clk bs written d m = (w', d', m') \<Longrightarrow>
   same_outside (\<Union>b \<in> set (filter device_writable bs). buf_span b) m m'"
proof (induction bs arbitrary: written d m)
  case (Cons b bs)
  show ?case
  proof (cases "device_writable b")
    case True
    obtain stop w1 d1 m1 where f: "rng_fill getrandom clk (unat (buf_len b)) (buf_addr b) written d m = (stop, w1, d1, m1)"
      by (metis prod_cases4)
    have m1: "same_outside (buf_span b) m m1" using rng_fill_confined [OF f] by (simp add: buf_span_def)
    show ?thesis
    proof (cases stop)
      case True
      with Cons.prems \<open>device_writable b\<close> f m1 show ?thesis by (auto elim: same_outside_mono)
    next
      case False
      with Cons.prems \<open>device_writable b\<close> f have "rng_buffers getrandom clk bs w1 d1 m1 = (w', d', m')" by simp
      from Cons.IH [OF this] m1 show ?thesis using True by (simp add: same_outside_trans)
    qed
  qed (use Cons in simp)
qed simp

interpretation rng: virtio_device "rng_ops getrandom clk" "\<lambda>_. writable_foot"
  by unfold_locales
    (auto simp: rng_ops_def rng_process_chain_def writable_foot_def simp del: set_filter
      split: prod.splits dest!: rng_buffers_confined)

subsection \<open>Record and replay\<close>

text \<open>The buffers of a chain the device fills, and the events one run appends.\<close>

definition rng_room :: "desc_chain \<Rightarrow> desc_buffer list" where
  "rng_room c = filter device_writable (buffers c)"

definition rng_event :: "recorded_event \<Rightarrow> bool" where
  "rng_event e \<longleftrightarrow> ev_kind e = RngBytes \<and> length (ev_data e) < 2 ^ 32"

abbreviation payload :: "recorded_event list \<Rightarrow> bytes" where
  "payload evs \<equiv> concat (map ev_data evs)"

lemma step_address:
  assumes "mem_fits m addr remaining" and "length bs \<le> remaining"
  shows "write_checked m addr bs = (True, mem_write m (unat addr) bs)"
    and "unat (addr + of_nat (length bs)) = unat addr + length bs"
    and "mem_fits (mem_write m (unat addr) bs) (addr + of_nat (length bs)) (remaining - length bs)"
proof -
  have fit: "unat addr + length bs \<le> unat (mem_size m)" using assms by (simp add: mem_fits_def)
  then show "write_checked m addr bs = (True, mem_write m (unat addr) bs)" by (simp add: write_checked_eq)
  have "unat addr + length bs < 2 ^ 64" using fit unat_lt_pow [of "mem_size m"] by simp
  then show u: "unat (addr + of_nat (length bs)) = unat addr + length bs"
    by (simp add: unat_add_no_overflow unat_of_nat_lt)
  show "mem_fits (mem_write m (unat addr) bs) (addr + of_nat (length bs)) (remaining - length bs)"
    using assms u by (simp add: mem_fits_def)
qed

text \<open>One buffer while recording: what is stored is what is recorded.\<close>

lemma rng_fill_recording:
  assumes "mem_fits m addr remaining" and "rng_replayer d = None" and "rng_recorder d = Some (fl, n)"
    and "rng_fill getrandom clk remaining addr w d m = (stop, w', d', m')"
  shows "\<exists>evs. list_all rng_event evs \<and> rng_replayer d' = None \<and>
    (\<exists>n'. rng_recorder d' = Some (fl @ concat (map encode_event evs), n')) \<and>
    w' = w + of_nat (length (payload evs)) \<and> m' = mem_write m (unat addr) (payload evs) \<and>
    length (payload evs) \<le> remaining \<and> stop = (length (payload evs) < remaining)"
  using assms
proof (induction getrandom clk remaining addr w d m arbitrary: fl n rule: rng_fill.induct)
  case (1 getrandom clk remaining addr w d m)
  let ?want = "min remaining CHUNK"
  obtain got d1 where f0: "fill_random getrandom d ?want = (got, d1)" by (cases "fill_random getrandom d ?want")
  have d1: "rng_replayer d1 = None" "rng_recorder d1 = Some (fl, n)"
    using f0 "1.prems"(2,3) by (auto simp: fill_random_def fill_getrandom_def Let_def split: prod.splits if_splits)
  consider "remaining = 0" | "remaining \<noteq> 0" "got = None" | bs where "remaining \<noteq> 0" "got = Some bs" by (cases got) auto
  then show ?case
  proof cases
    case 1
    with "1.prems" show ?thesis by (intro exI [of _ "[]"]) simp
  next
    case 2
    with "1.prems" f0 d1 show ?thesis by (intro exI [of _ "[]"]) (simp add: rng_fill_None)
  next
    case (3 bs)
    with f0 have f: "fill_random getrandom d ?want = (Some bs, d1)" by simp
    have len: "length bs \<le> remaining" "length bs < 2 ^ 32"
      using fill_random_length(2) [OF f] 3(1) by (auto simp: CHUNK_def)
    note st = step_address [OF "1.prems"(1) len(1)]
    let ?e = "\<lparr>branch_count = fst (clk n), elapsed_ms = snd (clk n), ev_kind = RngBytes, ev_data = bs\<rparr>"
    let ?d = "record_rng clk bs d1"
    have rd: "rng_replayer ?d = None" "rng_recorder ?d = Some (fl @ encode_event ?e, n + 1)"
      using d1 by (simp_all add: record_rng_def recorder_record_def encode_event_def)
    from "1.prems"(4) have "rng_fill getrandom clk (remaining - length bs) (addr + of_nat (length bs))
        (w + of_nat (length bs)) ?d (mem_write m (unat addr) bs) = (stop, w', d', m')"
      by (simp add: rng_fill_Some [OF 3(1) f st(1)])
    from "1.IH" [OF 3(1) refl f [symmetric] refl st(1) [symmetric] _ st(3) rd this] obtain evs n' where
      "list_all rng_event evs" "rng_replayer d' = None"
      "rng_recorder d' = Some ((fl @ encode_event ?e) @ concat (map encode_event evs), n')"
      "w' = w + of_nat (length bs) + of_nat (length (payload evs))"
      "m' = mem_write (mem_write m (unat addr) bs) (unat addr + length bs) (payload evs)"
      "length (payload evs) \<le> remaining - length bs" "stop = (length (payload evs) < remaining - length bs)"
      unfolding st(2) by auto
    moreover have "rng_event ?e" using len(2) by (simp add: rng_event_def)
    ultimately show ?thesis using len
      by (intro exI [of _ "?e # evs"]) (auto simp: mem_write_append add.assoc)
  qed
qed

lemma rng_fill_replaying:
  assumes "mem_fits m addr remaining" and "rng_replayer d = Some r" and "remaining \<le> length (rng_tape r)"
  shows "\<exists>d' r'. rng_fill getrandom clk remaining addr w d m =
      (False, w + of_nat remaining, d', mem_write m (unat addr) (take remaining (rng_tape r))) \<and>
    rng_replayer d' = Some r' \<and> rng_tape r' = drop remaining (rng_tape r)"
  using assms
proof (induction getrandom clk remaining addr w d m arbitrary: r rule: rng_fill.induct)
  case (1 getrandom clk remaining addr w d m)
  let ?want = "min remaining CHUNK" and ?t = "rng_tape r"
  show ?case
  proof (cases "remaining = 0")
    case True
    with "1.prems" show ?thesis by simp
  next
    case False
    obtain got r1 where nr: "next_rng_bytes r ?want = (got, r1)" by (cases "next_rng_bytes r ?want")
    have got: "got = Some (take ?want ?t)" "rng_tape r1 = drop ?want ?t"
      using next_rng_bytes_spec [OF nr] "1.prems"(3) by simp_all
    let ?d = "d\<lparr>rng_replayer := Some r1\<rparr>"
    have f: "fill_random getrandom d ?want = (Some (take ?want ?t), ?d)"
      using "1.prems"(2) nr got(1) by (simp add: fill_random_def)
    have len: "length (take ?want ?t) = ?want" using "1.prems"(3) by simp
    note st = step_address [OF "1.prems"(1), of "take ?want ?t", unfolded len, OF min.cobounded1]
    have rd: "rng_replayer (record_rng clk (take ?want ?t) ?d) = Some r1"
      by (simp add: record_rng_def split: option.split)
    have "remaining - ?want \<le> length (rng_tape r1)" using "1.prems"(3) got(2) by simp
    from "1.IH" [OF False refl f [symmetric] refl st(1) [symmetric], unfolded len, OF _ st(3) rd this]
    obtain d' r' where "rng_fill getrandom clk (remaining - ?want) (addr + of_nat ?want) (w + of_nat ?want)
          (record_rng clk (take ?want ?t) ?d) (mem_write m (unat addr) (take ?want ?t)) =
        (False, w + of_nat ?want + of_nat (remaining - ?want), d',
         mem_write (mem_write m (unat addr) (take ?want ?t)) (unat addr + ?want) (take (remaining - ?want) (drop ?want ?t)))"
      "rng_replayer d' = Some r'" "rng_tape r' = drop (remaining - ?want) (drop ?want ?t)"
      unfolding st(2) got(2) by auto
    moreover have "w + of_nat ?want + of_nat (remaining - ?want) = w + of_nat remaining"
      by (simp add: add.assoc flip: of_nat_add)
    moreover have "take ?want ?t @ take (remaining - ?want) (drop ?want ?t) = take remaining ?t"
      using take_add [of ?want "remaining - ?want" ?t] by simp
    ultimately show ?thesis
      using mem_write_append [of m "unat addr" "take ?want ?t" "take (remaining - ?want) (drop ?want ?t)"] len
      by (simp add: rng_fill_Some [OF False f st(1)] len)
  qed
qed

lemma rng_buffers_recording:
  assumes "list_all (buf_ok m) bs" and "rng_replayer d = None" and "rng_recorder d = Some (fl, n)"
    and "rng_buffers getrandom clk bs w d m = (w', d', m')"
  shows "\<exists>evs. list_all rng_event evs \<and> rng_replayer d' = None \<and>
    (\<exists>n'. rng_recorder d' = Some (fl @ concat (map encode_event evs), n')) \<and>
    w' = w + of_nat (length (payload evs)) \<and> m' = scatter m (filter device_writable bs) (payload evs) \<and>
    length (payload evs) \<le> total_len (filter device_writable bs)"
  using assms
proof (induction bs arbitrary: w d m fl n)
  case Nil
  then show ?case by (intro exI [of _ "[]"]) simp
next
  case (Cons b bs)
  show ?case
  proof (cases "device_writable b")
    case False
    with Cons show ?thesis by simp
  next
    case True
    obtain stop w1 d1 m1 where f: "rng_fill getrandom clk (unat (buf_len b)) (buf_addr b) w d m = (stop, w1, d1, m1)"
      by (metis prod_cases4)
    have "mem_fits m (buf_addr b) (unat (buf_len b))" using Cons.prems(1) by (simp add: buf_ok_def)
    from rng_fill_recording [OF this Cons.prems(2,3) f] obtain evs n1 where e:
      "list_all rng_event evs" "rng_replayer d1 = None"
      "rng_recorder d1 = Some (fl @ concat (map encode_event evs), n1)"
      "w1 = w + of_nat (length (payload evs))" "m1 = mem_write m (unat (buf_addr b)) (payload evs)"
      "length (payload evs) \<le> unat (buf_len b)" "stop = (length (payload evs) < unat (buf_len b))" by blast
    show ?thesis
    proof (cases stop)
      case True
      with Cons.prems(4) f \<open>device_writable b\<close> e show ?thesis by (intro exI [of _ evs]) auto
    next
      case False
      then have full: "length (payload evs) = unat (buf_len b)" using e by simp
      have "list_all (buf_ok m1) bs"
        using Cons.prems(1) e(5) by (simp add: list_all_iff buf_ok_def mem_fits_def)
      moreover have "rng_buffers getrandom clk bs w1 d1 m1 = (w', d', m')"
        using Cons.prems(4) f False \<open>device_writable b\<close> by simp
      ultimately obtain evs' n' where "list_all rng_event evs'" "rng_replayer d' = None"
        "rng_recorder d' = Some ((fl @ concat (map encode_event evs)) @ concat (map encode_event evs'), n')"
        "w' = w1 + of_nat (length (payload evs'))" "m' = scatter m1 (filter device_writable bs) (payload evs')"
        "length (payload evs') \<le> total_len (filter device_writable bs)"
        using Cons.IH [OF _ e(2,3)] by blast
      with e full \<open>device_writable b\<close> show ?thesis
        by (intro exI [of _ "evs @ evs'"]) (simp add: add.assoc)
    qed
  qed
qed

lemma rng_buffers_replaying:
  assumes "list_all (buf_ok m) bs" and "rng_replayer d = Some r"
    and "total_len (filter device_writable bs) \<le> length (rng_tape r)"
  shows "\<exists>d' r'. rng_buffers getrandom clk bs w d m =
      (w + of_nat (total_len (filter device_writable bs)), d', scatter m (filter device_writable bs) (rng_tape r)) \<and>
    rng_replayer d' = Some r' \<and> rng_tape r' = drop (total_len (filter device_writable bs)) (rng_tape r)"
  using assms
proof (induction bs arbitrary: w d m r)
  case Nil
  then show ?case by simp
next
  case (Cons b bs)
  show ?case
  proof (cases "device_writable b")
    case False
    with Cons show ?thesis by simp
  next
    case True
    let ?n = "unat (buf_len b)"
    have "mem_fits m (buf_addr b) ?n" using Cons.prems(1) by (simp add: buf_ok_def)
    from rng_fill_replaying [OF this Cons.prems(2), of getrandom clk w] Cons.prems(3) True obtain d1 r1 where f:
      "rng_fill getrandom clk ?n (buf_addr b) w d m =
        (False, w + of_nat ?n, d1, mem_write m (unat (buf_addr b)) (take ?n (rng_tape r)))"
      "rng_replayer d1 = Some r1" "rng_tape r1 = drop ?n (rng_tape r)" by auto
    let ?m = "mem_write m (unat (buf_addr b)) (take ?n (rng_tape r))"
    have "list_all (buf_ok ?m) bs" using Cons.prems(1) by (simp add: list_all_iff buf_ok_def mem_fits_def)
    from Cons.IH [OF this f(2), of "w + of_nat ?n"] Cons.prems(3) True f show ?thesis
      by (auto simp: add.assoc add.commute)
  qed
qed

text \<open>A run of the device over a sequence of requests, each with the memory it finds.\<close>

fun rng_run ::
  "'e getrandom \<Rightarrow> clock \<Rightarrow> 'e rng_dev \<Rightarrow> (guest_memory \<times> desc_chain) list \<Rightarrow>
   (chain_outcome \<times> guest_memory) list \<times> 'e rng_dev" where
  "rng_run getrandom clk d [] = ([], d)"
| "rng_run getrandom clk d ((m, c) # reqs) =
     (case rng_process_chain getrandom clk d 0 m c of (out, d', m') \<Rightarrow>
        (case rng_run getrandom clk d' reqs of (outs, d'') \<Rightarrow> ((out, m') # outs, d'')))"

text \<open>A request was served in full: as many bytes as the chain has room for.\<close>

definition request_ok :: "guest_memory \<times> desc_chain \<Rightarrow> bool" where
  "request_ok = (\<lambda>(m, c). list_all (buf_ok m) (buffers c) \<and> total_len (rng_room c) < 2 ^ 32)"

definition served_in_full :: "guest_memory \<times> desc_chain \<Rightarrow> chain_outcome \<times> guest_memory \<Rightarrow> bool" where
  "served_in_full req res \<longleftrightarrow> fst res = Done (of_nat (total_len (rng_room (snd req))))"

fun replies :: "(guest_memory \<times> desc_chain) list \<Rightarrow> bytes \<Rightarrow> (chain_outcome \<times> guest_memory) list" where
  "replies [] tape = []"
| "replies ((m, c) # reqs) tape =
     (Done (of_nat (total_len (rng_room c))), scatter m (rng_room c) tape) #
     replies reqs (drop (total_len (rng_room c)) tape)"

definition total_room :: "(guest_memory \<times> desc_chain) list \<Rightarrow> nat" where
  "total_room reqs = sum_list (map (\<lambda>(m, c). total_len (rng_room c)) reqs)"

lemma scatter_append: "length xs = total_len bs \<Longrightarrow> scatter m bs (xs @ ys) = scatter m bs xs"
proof (induction m bs xs arbitrary: ys rule: scatter.induct)
  case (2 m b bs d)
  from 2(2) have len: "length d = unat (buf_len b) + total_len bs" by simp
  then have "length (drop (unat (buf_len b)) d) = total_len bs" by simp
  from 2(1) [OF this] len show ?case by simp
qed simp

lemma rng_run_recording:
  assumes "list_all request_ok reqs" and "rng_replayer d = None" and "rng_recorder d = Some (fl, n)"
    and "rng_run getrandom clk d reqs = (outs, d')" and "list_all2 served_in_full reqs outs"
  shows "\<exists>evs. list_all rng_event evs \<and> (\<exists>n'. rng_recorder d' = Some (fl @ concat (map encode_event evs), n')) \<and>
    length (payload evs) = total_room reqs \<and> (\<forall>rest. outs = replies reqs (payload evs @ rest))"
  using assms
proof (induction reqs arbitrary: d fl n outs)
  case Nil
  then show ?case by (intro exI [of _ "[]"]) (simp add: total_room_def)
next
  case (Cons req reqs)
  obtain m c where req: "req = (m, c)" by (cases req)
  obtain w d1 m1 where b: "rng_buffers getrandom clk (buffers c) 0 d m = (w, d1, m1)" by (metis prod_cases3)
  obtain outs2 d2 where r: "rng_run getrandom clk d1 reqs = (outs2, d2)" by (cases "rng_run getrandom clk d1 reqs")
  have outs: "outs = (Done w, m1) # outs2" "d2 = d'"
    using Cons.prems(4) b r by (simp_all add: req rng_process_chain_def)
  have ok: "list_all (buf_ok m) (buffers c)" "total_len (rng_room c) < 2 ^ 32"
    using Cons.prems(1) by (simp_all add: req request_ok_def)
  from rng_buffers_recording [OF ok(1) Cons.prems(2,3) b] obtain evs n1 where e:
    "list_all rng_event evs" "rng_replayer d1 = None" "rng_recorder d1 = Some (fl @ concat (map encode_event evs), n1)"
    "w = of_nat (length (payload evs))" "m1 = scatter m (rng_room c) (payload evs)"
    "length (payload evs) \<le> total_len (rng_room c)" by (auto simp: rng_room_def)
  have wf: "w = of_nat (total_len (rng_room c))"
    using Cons.prems(5) by (simp add: outs req served_in_full_def)
  then have "unat (of_nat (length (payload evs)) :: u32) = unat (of_nat (total_len (rng_room c)) :: u32)"
    using e(4) by simp
  moreover have "length (payload evs) < 2 ^ 32" using e(6) ok(2) by linarith
  ultimately have full: "length (payload evs) = total_len (rng_room c)"
    using ok(2) by (simp add: unat_of_nat)
  have "list_all request_ok reqs" "list_all2 served_in_full reqs outs2"
    using Cons.prems(1,5) by (simp_all add: outs)
  from Cons.IH [OF this(1) e(2,3) r [unfolded outs(2)] this(2)] obtain evs' n' where
    "list_all rng_event evs'" "rng_recorder d' = Some ((fl @ concat (map encode_event evs)) @ concat (map encode_event evs'), n')"
    "length (payload evs') = total_room reqs" "\<forall>rest. outs2 = replies reqs (payload evs' @ rest)" by blast
  with e full outs wf show ?case
    by (intro exI [of _ "evs @ evs'"]) (auto simp: req total_room_def scatter_append)
qed

lemma rng_run_replaying:
  assumes "list_all request_ok reqs" and "rng_replayer d = Some r" and "total_room reqs \<le> length (rng_tape r)"
  shows "fst (rng_run getrandom clk d reqs) = replies reqs (rng_tape r)"
  using assms
proof (induction reqs arbitrary: d r)
  case (Cons req reqs)
  obtain m c where req: "req = (m, c)" by (cases req)
  have ok: "list_all (buf_ok m) (buffers c)" using Cons.prems(1) by (simp add: req request_ok_def)
  have "total_len (filter device_writable (buffers c)) \<le> length (rng_tape r)"
    using Cons.prems(3) by (simp add: req total_room_def rng_room_def)
  from rng_buffers_replaying [OF ok Cons.prems(2) this, of getrandom clk 0] obtain d1 r1 where b:
    "rng_buffers getrandom clk (buffers c) 0 d m =
      (of_nat (total_len (rng_room c)), d1, scatter m (rng_room c) (rng_tape r))"
    "rng_replayer d1 = Some r1" "rng_tape r1 = drop (total_len (rng_room c)) (rng_tape r)"
    by (auto simp: rng_room_def)
  have "total_room reqs \<le> length (rng_tape r1)"
    using Cons.prems(3) b(3) by (simp add: req total_room_def)
  with Cons.IH [OF _ b(2)] Cons.prems(1) b show ?case
    by (simp add: req rng_process_chain_def split: prod.split) (metis fst_conv)
qed simp


definition demo_entropy :: "unit getrandom" where
  "demo_entropy e n = (replicate n 7, e)"

lemma demo_rng_run:
  "\<exists>d' m'. rng_run demo_entropy (\<lambda>_. (0, 0))
     \<lparr>rng_entropy = (), rng_recorder = Some (recorder_start 0x10000 True, 0), rng_replayer = None\<rparr>
     [(demo_mem, demo_chain)] = ([(Done 8, m')], d')"
proof -
  let ?d = "\<lparr>rng_entropy = (), rng_recorder = Some (recorder_start 0x10000 True, 0), rng_replayer = None\<rparr>"
  have f: "fill_random demo_entropy ?d (min 8 CHUNK) = (Some (replicate 8 7), ?d)"
    by (simp add: fill_random_def fill_getrandom_def demo_entropy_def CHUNK_def Let_def)
  have w: "write_checked demo_mem 0x5000 (replicate 8 7) = (True, mem_write demo_mem 0x5000 (replicate 8 7))"
    by (simp add: write_checked_eq demo_mem_simps)
  show ?thesis
    using rng_fill_Some [OF _ f w, of "\<lambda>_. (0, 0)" 0]
    by (simp add: rng_process_chain_def demo_chain_def)
qed


end
