(* ===== verification/Boot_Memory.thy ===== *)
theory Boot_Memory
  imports Guest_Memory
begin

text \<open>
  The boot-time writers of \<open>src/mem.rs\<close> (\<open>write_slice_unchecked_boot_only\<close> and
  \<open>write_obj_unchecked_boot_only\<close>), which the loader, the GDT and page-table setup and
  the firmware tables use. They are unchecked: outside the mapping the debug build
  panics and the release build corrupts host memory, so such a write is \<open>None\<close>, and
  that no boot step ever is \<open>None\<close> is something to prove.

  A boot step is a list of such writes; \<open>boot_writes\<close> runs one, and the lemmas below
  say what memory holds afterwards.
\<close>

definition write_slice_boot :: "guest_memory \<Rightarrow> u64 \<Rightarrow> bytes \<Rightarrow> guest_memory option" where
  "write_slice_boot m addr data =
     (if unat addr + length data \<le> unat (mem_size m) then Some (mem_write m (unat addr) data) else None)"

definition write_obj_boot :: "guest_memory \<Rightarrow> u64 \<Rightarrow> u64 \<Rightarrow> guest_memory option" where
  "write_obj_boot m addr v = write_slice_boot m addr (le64 v)"

fun boot_writes :: "(u64 \<times> bytes) list \<Rightarrow> guest_memory \<Rightarrow> guest_memory option" where
  "boot_writes [] m = Some m"
| "boot_writes ((addr, data) # ws) m =
     (case write_slice_boot m addr data of None \<Rightarrow> None | Some m' \<Rightarrow> boot_writes ws m')"

definition writes_foot :: "(u64 \<times> bytes) list \<Rightarrow> nat set" where
  "writes_foot ws = (\<Union>(a, d) \<in> set ws. span a (length d))"

definition fits_all :: "guest_memory \<Rightarrow> (u64 \<times> bytes) list \<Rightarrow> bool" where
  "fits_all m ws \<longleftrightarrow> (\<forall>(a, d) \<in> set ws. mem_fits m a (length d))"

lemma foot_simps [simp]:
  "writes_foot [] = {}"
  "writes_foot ((a, d) # ws) = span a (length d) \<union> writes_foot ws"
  "writes_foot (ws @ vs) = writes_foot ws \<union> writes_foot vs"
  by (auto simp: writes_foot_def)

lemma fits_all_simps [simp]:
  "fits_all m []"
  "fits_all m ((a, d) # ws) \<longleftrightarrow> mem_fits m a (length d) \<and> fits_all m ws"
  "fits_all m (ws @ vs) \<longleftrightarrow> fits_all m ws \<and> fits_all m vs"
  by (auto simp: fits_all_def)

lemma write_slice_boot_Some:
  "mem_fits m a (length d) \<Longrightarrow> write_slice_boot m a d = Some (mem_write m (unat a) d)"
  by (simp add: write_slice_boot_def mem_fits_def)

lemma boot_writes_append:
  "boot_writes (ws @ vs) m = (case boot_writes ws m of None \<Rightarrow> None | Some m' \<Rightarrow> boot_writes vs m')"
  by (induction ws m rule: boot_writes.induct) (auto split: option.splits)

lemma mem_fits_write [simp]: "mem_fits (mem_write m a d) b n \<longleftrightarrow> mem_fits m b n"
  by (simp add: mem_fits_def)

lemma fits_all_size: "mem_size m' = mem_size m \<Longrightarrow> fits_all m' ws \<longleftrightarrow> fits_all m ws"
  by (simp add: fits_all_def mem_fits_def)

lemma same_outside_mem_write: "same_outside (span a (length d)) m (mem_write m (unat a) d)"
  by (auto simp: same_outside_def mem_bytes_write span_def)

lemma boot_writes_frame:
  "boot_writes ws m = Some m' \<Longrightarrow> same_outside (writes_foot ws) m m'"
proof (induction ws m rule: boot_writes.induct)
  case (2 addr data ws m)
  let ?m = "mem_write m (unat addr) data"
  from 2(2) have w: "write_slice_boot m addr data = Some ?m" "boot_writes ws ?m = Some m'"
    by (simp_all add: write_slice_boot_def split: if_splits)
  from 2(1) [OF w] same_outside_trans [OF same_outside_mem_write] show ?case by simp
qed simp

lemma boot_writes_total: "fits_all m ws \<Longrightarrow> \<exists>m'. boot_writes ws m = Some m'"
proof (induction ws m rule: boot_writes.induct)
  case (2 addr data ws m)
  then show ?case by (simp add: write_slice_boot_Some fits_all_size [of "mem_write m (unat addr) data" m])
qed simp

lemma boot_writes_Some_iff: "(\<exists>m'. boot_writes ws m = Some m') \<longleftrightarrow> fits_all m ws"
proof
  show "\<exists>m'. boot_writes ws m = Some m' \<Longrightarrow> fits_all m ws"
  proof (induction ws m rule: boot_writes.induct)
    case (2 addr data ws m)
    then show ?case
      by (auto simp: write_slice_boot_def mem_fits_def fits_all_size [of "mem_write m (unat addr) data" m]
          split: option.splits if_splits)
  qed simp
qed (rule boot_writes_total)

lemma read_checked_boot_frame:
  "boot_writes ws m = Some m' \<Longrightarrow> span a n \<inter> writes_foot ws = {} \<Longrightarrow> read_checked m' a n = read_checked m a n"
  by (rule read_checked_same_outside [OF boot_writes_frame])

text \<open>The last write that touches a range decides what is read there.\<close>

lemma boot_writes_read:
  assumes "boot_writes (ws @ (a, d) # vs) m = Some m'" and "span a (length d) \<inter> writes_foot vs = {}"
  shows "read_checked m' a (length d) = Some d"
proof -
  from assms(1) obtain m1 where "boot_writes ((a, d) # vs) m1 = Some m'"
    by (auto simp: boot_writes_append split: option.splits)
  then have "boot_writes vs (mem_write m1 (unat a) d) = Some m'" and fit: "mem_fits m1 a (length d)"
    by (auto simp: write_slice_boot_def mem_fits_def split: option.splits if_splits)
  from read_checked_boot_frame [OF this(1) assms(2)] fit show ?thesis
    by (simp add: read_checked_eq mem_fits_def mem_read_write_same)
qed

text \<open>
  A table of 8-byte entries: when no two writes at one address disagree and all
  addresses are 8-byte aligned, every entry reads back.
\<close>

definition entry_writes :: "(u64 \<times> u64) list \<Rightarrow> (u64 \<times> bytes) list" where
  "entry_writes es = map (\<lambda>(a, v). (a, le64 v)) es"

lemma entry_writes_simps [simp]:
  "entry_writes [] = []"
  "entry_writes ((a, v) # es) = (a, le64 v) # entry_writes es"
  "entry_writes (es @ fs) = entry_writes es @ entry_writes fs"
  by (simp_all add: entry_writes_def)

lemma foot_entry_writes: "writes_foot (entry_writes es) = (\<Union>(a, v) \<in> set es. span a 8)"
  by (auto simp: writes_foot_def entry_writes_def)

lemma span_aligned_disjoint:
  assumes "unat a mod 8 = 0" and "unat b mod 8 = 0" and "a \<noteq> b"
  shows "span a 8 \<inter> span b 8 = {}"
proof -
  from assms(1,2) obtain i j where ij: "unat a = 8 * i" "unat b = 8 * j" by (metis mod_0_imp_dvd dvdE)
  with assms(3) have "i \<noteq> j" by (metis word_unat_eq_iff)
  with ij show ?thesis by (auto simp: span_def)
qed

lemma entry_read:
  assumes "boot_writes (entry_writes es) m = Some m'" and "(a, v) \<in> set es"
    and "\<And>b w. (b, w) \<in> set es \<Longrightarrow> unat b mod 8 = 0"
    and "\<And>w. (a, w) \<in> set es \<Longrightarrow> w = v"
  shows "read_u64_checked m' a = Some v"
proof -
  from split_list_last [OF assms(2)] obtain xs ys where es: "es = xs @ (a, v) # ys" "(a, v) \<notin> set ys"
    by blast
  have "span a 8 \<inter> span b 8 = {}" if "(b, w) \<in> set ys" for b w
  proof (rule span_aligned_disjoint)
    show "unat a mod 8 = 0" by (rule assms(3) [OF assms(2)])
    show "unat b mod 8 = 0" by (rule assms(3) [of b w]) (simp add: es(1) that)
    show "a \<noteq> b" using assms(4) [of w] that es by auto
  qed
  then have "span a 8 \<inter> writes_foot (entry_writes ys) = {}" unfolding foot_entry_writes by blast
  then have "read_checked m' a (length (le64 v)) = Some (le64 v)"
    using assms(1) es(1) by (intro boot_writes_read) auto
  then show ?thesis by (simp add: read_u64_checked_def)
qed

subsection \<open>Byte buffers\<close>

text \<open>\<open>put_at buf off bs\<close> is \<open>buf[off .. off + bs.len()].copy_from_slice(bs)\<close>, in range.\<close>

definition put_at :: "bytes \<Rightarrow> nat \<Rightarrow> bytes \<Rightarrow> bytes" where
  "put_at buf off bs = take off buf @ bs @ drop (off + length bs) buf"

lemma length_put_at [simp]: "off + length bs \<le> length buf \<Longrightarrow> length (put_at buf off bs) = length buf"
  by (simp add: put_at_def)

lemma subslice_put_at_same: "off + n \<le> length buf \<Longrightarrow> n = length bs \<Longrightarrow> subslice (put_at buf off bs) off n = bs"
  by (simp add: put_at_def subslice_def)

lemma subslice_put_at_other:
  assumes "a + n \<le> off \<or> off + length bs \<le> a" and "off + length bs \<le> length buf"
  shows "subslice (put_at buf off bs) a n = subslice buf a n"
  using assms by (auto simp: put_at_def subslice_def drop_take min_def)

lemma subslice_upd_other: "i < a \<or> a + n \<le> i \<Longrightarrow> subslice (buf[i := v]) a n = subslice buf a n"
  by (auto simp: subslice_def drop_update_swap take_update_cancel drop_update_cancel)

lemma nth_put_at_other:
  assumes "i < off \<or> off + length bs \<le> i" and "off + length bs \<le> length buf"
  shows "put_at buf off bs ! i = buf ! i"
  using assms by (auto simp: put_at_def nth_append)

end
