(* ===== verification/Boot_Paging.thy ===== *)
theory Boot_Paging
  imports Boot_Memory
begin

text \<open>
  Long-mode boot state (\<open>src/gdt.rs\<close>): the flat GDT and the identity-mapping page
  tables, both written into guest memory, and the special registers that point at
  them. \<open>kvm_sregs\<close> keeps the fields of the KVM structure this code assigns.

  \<open>page_walk\<close> is the specification: the 4-level walk an x86-64 processor makes, down
  to a 2 MiB leaf. The theorems say that after \<open>setup_page_tables\<close> the walk maps every
  guest address to itself, and where in guest memory the tables end up.
\<close>

definition KERNEL_START :: u64 where "KERNEL_START = 0x100000"
definition ZERO_PAGE_START :: u64 where "ZERO_PAGE_START = 0x7000"
definition CMDLINE_START :: u64 where "CMDLINE_START = 0x20000"
definition BOOT_STACK_TOP :: u64 where "BOOT_STACK_TOP = CMDLINE_START - 0x1000"

definition BOOT_GDT_OFFSET :: u64 where "BOOT_GDT_OFFSET = 0x500"
definition PML4_START :: u64 where "PML4_START = 0x9000"
definition PDPTE_START :: u64 where "PDPTE_START = 0xa000"
definition PDE_START :: u64 where "PDE_START = 0xb000"
definition PAGE_2MB :: u64 where "PAGE_2MB = 2 * 1024 * 1024"
definition GIB :: u64 where "GIB = 1024 * 1024 * 1024"
definition PD_TABLE_SIZE :: u64 where "PD_TABLE_SIZE = 4096"
definition MAX_PDPT_ENTRIES :: u64 where "MAX_PDPT_ENTRIES = 512"
definition PRESENT_WRITABLE :: u64 where "PRESENT_WRITABLE = 0x3"
definition PRESENT_WRITABLE_HUGE :: u64 where "PRESENT_WRITABLE_HUGE = 0x83"

lemmas layout_defs = KERNEL_START_def ZERO_PAGE_START_def CMDLINE_START_def BOOT_STACK_TOP_def
  BOOT_GDT_OFFSET_def PML4_START_def PDPTE_START_def PDE_START_def PAGE_2MB_def GIB_def PD_TABLE_SIZE_def
  MAX_PDPT_ENTRIES_def

record kvm_segment =
  seg_base :: u64
  seg_limit :: u32
  seg_selector :: u16
  seg_type :: u8
  seg_present :: u8
  seg_dpl :: u8
  seg_db :: u8
  seg_s :: u8
  seg_l :: u8
  seg_g :: u8
  seg_avl :: u8
  seg_unusable :: u8

record kvm_sregs =
  gdt_base :: u64
  gdt_limit :: u16
  sr_cs :: kvm_segment
  sr_ds :: kvm_segment
  sr_es :: kvm_segment
  sr_fs :: kvm_segment
  sr_gs :: kvm_segment
  sr_ss :: kvm_segment
  sr_cr0 :: u64
  sr_cr3 :: u64
  sr_cr4 :: u64
  sr_efer :: u64

definition max_identity_map :: u64 where
  "max_identity_map =
     (let space_for_tables = KERNEL_START - PDE_START;
          max_tables_by_space = space_for_tables div PD_TABLE_SIZE
      in min max_tables_by_space MAX_PDPT_ENTRIES * GIB)"

definition gdt_entry :: "u16 \<Rightarrow> u32 \<Rightarrow> u32 \<Rightarrow> u64" where
  "gdt_entry flags bs limit =
     push_bit 32 (ucast bs AND 0xff000000) OR push_bit 40 (ucast flags AND 0x0000f0ff) OR
     push_bit 32 (ucast limit AND 0x000f0000) OR push_bit 16 (ucast bs AND 0x00ffffff) OR
     (ucast limit AND 0x0000ffff)"

definition gdt_table :: "u64 list" where
  "gdt_table = [0, gdt_entry 0xa09b 0 0xfffff, gdt_entry 0xc093 0 0xfffff]"

definition code_seg :: kvm_segment where
  "code_seg = \<lparr>seg_base = 0, seg_limit = 0xfffff, seg_selector = 0x08, seg_type = 0xb, seg_present = 1,
     seg_dpl = 0, seg_db = 0, seg_s = 1, seg_l = 1, seg_g = 1, seg_avl = 0, seg_unusable = 0\<rparr>"

definition data_seg :: kvm_segment where
  "data_seg = code_seg\<lparr>seg_selector := 0x10, seg_type := 0x3, seg_l := 0, seg_db := 1\<rparr>"

text \<open>The loop over \<open>table.iter().enumerate()\<close>.\<close>

fun write_gdt :: "nat \<Rightarrow> u64 list \<Rightarrow> guest_memory \<Rightarrow> guest_memory option" where
  "write_gdt i [] m = Some m"
| "write_gdt i (e # es) m =
     (case write_obj_boot m (BOOT_GDT_OFFSET + of_nat i * 8) e of
        None \<Rightarrow> None | Some m' \<Rightarrow> write_gdt (Suc i) es m')"

definition setup_gdt :: "guest_memory \<Rightarrow> kvm_sregs \<Rightarrow> (guest_memory \<times> kvm_sregs) option" where
  "setup_gdt m sregs =
     (case write_gdt 0 gdt_table m of
        None \<Rightarrow> None
      | Some m' \<Rightarrow>
          Some (m', sregs\<lparr>gdt_base := BOOT_GDT_OFFSET, gdt_limit := of_nat (length gdt_table * 8 - 1),
            sr_cs := code_seg, sr_ds := data_seg, sr_es := data_seg, sr_fs := data_seg, sr_gs := data_seg,
            sr_ss := data_seg\<rparr>))"

text \<open>The two nested loops of \<open>setup_page_tables\<close>, over \<open>0..n\<close>.\<close>

definition up_to :: "u64 \<Rightarrow> u64 list" where
  "up_to n = map of_nat [0..<unat n]"

fun map_pages :: "u64 list \<Rightarrow> u64 \<Rightarrow> u64 \<Rightarrow> guest_memory \<Rightarrow> guest_memory option" where
  "map_pages [] pd_table gib_base m = Some m"
| "map_pages (i # is) pd_table gib_base m =
     (let phys = gib_base + i * PAGE_2MB in
      case write_obj_boot m (pd_table + i * 8) (phys OR PRESENT_WRITABLE_HUGE) of
        None \<Rightarrow> None | Some m' \<Rightarrow> map_pages is pd_table gib_base m')"

fun map_gibs :: "u64 list \<Rightarrow> u64 \<Rightarrow> guest_memory \<Rightarrow> guest_memory option" where
  "map_gibs [] msize m = Some m"
| "map_gibs (gib # gs) msize m =
     (let pd_table = PDE_START + gib * PD_TABLE_SIZE in
      case write_obj_boot m (PDPTE_START + gib * 8) (pd_table OR PRESENT_WRITABLE) of
        None \<Rightarrow> None
      | Some m1 \<Rightarrow>
          let gib_base = gib * GIB;
              pages_in_this_gib = div_ceil (min (saturating_sub msize gib_base) GIB) PAGE_2MB
          in case map_pages (up_to pages_in_this_gib) pd_table gib_base m1 of
               None \<Rightarrow> None
             | Some m2 \<Rightarrow> map_gibs gs msize m2)"

datatype paging_error = Exceeds_identity_map u64 u64

text \<open>The inner option is the unchecked writes: \<open>None\<close> is a write outside the mapping.\<close>

definition setup_page_tables ::
  "guest_memory \<Rightarrow> kvm_sregs \<Rightarrow> u64 \<Rightarrow> (paging_error + guest_memory \<times> kvm_sregs) option" where
  "setup_page_tables m sregs msize =
     (if max_identity_map < msize then Some (Inl (Exceeds_identity_map msize max_identity_map))
      else
        case write_obj_boot m PML4_START (PDPTE_START OR PRESENT_WRITABLE) of
          None \<Rightarrow> None
        | Some m1 \<Rightarrow>
            let num_gib = max (div_ceil msize GIB) 1 in
            case map_gibs (up_to num_gib) msize m1 of
              None \<Rightarrow> None
            | Some m2 \<Rightarrow>
                Some (Inr (m2, sregs\<lparr>sr_cr3 := PML4_START, sr_cr4 := 0x20, sr_cr0 := 0x80050033,
                  sr_efer := 0x500\<rparr>)))"

subsection \<open>The processor's walk\<close>

definition pte_addr :: "nat \<Rightarrow> u64 \<Rightarrow> u64" where
  "pte_addr n e = e AND (mask 52 AND NOT (mask n))"

definition table_index :: "nat \<Rightarrow> u64 \<Rightarrow> u64" where
  "table_index sh va = take_bit 9 (drop_bit sh va)"

definition page_walk :: "guest_memory \<Rightarrow> u64 \<Rightarrow> u64 \<Rightarrow> u64 option" where
  "page_walk m cr3 va =
     (case read_u64_checked m (pte_addr 12 cr3 + table_index 39 va * 8) of
        None \<Rightarrow> None
      | Some e4 \<Rightarrow>
          if \<not> bit e4 0 then None
          else case read_u64_checked m (pte_addr 12 e4 + table_index 30 va * 8) of
            None \<Rightarrow> None
          | Some e3 \<Rightarrow>
              if \<not> bit e3 0 \<or> bit e3 7 then None
              else case read_u64_checked m (pte_addr 12 e3 + table_index 21 va * 8) of
                None \<Rightarrow> None
              | Some e2 \<Rightarrow>
                  if \<not> bit e2 0 \<or> \<not> bit e2 7 then None
                  else Some (pte_addr 21 e2 OR take_bit 21 va))"

subsection \<open>The tables as one list of entries\<close>

definition num_gibs :: "u64 \<Rightarrow> nat" where
  "num_gibs msize = max ((unat msize + 2 ^ 30 - 1) div 2 ^ 30) 1"

definition gib_pages :: "u64 \<Rightarrow> nat \<Rightarrow> nat" where
  "gib_pages msize g = (min (unat msize - g * 2 ^ 30) (2 ^ 30) + 2 ^ 21 - 1) div 2 ^ 21"

definition pd_entry :: "nat \<Rightarrow> nat \<Rightarrow> u64 \<times> u64" where
  "pd_entry g i = (PDE_START + of_nat g * PD_TABLE_SIZE + of_nat i * 8,
     (of_nat g * GIB + of_nat i * PAGE_2MB) OR PRESENT_WRITABLE_HUGE)"

definition pdpt_entry :: "nat \<Rightarrow> u64 \<times> u64" where
  "pdpt_entry g = (PDPTE_START + of_nat g * 8, (PDE_START + of_nat g * PD_TABLE_SIZE) OR PRESENT_WRITABLE)"

definition table_entries :: "u64 \<Rightarrow> (u64 \<times> u64) list" where
  "table_entries msize = (PML4_START, PDPTE_START OR PRESENT_WRITABLE) #
     concat (map (\<lambda>g. pdpt_entry g # map (pd_entry g) [0..<gib_pages msize g]) [0..<num_gibs msize])"

lemma map_pages_writes:
  "map_pages (map of_nat is) (PDE_START + of_nat g * PD_TABLE_SIZE) (of_nat g * GIB) m =
     boot_writes (entry_writes (map (pd_entry g) is)) m"
  by (induction "is" arbitrary: m) (simp_all add: pd_entry_def write_obj_boot_def Let_def split: option.split)

lemma pages_count:
  "up_to (div_ceil (min (saturating_sub msize (of_nat g * GIB)) GIB) PAGE_2MB) =
     map of_nat [0..<gib_pages msize g]" if "g < 512"
proof -
  have "unat (of_nat g * GIB) = g * 2 ^ 30"
    using that by (simp add: GIB_def unat_word_ariths unat_of_nat)
  then have "unat (min (saturating_sub msize (of_nat g * GIB)) GIB) = min (unat msize - g * 2 ^ 30) (2 ^ 30)"
    using unat_saturating_sub [of msize "of_nat g * GIB"]
    by (auto simp: min_def word_le_nat_alt GIB_def)
  then show ?thesis by (simp add: up_to_def unat_div_ceil PAGE_2MB_def gib_pages_def)
qed

lemma map_gibs_writes:
  assumes "\<forall>g \<in> set gs. g < 512"
  shows "map_gibs (map of_nat gs) msize m = boot_writes (entry_writes
    (concat (map (\<lambda>g. pdpt_entry g # map (pd_entry g) [0..<gib_pages msize g]) gs))) m"
  using assms
proof (induction gs arbitrary: m)
  case (Cons g gs)
  then show ?case
    by (simp add: Let_def pages_count map_pages_writes boot_writes_append pdpt_entry_def write_obj_boot_def
        split: option.split)
qed simp

lemma max_identity_map_eq: "max_identity_map = 245 * 2 ^ 30"
  by (simp add: max_identity_map_def layout_defs Let_def min_def word_le_nat_alt)

lemma num_gibs_bound: "msize \<le> max_identity_map \<Longrightarrow> num_gibs msize \<le> 245"
  by (simp add: max_identity_map_eq num_gibs_def word_le_nat_alt)

lemma gib_pages_bound: "gib_pages msize g \<le> 512"
  by (simp add: gib_pages_def)

lemma setup_page_tables_eq:
  assumes "msize \<le> max_identity_map"
  shows "setup_page_tables m sregs msize =
    (case boot_writes (entry_writes (table_entries msize)) m of
       None \<Rightarrow> None
     | Some m' \<Rightarrow> Some (Inr (m', sregs\<lparr>sr_cr3 := PML4_START, sr_cr4 := 0x20, sr_cr0 := 0x80050033, sr_efer := 0x500\<rparr>)))"
proof -
  have n: "unat (max (div_ceil msize GIB) 1) = num_gibs msize"
    by (auto simp: max_def word_le_nat_alt unat_div_ceil GIB_def num_gibs_def)
  have "map_gibs (up_to (max (div_ceil msize GIB) 1)) msize m1 = boot_writes (entry_writes
      (concat (map (\<lambda>g. pdpt_entry g # map (pd_entry g) [0..<gib_pages msize g]) [0..<num_gibs msize]))) m1" for m1
    unfolding up_to_def n using num_gibs_bound [OF assms] by (intro map_gibs_writes) auto
  then show ?thesis
    using assms by (simp add: setup_page_tables_def table_entries_def write_obj_boot_def Let_def not_less
        split: option.split)
qed

lemma unat_pd_addr [simp]: "g < 512 \<Longrightarrow> i < 512 \<Longrightarrow> unat (fst (pd_entry g i)) = 0xb000 + g * 4096 + i * 8"
  by (simp add: pd_entry_def PDE_START_def PD_TABLE_SIZE_def unat_word_ariths unat_of_nat)

lemma unat_pdpt_addr [simp]: "g < 512 \<Longrightarrow> unat (fst (pdpt_entry g)) = 0xa000 + g * 8"
  by (simp add: pdpt_entry_def PDPTE_START_def unat_word_ariths unat_of_nat)

lemma table_entries_cases:
  assumes "(a, v) \<in> set (table_entries msize)"
  obtains "a = PML4_START" "v = PDPTE_START OR PRESENT_WRITABLE"
  | g where "g < num_gibs msize" "(a, v) = pdpt_entry g"
  | g i where "g < num_gibs msize" "i < gib_pages msize g" "(a, v) = pd_entry g i"
  using assms by (auto simp: table_entries_def)

lemma table_entries_mem:
  "g < num_gibs msize \<Longrightarrow> pdpt_entry g \<in> set (table_entries msize)"
  "g < num_gibs msize \<Longrightarrow> i < gib_pages msize g \<Longrightarrow> pd_entry g i \<in> set (table_entries msize)"
  by (force simp: table_entries_def)+

text \<open>The address of an entry determines which entry it is.\<close>

lemma table_entries_addr:
  assumes "msize \<le> max_identity_map" and "(a, v) \<in> set (table_entries msize)"
  shows "unat a mod 8 = 0" and "0x9000 \<le> unat a" and "unat a + 8 \<le> 0xb000 + num_gibs msize * 4096"
    and "v = (if unat a < 0xa000 then PDPTE_START OR PRESENT_WRITABLE
              else if unat a < 0xb000 then snd (pdpt_entry ((unat a - 0xa000) div 8))
              else snd (pd_entry ((unat a - 0xb000) div 4096) ((unat a - 0xb000) mod 4096 div 8)))"
proof -
  let ?P = "unat a mod 8 = 0 \<and> 0x9000 \<le> unat a \<and> unat a + 8 \<le> 0xb000 + num_gibs msize * 4096 \<and>
    v = (if unat a < 0xa000 then PDPTE_START OR PRESENT_WRITABLE
              else if unat a < 0xb000 then snd (pdpt_entry ((unat a - 0xa000) div 8))
              else snd (pd_entry ((unat a - 0xb000) div 4096) ((unat a - 0xb000) mod 4096 div 8)))"
  have n: "num_gibs msize \<le> 245" by (rule num_gibs_bound [OF assms(1)])
  from assms(2) have ?P
  proof (cases rule: table_entries_cases)
    case 1
    then show ?thesis by (simp add: PML4_START_def)
  next
    case (2 g)
    then have "a = fst (pdpt_entry g)" and v: "v = snd (pdpt_entry g)" by (metis fst_conv snd_conv)+
    then have "unat a = 0xa000 + g * 8" using 2(1) n by simp
    with v 2(1) n show ?thesis by auto
  next
    case (3 g i)
    then have "a = fst (pd_entry g i)" and v: "v = snd (pd_entry g i)" by (metis fst_conv snd_conv)+
    moreover have i: "i < 512" using 3(2) gib_pages_bound [of msize g] by linarith
    ultimately have a: "unat a = 0xb000 + (g * 4096 + i * 8)" using 3(1) n by simp
    have "(g * 4096 + i * 8) div 4096 = g" "(g * 4096 + i * 8) mod 4096 = i * 8" using i by simp_all
    moreover have "(g * 4096 + i * 8) mod 8 = 0" by (simp add: mod_add_eq [symmetric])
    moreover have "g * 4096 + 4096 \<le> num_gibs msize * 4096" using 3(1) by simp
    ultimately show ?thesis using a v i by (simp add: mod_add_eq [symmetric])
  qed
  then show "unat a mod 8 = 0" and "0x9000 \<le> unat a" and "unat a + 8 \<le> 0xb000 + num_gibs msize * 4096"
    and "v = (if unat a < 0xa000 then PDPTE_START OR PRESENT_WRITABLE
              else if unat a < 0xb000 then snd (pdpt_entry ((unat a - 0xa000) div 8))
              else snd (pd_entry ((unat a - 0xb000) div 4096) ((unat a - 0xb000) mod 4096 div 8)))"
    by blast+
qed

lemma table_foot:
  assumes "msize \<le> max_identity_map"
  shows "writes_foot (entry_writes (table_entries msize)) \<subseteq> {0x9000 ..< 0xb000 + num_gibs msize * 4096}"
proof -
  have "span a 8 \<subseteq> {0x9000 ..< 0xb000 + num_gibs msize * 4096}" if "(a, v) \<in> set (table_entries msize)" for a v
    using table_entries_addr(2,3) [OF assms that] by (auto simp: span_def)
  then show ?thesis by (auto simp: foot_entry_writes)
qed

lemma table_fits:
  assumes "msize \<le> max_identity_map" and "0x100000 \<le> unat (mem_size m)"
  shows "fits_all m (entry_writes (table_entries msize))"
proof -
  have "0xb000 + num_gibs msize * 4096 \<le> 0x100000" using num_gibs_bound [OF assms(1)] by simp
  then have "mem_fits m a 8" if "(a, v) \<in> set (table_entries msize)" for a v
    using table_entries_addr(3) [OF assms(1) that] assms(2) by (simp add: mem_fits_def)
  then show ?thesis by (auto simp: fits_all_def entry_writes_def)
qed

lemma table_read:
  assumes "msize \<le> max_identity_map" and "boot_writes (entry_writes (table_entries msize)) m = Some m'"
    and "(a, v) \<in> set (table_entries msize)"
  shows "read_u64_checked m' a = Some v"
  using assms(2,3)
proof (rule entry_read)
  show "unat b mod 8 = 0" if "(b, w) \<in> set (table_entries msize)" for b w
    by (rule table_entries_addr(1) [OF assms(1) that])
  show "w = v" if "(a, w) \<in> set (table_entries msize)" for w
    using table_entries_addr(4) [OF assms(1) that] table_entries_addr(4) [OF assms(1,3)] by simp
qed

subsection \<open>Identity mapping\<close>

lemma bit_nat_lt: "k < 2 ^ j \<Longrightarrow> bit (k :: nat) i \<Longrightarrow> i < j"
  by (metis bit_take_bit_iff take_bit_nat_eq_self)

lemma pte_addr_flags:
  assumes "k < 2 ^ (52 - n)" and "n \<le> 52" and "\<And>i. bit fl i \<Longrightarrow> i < n"
  shows "pte_addr n (push_bit n (of_nat k) OR fl) = push_bit n (of_nat k)"
proof (rule bit_word_eqI)
  fix i
  assume "i < LENGTH(64)"
  moreover have "bit k j \<Longrightarrow> j < 52 - n" for j by (rule bit_nat_lt [OF assms(1)])
  ultimately show "bit (pte_addr n (push_bit n (of_nat k) OR fl)) i = bit (push_bit n (of_nat k) :: u64) i"
    using assms(2) assms(3) [of i] by (auto simp: pte_addr_def bit_simps not_less) fastforce
qed

lemma flag_bits: "bit PRESENT_WRITABLE i \<longleftrightarrow> i < 2" "bit PRESENT_WRITABLE_HUGE i \<longleftrightarrow> i < 2 \<or> i = 7"
proof -
  have p: "PRESENT_WRITABLE = mask 2" and h: "PRESENT_WRITABLE_HUGE = mask 2 OR push_bit 7 1"
    by (simp_all add: PRESENT_WRITABLE_def PRESENT_WRITABLE_HUGE_def mask_eq_exp_minus_1)
  show "bit PRESENT_WRITABLE i \<longleftrightarrow> i < 2" unfolding p bit_mask_iff by auto
  show "bit PRESENT_WRITABLE_HUGE i \<longleftrightarrow> i < 2 \<or> i = 7"
    unfolding h bit_or_iff bit_mask_iff bit_push_bit_iff bit_1_iff by auto
qed

lemma shifted_sum:
  assumes "k < 2 ^ (64 - n)" and "n \<le> 64" and "unat (w :: u64) = k * 2 ^ n"
  shows "w = push_bit n (of_nat k)"
proof -
  have "w = of_nat (k * 2 ^ n)" by (simp flip: assms(3))
  then show ?thesis by (simp add: push_bit_of_nat push_bit_eq_mult)
qed

lemma unat_table_index: "unat (table_index sh va) = unat va div 2 ^ sh mod 512"
  unfolding table_index_def unsigned_take_bit_eq unsigned_drop_bit_eq
  using unat_lt_pow [of va] by (simp add: take_bit_eq_mod drop_bit_eq_div)

lemma table_index_eq: "unat va div 2 ^ sh mod 512 = g \<Longrightarrow> table_index sh va = of_nat g"
  by (drule sym) (simp only: unat_table_index [symmetric], simp)

lemma pdpt_value:
  assumes "g < 512"
  shows "pte_addr 12 (snd (pdpt_entry g)) = PDE_START + of_nat g * PD_TABLE_SIZE"
    and "bit (snd (pdpt_entry g)) 0" and "\<not> bit (snd (pdpt_entry g)) 7"
proof -
  have p: "PDE_START + of_nat g * PD_TABLE_SIZE = push_bit 12 (of_nat (11 + g))"
    using assms by (intro shifted_sum) (simp_all add: PDE_START_def PD_TABLE_SIZE_def unat_word_ariths unat_of_nat)
  show "pte_addr 12 (snd (pdpt_entry g)) = PDE_START + of_nat g * PD_TABLE_SIZE"
    unfolding pdpt_entry_def snd_conv p using assms by (intro pte_addr_flags) (auto simp: flag_bits)
  show "bit (snd (pdpt_entry g)) 0" and "\<not> bit (snd (pdpt_entry g)) 7"
    unfolding pdpt_entry_def snd_conv p by (simp_all add: bit_or_iff flag_bits bit_push_bit_iff)
qed

lemma pd_value:
  assumes "g < 512" and "i < 512"
  shows "pte_addr 21 (snd (pd_entry g i)) = push_bit 21 (of_nat (g * 512 + i))"
    and "bit (snd (pd_entry g i)) 0" and "bit (snd (pd_entry g i)) 7"
proof -
  have p: "of_nat g * GIB + of_nat i * PAGE_2MB = push_bit 21 (of_nat (g * 512 + i))"
    using assms by (intro shifted_sum) (simp_all add: GIB_def PAGE_2MB_def unat_word_ariths unat_of_nat)
  show "pte_addr 21 (snd (pd_entry g i)) = push_bit 21 (of_nat (g * 512 + i))"
    unfolding pd_entry_def snd_conv p using assms by (intro pte_addr_flags) (auto simp: flag_bits)
  show "bit (snd (pd_entry g i)) 0" and "bit (snd (pd_entry g i)) 7"
    unfolding pd_entry_def snd_conv by (simp_all add: bit_or_iff flag_bits)
qed

lemma pml4_value:
  "pte_addr 12 (PDPTE_START OR PRESENT_WRITABLE) = PDPTE_START" "bit (PDPTE_START OR PRESENT_WRITABLE) 0"
  "pte_addr 12 PML4_START = PML4_START"
  by (simp_all add: pte_addr_def PDPTE_START_def PML4_START_def PRESENT_WRITABLE_def mask_eq_exp_minus_1)

lemma walk_identity:
  assumes ms: "msize \<le> max_identity_map" and w: "boot_writes (entry_writes (table_entries msize)) m = Some m'"
    and va: "va < msize"
  shows "page_walk m' PML4_START va = Some va"
proof -
  define k where "k = unat va div 2 ^ 21"
  define g where "g = unat va div 2 ^ 30"
  define i where "i = k mod 512"
  have bound: "unat va < unat msize" "unat msize \<le> 245 * 2 ^ 30"
    using va ms by (simp_all add: word_less_nat_alt word_le_nat_alt max_identity_map_eq)
  have "g = k div 512" unfolding g_def k_def by (simp flip: div_mult2_eq)
  then have k: "k = g * 512 + i" by (simp add: i_def)
  have i: "i < 512" by (simp add: i_def)
  have g: "g < 245" using bound by (simp add: g_def less_mult_imp_div_less)
  have gn: "g < num_gibs msize" unfolding num_gibs_def g_def using bound(1) by (simp add: less_max_iff_disj div_le_mono less_Suc_eq_le)
  have ip: "i < gib_pages msize g"
  proof -
    let ?off = "unat va mod 2 ^ 30" and ?N = "min (unat msize - g * 2 ^ 30) (2 ^ 30)"
    have "?off = unat va - g * 2 ^ 30" by (simp add: g_def minus_div_mult_eq_mod)
    moreover have "g * 2 ^ 30 \<le> unat va" by (simp add: g_def)
    moreover have "?off < 2 ^ 30" by simp
    ultimately have "?off < ?N" using bound(1) by linarith
    then have "?off + 2 ^ 21 \<le> ?N + 2 ^ 21 - 1" by simp
    from div_le_mono [OF this, of "2 ^ 21"] have "Suc (?off div 2 ^ 21) \<le> gib_pages msize g"
      unfolding gib_pages_def by (subst (asm) div_add_self2) auto
    moreover have "i = unat va mod 2 ^ 30 div 2 ^ 21"
      using mod_mult2_eq [of "unat va" "2 ^ 21" 512] by (simp add: i_def k_def)
    ultimately show ?thesis by simp
  qed
  have idx: "table_index 39 va = 0" "table_index 30 va = of_nat g" "table_index 21 va = of_nat i"
    using g i bound by (auto intro!: table_index_eq [where g = 0, simplified] table_index_eq simp: g_def i_def k_def)
  have e4: "read_u64_checked m' PML4_START = Some (PDPTE_START OR PRESENT_WRITABLE)"
    by (rule table_read [OF ms w]) (simp add: table_entries_def)
  have e3: "read_u64_checked m' (PDPTE_START + of_nat g * 8) = Some (snd (pdpt_entry g))"
    by (rule table_read [OF ms w]) (use table_entries_mem(1) [OF gn] in \<open>simp add: pdpt_entry_def\<close>)
  have e2: "read_u64_checked m' (PDE_START + of_nat g * PD_TABLE_SIZE + of_nat i * 8) = Some (snd (pd_entry g i))"
    by (rule table_read [OF ms w]) (use table_entries_mem(2) [OF gn ip] in \<open>simp add: pd_entry_def\<close>)
  have "push_bit 21 (of_nat k) OR take_bit 21 va = va"
  proof -
    have "of_nat k = drop_bit 21 va"
      unfolding word_unat_eq_iff unsigned_drop_bit_eq
      using unat_lt_pow [of va] by (simp add: k_def drop_bit_eq_div unat_of_nat take_bit_eq_mod)
    then show ?thesis by (simp only:) (rule bit_word_eqI, auto simp: bit_simps)
  qed
  then show ?thesis
    using g i pdpt_value [of g] pd_value [of g i]
    by (simp add: page_walk_def idx e4 e3 e2 pml4_value k)
qed

subsection \<open>Properties\<close>

text \<open>C8: Whenever the guest has at least the 1 MiB the fixed layout needs and no more than
  \<open>max_identity_map()\<close>, setting up the page tables never writes outside guest memory, and the
  processor's own 4-level walk from the CR3 it installs translates every guest physical address
  to itself; no byte outside the table area below 1 MiB is touched.\<close>

theorem identity_mapping:
  assumes "msize \<le> max_identity_map" and "0x100000 \<le> unat (mem_size m)"
  shows "\<exists>m' sregs'. setup_page_tables m sregs msize = Some (Inr (m', sregs')) \<and>
    (\<forall>va < msize. page_walk m' (sr_cr3 sregs') va = Some va) \<and>
    same_outside {0x9000 ..< 0xb000 + num_gibs msize * 4096} m m'"
proof -
  obtain m' where m': "boot_writes (entry_writes (table_entries msize)) m = Some m'"
    using boot_writes_total [OF table_fits [OF assms]] by blast
  have "same_outside {0x9000 ..< 0xb000 + num_gibs msize * 4096} m m'"
    by (rule same_outside_mono [OF boot_writes_frame [OF m'] table_foot [OF assms(1)]])
  with m' show ?thesis
    by (simp add: setup_page_tables_eq [OF assms(1)] walk_identity [OF assms(1) m'])
qed

definition demo_sregs :: kvm_sregs where
  "demo_sregs = \<lparr>gdt_base = 0, gdt_limit = 0, sr_cs = code_seg, sr_ds = data_seg, sr_es = data_seg, sr_fs = data_seg,
     sr_gs = data_seg, sr_ss = data_seg, sr_cr0 = 0, sr_cr3 = 0, sr_cr4 = 0, sr_efer = 0\<rparr>"

theorem identity_mapping_witness:
  "\<exists>m' sregs'. setup_page_tables (mem_new 0x10000000) demo_sregs 0x10000000 = Some (Inr (m', sregs')) \<and>
    page_walk m' (sr_cr3 sregs') 0xfedcba8 = Some 0xfedcba8"
  using identity_mapping [of "0x10000000" "mem_new 0x10000000" demo_sregs]
  by (fastforce simp: max_identity_map_eq mem_new_def word_le_nat_alt word_less_nat_alt)

text \<open>For a guest of more than 21 GiB, which \<open>setup_page_tables\<close> accepts, the page directory of GiB 21
  lies on the kernel command line: whatever was there before, the first eight bytes at
  \<open>CMDLINE_START\<close> afterwards are that directory's first entry.\<close>

lemma page_tables_overwrite_cmdline:
  assumes "21 * 2 ^ 30 < unat msize" and "msize \<le> max_identity_map" and "0x100000 \<le> unat (mem_size m)"
  shows "\<exists>m' sregs'. setup_page_tables m sregs msize = Some (Inr (m', sregs')) \<and>
    read_checked m' CMDLINE_START 8 = Some (le64 (21 * GIB OR PRESENT_WRITABLE_HUGE))"
proof -
  obtain m' where m': "boot_writes (entry_writes (table_entries msize)) m = Some m'"
    using boot_writes_total [OF table_fits [OF assms(2,3)]] by blast
  have "21 < num_gibs msize" using assms(1) by (simp add: num_gibs_def)
  moreover have "0 < gib_pages msize 21" using assms(1) by (simp add: gib_pages_def)
  ultimately have "pd_entry 21 0 \<in> set (table_entries msize)" by (rule table_entries_mem(2))
  then have "(CMDLINE_START, 21 * GIB OR PRESENT_WRITABLE_HUGE) \<in> set (table_entries msize)"
    by (simp add: pd_entry_def PDE_START_def PD_TABLE_SIZE_def CMDLINE_START_def)
  from table_read [OF assms(2) m' this] have
    "map_option of_le (read_checked m' CMDLINE_START 8) = Some (21 * GIB OR PRESENT_WRITABLE_HUGE)"
    by (simp add: read_u64_checked_def)
  then obtain bs where bs: "read_checked m' CMDLINE_START 8 = Some bs" "of_le bs = 21 * GIB OR PRESENT_WRITABLE_HUGE"
    by auto
  then have "length bs = 8" by (auto simp: read_checked_eq split: if_splits)
  then have "bs = le64 (21 * GIB OR PRESENT_WRITABLE_HUGE)"
    using le_bytes_of_le [of bs, where 'a = 64] bs(2) by simp
  with bs(1) m' show ?thesis by (simp add: setup_page_tables_eq [OF assms(2)])
qed

lemma page_tables_overwrite_cmdline_example:
  "\<exists>m' sregs'. setup_page_tables (mem_new (22 * 2 ^ 30)) demo_sregs (22 * 2 ^ 30) = Some (Inr (m', sregs')) \<and>
    read_checked m' CMDLINE_START 8 = Some (le64 (21 * GIB OR PRESENT_WRITABLE_HUGE))"
  using page_tables_overwrite_cmdline [of "22 * 2 ^ 30" "mem_new (22 * 2 ^ 30)" demo_sregs]
  by (simp add: max_identity_map_eq mem_new_def word_le_nat_alt)

lemma setup_gdt_writes:
  "setup_gdt m sregs = map_option (\<lambda>m'. (m', snd (the (setup_gdt (mem_new 0x10000) sregs))))
     (boot_writes (entry_writes [(0x500, 0), (0x508, gdt_entry 0xa09b 0 0xfffff), (0x510, gdt_entry 0xc093 0 0xfffff)]) m)"
  by (simp add: setup_gdt_def gdt_table_def write_obj_boot_def write_slice_boot_def BOOT_GDT_OFFSET_def mem_new_def
      split: option.split)

end
