(* ===== verification/Kernel_Loader.thy ===== *)
theory Kernel_Loader
  imports Boot_Paging
begin

text \<open>
  The Linux boot-protocol loader (\<open>src/loader.rs\<close>): bzImage validation, placement of the
  kernel, the command line and the initramfs, and the zero page. Files are their contents.
  A step that writes guest memory is an option (\<open>None\<close>: an unchecked write outside the mapping,
  see \<open>Boot_Memory\<close>) around an error sum. A Rust slice is at most \<open>isize::MAX\<close> bytes long, so
  sums of a fixed address and a length are computed on natural numbers.
\<close>

definition HDR_OFFSET :: nat where "HDR_OFFSET = 0x1f1"
definition BOOT_FLAG_OFF :: nat where "BOOT_FLAG_OFF = 0x1fe"
definition HEADER_MAGIC_OFF :: nat where "HEADER_MAGIC_OFF = 0x202"
definition XLOADFLAGS_OFF :: nat where "XLOADFLAGS_OFF = 0x236"
definition TYPE_OF_LOADER_OFF :: nat where "TYPE_OF_LOADER_OFF = 0x210"
definition RAMDISK_IMAGE_OFF :: nat where "RAMDISK_IMAGE_OFF = 0x218"
definition RAMDISK_SIZE_OFF :: nat where "RAMDISK_SIZE_OFF = 0x21c"
definition CMD_LINE_PTR_OFF :: nat where "CMD_LINE_PTR_OFF = 0x228"
definition CMDLINE_SIZE_OFF :: nat where "CMDLINE_SIZE_OFF = 0x238"
definition E820_ENTRIES_OFF :: nat where "E820_ENTRIES_OFF = 0x1e8"
definition E820_TABLE_OFF :: nat where "E820_TABLE_OFF = 0x2d0"
definition MIN_HEADER_LEN :: nat where "MIN_HEADER_LEN = 0x300"
definition BOOT_FLAG_MAGIC :: u16 where "BOOT_FLAG_MAGIC = 0xaa55"
definition HDRS_MAGIC :: u32 where "HDRS_MAGIC = 0x53726448"
definition XLF_KERNEL_64 :: u16 where "XLF_KERNEL_64 = push_bit 0 1"
definition LEGACY_CMDLINE_MAX :: u32 where "LEGACY_CMDLINE_MAX = 255"
definition EBDA_START :: u64 where "EBDA_START = 0x9fc00"
definition E820_RAM :: u32 where "E820_RAM = 1"
definition RAMDISK_ADDR_LIMIT :: u64 where "RAMDISK_ADDR_LIMIT = push_bit 32 1"

lemmas zero_page_offs = HDR_OFFSET_def TYPE_OF_LOADER_OFF_def RAMDISK_IMAGE_OFF_def RAMDISK_SIZE_OFF_def
  CMD_LINE_PTR_OFF_def E820_ENTRIES_OFF_def E820_TABLE_OFF_def

datatype loader_error =
    Image_too_small | No_boot_signature | No_HdrS_magic | Not_64bit | Truncated_image
  | Kernel_too_big | Cmdline_too_long nat | Initramfs_empty | Initramfs_too_big

definition read_u16 :: "bytes \<Rightarrow> nat \<Rightarrow> u16" where
  "read_u16 raw off = of_le (subslice raw off 2)"

definition read_u32 :: "bytes \<Rightarrow> nat \<Rightarrow> u32" where
  "read_u32 raw off = of_le (subslice raw off 4)"

record bz_image =
  bz_raw :: bytes
  setup_size :: nat

definition bz_parse :: "bytes \<Rightarrow> loader_error + bz_image" where
  "bz_parse raw =
     (if length raw < MIN_HEADER_LEN then Inl Image_too_small
      else if read_u16 raw BOOT_FLAG_OFF \<noteq> BOOT_FLAG_MAGIC then Inl No_boot_signature
      else if read_u32 raw HEADER_MAGIC_OFF \<noteq> HDRS_MAGIC then Inl No_HdrS_magic
      else if read_u16 raw XLOADFLAGS_OFF AND XLF_KERNEL_64 = 0 then Inl Not_64bit
      else
        let setup_sects = (if raw ! HDR_OFFSET = 0 then 4 else unat (raw ! HDR_OFFSET));
            sz = (setup_sects + 1) * 512
        in if length raw \<le> sz then Inl Truncated_image else Inr \<lparr>bz_raw = raw, setup_size = sz\<rparr>)"

definition cmdline_max :: "bz_image \<Rightarrow> u32" where
  "cmdline_max bz =
     (let n = read_u32 (bz_raw bz) CMDLINE_SIZE_OFF in if n = 0 then LEGACY_CMDLINE_MAX else n)"

text \<open>\<open>BzImage::load\<close>; the value is the entry point of \<open>LoadedKernel\<close>.\<close>

definition bz_load :: "bz_image \<Rightarrow> guest_memory \<Rightarrow> u64 \<Rightarrow> (loader_error + guest_memory \<times> u64) option" where
  "bz_load bz m msize =
     (let code = drop (setup_size bz) (bz_raw bz) in
      if unat msize < unat KERNEL_START + length code then Some (Inl Kernel_too_big)
      else map_option (\<lambda>m'. Inr (m', KERNEL_START + 0x200)) (write_slice_boot m KERNEL_START code))"

definition write_cmdline :: "bz_image \<Rightarrow> guest_memory \<Rightarrow> bytes \<Rightarrow> (loader_error + guest_memory) option" where
  "write_cmdline bz m cmdline =
     (let with_nul = length cmdline + 1; room = unat (KERNEL_START - CMDLINE_START);
          kernel_max = unat (cmdline_max bz)
      in if room < with_nul \<or> kernel_max < with_nul then Some (Inl (Cmdline_too_long (length cmdline)))
         else
           case write_slice_boot m CMDLINE_START cmdline of
             None \<Rightarrow> None
           | Some m1 \<Rightarrow> map_option Inr (write_slice_boot m1 (CMDLINE_START + of_nat (length cmdline)) [0]))"

record initramfs =
  ird_addr :: u64
  ird_size :: u64

definition put_u32 :: "bytes \<Rightarrow> nat \<Rightarrow> u32 \<Rightarrow> bytes" where
  "put_u32 buf off v = put_at buf off (le32 v)"

definition add_entry :: "u64 \<Rightarrow> u64 \<Rightarrow> bytes \<times> nat \<Rightarrow> bytes \<times> nat" where
  "add_entry bs len zc =
     (case zc of (zp, count) \<Rightarrow>
        let off = E820_TABLE_OFF + count * 20 in
        (put_u32 (put_at (put_at zp off (le64 bs)) (off + 8) (le64 len)) (off + 16) E820_RAM, count + 1))"

definition zero_page :: "bz_image \<Rightarrow> u64 \<Rightarrow> initramfs option \<Rightarrow> bytes" where
  "zero_page bz msize ird =
     (let zp = replicate 4096 0;
          header_end = min (min (setup_size bz) (length (bz_raw bz))) (length zp);
          header = subslice (bz_raw bz) HDR_OFFSET (header_end - HDR_OFFSET);
          zp = put_at zp HDR_OFFSET header;
          zp = zp[TYPE_OF_LOADER_OFF := 0xff];
          zp = put_u32 zp CMD_LINE_PTR_OFF (ucast CMDLINE_START);
          zp = (case ird of
                  None \<Rightarrow> zp
                | Some i \<Rightarrow> put_u32 (put_u32 zp RAMDISK_IMAGE_OFF (ucast (ird_addr i))) RAMDISK_SIZE_OFF (ucast (ird_size i)));
          zc = add_entry 0 EBDA_START (zp, 0);
          zc = (if KERNEL_START < msize then add_entry KERNEL_START (msize - KERNEL_START) zc else zc)
      in (fst zc)[E820_ENTRIES_OFF := of_nat (snd zc)])"

definition build_zero_page :: "bz_image \<Rightarrow> guest_memory \<Rightarrow> u64 \<Rightarrow> initramfs option \<Rightarrow> guest_memory option" where
  "build_zero_page bz m msize ird = write_slice_boot m ZERO_PAGE_START (zero_page bz msize ird)"

definition initramfs_load :: "guest_memory \<Rightarrow> bytes \<Rightarrow> u64 \<Rightarrow> (loader_error + guest_memory \<times> initramfs) option" where
  "initramfs_load m raw msize =
     (let sz = of_nat (length raw) :: u64; top = min msize RAMDISK_ADDR_LIMIT in
      if sz = 0 then Some (Inl Initramfs_empty)
      else if saturating_sub top KERNEL_START < sz then Some (Inl Initramfs_too_big)
      else
        let addr = (top - sz) AND NOT 0xfff in
        if addr < KERNEL_START then Some (Inl Initramfs_too_big)
        else map_option (\<lambda>m'. Inr (m', \<lparr>ird_addr = addr, ird_size = sz\<rparr>)) (write_slice_boot m addr raw))"

subsection \<open>The image and the zero page\<close>

lemma bz_parse_Inr:
  assumes "bz_parse raw = Inr bz"
  shows "bz_raw bz = raw" and "0x300 \<le> length raw" and "1024 \<le> setup_size bz" and "setup_size bz < length raw"
    and "read_u16 raw 0x1fe = 0xaa55" and "read_u32 raw 0x202 = 0x53726448"
proof -
  have "1 \<le> (if raw ! HDR_OFFSET = 0 then 4 else unat (raw ! HDR_OFFSET))"
    by (simp add: Suc_le_eq unat_gt_0)
  then show "bz_raw bz = raw" and "0x300 \<le> length raw" and "1024 \<le> setup_size bz" and "setup_size bz < length raw"
    and "read_u16 raw 0x1fe = 0xaa55" and "read_u32 raw 0x202 = 0x53726448"
    using assms unfolding bz_parse_def Let_def
    by (auto simp: MIN_HEADER_LEN_def BOOT_FLAG_OFF_def HEADER_MAGIC_OFF_def BOOT_FLAG_MAGIC_def HDRS_MAGIC_def
        split: if_splits)
qed

text \<open>What a kernel reads out of \<open>boot_params\<close>: the e820 map as \<open>(base, length, type)\<close> rows.\<close>

definition e820_map :: "bytes \<Rightarrow> (u64 \<times> u64 \<times> u32) list" where
  "e820_map zp = map (\<lambda>k. (of_le (subslice zp (E820_TABLE_OFF + k * 20) 8),
     of_le (subslice zp (E820_TABLE_OFF + k * 20 + 8) 8), of_le (subslice zp (E820_TABLE_OFF + k * 20 + 16) 4)))
     [0..<unat (zp ! E820_ENTRIES_OFF)]"

lemmas zp_simps = subslice_put_at_same subslice_put_at_other subslice_upd_other nth_put_at_other

definition header_copy :: "bz_image \<Rightarrow> bytes" where
  "header_copy bz = put_at (replicate 4096 0) HDR_OFFSET
     (subslice (bz_raw bz) HDR_OFFSET (min (min (setup_size bz) (length (bz_raw bz))) 4096 - HDR_OFFSET))"

lemma header_copy_length:
  "1024 \<le> setup_size bz \<Longrightarrow> setup_size bz < length (bz_raw bz) \<Longrightarrow> length (header_copy bz) = 4096"
  unfolding header_copy_def by (subst length_put_at) (auto simp: subslice_def zero_page_offs)

lemma header_copy_read:
  assumes "1024 \<le> setup_size bz" and "setup_size bz < length (bz_raw bz)" and "0x1f1 \<le> a" and "a + n \<le> 1024"
  shows "subslice (header_copy bz) a n = subslice (bz_raw bz) a n"
proof -
  let ?h = "subslice (bz_raw bz) 0x1f1 (min (setup_size bz) 4096 - 0x1f1)"
  have "subslice (header_copy bz) a n = take n (drop (a - 0x1f1) ?h)"
    using assms unfolding header_copy_def put_at_def subslice_def zero_page_offs by (auto simp: min_def)
  also have "\<dots> = take n (drop a (bz_raw bz))"
    using assms by (simp add: subslice_def drop_take min_def)
  finally show ?thesis by (simp add: subslice_def)
qed

lemma zero_page_eq:
  "zero_page bz msize ird =
     (let zp = put_u32 ((header_copy bz)[TYPE_OF_LOADER_OFF := 0xff]) CMD_LINE_PTR_OFF (ucast CMDLINE_START);
          zp = (case ird of
                  None \<Rightarrow> zp
                | Some i \<Rightarrow> put_u32 (put_u32 zp RAMDISK_IMAGE_OFF (ucast (ird_addr i))) RAMDISK_SIZE_OFF (ucast (ird_size i)));
          zc = add_entry 0 EBDA_START (zp, 0);
          zc = (if KERNEL_START < msize then add_entry KERNEL_START (msize - KERNEL_START) zc else zc)
      in (fst zc)[E820_ENTRIES_OFF := of_nat (snd zc)])"
  unfolding zero_page_def header_copy_def Let_def length_replicate ..

text \<open>One e820 row: everything outside its 20 bytes is kept.\<close>

lemma add_entry_zp:
  assumes "length zp = 4096" and "count \<le> 1"
  shows "snd (add_entry bs len (zp, count)) = Suc count"
    and "length (fst (add_entry bs len (zp, count))) = 4096"
    and "subslice (fst (add_entry bs len (zp, count))) (E820_TABLE_OFF + count * 20) 8 = le64 bs"
    and "subslice (fst (add_entry bs len (zp, count))) (E820_TABLE_OFF + count * 20 + 8) 8 = le64 len"
    and "subslice (fst (add_entry bs len (zp, count))) (E820_TABLE_OFF + count * 20 + 16) 4 = le32 E820_RAM"
    and "a + n \<le> E820_TABLE_OFF + count * 20 \<Longrightarrow> subslice (fst (add_entry bs len (zp, count))) a n = subslice zp a n"
    and "i < E820_TABLE_OFF \<Longrightarrow> fst (add_entry bs len (zp, count)) ! i = zp ! i"
  using assms by (simp_all add: add_entry_def put_u32_def zp_simps E820_TABLE_OFF_def Let_def)

lemma e820_rows:
  assumes "length zp = 4096"
  shows "e820_map ((fst (add_entry 0 EBDA_START (zp, 0)))[E820_ENTRIES_OFF := 1]) = [(0, EBDA_START, E820_RAM)]"
    and "e820_map ((fst (add_entry b2 l2 (fst (add_entry 0 EBDA_START (zp, 0)), 1)))[E820_ENTRIES_OFF := 2]) =
      [(0, EBDA_START, E820_RAM), (b2, l2, E820_RAM)]"
proof -
  note z1 = add_entry_zp [OF assms, where count = 0 and bs = 0 and len = EBDA_START, simplified]
  let ?z = "fst (add_entry 0 EBDA_START (zp, 0))"
  note z2 = add_entry_zp [OF z1(2), where count = 1 and bs = b2 and len = l2, simplified]
  have off: "E820_ENTRIES_OFF = 0x1e8" "E820_TABLE_OFF = 0x2d0" by (simp_all add: zero_page_offs)
  show "e820_map (?z[E820_ENTRIES_OFF := 1]) = [(0, EBDA_START, E820_RAM)]"
    using z1 by (simp add: e820_map_def off subslice_upd_other)
  have "[0..<2] = [0, Suc 0]" by (simp add: upt_rec)
  then show "e820_map ((fst (add_entry b2 l2 (?z, 1)))[E820_ENTRIES_OFF := 2]) =
      [(0, EBDA_START, E820_RAM), (b2, l2, E820_RAM)]"
    using z1 z2 by (simp add: e820_map_def off subslice_upd_other)
qed

text \<open>The page before the memory map is added.\<close>

definition patched :: "bz_image \<Rightarrow> initramfs option \<Rightarrow> bytes" where
  "patched bz ird =
     (let zp = put_u32 ((header_copy bz)[TYPE_OF_LOADER_OFF := 0xff]) CMD_LINE_PTR_OFF (ucast CMDLINE_START)
      in case ird of
           None \<Rightarrow> zp
         | Some i \<Rightarrow> put_u32 (put_u32 zp RAMDISK_IMAGE_OFF (ucast (ird_addr i))) RAMDISK_SIZE_OFF (ucast (ird_size i)))"

lemma patched_fields:
  assumes "1024 \<le> setup_size bz" and "setup_size bz < length (bz_raw bz)"
  shows "length (patched bz ird) = 4096"
    and "read_u16 (patched bz ird) BOOT_FLAG_OFF = read_u16 (bz_raw bz) BOOT_FLAG_OFF"
    and "read_u32 (patched bz ird) HEADER_MAGIC_OFF = read_u32 (bz_raw bz) HEADER_MAGIC_OFF"
    and "patched bz ird ! TYPE_OF_LOADER_OFF = 0xff"
    and "read_u32 (patched bz ird) CMD_LINE_PTR_OFF = ucast CMDLINE_START"
    and "ird = Some i \<Longrightarrow> read_u32 (patched bz ird) RAMDISK_IMAGE_OFF = ucast (ird_addr i)"
    and "ird = Some i \<Longrightarrow> read_u32 (patched bz ird) RAMDISK_SIZE_OFF = ucast (ird_size i)"
  using assms header_copy_length [OF assms] header_copy_read [OF assms]
  by (auto simp: patched_def Let_def put_u32_def zp_simps zero_page_offs read_u16_def read_u32_def
      BOOT_FLAG_OFF_def HEADER_MAGIC_OFF_def split: option.split)

lemma zero_page_patched:
  assumes "KERNEL_START < msize" and "1024 \<le> setup_size bz" and "setup_size bz < length (bz_raw bz)"
  shows "zero_page bz msize ird =
    (fst (add_entry KERNEL_START (msize - KERNEL_START) (fst (add_entry 0 EBDA_START (patched bz ird, 0)), 1)))
      [E820_ENTRIES_OFF := 2]"
proof -
  note l = patched_fields(1) [OF assms(2,3), of ird]
  note z1 = add_entry_zp [OF l, where count = 0 and bs = 0 and len = EBDA_START, simplified]
  note z2 = add_entry_zp [OF z1(2), where count = 1 and bs = KERNEL_START and len = "msize - KERNEL_START", simplified]
  have "zero_page bz msize ird = (let zc = add_entry 0 EBDA_START (patched bz ird, 0);
      zc = add_entry KERNEL_START (msize - KERNEL_START) zc in (fst zc)[E820_ENTRIES_OFF := of_nat (snd zc)])"
    using assms(1) unfolding zero_page_eq patched_def Let_def by simp
  moreover have "add_entry 0 EBDA_START (patched bz ird, 0) = (fst (add_entry 0 EBDA_START (patched bz ird, 0)), 1)"
    using z1(1) by (metis One_nat_def prod.collapse)
  ultimately show ?thesis using z2(1) by (simp add: Let_def)
qed

lemma length_zero_page:
  assumes "bz_parse raw = Inr bz" and "KERNEL_START < msize"
  shows "length (zero_page bz msize ird) = 4096"
proof -
  have s: "1024 \<le> setup_size bz" "setup_size bz < length (bz_raw bz)" using bz_parse_Inr [OF assms(1)] by simp_all
  note z1 = add_entry_zp [OF patched_fields(1) [OF s, of ird], where count = 0 and bs = 0 and len = EBDA_START, simplified]
  note z2 = add_entry_zp [OF z1(2), where count = 1 and bs = KERNEL_START and len = "msize - KERNEL_START", simplified]
  show ?thesis using z2(2) unfolding zero_page_patched [OF assms(2) s] by simp
qed

text \<open>The zero page built for an accepted image is what the 64-bit boot protocol asks for: 4096 bytes, the
  kernel's own setup header kept, the loader id, command line and initramfs pointers patched in, and
  an e820 map with exactly the low memory below the EBDA and the memory from 1 MiB to the end of RAM.\<close>

lemma zero_page_boot_params:
  assumes "bz_parse raw = Inr bz" and "KERNEL_START < msize"
  shows "length (zero_page bz msize ird) = 4096 \<and>
    read_u16 (zero_page bz msize ird) BOOT_FLAG_OFF = BOOT_FLAG_MAGIC \<and>
    read_u32 (zero_page bz msize ird) HEADER_MAGIC_OFF = HDRS_MAGIC \<and>
    zero_page bz msize ird ! TYPE_OF_LOADER_OFF = 0xff \<and>
    read_u32 (zero_page bz msize ird) CMD_LINE_PTR_OFF = 0x20000 \<and>
    (case ird of None \<Rightarrow> True | Some i \<Rightarrow>
       read_u32 (zero_page bz msize ird) RAMDISK_IMAGE_OFF = ucast (ird_addr i) \<and>
       read_u32 (zero_page bz msize ird) RAMDISK_SIZE_OFF = ucast (ird_size i)) \<and>
    e820_map (zero_page bz msize ird) =
      [(0, EBDA_START, E820_RAM), (KERNEL_START, msize - KERNEL_START, E820_RAM)]"
proof -
  note bz = bz_parse_Inr [OF assms(1)]
  have s: "1024 \<le> setup_size bz" "setup_size bz < length (bz_raw bz)" using bz by simp_all
  note f = patched_fields [OF s, of ird]
  note z1 = add_entry_zp [OF f(1), where count = 0 and bs = 0 and len = EBDA_START, simplified]
  note z2 = add_entry_zp [OF z1(2), where count = 1 and bs = KERNEL_START and len = "msize - KERNEL_START", simplified]
  have keep: "subslice (zero_page bz msize ird) a n = subslice (patched bz ird) a n"
    if "a + n \<le> E820_TABLE_OFF" "E820_ENTRIES_OFF < a" for a n
    using that z1(6) [of a n] z2(6) [of a n] unfolding zero_page_patched [OF assms(2) s]
    by (simp add: subslice_upd_other)
  have "zero_page bz msize ird ! TYPE_OF_LOADER_OFF = patched bz ird ! TYPE_OF_LOADER_OFF"
    using z1 z2 unfolding zero_page_patched [OF assms(2) s] by (simp add: zero_page_offs)
  moreover have "length (zero_page bz msize ird) = 4096" by (rule length_zero_page [OF assms])
  moreover have "e820_map (zero_page bz msize ird) =
      [(0, EBDA_START, E820_RAM), (KERNEL_START, msize - KERNEL_START, E820_RAM)]"
    unfolding zero_page_patched [OF assms(2) s] by (rule e820_rows(2) [OF f(1)])
  moreover have "read_u16 (zero_page bz msize ird) BOOT_FLAG_OFF = BOOT_FLAG_MAGIC"
    "read_u32 (zero_page bz msize ird) HEADER_MAGIC_OFF = HDRS_MAGIC"
    "read_u32 (zero_page bz msize ird) CMD_LINE_PTR_OFF = 0x20000"
    using keep f(2,3,5) bz(1,5,6)
    by (simp_all add: read_u16_def read_u32_def zero_page_offs BOOT_FLAG_OFF_def HEADER_MAGIC_OFF_def
        BOOT_FLAG_MAGIC_def HDRS_MAGIC_def CMDLINE_START_def)
  moreover have "case ird of None \<Rightarrow> True | Some i \<Rightarrow>
       read_u32 (zero_page bz msize ird) RAMDISK_IMAGE_OFF = ucast (ird_addr i) \<and>
       read_u32 (zero_page bz msize ird) RAMDISK_SIZE_OFF = ucast (ird_size i)"
    using keep f(6,7) by (cases ird) (simp_all add: read_u32_def zero_page_offs)
  ultimately show ?thesis using f(4) by simp
qed

definition demo_image :: bytes where
  "demo_image = put_at (put_at (put_at (replicate 0xb00 0) 0x1fe [0x55, 0xaa]) 0x202 [0x48, 0x64, 0x72, 0x53]) 0x236 [1, 0]"

lemma demo_image_parse: "bz_parse demo_image = Inr \<lparr>bz_raw = demo_image, setup_size = 2560\<rparr>"
  by (simp add: bz_parse_def demo_image_def read_u16_def read_u32_def zp_simps MIN_HEADER_LEN_def BOOT_FLAG_OFF_def
      HEADER_MAGIC_OFF_def XLOADFLAGS_OFF_def BOOT_FLAG_MAGIC_def HDRS_MAGIC_def XLF_KERNEL_64_def HDR_OFFSET_def Let_def)

lemma zero_page_boot_params_example:
  "e820_map (zero_page \<lparr>bz_raw = demo_image, setup_size = 2560\<rparr> 0x10000000 None) =
     [(0, EBDA_START, E820_RAM), (KERNEL_START, 0x10000000 - KERNEL_START, E820_RAM)]"
  using zero_page_boot_params [OF demo_image_parse, of "0x10000000" None] by (simp add: KERNEL_START_def)

subsection \<open>Placement\<close>

lemma page_align_down: "unat (w AND NOT 0xfff :: u64) = unat w div 4096 * 4096"
proof -
  have "w AND NOT (mask 12) = push_bit 12 (drop_bit 12 w)"
    by (rule bit_word_eqI) (auto simp: bit_simps)
  then have "w AND NOT 0xfff = push_bit 12 (drop_bit 12 w)" by (simp add: mask_eq_exp_minus_1)
  also have "unat (push_bit 12 (drop_bit 12 w)) = unat w div 4096 * 4096"
    using le_less_trans [OF div_times_less_eq_dividend [of "unat w" 4096] unat_lt_pow [of w]]
      unsigned_drop_bit_eq [of 12 w, where 'a = nat] unat_lt_pow [of w]
    by (simp add: take_bit_eq_mod drop_bit_eq_div push_bit_eq_mult unat_word_ariths)
  finally show ?thesis .
qed

text \<open>Where an initramfs of \<open>n\<close> bytes goes: as high as it fits, page aligned, below 4 GiB.\<close>

definition initramfs_spot :: "nat \<Rightarrow> nat \<Rightarrow> nat" where
  "initramfs_spot msize n = (min msize (2 ^ 32) - n) div 4096 * 4096"

lemma initramfs_load_eq:
  assumes "length raw < 2 ^ 64" and "mem_size m = msize"
  shows "initramfs_load m raw msize =
    (let n = length raw; spot = initramfs_spot (unat msize) n in
     if n = 0 then Some (Inl Initramfs_empty)
     else if min (unat msize) (2 ^ 32) < n \<or> spot < 0x100000 then Some (Inl Initramfs_too_big)
     else Some (Inr (mem_write m spot raw, \<lparr>ird_addr = of_nat spot, ird_size = of_nat n\<rparr>)))"
proof -
  let ?n = "length raw" and ?t = "min msize RAMDISK_ADDR_LIMIT"
  have sz: "unat (of_nat ?n :: u64) = ?n" using assms(1) by (simp add: unat_of_nat)
  have t: "unat ?t = min (unat msize) (2 ^ 32)" by (auto simp: RAMDISK_ADDR_LIMIT_def min_def word_le_nat_alt)
  have z: "(of_nat ?n :: u64) = 0 \<longleftrightarrow> ?n = 0" using sz unat_eq_zero [of "of_nat ?n :: u64"] by auto
  have g: "saturating_sub ?t KERNEL_START < of_nat ?n \<longleftrightarrow> unat ?t - 0x100000 < ?n"
    unfolding word_less_nat_alt unat_saturating_sub sz by (simp add: KERNEL_START_def)
  show ?thesis
  proof (cases "unat ?t - 0x100000 < ?n")
    case True
    then have "?n = 0 \<or> min (unat msize) (2 ^ 32) < ?n \<or> initramfs_spot (unat msize) ?n < 0x100000"
      unfolding initramfs_spot_def t by (simp add: less_mult_imp_div_less)
    with True show ?thesis unfolding initramfs_load_def Let_def g z by auto
  next
    case False
    then have le: "of_nat ?n \<le> ?t" unfolding word_le_nat_alt sz by linarith
    let ?a = "(?t - of_nat ?n) AND NOT 0xfff"
    have a: "unat ?a = initramfs_spot (unat msize) ?n"
      unfolding page_align_down unat_sub [OF le] sz t initramfs_spot_def ..
    have "initramfs_spot (unat msize) ?n + ?n \<le> unat msize"
      using le div_times_less_eq_dividend [of "min (unat msize) (2 ^ 32) - ?n" 4096]
      unfolding initramfs_spot_def word_le_nat_alt sz t by linarith
    then have w: "write_slice_boot m ?a raw = Some (mem_write m (initramfs_spot (unat msize) ?n) raw)"
      unfolding write_slice_boot_def a using assms(2) by simp
    have "?a = of_nat (initramfs_spot (unat msize) ?n)"
      by (rule eq_of_nat_if_unat [OF a])
    moreover have "?a < KERNEL_START \<longleftrightarrow> initramfs_spot (unat msize) ?n < 0x100000"
      unfolding word_less_nat_alt a by (simp add: KERNEL_START_def)
    moreover have "\<not> min (unat msize) (2 ^ 32) < ?n" using le unfolding word_le_nat_alt sz t by linarith
    ultimately show ?thesis using False w unfolding initramfs_load_def Let_def g z by auto
  qed
qed

text \<open>C12: An initramfs is placed page aligned, entirely inside guest memory, below 4 GiB and not below the
  kernel's load address, its address and size fit the 32-bit header fields, and its bytes are
  there; when no such place exists, or the file is empty, loading is refused, and no write ever
  leaves guest memory.\<close>

theorem initramfs_placement:
  assumes "length raw < 2 ^ 63"
  shows "\<exists>r. initramfs_load m raw (mem_size m) = Some r \<and>
    (case r of
       Inl e \<Rightarrow> raw = [] \<or> min (unat (mem_size m)) (2 ^ 32) < 0x101000 + length raw
     | Inr (m', i) \<Rightarrow>
         0x100000 \<le> unat (ird_addr i) \<and> unat (ird_addr i) mod 4096 = 0 \<and> unat (ird_size i) = length raw \<and>
         unat (ird_addr i) + length raw \<le> min (unat (mem_size m)) (2 ^ 32) \<and>
         read_checked m' (ird_addr i) (length raw) = Some raw \<and> same_outside (span (ird_addr i) (length raw)) m m')"
proof -
  let ?n = "length raw" and ?s = "initramfs_spot (unat (mem_size m)) (length raw)"
  let ?t = "min (unat (mem_size m)) (2 ^ 32)"
  have len: "?n < 2 ^ 64" using assms by simp
  have spot: "?s \<le> ?t - ?n" "?t - ?n < ?s + 4096"
    using div_times_less_eq_dividend [of "?t - ?n" 4096] div_mult_mod_eq [of "?t - ?n" 4096]
      mod_less_divisor [of 4096 "?t - ?n"] unfolding initramfs_spot_def by linarith+
  note eq = initramfs_load_eq [OF len refl, of m]
  show ?thesis
  proof (cases "?n = 0 \<or> ?t < ?n \<or> ?s < 0x100000")
    case True
    then have "raw = [] \<or> ?t < 0x101000 + ?n" using spot(2) by auto
    with True show ?thesis unfolding eq Let_def by auto
  next
    case False
    have "?s < 2 ^ 64" using spot(1) by (simp add: min_def split: if_splits)
    then have a: "unat (of_nat ?s :: u64) = ?s" "unat (of_nat ?n :: u64) = ?n"
      using len by (simp_all add: unat_of_nat)
    have fit: "?s + ?n \<le> ?t" using spot(1) False by linarith
    have "?s mod 4096 = 0" by (simp add: initramfs_spot_def)
    moreover have "read_checked (mem_write m ?s raw) (of_nat ?s) ?n = Some raw"
      using fit a by (simp add: read_checked_eq mem_read_write_same)
    moreover have "same_outside (span (of_nat ?s) ?n) m (mem_write m ?s raw)"
      using same_outside_mem_write [of "of_nat ?s" raw m] a by simp
    ultimately show ?thesis using False fit unfolding eq Let_def by (simp add: a)
  qed
qed

theorem initramfs_placement_witness:
  "\<exists>r. initramfs_load (mem_new 0x2000000) [1, 2, 3] (mem_size (mem_new 0x2000000)) = Some r \<and>
     (case r of Inl e \<Rightarrow> False | Inr (m', i) \<Rightarrow> read_checked m' (ird_addr i) (length [1 :: byte, 2, 3]) = Some [1, 2, 3])"
proof -
  have "length [1 :: byte, 2, 3] < 2 ^ 63" by simp
  from initramfs_placement [OF this, of "mem_new 0x2000000"] show ?thesis
    by (rule ex_forward) (auto simp: mem_new_def split: sum.splits)
qed

text \<open>Nothing keeps the initramfs off the kernel: when kernel image and initramfs together do not fit
  between 1 MiB and the end of memory (of at most 4 GiB), both loads still succeed, and the
  initramfs has overwritten the tail of the kernel image.\<close>

lemma initramfs_overwrites_kernel:
  assumes "bz_load bz m (mem_size m) = Some (Inr (m1, entry))"
    and "initramfs_load m1 raw (mem_size m) = Some (Inr (m2, i))"
    and "length raw < 2 ^ 63" and "unat (mem_size m) \<le> 2 ^ 32"
    and "unat (mem_size m) < 0x100000 + length (drop (setup_size bz) (bz_raw bz)) + length raw"
  shows "unat (ird_addr i) < 0x100000 + length (drop (setup_size bz) (bz_raw bz)) \<and>
    read_checked m2 (ird_addr i) (length raw) = Some raw"
proof -
  have "m1 = mem_write m 0x100000 (drop (setup_size bz) (bz_raw bz))"
    using assms(1) by (auto simp: bz_load_def Let_def write_slice_boot_def KERNEL_START_def split: if_splits)
  then have sz: "mem_size m1 = mem_size m" by simp
  from initramfs_placement [OF assms(3), of m1] assms(2) have
    "unat (ird_addr i) + length raw \<le> min (unat (mem_size m)) (2 ^ 32)"
    "read_checked m2 (ird_addr i) (length raw) = Some raw" by (auto simp: sz)
  with assms(4,5) show ?thesis by linarith
qed

definition demo_kernel :: bz_image where
  "demo_kernel = \<lparr>bz_raw = replicate 8704 0, setup_size = 512\<rparr>"

lemma initramfs_overwrites_kernel_example:
  "\<exists>m1 entry m2 i. bz_load demo_kernel (mem_new 0x103000) 0x103000 = Some (Inr (m1, entry)) \<and>
     initramfs_load m1 (replicate 0x2000 7) 0x103000 = Some (Inr (m2, i)) \<and> unat (ird_addr i) < 0x100000 + 8192"
proof -
  let ?m = "mem_new 0x103000" and ?raw = "replicate 0x2000 7 :: bytes"
  let ?m1 = "mem_write ?m 0x100000 (drop 512 (replicate 8704 0))"
  have sz: "mem_size ?m = 0x103000" "mem_size ?m1 = 0x103000" by (simp_all add: mem_new_def)
  have k: "bz_load demo_kernel ?m (mem_size ?m) = Some (Inr (?m1, 0x100200))"
    by (simp add: bz_load_def demo_kernel_def write_slice_boot_def KERNEL_START_def sz)
  have "initramfs_spot (unat (0x103000 :: u64)) (length ?raw) = 0x101000" by (simp add: initramfs_spot_def)
  then obtain m2 i where i: "initramfs_load ?m1 ?raw (mem_size ?m) = Some (Inr (m2, i))"
    using initramfs_load_eq [of ?raw ?m1 "0x103000"] sz by (simp add: Let_def)
  have "unat (ird_addr i) < 0x100000 + length (drop (setup_size demo_kernel) (bz_raw demo_kernel))"
    using initramfs_overwrites_kernel [OF k i] by (simp add: sz demo_kernel_def)
  then show ?thesis using k i by (simp add: sz demo_kernel_def)
qed

end
