(* ===== verification/Acpi_Tables.thy ===== *)
theory Acpi_Tables
  imports Boot_Memory
begin

text \<open>
  The ACPI tables (\<open>src/acpi.rs\<close>): checksums, the system description tables, the packing
  \<open>TableWriter\<close> and \<open>setup_acpi\<close>. The compiled DSDT (\<open>dsdt.aml\<close>, output of \<open>iasl\<close>) is the
  parameter \<open>dsdt\<close>.

  The specification is what an operating system does with the result: scan the BIOS window for
  the root pointer, verify both of its checksums, follow it to the XSDT and follow the XSDT's
  entries, verifying the checksum of every table on the way.
\<close>

definition LAPIC_ADDR :: u32 where "LAPIC_ADDR = 0xfee00000"
definition IOAPIC_ADDR :: u32 where "IOAPIC_ADDR = 0xfec00000"
definition ACPI_BASE :: u64 where "ACPI_BASE = 0xe0000"
definition ACPI_LIMIT :: u64 where "ACPI_LIMIT = 0x100000 - 0x1000"
definition RSDP_ADDR :: u64 where "RSDP_ADDR = ACPI_BASE"
definition RSDP_LEN :: u64 where "RSDP_LEN = 36"
definition TABLE_ALIGN :: u64 where "TABLE_ALIGN = 16"
definition SLEEP_CONTROL_PORT :: u16 where "SLEEP_CONTROL_PORT = 0x600"
definition RESET_PORT :: u16 where "RESET_PORT = 0x604"
definition RESET_VALUE :: u8 where "RESET_VALUE = 0x01"

lemmas acpi_consts = ACPI_BASE_def ACPI_LIMIT_def RSDP_ADDR_def RSDP_LEN_def TABLE_ALIGN_def

text \<open>\<open>ascii s\<close> is the byte string literal \<open>b"s"\<close>.\<close>

definition ascii :: "string \<Rightarrow> bytes" where
  "ascii s = map of_char s"

definition checksum :: "bytes \<Rightarrow> u8" where
  "checksum bs = 0 - fold (\<lambda>b acc. acc + b) bs 0"

definition sdt_header :: "bytes \<Rightarrow> u8 \<Rightarrow> bytes \<Rightarrow> bytes" where
  "sdt_header signature revision oem_table_id =
     signature @ le32 0 @ [revision] @ [0] @ ascii ''HYPRBG'' @ oem_table_id @ le32 1 @ ascii ''HYBG'' @ le32 1"

definition finish :: "bytes \<Rightarrow> bytes" where
  "finish table =
     (let table = put_at table 4 (le32 (of_nat (length table)));
          table = table[9 := 0]
      in table[9 := checksum table])"

definition build_madt :: "u8 \<Rightarrow> bytes" where
  "build_madt num_cpus =
     finish (sdt_header (ascii ''APIC'') 3 (ascii ''HBMADT'' @ [0, 0]) @ le32 LAPIC_ADDR @ le32 1 @
       concat (map (\<lambda>k. let cpu = of_nat k in [0, 8, cpu, cpu] @ le32 1) [0..<unat num_cpus]) @
       [1, 12] @ [0] @ [0] @ le32 IOAPIC_ADDR @ le32 0)"

definition zero_gas :: bytes where
  "zero_gas = replicate 12 0"

definition system_io_gas :: "u16 \<Rightarrow> bytes" where
  "system_io_gas port =
     (let g = replicate 12 0; g = g[0 := 1]; g = g[1 := 8]; g = g[2 := 0]; g = g[3 := 1]
      in put_at g 4 (le64 (ucast port)))"

definition build_fadt :: "u32 \<Rightarrow> bytes" where
  "build_fadt dsdt_addr =
     finish (sdt_header (ascii ''FACP'') 6 (ascii ''HBFADT'' @ [0, 0]) @
       le32 0 @ le32 dsdt_addr @ [0] @ [0] @ le16 0 @ le32 0 @ [0] @ [0] @ [0] @ [0] @
       le32 0 @ le32 0 @ le32 0 @ le32 0 @ le32 0 @ le32 0 @ le32 0 @ le32 0 @
       [0] @ [0] @ [0] @ [0] @ [0] @ [0] @ [0] @ [0] @
       le16 0xffff @ le16 0xffff @ le16 0 @ le16 0 @ [0] @ [0] @ [0] @ [0] @ [0] @
       le16 0x000c @ [0] @ le32 0x00100401 @ system_io_gas RESET_PORT @ [RESET_VALUE] @ le16 0 @ [0] @
       le64 0 @ le64 (ucast dsdt_addr) @
       zero_gas @ zero_gas @ zero_gas @ zero_gas @ zero_gas @ zero_gas @ zero_gas @ zero_gas @
       system_io_gas SLEEP_CONTROL_PORT @ system_io_gas (SLEEP_CONTROL_PORT + 1) @ le64 0)"

definition build_xsdt :: "u64 list \<Rightarrow> bytes" where
  "build_xsdt es = finish (sdt_header (ascii ''XSDT'') 1 (ascii ''HBXSDT'' @ [0, 0]) @ concat (map le64 es))"

definition build_rsdt :: "u32 list \<Rightarrow> bytes" where
  "build_rsdt es = finish (sdt_header (ascii ''RSDT'') 1 (ascii ''HBRSDT'' @ [0, 0]) @ concat (map le32 es))"

definition build_rsdp :: "u32 \<Rightarrow> u64 \<Rightarrow> bytes" where
  "build_rsdp rsdt_addr xsdt_addr =
     (let r = ascii ''RSD PTR '' @ [0] @ ascii ''HYPRBG'' @ [2] @ le32 rsdt_addr @ le32 36 @ le64 xsdt_addr @ [0] @ [0, 0, 0];
          r = r[8 := 0];
          r = r[8 := checksum (take 20 r)];
          r = r[32 := 0]
      in r[32 := checksum r])"

text \<open>\<open>TableWriter\<close>; the error is the overrun of \<open>place\<close>, with the table's name and size.\<close>

record table_writer =
  tw_mem :: guest_memory
  tw_next :: u64

datatype acpi_error = Acpi_overrun string nat

definition place :: "string \<Rightarrow> bytes \<Rightarrow> table_writer \<Rightarrow> (acpi_error + u64 \<times> table_writer) option" where
  "place name table w =
     (let addr = tw_next w in
      if unat ACPI_LIMIT < unat addr + length table then Some (Inl (Acpi_overrun name (length table)))
      else
        map_option
          (\<lambda>m'. Inr (addr, \<lparr>tw_mem = m',
             tw_next = div_ceil (addr + of_nat (length table)) TABLE_ALIGN * TABLE_ALIGN\<rparr>))
          (write_slice_boot (tw_mem w) addr table))"

text \<open>\<open>?\<close> on the result of a boot step: a refused step ends the sequence.\<close>

definition and_then :: "('e + 'a) option \<Rightarrow> ('a \<Rightarrow> ('e + 'b) option) \<Rightarrow> ('e + 'b) option" where
  "and_then r f = (case r of None \<Rightarrow> None | Some (Inl e) \<Rightarrow> Some (Inl e) | Some (Inr x) \<Rightarrow> f x)"

definition setup_acpi :: "bytes \<Rightarrow> guest_memory \<Rightarrow> u8 \<Rightarrow> (acpi_error + guest_memory) option" where
  "setup_acpi dsdt m num_cpus =
     (let w = \<lparr>tw_mem = m, tw_next = RSDP_ADDR + div_ceil RSDP_LEN TABLE_ALIGN * TABLE_ALIGN\<rparr> in
      and_then (place ''DSDT'' dsdt w) (\<lambda>(dsdt_addr, w).
      and_then (place ''FADT'' (build_fadt (ucast dsdt_addr)) w) (\<lambda>(fadt_addr, w).
      and_then (place ''MADT'' (build_madt num_cpus) w) (\<lambda>(madt_addr, w).
      and_then (place ''XSDT'' (build_xsdt [fadt_addr, madt_addr]) w) (\<lambda>(xsdt_addr, w).
      and_then (place ''RSDT'' (build_rsdt [ucast fadt_addr, ucast madt_addr]) w) (\<lambda>(rsdt_addr, w).
      map_option Inr (write_slice_boot (tw_mem w) RSDP_ADDR (build_rsdp (ucast rsdt_addr) xsdt_addr))))))))"

subsection \<open>What an operating system does with the tables\<close>

text \<open>A table at an address: its length is in the header, and all its bytes sum to 0.\<close>

definition os_table :: "guest_memory \<Rightarrow> u64 \<Rightarrow> bytes option" where
  "os_table m a =
     (case read_checked m (a + 4) 4 of
        None \<Rightarrow> None
      | Some l \<Rightarrow>
          (case read_checked m a (unat (of_le l :: u32)) of
             None \<Rightarrow> None
           | Some t \<Rightarrow> if sum_list t = 0 \<and> 36 \<le> length t then Some t else None))"

definition os_rsdp :: "guest_memory \<Rightarrow> u64 \<Rightarrow> bytes option" where
  "os_rsdp m a =
     (case read_checked m a 36 of
        None \<Rightarrow> None
      | Some r \<Rightarrow> if take 8 r = ascii ''RSD PTR '' \<and> sum_list (take 20 r) = 0 \<and> sum_list r = 0 then Some r else None)"

text \<open>The scan of \<open>[0xE0000, 0xFFFFF]\<close> in 16-byte steps.\<close>

definition os_scan_rsdp :: "guest_memory \<Rightarrow> bytes option" where
  "os_scan_rsdp m = map_option (\<lambda>k. the (os_rsdp m (0xe0000 + of_nat k * 16)))
     (find (\<lambda>k. os_rsdp m (0xe0000 + of_nat k * 16) \<noteq> None) [0..<0x2000])"

fun os_tables :: "guest_memory \<Rightarrow> u64 list \<Rightarrow> bytes list option" where
  "os_tables m [] = Some []"
| "os_tables m (a # as) =
     (case os_table m a of None \<Rightarrow> None | Some t \<Rightarrow> map_option (\<lambda>ts. t # ts) (os_tables m as))"

fun le64s :: "bytes \<Rightarrow> u64 list" where
  "le64s bs = (if length bs < 8 then [] else of_le (take 8 bs) # le64s (drop 8 bs))"

fun le32s :: "bytes \<Rightarrow> u32 list" where
  "le32s bs = (if length bs < 4 then [] else of_le (take 4 bs) # le32s (drop 4 bs))"

declare le64s.simps [simp del] le32s.simps [simp del]

definition os_xsdt_tables :: "guest_memory \<Rightarrow> bytes list option" where
  "os_xsdt_tables m =
     (case os_scan_rsdp m of
        None \<Rightarrow> None
      | Some r \<Rightarrow>
          (case os_table m (of_le (subslice r 24 8)) of
             None \<Rightarrow> None
           | Some x \<Rightarrow> if take 4 x = ascii ''XSDT'' then os_tables m (le64s (drop 36 x)) else None))"

definition os_rsdt_tables :: "guest_memory \<Rightarrow> bytes list option" where
  "os_rsdt_tables m =
     (case os_scan_rsdp m of
        None \<Rightarrow> None
      | Some r \<Rightarrow>
          (case os_table m (ucast (of_le (subslice r 16 4) :: u32)) of
             None \<Rightarrow> None
           | Some x \<Rightarrow> if take 4 x = ascii ''RSDT'' then os_tables m (map ucast (le32s (drop 36 x))) else None))"

text \<open>The processors a MADT announces: the APIC ids of its enabled local-APIC subtables.\<close>

fun madt_cpus :: "bytes \<Rightarrow> u8 list" where
  "madt_cpus (ty # len # pid # apic_id # fl # f1 # f2 # f3 # rest) =
     (if ty = 0 \<and> len = 8 then (if fl AND 1 = 1 then apic_id # madt_cpus rest else madt_cpus rest) else [])"
| "madt_cpus _ = []"

subsection \<open>Checksums\<close>

lemma fold_plus: "fold (\<lambda>b acc. acc + b) bs z = z + sum_list bs" for z :: "'a :: comm_monoid_add"
  by (induction bs arbitrary: z) (simp_all add: ac_simps)

lemma checksum_eq: "checksum bs = - sum_list bs"
  by (simp add: checksum_def fold_plus)

lemma sum_list_upd: "i < length xs \<Longrightarrow> sum_list (xs[i := v]) = sum_list xs - xs ! i + v" for v :: "'a :: ab_group_add"
proof -
  assume i: "i < length xs"
  have "sum_list xs = sum_list (take i xs) + xs ! i + sum_list (drop (Suc i) xs)"
    by (subst id_take_nth_drop [OF i]) (simp add: ac_simps)
  with i show ?thesis by (simp add: upd_conv_take_nth_drop ac_simps)
qed

lemma sum_list_checksum: "i < length xs \<Longrightarrow> xs ! i = 0 \<Longrightarrow> sum_list (xs[i := checksum xs]) = 0"
  by (simp add: sum_list_upd checksum_eq)

lemma finish_facts:
  assumes "10 \<le> length t"
  shows "length (finish t) = length t" and "sum_list (finish t) = 0"
    and "subslice (finish t) 4 4 = le32 (of_nat (length t))"
    and "take 4 (finish t) = take 4 t" and "drop 10 (finish t) = drop 10 t"
proof -
  let ?t = "(put_at t 4 (le32 (of_nat (length t))))[9 := 0]"
  have f: "finish t = ?t[9 := checksum ?t]" by (simp add: finish_def Let_def)
  show l: "length (finish t) = length t" using assms by (simp add: f)
  show "sum_list (finish t) = 0" unfolding f using assms by (intro sum_list_checksum) simp_all
  show "subslice (finish t) 4 4 = le32 (of_nat (length t))"
    unfolding f using assms by (simp add: subslice_upd_other subslice_put_at_same)
  show "take 4 (finish t) = take 4 t" unfolding f using assms by (simp add: put_at_def)
  show "drop 10 (finish t) = drop 10 t" unfolding f using assms by (simp add: put_at_def drop_update_cancel)
qed

lemma length_ascii [simp]: "length (ascii s) = length s"
  by (simp add: ascii_def)

lemma sdt_facts:
  fixes sig oem body :: bytes and rv :: u8
  assumes "length sig = 4" and "length oem = 8"
  defines "t \<equiv> finish (sdt_header sig rv oem @ body)"
  shows "length t = 36 + length body" and "sum_list t = 0" and "take 4 t = sig" and "drop 36 t = body"
    and "subslice t 4 4 = le32 (of_nat (36 + length body))"
proof -
  let ?h = "sdt_header sig rv oem"
  have h: "length ?h = 36" "take 4 ?h = sig" using assms(1,2) by (simp_all add: sdt_header_def)
  then have l: "10 \<le> length (?h @ body)" by simp
  note f = finish_facts [OF l, folded t_def]
  show "length t = 36 + length body" using f(1) h by simp
  show "sum_list t = 0" by (rule f(2))
  show "take 4 t = sig" using f(4) h by simp
  have "drop 36 t = drop 26 (drop 10 t)" by simp
  then show "drop 36 t = body" unfolding f(5) using h by simp
  show "subslice t 4 4 = le32 (of_nat (36 + length body))" using f(3) h by simp
qed

lemma read_checked_sub:
  assumes "read_checked m a n = Some t" and "i + k \<le> n"
  shows "read_checked m (a + of_nat i) k = Some (subslice t i k)"
proof -
  from assms(1) have t: "t = mem_read m (unat a) n" and fit: "unat a + n \<le> unat (mem_size m)"
    by (auto simp: read_checked_eq split: if_splits)
  have "unat a + i < 2 ^ 64 \<or> k = 0 \<and> unat a + i \<le> unat (mem_size m)" using fit assms(2) unat_lt_pow [of "mem_size m"] by auto
  then have "unat a + i < 2 ^ 64" using unat_lt_pow [of "mem_size m"] by auto
  then have u: "unat (a + of_nat i) = unat a + i" by (simp add: unat_word_ariths unat_of_nat)
  have "subslice t i k = mem_read m (unat a + i) k"
    unfolding t subslice_def mem_read_def using assms(2) by (simp add: take_map drop_map)
  with u fit assms(2) show ?thesis by (simp add: read_checked_eq)
qed

lemma os_table_Some:
  assumes "read_checked m a (length t) = Some t" and "subslice t 4 4 = le32 (of_nat (length t))"
    and "sum_list t = 0" and "36 \<le> length t" and "length t < 2 ^ 32"
  shows "os_table m a = Some t"
proof -
  have "read_checked m (a + 4) 4 = Some (le32 (of_nat (length t)))"
    using read_checked_sub [OF assms(1), of 4 4] assms(2,4) by simp
  moreover have "unat (of_nat (length t) :: u32) = length t" using assms(5) by (simp add: unat_of_nat)
  ultimately show ?thesis using assms by (simp add: os_table_def)
qed

lemma rsdp_facts:
  "length (build_rsdp r x) = 36" "take 8 (build_rsdp r x) = ascii ''RSD PTR ''"
  "sum_list (take 20 (build_rsdp r x)) = 0" "sum_list (build_rsdp r x) = 0"
  "subslice (build_rsdp r x) 16 4 = le32 r" "subslice (build_rsdp r x) 24 8 = le64 x"
proof -
  let ?r = "ascii ''RSD PTR '' @ [0] @ ascii ''HYPRBG'' @ [2] @ le32 r @ le32 36 @ le64 x @ [0] @ [0, 0, 0]"
  let ?s = "?r[8 := 0, 8 := checksum (take 20 (?r[8 := 0])), 32 := 0]"
  have b: "build_rsdp r x = ?s[32 := checksum ?s]" by (simp add: build_rsdp_def Let_def)
  have l: "length ?r = 36" by simp
  show "length (build_rsdp r x) = 36" unfolding b using l by simp
  show "take 8 (build_rsdp r x) = ascii ''RSD PTR ''" unfolding b by (simp add: take_update_cancel)
  have "take 20 (build_rsdp r x) = (take 20 (?r[8 := 0]))[8 := checksum (take 20 (?r[8 := 0]))]"
    unfolding b using l by (simp add: take_update_swap list_update_beyond)
  then show "sum_list (take 20 (build_rsdp r x)) = 0"
    using sum_list_checksum [of 8 "take 20 (?r[8 := 0])"] l by simp
  show "sum_list (build_rsdp r x) = 0" unfolding b using l by (intro sum_list_checksum) simp_all
  show "subslice (build_rsdp r x) 16 4 = le32 r" "subslice (build_rsdp r x) 24 8 = le64 x"
    unfolding b by (simp_all add: subslice_upd_other) (simp_all add: subslice_def)
qed

lemma os_scan_rsdp_first:
  assumes "read_checked m RSDP_ADDR 36 = Some (build_rsdp r x)"
  shows "os_scan_rsdp m = Some (build_rsdp r x)"
proof -
  have "os_rsdp m 0xe0000 = Some (build_rsdp r x)"
    using assms by (simp add: os_rsdp_def acpi_consts rsdp_facts)
  then have "find (\<lambda>k. os_rsdp m (0xe0000 + of_nat k * 16) \<noteq> None) (0 # [Suc 0..<n]) = Some 0" for n by simp
  with \<open>os_rsdp m 0xe0000 = Some (build_rsdp r x)\<close> show ?thesis
    unfolding os_scan_rsdp_def by (subst upt_conv_Cons) simp_all
qed

subsection \<open>The layout\<close>

definition align16 :: "nat \<Rightarrow> nat" where
  "align16 n = (n + 15) div 16 * 16"

lemma align16_bounds: "n \<le> align16 n" "align16 n \<le> n + 15"
  unfolding align16_def by linarith+

lemma place_fits:
  assumes "a + length t \<le> 0xff000" and "0x100000 \<le> unat (mem_size m)"
  shows "place name t \<lparr>tw_mem = m, tw_next = of_nat a\<rparr> =
    Some (Inr (of_nat a, \<lparr>tw_mem = mem_write m a t, tw_next = of_nat (align16 (a + length t))\<rparr>))"
proof -
  let ?e = "of_nat a + of_nat (length t) :: u64"
  have u: "unat (of_nat a :: u64) = a" "unat ?e = a + length t"
    using assms(1) by (simp_all add: unat_of_nat unat_word_ariths)
  have d: "unat (div_ceil ?e TABLE_ALIGN) = (a + length t + 15) div 16"
    using unat_div_ceil [of TABLE_ALIGN ?e] u by (simp add: TABLE_ALIGN_def)
  have "(a + length t + 15) div 16 * 16 < 2 ^ 64" using align16_bounds(2) [of "a + length t"] assms(1)
    unfolding align16_def by simp
  then have "unat (div_ceil ?e TABLE_ALIGN * TABLE_ALIGN) = align16 (a + length t)"
    using d by (simp add: unat_word_ariths align16_def TABLE_ALIGN_def)
  then have "div_ceil ?e TABLE_ALIGN * TABLE_ALIGN = of_nat (align16 (a + length t))"
    by (rule eq_of_nat_if_unat)
  then show ?thesis
    using assms u(1) by (simp add: place_def write_slice_boot_def ACPI_LIMIT_def)
qed

lemma madt_length: "length (build_madt n) = 56 + 8 * unat n"
proof -
  have "length (concat (map (\<lambda>k. let cpu = of_nat k in [0, 8, cpu, cpu] @ le32 1) [0..<k])) = 8 * k" for k
    by (induction k) (simp_all add: Let_def)
  then show ?thesis unfolding build_madt_def append_assoc by (subst sdt_facts(1)) simp_all
qed

lemma fadt_length: "length (build_fadt a) = 276"
  unfolding build_fadt_def append_assoc
  by (subst sdt_facts(1)) (simp_all add: system_io_gas_def zero_gas_def Let_def)

lemma xsdt_length: "length (build_xsdt [a, b]) = 52"
  unfolding build_xsdt_def by (subst sdt_facts(1)) simp_all

lemma rsdt_length: "length (build_rsdt [a, b]) = 44"
  unfolding build_rsdt_def by (subst sdt_facts(1)) simp_all

lemmas table_lengths = madt_length fadt_length xsdt_length rsdt_length rsdp_facts(1)

text \<open>Where the tables go, as natural numbers, and the writes of a successful \<open>setup_acpi\<close>.\<close>

definition fadt_at :: "bytes \<Rightarrow> nat" where "fadt_at dsdt = align16 (0xe0030 + length dsdt)"
definition madt_at :: "bytes \<Rightarrow> nat" where "madt_at dsdt = align16 (fadt_at dsdt + 276)"
definition xsdt_at :: "bytes \<Rightarrow> u8 \<Rightarrow> nat" where "xsdt_at dsdt n = align16 (madt_at dsdt + (56 + 8 * unat n))"
definition rsdt_at :: "bytes \<Rightarrow> u8 \<Rightarrow> nat" where "rsdt_at dsdt n = align16 (xsdt_at dsdt n + 52)"

definition acpi_writes :: "bytes \<Rightarrow> u8 \<Rightarrow> (u64 \<times> bytes) list" where
  "acpi_writes dsdt n =
     [(0xe0030, dsdt), (of_nat (fadt_at dsdt), build_fadt 0xe0030), (of_nat (madt_at dsdt), build_madt n),
      (of_nat (xsdt_at dsdt n), build_xsdt [of_nat (fadt_at dsdt), of_nat (madt_at dsdt)]),
      (of_nat (rsdt_at dsdt n), build_rsdt [of_nat (fadt_at dsdt), of_nat (madt_at dsdt)]),
      (0xe0000, build_rsdp (of_nat (rsdt_at dsdt n)) (of_nat (xsdt_at dsdt n)))]"

lemma layout_bounds:
  "0xe0030 + length dsdt \<le> fadt_at dsdt" "fadt_at dsdt \<le> 0xe0030 + length dsdt + 15"
  "fadt_at dsdt + 276 \<le> madt_at dsdt" "madt_at dsdt \<le> fadt_at dsdt + 291"
  "madt_at dsdt + 56 + 8 * unat n \<le> xsdt_at dsdt n" "xsdt_at dsdt n \<le> madt_at dsdt + 2111"
  "xsdt_at dsdt n + 52 \<le> rsdt_at dsdt n" "rsdt_at dsdt n \<le> xsdt_at dsdt n + 67"
  using align16_bounds [of "0xe0030 + length dsdt"] align16_bounds [of "fadt_at dsdt + 276"]
    align16_bounds [of "madt_at dsdt + (56 + 8 * unat n)"] align16_bounds [of "xsdt_at dsdt n + 52"]
    unat_lt_pow [of n]
  by (simp_all add: fadt_at_def madt_at_def xsdt_at_def rsdt_at_def)

lemma ucast_of_nat_lt: "n < 2 ^ 32 \<Longrightarrow> (ucast (of_nat n :: u64) :: u32) = of_nat n"
  by (rule eq_of_nat_if_unat) (simp add: unsigned_ucast_eq unat_of_nat take_bit_eq_mod)

lemma and_then_simps [simp]:
  "and_then None f = None" "and_then (Some (Inl e)) f = Some (Inl e)" "and_then (Some (Inr x)) f = f x"
  by (simp_all add: and_then_def)

lemma place_at:
  assumes "a + length t \<le> 0xff000" and "0x100000 \<le> unat (mem_size m)" and "align16 (a + length t) = b"
  shows "place name t \<lparr>tw_mem = m, tw_next = of_nat a\<rparr> =
    Some (Inr (of_nat a, \<lparr>tw_mem = mem_write m a t, tw_next = of_nat b\<rparr>))"
    and "write_slice_boot m (of_nat a) t = Some (mem_write m a t)"
  using place_fits [OF assms(1,2)] assms by (simp_all add: write_slice_boot_def unat_of_nat)

lemma setup_acpi_eq:
  assumes "length dsdt \<le> 0x1e000" and "0x100000 \<le> unat (mem_size m)"
  shows "setup_acpi dsdt m n = map_option Inr (boot_writes (acpi_writes dsdt n) m)"
proof -
  note b = layout_bounds(1-4) [of dsdt] layout_bounds(5-8) [of dsdt n]
  let ?f = "fadt_at dsdt" and ?d = "madt_at dsdt" and ?x = "xsdt_at dsdt n" and ?r = "rsdt_at dsdt n"
  let ?m1 = "mem_write m 0xe0030 dsdt"
  let ?m2 = "mem_write ?m1 ?f (build_fadt 0xe0030)"
  let ?m3 = "mem_write ?m2 ?d (build_madt n)"
  let ?m4 = "mem_write ?m3 ?x (build_xsdt [of_nat ?f, of_nat ?d])"
  have w0: "RSDP_ADDR + div_ceil RSDP_LEN TABLE_ALIGN * TABLE_ALIGN = of_nat 0xe0030"
    by (simp add: acpi_consts div_ceil_def)
  have c: "(ucast (of_nat 0xe0030 :: u64) :: u32) = 0xe0030" "(ucast (of_nat ?f :: u64) :: u32) = of_nat ?f"
    "(ucast (of_nat ?d :: u64) :: u32) = of_nat ?d" "(ucast (of_nat ?r :: u64) :: u32) = of_nat ?r"
    using b assms(1) by (simp_all add: ucast_of_nat_lt)
  have k: "(0xe0030 :: u64) = of_nat 0xe0030" "(0xe0000 :: u64) = RSDP_ADDR" by (simp_all add: acpi_consts)
  note s1 = place_at [where a = "0xe0030" and t = dsdt and m = m and b = ?f]
  note s2 = place_at [where a = ?f and t = "build_fadt 0xe0030" and m = ?m1 and b = ?d]
  note s3 = place_at [where a = ?d and t = "build_madt n" and m = ?m2 and b = ?x]
  note s4 = place_at [where a = ?x and t = "build_xsdt [of_nat ?f, of_nat ?d]" and m = ?m3 and b = ?r]
  note s5 = place_at [where a = ?r and t = "build_rsdt [of_nat ?f, of_nat ?d]" and m = ?m4, OF _ _ refl]
  have s: "0xe0030 + length dsdt \<le> 0xff000" "?f + 276 \<le> 0xff000" "?d + (56 + 8 * unat n) \<le> 0xff000" "?x + 52 \<le> 0xff000" "?r + 44 \<le> 0xff000"
    using b assms(1) by linarith+
  show ?thesis
    unfolding setup_acpi_def Let_def w0 acpi_writes_def boot_writes.simps
    by (simp only: k(1) s1 s2 s3 s4 s5 table_lengths fadt_at_def [symmetric] madt_at_def [symmetric] xsdt_at_def [symmetric]
        rsdt_at_def [symmetric] s assms(2) mem_size_write and_then_simps prod.case c table_writer.simps
        option.case(2)) (simp add: k split: option.split)
qed

lemma acpi_foot: "length dsdt \<le> 0x1e000 \<Longrightarrow> writes_foot (acpi_writes dsdt n) \<subseteq> {0xe0000..<0xff000}"
  using layout_bounds(1-4) [of dsdt] layout_bounds(5-8) [of dsdt n]
  by (auto simp: acpi_writes_def span_def table_lengths unat_of_nat)

lemma acpi_fits: "length dsdt \<le> 0x1e000 \<Longrightarrow> 0x100000 \<le> unat (mem_size m) \<Longrightarrow> fits_all m (acpi_writes dsdt n)"
  using layout_bounds(1-4) [of dsdt] layout_bounds(5-8) [of dsdt n]
  by (simp add: acpi_writes_def mem_fits_def table_lengths unat_of_nat)

lemma acpi_reads:
  assumes "length dsdt \<le> 0x1e000" and "boot_writes (acpi_writes dsdt n) m = Some m'" and "(a, t) \<in> set (acpi_writes dsdt n)"
  shows "read_checked m' a (length t) = Some t"
proof -
  note b = layout_bounds(1-4) [of dsdt] layout_bounds(5-8) [of dsdt n]
  let ?w = "acpi_writes dsdt n"
  have disj: "span (fst (?w ! i)) (length (snd (?w ! i))) \<inter> writes_foot (drop (Suc i) ?w) = {}" if "i < 6" for i
  proof -
    from that have "i = 0 \<or> i = 1 \<or> i = 2 \<or> i = 3 \<or> i = 4 \<or> i = 5" by linarith
    then show ?thesis
      using b assms(1) by (elim disjE) (auto simp: acpi_writes_def span_def table_lengths unat_of_nat)
  qed
  have len: "length ?w = 6" by (simp add: acpi_writes_def)
  from assms(3) obtain i where i: "i < 6" "?w ! i = (a, t)" by (auto simp: in_set_conv_nth len)
  then have w: "?w = take i ?w @ (a, t) # drop (Suc i) ?w" using len by (metis id_take_nth_drop)
  show ?thesis
  proof (rule boot_writes_read)
    show "boot_writes (take i ?w @ (a, t) # drop (Suc i) ?w) m = Some m'" using assms(2) w by simp
    show "span a (length t) \<inter> writes_foot (drop (Suc i) ?w) = {}" using disj [OF i(1)] i(2) by simp
  qed
qed

text \<open>All tables are in memory, as \<open>setup_acpi\<close> leaves them and as long as nobody overwrites them.\<close>

definition acpi_present :: "bytes \<Rightarrow> u8 \<Rightarrow> guest_memory \<Rightarrow> bool" where
  "acpi_present dsdt n m \<longleftrightarrow> (\<forall>(a, t) \<in> set (acpi_writes dsdt n). read_checked m a (length t) = Some t)"

lemma acpi_present_writes:
  "length dsdt \<le> 0x1e000 \<Longrightarrow> boot_writes (acpi_writes dsdt n) m = Some m' \<Longrightarrow> acpi_present dsdt n m'"
  using acpi_reads by (auto simp: acpi_present_def)

lemma acpi_present_frame:
  assumes "acpi_present dsdt n m" and "same_outside S m m'" and "length dsdt \<le> 0x1e000" and "S \<inter> {0xe0000..<0xff000} = {}"
  shows "acpi_present dsdt n m'"
proof -
  have "span a (length t) \<inter> S = {}" if "(a, t) \<in> set (acpi_writes dsdt n)" for a t
    using acpi_foot [OF assms(3), of n] assms(4) that by (fastforce simp: writes_foot_def)
  with assms(1,2) show ?thesis unfolding acpi_present_def by (auto simp: read_checked_same_outside)
qed

lemma le64s_entries: "le64s (concat (map le64 es)) = es"
  by (induction es) (simp_all add: le64s.simps [of "_ @ _"] le64s.simps [of "[]"])

lemma le32s_entries: "le32s (concat (map le32 es)) = es"
  by (induction es) (simp_all add: le32s.simps [of "_ @ _"] le32s.simps [of "[]"])

lemma madt_cpus_entries:
  "madt_cpus (concat (map (\<lambda>k. let cpu = of_nat k in [0, 8, cpu, cpu] @ le32 1) ks) @ 1 # rest) = map of_nat ks"
proof (induction ks)
  case Nil
  show ?case by (cases "1 # rest" rule: madt_cpus.cases) auto
next
  case (Cons k ks)
  have "le32 1 = [1, 0, 0, 0]" by (simp add: numeral_eq_Suc)
  then show ?case using Cons.IH by (simp add: Let_def)
qed

lemma acpi_table_found:
  assumes "length dsdt \<le> 0x1e000" and "acpi_present dsdt n m'"
    and "(a, finish (sdt_header sig rv oem @ body)) \<in> set (acpi_writes dsdt n)"
    and "length sig = 4" and "length oem = 8" and "length body < 2 ^ 31"
  shows "os_table m' a = Some (finish (sdt_header sig rv oem @ body))"
  using assms(2,3) sdt_facts [OF assms(4,5), of rv body] assms(6)
  by (intro os_table_Some) (auto simp: acpi_present_def)

lemma acpi_fadt_madt_found:
  assumes "length dsdt \<le> 0x1e000" and "acpi_present dsdt n m'"
  shows "os_table m' (of_nat (fadt_at dsdt)) = Some (build_fadt 0xe0030)"
    and "os_table m' (of_nat (madt_at dsdt)) = Some (build_madt n)"
proof -
  have l: "length (build_fadt 0xe0030) < 2 ^ 31" "length (build_madt n) < 2 ^ 31"
    using unat_lt_pow [of n] by (simp_all add: table_lengths)
  show "os_table m' (of_nat (fadt_at dsdt)) = Some (build_fadt 0xe0030)"
    using l(1) unfolding build_fadt_def append_assoc
    by (intro acpi_table_found [OF assms]) (simp_all add: acpi_writes_def build_fadt_def sdt_facts(1))
  show "os_table m' (of_nat (madt_at dsdt)) = Some (build_madt n)"
    using l(2) unfolding build_madt_def append_assoc
    by (intro acpi_table_found [OF assms]) (simp_all add: acpi_writes_def build_madt_def sdt_facts(1))
qed

lemma xsdt_entries: "take 4 (build_xsdt es) = ascii ''XSDT''" "le64s (drop 36 (build_xsdt es)) = es"
  unfolding build_xsdt_def by (simp_all add: sdt_facts(3,4) le64s_entries)

lemma rsdt_entries: "take 4 (build_rsdt es) = ascii ''RSDT''" "le32s (drop 36 (build_rsdt es)) = es"
  unfolding build_rsdt_def by (simp_all add: sdt_facts(3,4) le32s_entries)

lemma acpi_roots_found:
  assumes "length dsdt \<le> 0x1e000" and "acpi_present dsdt n m'"
  shows "os_xsdt_tables m' = Some [build_fadt 0xe0030, build_madt n]"
    and "os_rsdt_tables m' = Some [build_fadt 0xe0030, build_madt n]"
proof -
  let ?f = "of_nat (fadt_at dsdt)" and ?d = "of_nat (madt_at dsdt)"
  let ?x = "of_nat (xsdt_at dsdt n) :: u64" and ?r = "of_nat (rsdt_at dsdt n)"
  note found = acpi_table_found [OF assms] and tabs = acpi_fadt_madt_found [OF assms]
  have rsdp: "os_scan_rsdp m' = Some (build_rsdp ?r ?x)"
    using assms(2) by (intro os_scan_rsdp_first) (simp add: acpi_present_def acpi_writes_def rsdp_facts acpi_consts)
  have "os_table m' ?x = Some (build_xsdt [?f, ?d])"
    unfolding build_xsdt_def by (rule found) (simp_all add: acpi_writes_def build_xsdt_def)
  then show "os_xsdt_tables m' = Some [build_fadt 0xe0030, build_madt n]"
    unfolding os_xsdt_tables_def by (simp add: rsdp rsdp_facts tabs xsdt_entries)
  have u: "ucast (of_nat k :: u32) = (of_nat k :: u64)" if "k < 2 ^ 32" for k
    using that by (intro eq_of_nat_if_unat) (simp add: unat_simps unat_of_nat)
  have u': "ucast (?r :: u32) = (?r :: u64)" "ucast (?f :: u32) = (?f :: u64)" "ucast (?d :: u32) = (?d :: u64)"
    using layout_bounds(1-4) [of dsdt] layout_bounds(5-8) [of dsdt n] assms(1) by (simp_all add: u)
  have "os_table m' ?r = Some (build_rsdt [?f, ?d])"
    unfolding build_rsdt_def by (rule found) (simp_all add: acpi_writes_def build_rsdt_def)
  then show "os_rsdt_tables m' = Some [build_fadt 0xe0030, build_madt n]"
    unfolding os_rsdt_tables_def by (simp add: rsdp rsdp_facts tabs rsdt_entries u')
qed

lemma fadt_madt_contents:
  "take 4 (build_fadt 0xe0030) = ascii ''FACP''" "subslice (build_fadt 0xe0030) 140 8 = le64 0xe0030"
  "take 4 (build_madt n) = ascii ''APIC''" "madt_cpus (drop 44 (build_madt n)) = map of_nat [0..<unat n]"
proof -
  show "take 4 (build_fadt 0xe0030) = ascii ''FACP''"
    unfolding build_fadt_def append_assoc by (simp add: sdt_facts(3))
  have "subslice (drop 36 (build_fadt 0xe0030)) 104 8 = le64 0xe0030"
    unfolding build_fadt_def append_assoc
    by (subst sdt_facts(4)) (simp_all add: subslice_def system_io_gas_def zero_gas_def Let_def)
  then show "subslice (build_fadt 0xe0030) 140 8 = le64 0xe0030" by (simp add: subslice_def)
  have "madt_cpus (drop 8 (drop 36 (build_madt n))) = map of_nat [0..<unat n]"
    unfolding build_madt_def append_assoc using madt_cpus_entries
    by (simp add: sdt_facts(4) Let_def)
  then show "madt_cpus (drop 44 (build_madt n)) = map of_nat [0..<unat n]" by simp
  show "take 4 (build_madt n) = ascii ''APIC''"
    unfolding build_madt_def append_assoc by (simp add: sdt_facts(3))
qed

text \<open>C9: For every number of processors, the tables fit their window, setting them up touches nothing else,
  and an operating system that scans for the root pointer finds it and, through the XSDT and
  through the RSDT alike, exactly the FADT and the MADT, with every checksum right. The MADT
  announces exactly the APIC ids 0 to \<open>num_cpus - 1\<close>, and the FADT leads to the DSDT.\<close>

theorem acpi_tables_found:
  assumes "0x100000 \<le> unat (mem_size m)" and "length dsdt \<le> 0x1e000"
  shows "\<exists>m' fadt madt. setup_acpi dsdt m n = Some (Inr m') \<and> same_outside {0xe0000..<0xff000} m m' \<and>
    os_xsdt_tables m' = Some [fadt, madt] \<and> os_rsdt_tables m' = Some [fadt, madt] \<and>
    take 4 fadt = ascii ''FACP'' \<and> take 4 madt = ascii ''APIC'' \<and>
    madt_cpus (drop 44 madt) = map of_nat [0..<unat n] \<and>
    read_checked m' (of_le (subslice fadt 140 8)) (length dsdt) = Some dsdt"
proof -
  from boot_writes_total [OF acpi_fits [OF assms(2,1)]] obtain m' where w: "boot_writes (acpi_writes dsdt n) m = Some m'"
    by blast
  have "read_checked m' 0xe0030 (length dsdt) = Some dsdt"
    by (rule acpi_reads [OF assms(2) w]) (simp add: acpi_writes_def)
  moreover have "same_outside {0xe0000..<0xff000} m m'"
    by (rule same_outside_mono [OF boot_writes_frame [OF w] acpi_foot [OF assms(2)]])
  ultimately show ?thesis
    using setup_acpi_eq [OF assms(2,1), of n] w acpi_roots_found [OF assms(2) acpi_present_writes [OF assms(2) w]] fadt_madt_contents(1,2) fadt_madt_contents(3,4) [of n]
    by (intro exI [of _ m'] exI [of _ "build_fadt 0xe0030"] exI [of _ "build_madt n"]) simp
qed

theorem acpi_tables_found_witness:
  "\<exists>m' fadt madt. setup_acpi [1, 2, 3] (mem_new 0x2000000) 2 = Some (Inr m') \<and>
     os_xsdt_tables m' = Some [fadt, madt] \<and> madt_cpus (drop 44 madt) = [0, 1]"
proof -
  have "0x100000 \<le> unat (mem_size (mem_new 0x2000000))" and "length [1 :: byte, 2, 3] \<le> 0x1e000"
    by (simp_all add: mem_new_def)
  moreover have "map of_nat [0..<unat (2 :: u8)] = [0, 1 :: u8]" by (simp add: upt_rec)
  ultimately show ?thesis using acpi_tables_found [of "mem_new 0x2000000" "[1, 2, 3]" 2] by metis
qed

end
