(* ===== verification/Smbios_Tables.thy ===== *)
theory Smbios_Tables
  imports Acpi_Tables
begin

text \<open>
  The SMBIOS tables (\<open>src/smbios.rs\<close>): the four structures, the entry point with its two
  checksums, and \<open>setup_smbios\<close>. The specification is the walk of a DMI scanner: verify the
  entry point, then step from structure to structure over the formatted area and the
  string set, and look strings up by number.
\<close>

definition SMBIOS_BASE :: u64 where "SMBIOS_BASE = 0xff000"
definition SMBIOS_LIMIT :: u64 where "SMBIOS_LIMIT = 0x100000"
definition ENTRY_POINT_LEN :: u64 where "ENTRY_POINT_LEN = 31"
definition TABLE_ADDR :: u64 where "TABLE_ADDR = SMBIOS_BASE + 32"

lemmas smbios_consts = SMBIOS_BASE_def SMBIOS_LIMIT_def ENTRY_POINT_LEN_def TABLE_ADDR_def

definition append_strings :: "bytes \<Rightarrow> string list \<Rightarrow> bytes" where
  "append_strings t strs =
     (if strs = [] then t @ [0, 0] else t @ concat (map (\<lambda>s. ascii s @ [0]) strs) @ [0])"

definition build_bios_info :: "u16 \<Rightarrow> bytes" where
  "build_bios_info h =
     (let t = replicate 24 0; t = t[0 := 0]; t = t[1 := 24]; t = put_at t 2 (le16 h); t = t[4 := 1]; t = t[5 := 2];
          t = put_at t 6 (le16 0xe000); t = t[8 := 3]; t = t[9 := 0]; t = t[18 := 0]; t = t[19 := 0];
          t = t[20 := 1]; t = t[21 := 0]; t = t[22 := 0xff]; t = t[23 := 0xff]
      in append_strings t [''hyperbug'', ''1.0'', ''01/01/2026''])"

definition build_system_info :: "u16 \<Rightarrow> bytes" where
  "build_system_info h =
     (let t = replicate 27 0; t = t[0 := 1]; t = t[1 := 27]; t = put_at t 2 (le16 h); t = t[4 := 1]; t = t[5 := 2];
          t = t[6 := 3]; t = t[7 := 4];
          t = put_at t 8 [0x48, 0x59, 0x42, 0x47, 0x00, 0x01, 0x00, 0x01, 0x00, 0x01, 0x48, 0x59, 0x42, 0x55, 0x47, 0x00];
          t = t[24 := 0x06]; t = t[25 := 0]; t = t[26 := 5]
      in append_strings t [''hyperbug'', ''hyperbug-vm'', ''1.0'', ''HB-0000-0001'', ''hyperbug''])"

definition build_chassis_info :: "u16 \<Rightarrow> bytes" where
  "build_chassis_info h =
     (let t = replicate 9 0; t = t[0 := 3]; t = t[1 := 9]; t = put_at t 2 (le16 h); t = t[4 := 1]; t = t[5 := 0x17];
          t = t[6 := 2]; t = t[7 := 3]; t = t[8 := 0]
      in append_strings t [''hyperbug'', ''1.0'', ''HB-CHASSIS-0001''])"

definition build_end_marker :: "u16 \<Rightarrow> bytes" where
  "build_end_marker h =
     (let t = replicate 4 0; t = t[0 := 127]; t = t[1 := 4]; t = put_at t 2 (le16 h) in append_strings t [])"

definition build_entry_point :: "u32 \<Rightarrow> u16 \<Rightarrow> u16 \<Rightarrow> u16 \<Rightarrow> bytes" where
  "build_entry_point table_addr table_len num_structures max_structure_size =
     (let e = replicate 31 0; e = put_at e 0 (ascii ''_SM_''); e = e[5 := ucast ENTRY_POINT_LEN]; e = e[6 := 2]; e = e[7 := 8];
          e = put_at e 8 (le16 max_structure_size); e = e[10 := 0];
          e = put_at e 16 (ascii ''_DMI_''); e = put_at e 22 (le16 table_len); e = put_at e 24 (le32 table_addr);
          e = put_at e 28 (le16 num_structures); e = e[30 := 0x28];
          e = e[21 := checksum (subslice e 16 15)]
      in e[4 := checksum e])"

datatype smbios_error = Smbios_overflow nat

definition setup_smbios :: "guest_memory \<Rightarrow> (smbios_error + guest_memory) option" where
  "setup_smbios m =
     (let bios = build_bios_info 0; system = build_system_info 1; chassis = build_chassis_info 2; end = build_end_marker 3;
          max_structure_size = of_nat (fold max [length bios, length system, length chassis, length end] 0);
          table = [] @ bios @ system @ chassis @ end
      in if unat SMBIOS_LIMIT < unat TABLE_ADDR + length table then Some (Inl (Smbios_overflow (length table)))
         else
           let entry = build_entry_point (ucast TABLE_ADDR) (of_nat (length table)) 4 max_structure_size in
           case write_slice_boot m SMBIOS_BASE entry of
             None \<Rightarrow> None
           | Some m1 \<Rightarrow> map_option Inr (write_slice_boot m1 TABLE_ADDR table))"

subsection \<open>A DMI scanner\<close>

fun skip_strings :: "bytes \<Rightarrow> bytes" where
  "skip_strings (a # b # rest) = (if a = 0 \<and> b = 0 then rest else skip_strings (b # rest))"
| "skip_strings _ = []"

text \<open>String \<open>k\<close> (counted from 1) of a string set.\<close>

fun nth_string :: "nat \<Rightarrow> bytes \<Rightarrow> bytes" where
  "nth_string 0 bs = []"
| "nth_string (Suc 0) bs = takeWhile (\<lambda>b. b \<noteq> 0) bs"
| "nth_string (Suc (Suc k)) bs = nth_string (Suc k) (drop 1 (dropWhile (\<lambda>b. b \<noteq> 0) bs))"

text \<open>The walk yields each structure's type, handle, and the string its byte \<open>4\<close> refers to.\<close>

fun dmi_walk :: "nat \<Rightarrow> bytes \<Rightarrow> (u8 \<times> u16 \<times> bytes) list" where
  "dmi_walk 0 d = []"
| "dmi_walk (Suc n) d =
     (let tail = drop (unat (d ! 1)) d in
      (d ! 0, of_le (subslice d 2 2), if unat (d ! 1) < 5 then [] else nth_string (unat (d ! 4)) tail) #
        dmi_walk n (skip_strings tail))"

definition os_dmi :: "guest_memory \<Rightarrow> u64 \<Rightarrow> (u8 \<times> u16 \<times> bytes) list option" where
  "os_dmi m a =
     (case read_checked m a 31 of
        None \<Rightarrow> None
      | Some e \<Rightarrow>
          if take 4 e = ascii ''_SM_'' \<and> e ! 5 = 31 \<and> sum_list e = 0 \<and>
             subslice e 16 5 = ascii ''_DMI_'' \<and> sum_list (subslice e 16 15) = 0
          then map_option (dmi_walk (unat (of_le (subslice e 28 2) :: u16)))
                 (read_checked m (ucast (of_le (subslice e 24 4) :: u32)) (unat (of_le (subslice e 22 2) :: u16)))
          else None)"

subsection \<open>The tables\<close>

definition smbios_table :: bytes where
  "smbios_table = build_bios_info 0 @ build_system_info 1 @ build_chassis_info 2 @ build_end_marker 3"

definition smbios_ep :: bytes where
  "smbios_ep = build_entry_point 0xff020 169 4 75"

lemma smbios_table_length: "length smbios_table = 169"
  by code_simp

lemma smbios_table_walk:
  "dmi_walk 4 smbios_table = [(0, 0, ascii ''hyperbug''), (1, 1, ascii ''hyperbug''), (3, 2, ascii ''hyperbug''), (127, 3, [])]"
  by code_simp

lemma smbios_ep_facts:
  "length smbios_ep = 31" "take 4 smbios_ep = ascii ''_SM_''" "smbios_ep ! 5 = 31" "sum_list smbios_ep = 0"
  "subslice smbios_ep 16 5 = ascii ''_DMI_''" "sum_list (subslice smbios_ep 16 15) = 0"
  "(of_le (subslice smbios_ep 28 2) :: u16) = 4" "(of_le (subslice smbios_ep 24 4) :: u32) = 0xff020"
  "(of_le (subslice smbios_ep 22 2) :: u16) = 169"
  by code_simp+

definition smbios_writes :: "(u64 \<times> bytes) list" where
  "smbios_writes = [(0xff000, smbios_ep), (0xff020, smbios_table)]"

lemma structure_max:
  "fold max [length (build_bios_info 0), length (build_system_info 1), length (build_chassis_info 2), length (build_end_marker 3)] 0 = 75"
  by code_simp

lemma setup_smbios_eq: "setup_smbios m = map_option Inr (boot_writes smbios_writes m)"
proof -
  have "unat TABLE_ADDR = 0xff020" "TABLE_ADDR = 0xff020" "SMBIOS_BASE = 0xff000" "unat SMBIOS_LIMIT = 0x100000"
    "(ucast TABLE_ADDR :: u32) = 0xff020"
    by (simp_all add: smbios_consts)
  then show ?thesis
    unfolding setup_smbios_def Let_def structure_max append_Nil smbios_table_def [symmetric] smbios_table_length smbios_writes_def
    by (simp add: smbios_ep_def split: option.split)
qed

lemma smbios_foot: "writes_foot smbios_writes \<subseteq> {0xff000..<0x100000}"
  by (auto simp: smbios_writes_def span_def smbios_table_length smbios_ep_facts)

lemma smbios_fits: "0x100000 \<le> unat (mem_size m) \<Longrightarrow> fits_all m smbios_writes"
  by (simp add: smbios_writes_def mem_fits_def smbios_table_length smbios_ep_facts)

definition smbios_present :: "guest_memory \<Rightarrow> bool" where
  "smbios_present m \<longleftrightarrow> read_checked m 0xff000 (length smbios_ep) = Some smbios_ep \<and>
     read_checked m 0xff020 (length smbios_table) = Some smbios_table"

lemma smbios_present_writes:
  assumes "boot_writes smbios_writes m = Some m'"
  shows "smbios_present m'"
proof -
  have "read_checked m' 0xff000 (length smbios_ep) = Some smbios_ep"
    using assms by (intro boot_writes_read [of "[]" _ _ "[(0xff020, smbios_table)]" m])
      (auto simp: smbios_writes_def span_def smbios_ep_facts)
  moreover have "read_checked m' 0xff020 (length smbios_table) = Some smbios_table"
    using assms by (intro boot_writes_read [of "[(0xff000, smbios_ep)]" _ _ "[]" m]) (simp_all add: smbios_writes_def)
  ultimately show ?thesis by (simp add: smbios_present_def)
qed

lemma smbios_present_frame:
  "smbios_present m \<Longrightarrow> same_outside S m m' \<Longrightarrow> S \<inter> {0xff000..<0x100000} = {} \<Longrightarrow> smbios_present m'"
  unfolding smbios_present_def by (subst (1 2) read_checked_same_outside [of S m m'])
    (auto simp: span_def smbios_ep_facts smbios_table_length)

lemma smbios_reads: "smbios_present m \<Longrightarrow> os_dmi m 0xff000 = Some (dmi_walk 4 smbios_table)"
  by (simp add: smbios_present_def os_dmi_def smbios_ep_facts smbios_table_length)

text \<open>Whatever memory held, setting up SMBIOS in a guest of at least 1 MiB succeeds, touches only the 4 KiB
  below 1 MiB, and leaves an entry point on a 16-byte boundary of the scanned window from which a
  DMI scanner, both checksums verified, walks exactly the BIOS, system, chassis and end-of-table
  structures, in this order, each with its handle and its first string.\<close>

lemma smbios_tables_found:
  assumes "0x100000 \<le> unat (mem_size m)"
  shows "\<exists>m'. setup_smbios m = Some (Inr m') \<and> same_outside {0xff000..<0x100000} m m' \<and>
    os_dmi m' SMBIOS_BASE = Some [(0, 0, ascii ''hyperbug''), (1, 1, ascii ''hyperbug''), (3, 2, ascii ''hyperbug''), (127, 3, [])]"
proof -
  from boot_writes_total [OF smbios_fits [OF assms]] obtain m' where w: "boot_writes smbios_writes m = Some m'" by blast
  show ?thesis
    using setup_smbios_eq [of m] w smbios_reads [OF smbios_present_writes [OF w]] same_outside_mono [OF boot_writes_frame [OF w] smbios_foot]
    by (intro exI [of _ m']) (simp add: SMBIOS_BASE_def smbios_table_walk)
qed

lemma smbios_tables_found_example: "\<exists>m'. setup_smbios (mem_new 0x2000000) = Some (Inr m')"
  using smbios_tables_found [of "mem_new 0x2000000"] by (auto simp: mem_new_def)

end
