(* ===== verification/Exit_Signal.thy ===== *)
theory Exit_Signal
  imports Acpi_Tables
begin

text \<open>
  How a run ends: \<open>HyperbugError\<close>, \<open>GuestExit\<close> and the \<open>ExitSignal\<close> of \<open>src/error.rs\<close>, the ACPI
  shutdown and reset registers of \<open>src/acpi.rs\<close> that write to it, and the translation to a process
  exit code in \<open>src/main.rs\<close>. Error messages are of an arbitrary type \<open>'m\<close>.

  The signal is shared by every vCPU thread, the reactor and the devices. \<open>request_exit\<close> is the
  atomic reading of the code; \<open>exit_step\<close> is its interleaving semantics, in which each writer takes
  the lock, stores the result and sets the flag in separate steps, as the code does.
\<close>

datatype 'm hyperbug_error = Io 'm | Kvm 'm | Python 'm | Config 'm

fun error_exit_code :: "'m hyperbug_error \<Rightarrow> int" where
  "error_exit_code (Config m) = 2"
| "error_exit_code (Io m) = 1"
| "error_exit_code (Kvm m) = 1"
| "error_exit_code (Python m) = 1"

definition CLEAN_SHUTDOWN :: int where "CLEAN_SHUTDOWN = 0"
definition REQUESTED_REBOOT :: int where "REQUESTED_REBOOT = 10"
definition TRIPLE_FAULT :: int where "TRIPLE_FAULT = 11"
definition MIGRATED_AWAY :: int where "MIGRATED_AWAY = 13"

datatype guest_exit = CleanShutdown | RequestedReboot | TripleFault | UserQuit | MigratedAway

fun guest_exit_code :: "guest_exit \<Rightarrow> int" where
  "guest_exit_code CleanShutdown = CLEAN_SHUTDOWN"
| "guest_exit_code RequestedReboot = REQUESTED_REBOOT"
| "guest_exit_code TripleFault = TRIPLE_FAULT"
| "guest_exit_code UserQuit = 1"
| "guest_exit_code MigratedAway = MIGRATED_AWAY"

type_synonym 'm run_result = "'m hyperbug_error + guest_exit"

record 'm exit_signal =
  requested :: bool
  exit_result :: "'m run_result option"

definition new_exit_slot :: "'m exit_signal" where
  "new_exit_slot = \<lparr>requested = False, exit_result = None\<rparr>"

definition is_requested :: "'m exit_signal \<Rightarrow> bool" where
  "is_requested s = requested s"

definition exit_take :: "'m exit_signal \<Rightarrow> 'm run_result option" where
  "exit_take s = (if \<not> is_requested s then None else exit_result s)"

definition request_exit :: "'m exit_signal \<Rightarrow> 'm run_result \<Rightarrow> 'm exit_signal" where
  "request_exit s r = (if exit_result s = None then s\<lparr>exit_result := Some r, requested := True\<rparr> else s)"

definition SLP_EN :: u8 where "SLP_EN = push_bit 5 1"

definition sleep_control_read :: "u64 \<Rightarrow> nat \<Rightarrow> bytes" where
  "sleep_control_read off n = replicate n 0"

definition sleep_control_write :: "'m exit_signal \<Rightarrow> u64 \<Rightarrow> bytes \<Rightarrow> bool \<times> 'm exit_signal" where
  "sleep_control_write s off data =
     (False, case data of b # _ \<Rightarrow> if b AND SLP_EN \<noteq> 0 then request_exit s (Inr CleanShutdown) else s | [] \<Rightarrow> s)"

definition reset_control_read :: "u64 \<Rightarrow> nat \<Rightarrow> bytes" where
  "reset_control_read off n = replicate n 0"

definition reset_control_write :: "'m exit_signal \<Rightarrow> u64 \<Rightarrow> bytes \<Rightarrow> bool \<times> 'm exit_signal" where
  "reset_control_write s off data =
     (False, case data of b # _ \<Rightarrow> if b = RESET_VALUE then request_exit s (Inr RequestedReboot) else s | [] \<Rightarrow> s)"

subsection \<open>The interleaving semantics\<close>

text \<open>A thread inside \<open>request_exit\<close>: before the lock, holding it, having stored its result, returned.\<close>

datatype 'm writer_pc = Waiting "'m run_result" | Holding "'m run_result" | Stored | Returned

record 'm exit_state =
  sig :: "'m exit_signal"
  lock_owner :: "nat option"
  writers :: "nat \<Rightarrow> 'm writer_pc"

inductive exit_step :: "'m exit_state \<Rightarrow> 'm exit_state \<Rightarrow> bool" where
  acquire: "writers s t = Waiting r \<Longrightarrow> lock_owner s = None \<Longrightarrow>
    exit_step s (s\<lparr>lock_owner := Some t, writers := (writers s)(t := Holding r)\<rparr>)"
| store: "writers s t = Holding r \<Longrightarrow> exit_result (sig s) = None \<Longrightarrow>
    exit_step s (s\<lparr>sig := (sig s)\<lparr>exit_result := Some r\<rparr>, writers := (writers s)(t := Stored)\<rparr>)"
| flag: "writers s t = Stored \<Longrightarrow>
    exit_step s (s\<lparr>sig := (sig s)\<lparr>requested := True\<rparr>, lock_owner := None, writers := (writers s)(t := Returned)\<rparr>)"
| skip: "writers s t = Holding r \<Longrightarrow> exit_result (sig s) \<noteq> None \<Longrightarrow>
    exit_step s (s\<lparr>lock_owner := None, writers := (writers s)(t := Returned)\<rparr>)"

inductive_cases exit_stepE: "exit_step s s'"

definition exit_start :: "(nat \<Rightarrow> 'm run_result) \<Rightarrow> 'm exit_state" where
  "exit_start rs = \<lparr>sig = new_exit_slot, lock_owner = None, writers = (\<lambda>t. Waiting (rs t))\<rparr>"

definition in_section :: "'m writer_pc \<Rightarrow> bool" where
  "in_section pc \<longleftrightarrow> (case pc of Holding _ \<Rightarrow> True | Stored \<Rightarrow> True | _ \<Rightarrow> False)"

text \<open>Mutual exclusion, the flag follows the result, and the results are the threads' own.\<close>

definition exit_inv :: "(nat \<Rightarrow> 'm run_result) \<Rightarrow> 'm exit_state \<Rightarrow> bool" where
  "exit_inv rs s \<longleftrightarrow>
     (\<forall>t. in_section (writers s t) \<longleftrightarrow> lock_owner s = Some t) \<and>
     (requested (sig s) \<longrightarrow> exit_result (sig s) \<noteq> None) \<and>
     (exit_result (sig s) \<noteq> None \<longrightarrow> requested (sig s) \<or> (\<exists>t. writers s t = Stored)) \<and>
     (\<forall>t. writers s t = Stored \<longrightarrow> exit_result (sig s) \<noteq> None) \<and>
     (\<forall>t r. writers s t = Waiting r \<or> writers s t = Holding r \<longrightarrow> r = rs t) \<and>
     (\<forall>r. exit_result (sig s) = Some r \<longrightarrow> r \<in> range rs) \<and>
     (\<forall>t. writers s t = Returned \<longrightarrow> exit_take (sig s) \<noteq> None)"

lemma exit_inv_start: "exit_inv rs (exit_start rs)"
  by (simp add: exit_inv_def exit_start_def new_exit_slot_def in_section_def)

lemma exit_inv_step: "exit_step s s' \<Longrightarrow> exit_inv rs s \<Longrightarrow> exit_inv rs s'"
proof (induction rule: exit_step.induct)
  case (acquire s t r)
  then show ?case by (auto simp: exit_inv_def in_section_def split: writer_pc.splits)
next
  case (store s t r)
  then have "r = rs t" by (auto simp: exit_inv_def)
  then have "r \<in> range rs" by simp
  with store show ?case
    by (auto simp: exit_inv_def in_section_def exit_take_def is_requested_def split: writer_pc.splits if_splits)
next
  case (flag s t)
  then show ?case
    by (auto simp: exit_inv_def in_section_def exit_take_def is_requested_def split: writer_pc.splits if_splits)
next
  case (skip s t r)
  have "writers s t' \<noteq> Stored" for t'
  proof
    assume "writers s t' = Stored"
    then have "in_section (writers s t')" "in_section (writers s t)" using skip(1) by (simp_all add: in_section_def)
    then have "t' = t" using skip(3) by (auto simp: exit_inv_def)
    with skip(1) \<open>writers s t' = Stored\<close> show False by simp
  qed
  with skip show ?case
    by (auto simp: exit_inv_def in_section_def exit_take_def is_requested_def split: writer_pc.splits if_splits)
qed

lemma exit_inv_reachable: "exit_step\<^sup>*\<^sup>* (exit_start rs) s \<Longrightarrow> exit_inv rs s"
  by (induction rule: rtranclp_induct) (blast intro: exit_inv_start exit_inv_step)+

lemma exit_result_stable: "exit_step\<^sup>*\<^sup>* s s' \<Longrightarrow> exit_result (sig s) = Some r \<Longrightarrow> exit_result (sig s') = Some r"
  by (induction rule: rtranclp_induct) (auto elim!: exit_stepE)

lemma requested_stable: "exit_step\<^sup>*\<^sup>* s s' \<Longrightarrow> requested (sig s) \<Longrightarrow> requested (sig s')"
  by (induction rule: rtranclp_induct) (auto elim!: exit_stepE)

text \<open>A thread that runs alone through its steps does what the atomic \<open>request_exit\<close> does.\<close>

lemma request_exit_steps:
  assumes "lock_owner s = None" and "writers s t = Waiting r"
  shows "exit_step\<^sup>*\<^sup>* s (s\<lparr>sig := request_exit (sig s) r, lock_owner := None, writers := (writers s)(t := Returned)\<rparr>)"
proof -
  let ?s1 = "s\<lparr>lock_owner := Some t, writers := (writers s)(t := Holding r)\<rparr>"
  have 1: "exit_step s ?s1" using assms by (intro exit_step.acquire)
  show ?thesis
  proof (cases "exit_result (sig s)")
    case None
    let ?s2 = "?s1\<lparr>sig := (sig s)\<lparr>exit_result := Some r\<rparr>, writers := (writers s)(t := Stored)\<rparr>"
    have 2: "exit_step ?s1 ?s2" using exit_step.store [of ?s1 t r] None by simp
    have 3: "exit_step ?s2 (s\<lparr>sig := request_exit (sig s) r, lock_owner := None, writers := (writers s)(t := Returned)\<rparr>)"
      using exit_step.flag [of ?s2 t] None assms(1) by (simp add: request_exit_def)
    from 1 2 3 show ?thesis by (meson converse_rtranclp_into_rtranclp r_into_rtranclp)
  next
    case (Some x)
    have 2: "exit_step ?s1 (s\<lparr>sig := request_exit (sig s) r, lock_owner := None, writers := (writers s)(t := Returned)\<rparr>)"
      using exit_step.skip [of ?s1 t r] Some assms(1) by (simp add: request_exit_def)
    from 1 2 show ?thesis by (meson converse_rtranclp_into_rtranclp r_into_rtranclp)
  qed
qed

text \<open>C6: The exit signal under every interleaving of any number of threads: what one of them has read as the
  outcome stays the outcome for everybody ever after and is the reason some thread gave, and once
  a call to \<open>request_exit\<close> has returned, the outcome is there to be read.\<close>

theorem exit_first_writer_wins:
  assumes "exit_step\<^sup>*\<^sup>* (exit_start rs) s" and "exit_step\<^sup>*\<^sup>* s s'"
  shows "(exit_take (sig s) = Some r \<longrightarrow> exit_take (sig s') = Some r \<and> r \<in> range rs) \<and>
    (writers s t = Returned \<longrightarrow> exit_take (sig s) \<noteq> None)"
  using exit_inv_reachable [OF assms(1)] exit_result_stable [OF assms(2), of r] requested_stable [OF assms(2)]
  by (auto simp: exit_inv_def exit_take_def is_requested_def split: if_splits)

definition demo_reasons :: "nat \<Rightarrow> string run_result" where
  "demo_reasons t = (if t = 0 then Inr CleanShutdown else Inl (Kvm ''late fault''))"

theorem exit_first_writer_wins_witness:
  "\<exists>s s'. exit_step\<^sup>*\<^sup>* (exit_start demo_reasons) s \<and> exit_step\<^sup>*\<^sup>* s s' \<and> writers s' 1 = Returned \<and>
     exit_take (sig s') = Some (Inr CleanShutdown)"
proof -
  let ?start = "exit_start demo_reasons"
  let ?u = "?start\<lparr>sig := request_exit (sig ?start) (Inr CleanShutdown), lock_owner := None, writers := (writers ?start)(0 := Returned)\<rparr>"
  let ?v = "?u\<lparr>sig := request_exit (sig ?u) (Inl (Kvm ''late fault'')), lock_owner := None, writers := (writers ?u)(1 := Returned)\<rparr>"
  have 1: "exit_step\<^sup>*\<^sup>* ?start ?u" by (rule request_exit_steps [of ?start 0]) (simp_all add: exit_start_def demo_reasons_def)
  have 2: "exit_step\<^sup>*\<^sup>* ?u ?v" by (rule request_exit_steps [of ?u 1]) (simp_all add: exit_start_def demo_reasons_def)
  have "exit_take (sig ?u) = Some (Inr CleanShutdown)"
    by (simp add: exit_start_def new_exit_slot_def request_exit_def exit_take_def is_requested_def)
  with exit_first_writer_wins [OF 1 2, of "Inr CleanShutdown" 1] have "exit_take (sig ?v) = Some (Inr CleanShutdown)" by blast
  with 1 2 show ?thesis by (intro exI [of _ ?u] exI [of _ ?v]) simp
qed

end
