(* ===== verification/Launch_Config.thy ===== *)
theory Launch_Config
  imports Virtio_I2c
begin

text \<open>
  What guest to run (\<open>src/config.rs\<close>): the device specifications, their parsers, \<open>Args\<close> and the
  command-line parser. A string is its list of characters; \<open>Result<T, String>\<close> is a sum whose
  error names the message and its parameters.

  Rust's \<open>str::split\<close>, \<open>split_once\<close>, \<open>strip_prefix\<close> and the integer parsers
  (\<open>from_str_radix\<close>, \<open>parse\<close>) are modelled here too, with their own treatment of empty input,
  a leading \<open>+\<close> and overflow.
\<close>

subsection \<open>Strings and numbers\<close>

fun split_on :: "char \<Rightarrow> string \<Rightarrow> string list" where
  "split_on c [] = [[]]"
| "split_on c (x # xs) =
     (if x = c then [] # split_on c xs
      else case split_on c xs of [] \<Rightarrow> [[x]] | p # ps \<Rightarrow> (x # p) # ps)"

fun split_once :: "char \<Rightarrow> string \<Rightarrow> (string \<times> string) option" where
  "split_once c [] = None"
| "split_once c (x # xs) =
     (if x = c then Some ([], xs) else map_option (\<lambda>(a, b). (x # a, b)) (split_once c xs))"

text \<open>\<open>char::to_digit\<close>.\<close>

definition to_digit :: "nat \<Rightarrow> char \<Rightarrow> nat option" where
  "to_digit radix c =
     (let n = of_char c :: nat;
          d = (if 48 \<le> n \<and> n \<le> 57 then n - 48
               else if 97 \<le> n \<and> n \<le> 122 then n - 87
               else if 65 \<le> n \<and> n \<le> 90 then n - 55 else radix)
      in if d < radix then Some d else None)"

fun parse_digits :: "nat \<Rightarrow> string \<Rightarrow> 'a::len word \<Rightarrow> 'a word option" where
  "parse_digits radix [] acc = Some acc"
| "parse_digits radix (c # cs) acc =
     (case to_digit radix c of
        None \<Rightarrow> None
      | Some d \<Rightarrow>
          (case checked_mul acc (of_nat radix) of
             None \<Rightarrow> None
           | Some a \<Rightarrow> (case checked_add a (of_nat d) of None \<Rightarrow> None | Some a' \<Rightarrow> parse_digits radix cs a')))"

definition from_str_radix :: "nat \<Rightarrow> string \<Rightarrow> 'a::len word option" where
  "from_str_radix radix s =
     (case s of
        [] \<Rightarrow> None
      | c # cs \<Rightarrow>
          if cs = [] \<and> (c = CHR ''+'' \<or> c = CHR ''-'') then None
          else parse_digits radix (if c = CHR ''+'' then cs else s) 0)"

definition ok_or :: "'e \<Rightarrow> 'a option \<Rightarrow> 'e + 'a" where
  "ok_or e r = (case r of None \<Rightarrow> Inl e | Some x \<Rightarrow> Inr x)"

subsection \<open>Device specifications\<close>

datatype config_error =
    Bad_number string string | Zero_dma_range string | Dma_range_wraps string
  | Unrecognized_field string string | Zero_mem string | Bad_cpu string | Unrecognized_key string string
  | Expected string string | Zero_size string | Wraps string | I2c_address string | Pci_number string
  | No_limits string string | Missing_value string | Unrecognized_argument string | Kernel_required
  | Limits_need_sandbox

record resource_limits =
  mem_limit_mb :: "u64 option"
  cpu_quota_percent :: "u32 option"

record device_spec =
  ds_path :: string
  ds_class :: string
  ds_base :: u64
  ds_size :: u64
  ds_dma_range :: "(u64 \<times> u64) option"
  ds_limits :: "resource_limits option"

record pci_device_spec =
  ps_path :: string
  ps_class :: string
  ps_device_number :: u8
  ps_dma_range :: "(u64 \<times> u64) option"
  ps_limits :: "resource_limits option"

record gpio_device_spec =
  gs_path :: string
  gs_class :: string

record i2c_device_spec =
  is_path :: string
  is_class :: string
  is_addr :: u8

record native_device_spec =
  ns_path :: string
  ns_base :: u64
  ns_size :: u64
  ns_dma_range :: "(u64 \<times> u64) option"

record native_pci_device_spec =
  np_path :: string
  np_device_number :: u8
  np_dma_range :: "(u64 \<times> u64) option"

definition MAX_PCI_DEVICE_NUMBER :: u8 where "MAX_PCI_DEVICE_NUMBER = 31"

definition strip_0x :: "string \<Rightarrow> string" where
  "strip_0x s = (if take 2 s = ''0x'' then drop 2 s else s)"

definition parse_hex :: "string \<Rightarrow> string \<Rightarrow> config_error + u64" where
  "parse_hex s what = ok_or (Bad_number what s) (from_str_radix 16 (strip_0x s))"

definition parse_dec :: "string \<Rightarrow> string \<Rightarrow> config_error + 'a::len word" where
  "parse_dec s what = ok_or (Bad_number what s) (from_str_radix 10 s)"

text \<open>The split of the trailing fields, the DMA range and the loop over \<open>key=value\<close> tokens.\<close>

definition trailing_split :: "string list \<Rightarrow> (string \<times> string) option \<times> string list" where
  "trailing_split rest =
     (case rest of
        a # b # tail \<Rightarrow> if CHR ''='' \<notin> set a \<and> CHR ''='' \<notin> set b then (Some (a, b), tail) else (None, rest)
      | _ \<Rightarrow> (None, rest))"

definition parse_dma :: "string \<Rightarrow> (string \<times> string) option \<Rightarrow> config_error + (u64 \<times> u64) option" where
  "parse_dma spec part =
     (case part of
        None \<Rightarrow> Inr None
      | Some (b, s) \<Rightarrow>
          try_bind (parse_hex b ''DMA range base'') (\<lambda>dma_base.
          try_bind (parse_hex s ''DMA range size'') (\<lambda>dma_size.
          if dma_size = 0 then Inl (Zero_dma_range spec)
          else if checked_add dma_base dma_size = None then Inl (Dma_range_wraps spec)
          else Inr (Some (dma_base, dma_size)))))"

fun parse_limits :: "string \<Rightarrow> string list \<Rightarrow> resource_limits \<Rightarrow> config_error + resource_limits" where
  "parse_limits spec [] limits = Inr limits"
| "parse_limits spec (token # ts) limits =
     (case split_once (CHR ''='') token of
        None \<Rightarrow> Inl (Unrecognized_field spec token)
      | Some (key, val) \<Rightarrow>
          if key = ''mem'' then
            try_bind (parse_dec val ''mem'') (\<lambda>mb.
            if mb = 0 then Inl (Zero_mem spec) else parse_limits spec ts (limits\<lparr>mem_limit_mb := Some mb\<rparr>))
          else if key = ''cpu'' then
            try_bind (parse_dec val ''cpu'') (\<lambda>pct.
            if pct = 0 \<or> 10000 < pct then Inl (Bad_cpu spec)
            else parse_limits spec ts (limits\<lparr>cpu_quota_percent := Some pct\<rparr>))
          else Inl (Unrecognized_key spec key))"

definition parse_trailing_options ::
  "string list \<Rightarrow> string \<Rightarrow> config_error + (u64 \<times> u64) option \<times> resource_limits option" where
  "parse_trailing_options rest spec =
     (case trailing_split rest of (dma_part, kv_part) \<Rightarrow>
        try_bind (parse_dma spec dma_part) (\<lambda>dma_range.
        try_bind (parse_limits spec kv_part \<lparr>mem_limit_mb = None, cpu_quota_percent = None\<rparr>) (\<lambda>limits.
        Inr (dma_range, then_some (mem_limit_mb limits \<noteq> None \<or> cpu_quota_percent limits \<noteq> None) limits))))"

definition device_spec_parse :: "string \<Rightarrow> config_error + device_spec" where
  "device_spec_parse spec =
     (case split_on (CHR '':'') spec of
        path # cls # b # s # rest \<Rightarrow>
          try_bind (parse_hex b ''base address'') (\<lambda>b.
          try_bind (parse_hex s ''size'') (\<lambda>s.
          if s = 0 then Inl (Zero_size spec)
          else if checked_add b s = None then Inl (Wraps spec)
          else try_bind (parse_trailing_options rest spec) (\<lambda>(dma_range, limits).
            Inr \<lparr>ds_path = path, ds_class = cls, ds_base = b, ds_size = s, ds_dma_range = dma_range, ds_limits = limits\<rparr>)))
      | _ \<Rightarrow> Inl (Expected ''--device'' spec))"

definition gpio_spec_parse :: "string \<Rightarrow> config_error + gpio_device_spec" where
  "gpio_spec_parse spec =
     (case split_on (CHR '':'') spec of
        [path, cls] \<Rightarrow> Inr \<lparr>gs_path = path, gs_class = cls\<rparr>
      | _ \<Rightarrow> Inl (Expected ''--gpio-device'' spec))"

definition i2c_spec_parse :: "string \<Rightarrow> config_error + i2c_device_spec" where
  "i2c_spec_parse spec =
     (case split_on (CHR '':'') spec of
        [path, cls, addr] \<Rightarrow>
          try_bind (parse_hex addr ''I2C address'') (\<lambda>addr.
          if ucast MAX_I2C_ADDRESS < addr then Inl (I2c_address spec)
          else Inr \<lparr>is_path = path, is_class = cls, is_addr = ucast addr\<rparr>)
      | _ \<Rightarrow> Inl (Expected ''--i2c-device'' spec))"

definition pci_spec_parse :: "string \<Rightarrow> config_error + pci_device_spec" where
  "pci_spec_parse spec =
     (case split_on (CHR '':'') spec of
        path # cls # devnum # rest \<Rightarrow>
          try_bind (parse_dec devnum ''PCI device number'') (\<lambda>n.
          if MAX_PCI_DEVICE_NUMBER < n then Inl (Pci_number spec)
          else try_bind (parse_trailing_options rest spec) (\<lambda>(dma_range, limits).
            Inr \<lparr>ps_path = path, ps_class = cls, ps_device_number = n, ps_dma_range = dma_range, ps_limits = limits\<rparr>))
      | _ \<Rightarrow> Inl (Expected ''--pci-device'' spec))"

definition pci_spec_devfn :: "pci_device_spec \<Rightarrow> u8" where
  "pci_spec_devfn s = push_bit 3 (ps_device_number s)"

definition native_spec_parse :: "string \<Rightarrow> string \<Rightarrow> config_error + native_device_spec" where
  "native_spec_parse flag spec =
     (case split_on (CHR '':'') spec of
        path # b # s # rest \<Rightarrow>
          try_bind (parse_hex b ''base address'') (\<lambda>b.
          try_bind (parse_hex s ''size'') (\<lambda>s.
          if s = 0 then Inl (Zero_size spec)
          else if checked_add b s = None then Inl (Wraps spec)
          else try_bind (parse_trailing_options rest spec) (\<lambda>(dma_range, limits).
            if limits \<noteq> None then Inl (No_limits flag spec)
            else Inr \<lparr>ns_path = path, ns_base = b, ns_size = s, ns_dma_range = dma_range\<rparr>)))
      | _ \<Rightarrow> Inl (Expected flag spec))"

definition native_pci_spec_parse :: "string \<Rightarrow> string \<Rightarrow> config_error + native_pci_device_spec" where
  "native_pci_spec_parse flag spec =
     (case split_on (CHR '':'') spec of
        path # devnum # rest \<Rightarrow>
          try_bind (parse_dec devnum ''PCI device number'') (\<lambda>n.
          if MAX_PCI_DEVICE_NUMBER < n then Inl (Pci_number spec)
          else try_bind (parse_trailing_options rest spec) (\<lambda>(dma_range, limits).
            if limits \<noteq> None then Inl (No_limits flag spec)
            else Inr \<lparr>np_path = path, np_device_number = n, np_dma_range = dma_range\<rparr>))
      | _ \<Rightarrow> Inl (Expected flag spec))"

definition native_pci_spec_devfn :: "native_pci_device_spec \<Rightarrow> u8" where
  "native_pci_spec_devfn s = push_bit 3 (np_device_number s)"

subsection \<open>The command line\<close>

definition DEFAULT_CMDLINE :: string where "DEFAULT_CMDLINE = ''console=ttyS0 panic=1''"
definition DEFAULT_MEM_MB :: u64 where "DEFAULT_MEM_MB = 256"

record args =
  kernel :: string
  initrd :: "string option"
  mem_mb :: u64
  cmdline :: string
  devices :: "device_spec list"
  pci_devices :: "pci_device_spec list"
  sandboxed_devices :: "device_spec list"
  sandboxed_pci_devices :: "pci_device_spec list"
  native_devices :: "native_device_spec list"
  native_pci_devices :: "native_pci_device_spec list"
  wasm_devices :: "native_device_spec list"
  wasm_pci_devices :: "native_pci_device_spec list"
  i2c_devices :: "i2c_device_spec list"
  gpio_devices :: "gpio_device_spec list"
  uart2_log :: "string option"
  uart3_log :: "string option"
  uart4_log :: "string option"
  vsock_uds :: "string option"
  disks :: "string list"
  net_tap :: bool
  rng_modern :: bool
  control_socket :: "string option"
  smp :: u8
  restore :: "string option"
  migrate_listen :: "string option"
  trace_file :: "string option"
  crash_dir :: "string option"
  gdb_stub :: "string option"
  record_path :: "string option"
  replay :: "string option"

definition args_default :: args where
  "args_default = \<lparr>kernel = [], initrd = None, mem_mb = DEFAULT_MEM_MB, cmdline = DEFAULT_CMDLINE, devices = [],
     pci_devices = [], sandboxed_devices = [], sandboxed_pci_devices = [], native_devices = [], native_pci_devices = [],
     wasm_devices = [], wasm_pci_devices = [], i2c_devices = [], gpio_devices = [], uart2_log = None, uart3_log = None,
     uart4_log = None, vsock_uds = None, disks = [], net_tap = False, rng_modern = False, control_socket = None,
     smp = 1, restore = None, migrate_listen = None, trace_file = None, crash_dir = None, gdb_stub = None,
     record_path = None, replay = None\<rparr>"

definition next_value :: "string list \<Rightarrow> string \<Rightarrow> config_error + string \<times> string list" where
  "next_value it flag = (case it of [] \<Rightarrow> Inl (Missing_value flag) | v # rest \<Rightarrow> Inr (v, rest))"

text \<open>
  One turn of the loop of \<open>Args::parse\<close>: the flag is \<open>arg\<close>, \<open>it\<close> what follows it, and the
  state is \<open>args\<close> with the \<open>kernel\<close> seen so far. \<open>flag_value f\<close> is the arm of a flag that takes
  one argument, \<open>f\<close> what the arm does with it.
\<close>

type_synonym parse_state = "args \<times> string option"

definition flag_value ::
  "(string \<Rightarrow> config_error + parse_state) \<Rightarrow> string \<Rightarrow> string list \<Rightarrow> config_error + string list \<times> parse_state" where
  "flag_value f arg it = try_bind (next_value it arg) (\<lambda>(v, rest). try_bind (f v) (\<lambda>st. Inr (rest, st)))"

definition parse_arg :: "string \<Rightarrow> string list \<Rightarrow> parse_state \<Rightarrow> config_error + string list \<times> parse_state" where
  "parse_arg arg it st =
     (case st of (a, k) \<Rightarrow>
      let setting = (\<lambda>f. flag_value (\<lambda>v. Inr (f v, k)) arg it)
      in
      if arg = ''--kernel'' then flag_value (\<lambda>v. Inr (a, Some v)) arg it
      else if arg = ''--initrd'' then setting (\<lambda>v. a\<lparr>initrd := Some v\<rparr>)
      else if arg = ''--cmdline'' then setting (\<lambda>v. a\<lparr>cmdline := v\<rparr>)
      else if arg = ''--control-socket'' then setting (\<lambda>v. a\<lparr>control_socket := Some v\<rparr>)
      else if arg = ''--disk'' then setting (\<lambda>v. a\<lparr>disks := disks a @ [v]\<rparr>)
      else if arg = ''--net'' then Inr (it, a\<lparr>net_tap := True\<rparr>, k)
      else if arg = ''--rng-modern'' then Inr (it, a\<lparr>rng_modern := True\<rparr>, k)
      else if arg = ''--restore'' then setting (\<lambda>v. a\<lparr>restore := Some v\<rparr>)
      else if arg = ''--migrate-listen'' then setting (\<lambda>v. a\<lparr>migrate_listen := Some v\<rparr>)
      else if arg = ''--trace-file'' then setting (\<lambda>v. a\<lparr>trace_file := Some v\<rparr>)
      else if arg = ''--crash-dir'' then setting (\<lambda>v. a\<lparr>crash_dir := Some v\<rparr>)
      else if arg = ''--gdb-stub'' then setting (\<lambda>v. a\<lparr>gdb_stub := Some v\<rparr>)
      else if arg = ''--record'' then setting (\<lambda>v. a\<lparr>record_path := Some v\<rparr>)
      else if arg = ''--replay'' then setting (\<lambda>v. a\<lparr>replay := Some v\<rparr>)
      else if arg = ''--mem'' then
        flag_value (\<lambda>v. try_bind (parse_dec v ''--mem'') (\<lambda>n. Inr (a\<lparr>mem_mb := n\<rparr>, k))) arg it
      else if arg = ''--smp'' then
        flag_value (\<lambda>v. try_bind (parse_dec v ''--smp'') (\<lambda>n. Inr (a\<lparr>smp := n\<rparr>, k))) arg it
      else if arg = ''--device'' then
        flag_value (\<lambda>v. try_bind (device_spec_parse v) (\<lambda>d. Inr (a\<lparr>devices := devices a @ [d]\<rparr>, k))) arg it
      else if arg = ''--pci-device'' then
        flag_value (\<lambda>v. try_bind (pci_spec_parse v) (\<lambda>d. Inr (a\<lparr>pci_devices := pci_devices a @ [d]\<rparr>, k))) arg it
      else if arg = ''--device-sandboxed'' then
        flag_value (\<lambda>v. try_bind (device_spec_parse v)
          (\<lambda>d. Inr (a\<lparr>sandboxed_devices := sandboxed_devices a @ [d]\<rparr>, k))) arg it
      else if arg = ''--pci-device-sandboxed'' then
        flag_value (\<lambda>v. try_bind (pci_spec_parse v)
          (\<lambda>d. Inr (a\<lparr>sandboxed_pci_devices := sandboxed_pci_devices a @ [d]\<rparr>, k))) arg it
      else if arg = ''--native-device'' then
        flag_value (\<lambda>v. try_bind (native_spec_parse arg v)
          (\<lambda>d. Inr (a\<lparr>native_devices := native_devices a @ [d]\<rparr>, k))) arg it
      else if arg = ''--native-pci-device'' then
        flag_value (\<lambda>v. try_bind (native_pci_spec_parse arg v)
          (\<lambda>d. Inr (a\<lparr>native_pci_devices := native_pci_devices a @ [d]\<rparr>, k))) arg it
      else if arg = ''--wasm-device'' then
        flag_value (\<lambda>v. try_bind (native_spec_parse arg v)
          (\<lambda>d. Inr (a\<lparr>wasm_devices := wasm_devices a @ [d]\<rparr>, k))) arg it
      else if arg = ''--wasm-pci-device'' then
        flag_value (\<lambda>v. try_bind (native_pci_spec_parse arg v)
          (\<lambda>d. Inr (a\<lparr>wasm_pci_devices := wasm_pci_devices a @ [d]\<rparr>, k))) arg it
      else if arg = ''--i2c-device'' then
        flag_value (\<lambda>v. try_bind (i2c_spec_parse v) (\<lambda>d. Inr (a\<lparr>i2c_devices := i2c_devices a @ [d]\<rparr>, k))) arg it
      else if arg = ''--gpio-device'' then
        flag_value (\<lambda>v. try_bind (gpio_spec_parse v) (\<lambda>d. Inr (a\<lparr>gpio_devices := gpio_devices a @ [d]\<rparr>, k))) arg it
      else if arg = ''--uart2-log'' then setting (\<lambda>v. a\<lparr>uart2_log := Some v\<rparr>)
      else if arg = ''--uart3-log'' then setting (\<lambda>v. a\<lparr>uart3_log := Some v\<rparr>)
      else if arg = ''--uart4-log'' then setting (\<lambda>v. a\<lparr>uart4_log := Some v\<rparr>)
      else if arg = ''--vsock-uds'' then setting (\<lambda>v. a\<lparr>vsock_uds := Some v\<rparr>)
      else Inl (Unrecognized_argument arg))"

lemma try_bind_Inr: "try_bind r f = Inr y \<longleftrightarrow> (\<exists>x. r = Inr x \<and> f x = Inr y)"
  by (cases r) (simp_all add: try_bind_def)

lemma flag_value_Inr:
  "flag_value f arg it = Inr (rest, st) \<longleftrightarrow> (\<exists>v. it = v # rest \<and> f v = Inr st)"
  by (cases it; cases st) (auto simp: flag_value_def next_value_def try_bind_Inr try_bind_def [of "Inl _"])

lemma parse_arg_shrinks: "parse_arg arg it st = Inr (rest, st') \<Longrightarrow> length rest \<le> length it"
  by (auto simp: parse_arg_def Let_def flag_value_Inr split: prod.splits if_splits)

function parse_loop :: "string list \<Rightarrow> parse_state \<Rightarrow> config_error + parse_state" where
  "parse_loop [] st = Inr st"
| "parse_loop (arg # it) st = (case parse_arg arg it st of Inl e \<Rightarrow> Inl e | Inr (rest, st') \<Rightarrow> parse_loop rest st')"
  by pat_completeness auto

termination
  by (relation "measure (\<lambda>(it, st). length it)") (auto dest: parse_arg_shrinks simp: le_imp_less_Suc)

definition args_parse :: "string list \<Rightarrow> config_error + args" where
  "args_parse argv =
     try_bind (parse_loop argv (args_default, None)) (\<lambda>(a, k).
     try_bind (ok_or Kernel_required k) (\<lambda>k.
     if list_ex (\<lambda>d. ds_limits d \<noteq> None) (devices a) \<or> list_ex (\<lambda>d. ps_limits d \<noteq> None) (pci_devices a)
     then Inl Limits_need_sandbox else Inr (a\<lparr>kernel := k\<rparr>)))"

subsection \<open>Numbers\<close>

text \<open>The value of a digit string, and the digits of a number.\<close>

fun digits_value :: "nat \<Rightarrow> string \<Rightarrow> nat \<Rightarrow> nat option" where
  "digits_value radix [] acc = Some acc"
| "digits_value radix (c # cs) acc =
     (case to_digit radix c of None \<Rightarrow> None | Some d \<Rightarrow> digits_value radix cs (acc * radix + d))"

lemma digits_value_ge: "0 < radix \<Longrightarrow> digits_value radix cs acc = Some n \<Longrightarrow> acc \<le> n"
proof (induction radix cs acc rule: digits_value.induct)
  case (2 radix c cs acc)
  then obtain d where d: "to_digit radix c = Some d" "acc * radix + d \<le> n" by (auto split: option.splits)
  have "acc \<le> acc * radix" using 2(2) by simp
  with d show ?case by linarith
qed simp

lemma to_digit_bound: "to_digit radix c = Some d \<Longrightarrow> d < radix"
  by (auto simp: to_digit_def Let_def split: if_splits)

lemma parse_digits_eq:
  assumes "0 < radix" and "radix < 2 ^ LENGTH('a)"
  shows "parse_digits radix cs (acc :: 'a::len word) =
    (case digits_value radix cs (unat acc) of
       None \<Rightarrow> None | Some n \<Rightarrow> if n < 2 ^ LENGTH('a) then Some (of_nat n) else None)"
proof (induction cs arbitrary: acc)
  case (Cons c cs)
  show ?case
  proof (cases "to_digit radix c")
    case (Some d)
    have d: "d < radix" by (rule to_digit_bound [OF Some])
    have u: "unat (of_nat radix :: 'a word) = radix" "unat (of_nat d :: 'a word) = d"
      using assms d by (simp_all add: unat_of_nat)
    let ?n = "unat acc * radix + d"
    show ?thesis
    proof (cases "?n < 2 ^ LENGTH('a)")
      case True
      then have "unat acc * radix < 2 ^ LENGTH('a)" by linarith
      then have m: "checked_mul acc (of_nat radix) = Some (acc * of_nat radix)" "unat (acc * of_nat radix) = unat acc * radix"
        using u by (simp_all add: checked_mul_def unat_word_ariths)
      with True u have a: "checked_add (acc * of_nat radix) (of_nat d) = Some (acc * of_nat radix + of_nat d)"
        "unat (acc * of_nat radix + of_nat d) = ?n" by (simp_all add: checked_add_def unat_word_ariths)
      show ?thesis by (simp add: Some m a Cons.IH)
    next
      case False
      then have "parse_digits radix (c # cs) acc = None"
        using u by (auto simp: Some checked_mul_def checked_add_def unat_word_ariths split: option.split)
      moreover have "n \<ge> 2 ^ LENGTH('a)" if "digits_value radix cs ?n = Some n" for n
        using digits_value_ge [OF assms(1) that] False by simp
      ultimately show ?thesis by (auto simp: Some not_less split: option.split)
    qed
  qed simp
qed simp

definition digit_char :: "nat \<Rightarrow> char" where
  "digit_char d = (if d < 10 then char_of (48 + d) else char_of (87 + d))"

fun show_radix :: "nat \<Rightarrow> nat \<Rightarrow> string" where
  "show_radix radix n =
     (if n < radix \<or> radix < 2 then [digit_char n] else show_radix radix (n div radix) @ [digit_char (n mod radix)])"

declare show_radix.simps [simp del]

lemma to_digit_char: "d < radix \<Longrightarrow> radix \<le> 36 \<Longrightarrow> to_digit radix (digit_char d) = Some d"
  by (auto simp: to_digit_def digit_char_def Let_def of_char_of)

lemma digits_value_append:
  "digits_value radix (xs @ ys) acc = (case digits_value radix xs acc of None \<Rightarrow> None | Some n \<Rightarrow> digits_value radix ys n)"
  by (induction radix xs acc rule: digits_value.induct) (auto split: option.split)

lemma digits_value_show: "2 \<le> radix \<Longrightarrow> radix \<le> 36 \<Longrightarrow> digits_value radix (show_radix radix n) 0 = Some n"
proof (induction radix n rule: show_radix.induct)
  case (1 radix n)
  show ?case
  proof (cases "n < radix")
    case True
    with 1 show ?thesis by (subst show_radix.simps) (simp add: to_digit_char)
  next
    case False
    with 1 show ?thesis by (subst show_radix.simps) (simp add: to_digit_char digits_value_append)
  qed
qed

lemma show_radix_chars: "2 \<le> radix \<Longrightarrow> radix \<le> 36 \<Longrightarrow> c \<in> set (show_radix radix n) \<Longrightarrow> \<exists>d < radix. c = digit_char d"
proof (induction radix n rule: show_radix.induct)
  case (1 radix n)
  from 1(4) 1(2) have "c = digit_char (n mod radix) \<or> \<not> (n < radix \<or> radix < 2) \<and> c \<in> set (show_radix radix (n div radix))"
    by (subst (asm) show_radix.simps) (auto split: if_splits)
  moreover have "n mod radix < radix" using 1(2) by (intro mod_less_divisor) linarith
  ultimately show ?case using 1(1) [OF _ 1(2,3)] by metis
qed

lemma show_radix_nonempty [simp]: "show_radix radix n \<noteq> []"
  by (subst show_radix.simps) simp

lemma digit_char_plain:
  assumes "d < 36"
  shows "digit_char d \<noteq> CHR ''+''" "digit_char d \<noteq> CHR ''-''" "digit_char d \<noteq> CHR '':''" "digit_char d \<noteq> CHR ''=''"
proof -
  have "of_char (digit_char d) = (if d < 10 then 48 + d else 87 + d)"
    using assms by (simp add: digit_char_def of_char_of)
  then show "digit_char d \<noteq> CHR ''+''" "digit_char d \<noteq> CHR ''-''" "digit_char d \<noteq> CHR '':''" "digit_char d \<noteq> CHR ''=''"
    using assms by (auto split: if_splits)
qed

lemma show_radix_plain:
  assumes "2 \<le> radix" and "radix \<le> 36" and "c \<in> set (show_radix radix n)"
  shows "c \<noteq> CHR ''+''" "c \<noteq> CHR ''-''" "c \<noteq> CHR '':''" "c \<noteq> CHR ''=''"
  using show_radix_chars [OF assms] digit_char_plain assms(2) by (metis le_trans less_le_trans)+

lemma from_str_radix_show:
  assumes "2 \<le> radix" and "radix \<le> 36" and "radix < 2 ^ LENGTH('a)" and "n < 2 ^ LENGTH('a)"
  shows "from_str_radix radix (show_radix radix n) = Some (of_nat n :: 'a::len word)"
proof -
  obtain c cs where s: "show_radix radix n = c # cs" by (cases "show_radix radix n") auto
  with show_radix_plain [OF assms(1,2), of c n] have "c \<noteq> CHR ''+''" "c \<noteq> CHR ''-''" by auto
  then have "from_str_radix radix (show_radix radix n) = (parse_digits radix (show_radix radix n) 0 :: 'a word option)"
    by (simp add: from_str_radix_def s)
  also have "\<dots> = Some (of_nat n)"
    using assms digits_value_show [OF assms(1,2), of n] by (simp add: parse_digits_eq)
  finally show ?thesis .
qed

definition show_hex :: "u64 \<Rightarrow> string" where
  "show_hex w = ''0x'' @ show_radix 16 (unat w)"

definition show_dec :: "'a::len word \<Rightarrow> string" where
  "show_dec w = show_radix 10 (unat w)"

lemma parse_hex_show [simp]: "parse_hex (show_hex w) what = Inr w"
  using from_str_radix_show [of 16 "unat w", where 'a = 64] unat_lt_pow [of w] by (simp add: parse_hex_def show_hex_def strip_0x_def ok_or_def)

lemma parse_dec_show [simp]: "10 < (2 :: nat) ^ LENGTH('a) \<Longrightarrow> parse_dec (show_dec w) what = Inr (w :: 'a::len word)"
  using from_str_radix_show [of 10 "unat w", where 'a = 'a] by (simp add: parse_dec_def show_dec_def ok_or_def)

lemma show_plain [simp]:
  "CHR '':'' \<notin> set (show_hex w)" "CHR ''='' \<notin> set (show_hex w)"
  "CHR '':'' \<notin> set (show_dec v)" "CHR ''='' \<notin> set (show_dec v)"
  using show_radix_plain(3,4) [of 16 _ "unat w"] show_radix_plain(3,4) [of 10 _ "unat v"]
  by (simp_all add: show_hex_def show_dec_def) blast+

subsection \<open>Specifications\<close>

lemma split_on_plain [simp]: "c \<notin> set p \<Longrightarrow> split_on c p = [p]"
  by (induction p) auto

lemma split_on_field [simp]: "c \<notin> set p \<Longrightarrow> split_on c (p @ c # rest) = p # split_on c rest"
  by (induction p) auto

lemma split_once_field [simp]: "c \<notin> set p \<Longrightarrow> split_once c (p @ c # rest) = Some (p, rest)"
  by (induction p) auto

text \<open>The trailing fields of a specification, as an operator writes them.\<close>

definition dma_fields :: "(u64 \<times> u64) option \<Rightarrow> string list" where
  "dma_fields r = (case r of None \<Rightarrow> [] | Some (b, s) \<Rightarrow> [show_hex b, show_hex s])"

definition limit_fields :: "resource_limits option \<Rightarrow> string list" where
  "limit_fields r = (case r of None \<Rightarrow> [] | Some l \<Rightarrow>
     (case mem_limit_mb l of None \<Rightarrow> [] | Some mb \<Rightarrow> [''mem='' @ show_dec mb]) @
     (case cpu_quota_percent l of None \<Rightarrow> [] | Some p \<Rightarrow> [''cpu='' @ show_dec p]))"

fun join_colon :: "string list \<Rightarrow> string" where
  "join_colon [] = []"
| "join_colon [p] = p"
| "join_colon (p # ps) = p @ CHR '':'' # join_colon ps"

lemma split_join: "ps \<noteq> [] \<Longrightarrow> (\<And>p. p \<in> set ps \<Longrightarrow> CHR '':'' \<notin> set p) \<Longrightarrow> split_on (CHR '':'') (join_colon ps) = ps"
  by (induction ps rule: join_colon.induct) auto

definition dma_ok :: "(u64 \<times> u64) option \<Rightarrow> bool" where
  "dma_ok r \<longleftrightarrow> (case r of None \<Rightarrow> True | Some (b, s) \<Rightarrow> s \<noteq> 0 \<and> unat b + unat s < 2 ^ 64)"

definition limits_ok :: "resource_limits option \<Rightarrow> bool" where
  "limits_ok r \<longleftrightarrow> (case r of None \<Rightarrow> True | Some l \<Rightarrow>
     (mem_limit_mb l \<noteq> None \<or> cpu_quota_percent l \<noteq> None) \<and> mem_limit_mb l \<noteq> Some 0 \<and>
     (case cpu_quota_percent l of None \<Rightarrow> True | Some p \<Rightarrow> p \<noteq> 0 \<and> p \<le> 10000))"

lemma trailing_split_fields: "trailing_split (dma_fields r @ limit_fields l) =
    ((case r of None \<Rightarrow> None | Some (b, s) \<Rightarrow> Some (show_hex b, show_hex s)), limit_fields l)"
  by (auto simp: trailing_split_def dma_fields_def limit_fields_def split: option.split list.split)

lemma parse_limits_fields:
  assumes "limits_ok l"
  shows "parse_limits spec (limit_fields l) \<lparr>mem_limit_mb = None, cpu_quota_percent = None\<rparr> =
    Inr (case l of None \<Rightarrow> \<lparr>mem_limit_mb = None, cpu_quota_percent = None\<rparr> | Some l \<Rightarrow> l)"
proof -
  have "split_once (CHR ''='') (''mem='' @ v) = Some (''mem'', v)" "split_once (CHR ''='') (''cpu='' @ v) = Some (''cpu'', v)" for v
    by simp_all
  with assms show ?thesis
    by (cases l) (auto simp: limits_ok_def limit_fields_def try_bind_def not_less split: option.split)
qed

lemma parse_trailing_fields:
  assumes "dma_ok r" and "limits_ok l"
  shows "parse_trailing_options (dma_fields r @ limit_fields l) spec = Inr (r, l)"
proof -
  have "parse_dma spec (case r of None \<Rightarrow> None | Some (b, s) \<Rightarrow> Some (show_hex b, show_hex s)) = Inr r"
    using assms(1) by (cases r) (auto simp: parse_dma_def try_bind_def dma_ok_def checked_add_def)
  with assms(2) show ?thesis
    unfolding parse_trailing_options_def trailing_split_fields prod.case parse_limits_fields [OF assms(2)]
    by (cases l) (auto simp: try_bind_def limits_ok_def then_some_def)
qed

definition device_spec_ok :: "device_spec \<Rightarrow> bool" where
  "device_spec_ok d \<longleftrightarrow> ds_size d \<noteq> 0 \<and> unat (ds_base d) + unat (ds_size d) < 2 ^ 64 \<and>
     dma_ok (ds_dma_range d) \<and> limits_ok (ds_limits d)"

definition pci_spec_ok :: "pci_device_spec \<Rightarrow> bool" where
  "pci_spec_ok d \<longleftrightarrow> ps_device_number d \<le> 31 \<and> dma_ok (ps_dma_range d) \<and> limits_ok (ps_limits d)"

definition native_spec_ok :: "native_device_spec \<Rightarrow> bool" where
  "native_spec_ok d \<longleftrightarrow> ns_size d \<noteq> 0 \<and> unat (ns_base d) + unat (ns_size d) < 2 ^ 64 \<and> dma_ok (ns_dma_range d)"

definition native_pci_spec_ok :: "native_pci_device_spec \<Rightarrow> bool" where
  "native_pci_spec_ok d \<longleftrightarrow> np_device_number d \<le> 31 \<and> dma_ok (np_dma_range d)"

definition show_device_spec :: "device_spec \<Rightarrow> string" where
  "show_device_spec d = join_colon ([ds_path d, ds_class d, show_hex (ds_base d), show_hex (ds_size d)] @
     dma_fields (ds_dma_range d) @ limit_fields (ds_limits d))"

definition show_pci_spec :: "pci_device_spec \<Rightarrow> string" where
  "show_pci_spec d = join_colon ([ps_path d, ps_class d, show_dec (ps_device_number d)] @
     dma_fields (ps_dma_range d) @ limit_fields (ps_limits d))"

lemma fields_plain: "p \<in> set (dma_fields r @ limit_fields l) \<Longrightarrow> CHR '':'' \<notin> set p"
  by (auto simp: dma_fields_def limit_fields_def split: option.splits)

lemma parse_dma_ok: "parse_dma spec part = Inr r \<Longrightarrow> dma_ok r"
  by (auto simp: parse_dma_def try_bind_Inr dma_ok_def checked_add_def split: option.splits if_splits)

definition partial_limits_ok :: "resource_limits \<Rightarrow> bool" where
  "partial_limits_ok l \<longleftrightarrow> mem_limit_mb l \<noteq> Some 0 \<and> (case cpu_quota_percent l of None \<Rightarrow> True | Some p \<Rightarrow> p \<noteq> 0 \<and> p \<le> 10000)"

lemma parse_limits_ok: "parse_limits spec ts l = Inr l' \<Longrightarrow> partial_limits_ok l \<Longrightarrow> partial_limits_ok l'"
proof (induction spec ts l rule: parse_limits.induct)
  case (2 spec token ts l)
  from 2(3) obtain key val where k: "split_once (CHR ''='') token = Some (key, val)" by (auto split: option.splits)
  show ?case
  proof (cases "key = ''mem''")
    case True
    with 2(3) k obtain mb where "mb \<noteq> 0" "parse_limits spec ts (l\<lparr>mem_limit_mb := Some mb\<rparr>) = Inr l'"
      by (auto simp: try_bind_Inr split: if_splits)
    with 2(1) [OF k refl True] 2(4) show ?thesis by (auto simp: partial_limits_ok_def)
  next
    case False
    with 2(3) k obtain p where p: "key = ''cpu''" "p \<noteq> 0" "p \<le> 10000" "parse_limits spec ts (l\<lparr>cpu_quota_percent := Some p\<rparr>) = Inr l'"
      by (auto simp: try_bind_Inr not_less split: if_splits)
    then have n: "\<not> (p = 0 \<or> 10000 < p)" by (simp add: not_less)
    from p(2,3) 2(4) show ?thesis by (intro 2(2) [OF k refl False p(1) n p(4)]) (simp add: partial_limits_ok_def)
  qed
qed simp

lemma parse_trailing_ok: "parse_trailing_options rest spec = Inr (r, l) \<Longrightarrow> dma_ok r \<and> limits_ok l"
  using parse_dma_ok parse_limits_ok
  by (fastforce simp: parse_trailing_options_def try_bind_Inr then_some_def limits_ok_def partial_limits_ok_def
      split: prod.splits if_splits)

lemma device_spec_parse_ok: "device_spec_parse spec = Inr d \<Longrightarrow> device_spec_ok d"
  by (auto simp: device_spec_parse_def try_bind_Inr device_spec_ok_def checked_add_def
      dest!: parse_trailing_ok split: list.splits if_splits)

lemma pci_spec_parse_ok: "pci_spec_parse spec = Inr d \<Longrightarrow> pci_spec_ok d"
  by (auto simp: pci_spec_parse_def try_bind_Inr pci_spec_ok_def MAX_PCI_DEVICE_NUMBER_def not_less
      dest!: parse_trailing_ok split: list.splits if_splits)

lemma native_spec_parse_ok: "native_spec_parse flag spec = Inr d \<Longrightarrow> native_spec_ok d"
  by (auto simp: native_spec_parse_def try_bind_Inr native_spec_ok_def checked_add_def
      dest!: parse_trailing_ok split: list.splits if_splits)

lemma native_pci_spec_parse_ok: "native_pci_spec_parse flag spec = Inr d \<Longrightarrow> native_pci_spec_ok d"
  by (auto simp: native_pci_spec_parse_def try_bind_Inr native_pci_spec_ok_def MAX_PCI_DEVICE_NUMBER_def not_less
      dest!: parse_trailing_ok split: list.splits if_splits)

lemma i2c_spec_parse_ok: "i2c_spec_parse spec = Inr d \<Longrightarrow> is_addr d \<le> 0x7f"
  by (auto simp: i2c_spec_parse_def try_bind_Inr MAX_I2C_ADDRESS_def not_less word_le_nat_alt unsigned_ucast_eq take_bit_eq_mod
      split: list.splits if_splits)

subsection \<open>Properties\<close>

text \<open>Every specification an operator can mean is accepted and understood as meant: writing a device or PCI
  device specification out in the documented syntax (hexadecimal or decimal numbers, an optional
  DMA range, optional resource limits) and parsing it gives the specification back, whatever the
  path and class, as long as they contain no colon.\<close>

lemma spec_parse_roundtrip:
  assumes "CHR '':'' \<notin> set (ds_path d)" and "CHR '':'' \<notin> set (ds_class d)" and "device_spec_ok d"
    and "CHR '':'' \<notin> set (ps_path p)" and "CHR '':'' \<notin> set (ps_class p)" and "pci_spec_ok p"
  shows "device_spec_parse (show_device_spec d) = Inr d \<and> pci_spec_parse (show_pci_spec p) = Inr p"
proof
  let ?l = "dma_fields (ds_dma_range d) @ limit_fields (ds_limits d)"
  have "split_on (CHR '':'') (show_device_spec d) = [ds_path d, ds_class d, show_hex (ds_base d), show_hex (ds_size d)] @ ?l"
    unfolding show_device_spec_def using assms(1,2) fields_plain [of _ "ds_dma_range d" "ds_limits d"] by (intro split_join) auto
  then show "device_spec_parse (show_device_spec d) = Inr d"
    using assms(3) by (simp add: device_spec_parse_def device_spec_ok_def try_bind_def checked_add_def parse_trailing_fields)
next
  let ?l = "dma_fields (ps_dma_range p) @ limit_fields (ps_limits p)"
  have "split_on (CHR '':'') (show_pci_spec p) = [ps_path p, ps_class p, show_dec (ps_device_number p)] @ ?l"
    unfolding show_pci_spec_def using assms(4,5) fields_plain [of _ "ps_dma_range p" "ps_limits p"] by (intro split_join) auto
  then show "pci_spec_parse (show_pci_spec p) = Inr p"
    using assms(6) by (simp add: pci_spec_parse_def pci_spec_ok_def try_bind_def MAX_PCI_DEVICE_NUMBER_def not_less parse_trailing_fields)
qed

definition demo_spec :: device_spec where
  "demo_spec = \<lparr>ds_path = ''d.py'', ds_class = ''Cls'', ds_base = 0xd0000000, ds_size = 0x1000, ds_dma_range = Some (0x2000, 0x1000),
     ds_limits = Some \<lparr>mem_limit_mb = Some 64, cpu_quota_percent = None\<rparr>\<rparr>"

definition demo_pci_spec :: pci_device_spec where
  "demo_pci_spec = \<lparr>ps_path = ''d.py'', ps_class = ''Cls'', ps_device_number = 3, ps_dma_range = None, ps_limits = None\<rparr>"

lemma spec_parse_roundtrip_example:
  "device_spec_parse (show_device_spec demo_spec) = Inr demo_spec \<and> pci_spec_parse (show_pci_spec demo_pci_spec) = Inr demo_pci_spec"
  by (rule spec_parse_roundtrip)
    (simp_all add: demo_spec_def demo_pci_spec_def device_spec_ok_def pci_spec_ok_def dma_ok_def limits_ok_def)

definition args_ok :: "args \<Rightarrow> bool" where
  "args_ok a \<longleftrightarrow> list_all device_spec_ok (devices a) \<and> list_all device_spec_ok (sandboxed_devices a) \<and>
     list_all pci_spec_ok (pci_devices a) \<and> list_all pci_spec_ok (sandboxed_pci_devices a) \<and>
     list_all native_spec_ok (native_devices a) \<and> list_all native_spec_ok (wasm_devices a) \<and>
     list_all native_pci_spec_ok (native_pci_devices a) \<and> list_all native_pci_spec_ok (wasm_pci_devices a) \<and>
     list_all (\<lambda>d. is_addr d \<le> 0x7f) (i2c_devices a)"

lemma parse_arg_ok: "parse_arg arg it (a, k) = Inr (rest, a', k') \<Longrightarrow> args_ok a \<Longrightarrow> args_ok a'"
  by (auto simp: parse_arg_def Let_def flag_value_Inr try_bind_Inr args_ok_def
      dest: device_spec_parse_ok pci_spec_parse_ok native_spec_parse_ok native_pci_spec_parse_ok i2c_spec_parse_ok
      split: if_splits)

lemma parse_arg_suffix: "parse_arg arg it st = Inr (rest, st') \<Longrightarrow> set rest \<subseteq> set it"
  by (auto simp: parse_arg_def Let_def flag_value_Inr split: prod.splits if_splits)

lemma parse_arg_kernel:
  "parse_arg arg it (a, k) = Inr (rest, a', k') \<Longrightarrow> k' = k \<or> arg = ''--kernel'' \<and> (\<exists>v \<in> set it. k' = Some v)"
  by (auto simp: parse_arg_def Let_def flag_value_Inr try_bind_Inr split: if_splits)

lemma parse_loop_ok:
  "parse_loop argv (a, k) = Inr (a', k') \<Longrightarrow> args_ok a \<Longrightarrow>
   args_ok a' \<and> (k' = k \<or> ''--kernel'' \<in> set argv \<and> (\<exists>v \<in> set argv. k' = Some v))"
proof (induction argv "(a, k)" arbitrary: a k rule: parse_loop.induct)
  case (2 arg it)
  from 2(2) obtain rest a1 k1 where s: "parse_arg arg it (a, k) = Inr (rest, a1, k1)" "parse_loop rest (a1, k1) = Inr (a', k')"
    by (auto split: sum.splits)
  show ?case
    using 2(1) [OF s(1) refl s(2) parse_arg_ok [OF s(1) 2(3)]] parse_arg_suffix [OF s(1)] parse_arg_kernel [OF s(1)]
    by auto
qed simp

text \<open>C11: A command line that is accepted names a kernel and gives only valid devices: no fixed-address device is
  empty or wraps around the address space, every PCI device number is at most 31 and every I2C address at most 0x7f,
  every DMA range is non-empty and does not wrap, resource limits are positive and at most 10000 percent, and
  no in-process device has any.\<close>

theorem args_parse_valid:
  assumes "args_parse argv = Inr a"
  shows "args_ok a \<and> ''--kernel'' \<in> set argv \<and> kernel a \<in> set argv \<and>
    (\<forall>d \<in> set (devices a). ds_limits d = None) \<and> (\<forall>d \<in> set (pci_devices a). ps_limits d = None)"
proof -
  from assms obtain a0 k where l: "parse_loop argv (args_default, None) = Inr (a0, Some k)" "a = a0\<lparr>kernel := k\<rparr>"
    and n: "\<not> list_ex (\<lambda>d. ds_limits d \<noteq> None) (devices a0)" "\<not> list_ex (\<lambda>d. ps_limits d \<noteq> None) (pci_devices a0)"
    by (auto simp: args_parse_def try_bind_Inr ok_or_def split: option.splits if_splits)
  have "args_ok args_default" by (simp add: args_ok_def args_default_def)
  from parse_loop_ok [OF l(1) this] l(2) n show ?thesis by (auto simp: args_ok_def list_ex_iff)
qed

theorem args_parse_valid_witness:
  "\<exists>a. args_parse [''--kernel'', ''vmlinuz'', ''--disk'', ''a'', ''--net''] = Inr a \<and> args_ok a \<and> kernel a = ''vmlinuz''"
proof -
  have p: "args_parse [''--kernel'', ''vmlinuz'', ''--disk'', ''a'', ''--net''] =
      Inr (args_default\<lparr>disks := [''a''], net_tap := True, kernel := ''vmlinuz''\<rparr>)"
    by (simp add: args_parse_def parse_arg_def flag_value_def next_value_def try_bind_def ok_or_def args_default_def)
  from args_parse_valid [OF p] p show ?thesis by simp
qed

end
