(* ===== verification/Boot_Sequence.thy ===== *)
theory Boot_Sequence
  imports Kernel_Loader Smbios_Tables Exit_Signal Launch_Config
begin

text \<open>
  From a command line to a bootable guest (\<open>src/lib.rs\<close>): the launch checks, \<open>load_guest\<close>,
  \<open>setup_bsp\<close> and the cold-boot path of \<open>run\<close>, composed from the loader, the firmware tables and
  the paging setup. Parameters of the model: the host's files (\<open>fs\<close>, \<open>None\<close> when a file cannot be
  read), KVM's recommended number of processors, the registers KVM gives a new processor, and the
  compiled DSDT.

  The outer option of every step is \<open>None\<close> exactly when an unchecked boot-time write would leave
  guest memory.
\<close>

definition MIN_MEM_MB :: u64 where "MIN_MEM_MB = 32"

datatype boot_msg =
    Mem_below_minimum | Mem_overflows | Mem_exceeds_identity_map | Smp_zero | Smp_exceeds_host
  | Restore_and_migrate | Restore_needs_one_cpu | Restore_without_plugins
  | Record_needs_one_cpu | Replay_needs_one_cpu | Record_and_replay
  | Cannot_read string | Load_error loader_error | Acpi_error acpi_error | Smbios_error smbios_error
  | Paging_error paging_error
  | Capture_needs_one_cpu | Capture_without_plugins | Capture_without_record | Capture_without_gdb | Capture_without_trace

type_synonym boot_error = "boot_msg hyperbug_error"

definition validate_memory :: "args \<Rightarrow> boot_error + u64" where
  "validate_memory a =
     (if mem_mb a < MIN_MEM_MB then Inl (Config Mem_below_minimum)
      else
        case checked_mul (mem_mb a) (1024 * 1024) of
          None \<Rightarrow> Inl (Config Mem_overflows)
        | Some msize \<Rightarrow> if max_identity_map < msize then Inl (Config Mem_exceeds_identity_map) else Inr msize)"

definition validate_smp :: "nat \<Rightarrow> args \<Rightarrow> boot_error + u8" where
  "validate_smp max_vcpus a =
     (if smp a = 0 then Inl (Config Smp_zero)
      else if max_vcpus < unat (smp a) then Inl (Config Smp_exceeds_host)
      else Inr (smp a))"

definition validate_record :: "args \<Rightarrow> boot_error + unit" where
  "validate_record a =
     (if record_path a \<noteq> None \<and> smp a \<noteq> 1 then Inl (Config Record_needs_one_cpu)
      else if replay a \<noteq> None \<and> smp a \<noteq> 1 then Inl (Config Replay_needs_one_cpu)
      else if record_path a \<noteq> None \<and> replay a \<noteq> None then Inl (Config Record_and_replay)
      else Inr ())"

definition validate_restore :: "args \<Rightarrow> boot_error + unit" where
  "validate_restore a =
     (if restore a \<noteq> None \<and> migrate_listen a \<noteq> None then Inl (Config Restore_and_migrate)
      else if restore a = None \<and> migrate_listen a = None then Inr ()
      else if smp a \<noteq> 1 then Inl (Config Restore_needs_one_cpu)
      else if devices a \<noteq> [] \<or> pci_devices a \<noteq> [] \<or> sandboxed_devices a \<noteq> [] \<or> sandboxed_pci_devices a \<noteq> [] \<or>
              i2c_devices a \<noteq> [] \<or> gpio_devices a \<noteq> [] \<or> vsock_uds a \<noteq> None
      then Inl (Config Restore_without_plugins)
      else Inr ())"

text \<open>The checks of \<open>fork\<close> and \<open>migrate\<close> before live state is captured (\<open>src/snapshot.rs\<close>).\<close>

definition validate_capturable :: "args \<Rightarrow> boot_msg + unit" where
  "validate_capturable a =
     (if smp a \<noteq> 1 then Inl Capture_needs_one_cpu
      else if devices a \<noteq> [] \<or> pci_devices a \<noteq> [] \<or> sandboxed_devices a \<noteq> [] \<or> sandboxed_pci_devices a \<noteq> [] \<or>
              native_devices a \<noteq> [] \<or> native_pci_devices a \<noteq> [] \<or> wasm_devices a \<noteq> [] \<or> wasm_pci_devices a \<noteq> [] \<or>
              i2c_devices a \<noteq> [] \<or> gpio_devices a \<noteq> [] \<or> vsock_uds a \<noteq> None
      then Inl Capture_without_plugins
      else if record_path a \<noteq> None \<or> replay a \<noteq> None then Inl Capture_without_record
      else if gdb_stub a \<noteq> None then Inl Capture_without_gdb
      else if trace_file a \<noteq> None then Inl Capture_without_trace
      else Inr ())"

text \<open>\<open>map_err\<close> under the outer option, and a plain result as a step.\<close>

definition map_err :: "('e \<Rightarrow> 'f) \<Rightarrow> ('e + 'a) option \<Rightarrow> ('f + 'a) option" where
  "map_err f r = map_option (\<lambda>x. case x of Inl e \<Rightarrow> Inl (f e) | Inr y \<Rightarrow> Inr y) r"

definition load_initrd ::
  "(string \<Rightarrow> bytes option) \<Rightarrow> args \<Rightarrow> guest_memory \<Rightarrow> u64 \<Rightarrow> (boot_error + guest_memory \<times> initramfs option) option" where
  "load_initrd fs a m msize =
     (case initrd a of
        None \<Rightarrow> Some (Inr (m, None))
      | Some path \<Rightarrow>
          (case fs path of
             None \<Rightarrow> Some (Inl (Io (Cannot_read path)))
           | Some raw \<Rightarrow>
               and_then (map_err (\<lambda>e. Io (Load_error e)) (initramfs_load m raw msize)) (\<lambda>(m, i). Some (Inr (m, Some i)))))"

definition load_guest ::
  "(string \<Rightarrow> bytes option) \<Rightarrow> bytes \<Rightarrow> args \<Rightarrow> guest_memory \<Rightarrow> u64 \<Rightarrow> u8 \<Rightarrow> (boot_error + guest_memory \<times> u64) option" where
  "load_guest fs dsdt a m msize num_cpus =
     and_then (case fs (kernel a) of
         None \<Rightarrow> Some (Inl (Io (Cannot_read (kernel a))))
       | Some raw \<Rightarrow> map_err (\<lambda>e. Io (Load_error e)) (Some (bz_parse raw))) (\<lambda>bz.
     and_then (map_err (\<lambda>e. Io (Load_error e)) (bz_load bz m msize)) (\<lambda>(m, entry).
     and_then (load_initrd fs a m msize) (\<lambda>(m, ird).
     and_then (map_err (\<lambda>e. Config (Load_error e)) (write_cmdline bz m (ascii (cmdline a)))) (\<lambda>m.
     and_then (map_option Inr (build_zero_page bz m msize ird)) (\<lambda>m.
     and_then (map_err (\<lambda>e. Config (Acpi_error e)) (setup_acpi dsdt m num_cpus)) (\<lambda>m.
     and_then (map_err (\<lambda>e. Config (Smbios_error e)) (setup_smbios m)) (\<lambda>m.
     Some (Inr (m, entry)))))))))"

record kvm_regs =
  rip :: u64
  rsi :: u64
  rsp :: u64
  rflags :: u64

definition setup_bsp ::
  "kvm_sregs \<Rightarrow> guest_memory \<Rightarrow> u64 \<Rightarrow> u64 \<Rightarrow> (boot_error + guest_memory \<times> kvm_sregs \<times> kvm_regs) option" where
  "setup_bsp sregs m msize entry =
     (case setup_gdt m sregs of
        None \<Rightarrow> None
      | Some (m, sregs) \<Rightarrow>
          and_then (map_err (\<lambda>e. Config (Paging_error e)) (setup_page_tables m sregs msize)) (\<lambda>(m, sregs).
          Some (Inr (m, sregs, \<lparr>rip = entry, rsi = ZERO_PAGE_START, rsp = BOOT_STACK_TOP, rflags = 0x2\<rparr>))))"

text \<open>The cold-boot path of \<open>run\<close>: no \<open>--restore\<close> and no \<open>--migrate-listen\<close>.\<close>

definition cold_boot ::
  "(string \<Rightarrow> bytes option) \<Rightarrow> bytes \<Rightarrow> nat \<Rightarrow> kvm_sregs \<Rightarrow> args \<Rightarrow>
   (boot_error + guest_memory \<times> kvm_sregs \<times> kvm_regs) option" where
  "cold_boot fs dsdt max_vcpus sregs a =
     and_then (Some (validate_memory a)) (\<lambda>msize.
     and_then (Some (validate_smp max_vcpus a)) (\<lambda>num_cpus.
     and_then (Some (validate_restore a)) (\<lambda>_.
     and_then (Some (validate_record a)) (\<lambda>_.
     and_then (load_guest fs dsdt a (mem_new msize) msize num_cpus) (\<lambda>(m, entry).
     setup_bsp sregs m msize entry)))))"

subsection \<open>The scope of capture and restore\<close>

text \<open>Whatever may be captured may be restored; not the other way round: a restore with a native plugin device,
  whose state no snapshot holds, is accepted.\<close>

lemma capturable_restorable:
  "validate_capturable a = Inr () \<Longrightarrow> restore a = None \<or> migrate_listen a = None \<Longrightarrow> validate_restore a = Inr ()"
  by (auto simp: validate_capturable_def validate_restore_def split: if_splits)

lemma restore_accepts_native_plugins:
  "\<exists>a. restore a \<noteq> None \<and> native_devices a \<noteq> [] \<and> validate_restore a = Inr () \<and>
     validate_capturable a = Inl Capture_without_plugins"
  by (rule exI [of _ "args_default\<lparr>restore := Some ''snap'', native_devices := [\<lparr>ns_path = ''p.so'', ns_base = 0, ns_size = 1, ns_dma_range = None\<rparr>]\<rparr>"])
    (simp add: validate_restore_def validate_capturable_def args_default_def)

subsection \<open>Each step as writes\<close>

lemma map_err_simps [simp]:
  "map_err f None = None" "map_err f (Some (Inl e)) = Some (Inl (f e))" "map_err f (Some (Inr x)) = Some (Inr x)"
  by (simp_all add: map_err_def)

lemma map_err_Inr: "map_err f r = Some (Inr x) \<longleftrightarrow> r = Some (Inr x)"
proof (cases r)
  case (Some z)
  then show ?thesis by (cases z) simp_all
qed simp

lemma map_err_None: "map_err f r = None \<longleftrightarrow> r = None"
  by (simp add: map_err_def)

lemma and_then_Inr: "and_then r f = Some (Inr y) \<longleftrightarrow> (\<exists>x. r = Some (Inr x) \<and> f x = Some (Inr y))"
  by (auto simp: and_then_def split: option.splits sum.splits)

lemma and_then_None: "and_then r f = None \<longleftrightarrow> r = None \<or> (\<exists>x. r = Some (Inr x) \<and> f x = None)"
  by (auto simp: and_then_def split: option.splits sum.splits)

lemma validate_memory_Inr:
  assumes "validate_memory a = Inr msize"
  shows "msize \<le> max_identity_map" and "0x2000000 \<le> unat msize" and "unat msize = unat (mem_mb a) * 2 ^ 20"
proof -
  from assms have m: "\<not> mem_mb a < 32" "checked_mul (mem_mb a) (1024 * 1024) = Some msize" "msize \<le> max_identity_map"
    by (auto simp: validate_memory_def MIN_MEM_MB_def not_less split: if_splits option.splits)
  then show "msize \<le> max_identity_map" by simp
  from m(2) show "unat msize = unat (mem_mb a) * 2 ^ 20"
    by (auto simp: checked_mul_def unat_word_ariths split: if_splits)
  with m(1) show "0x2000000 \<le> unat msize" by (simp add: word_less_nat_alt)
qed

definition boot_ok :: "guest_memory \<Rightarrow> u64 \<Rightarrow> bool" where
  "boot_ok m msize \<longleftrightarrow> mem_size m = msize \<and> 0x100000 \<le> unat msize"

definition cmdline_writes :: "bytes \<Rightarrow> (u64 \<times> bytes) list" where
  "cmdline_writes cl = [(0x20000, cl), (0x20000 + of_nat (length cl), [0])]"

lemma write_cmdline_eq:
  "write_cmdline bz m cl =
     (if 0xe0000 < length cl + 1 \<or> unat (cmdline_max bz) < length cl + 1 then Some (Inl (Cmdline_too_long (length cl)))
      else map_option Inr (boot_writes (cmdline_writes cl) m))"
  by (simp add: write_cmdline_def Let_def cmdline_writes_def KERNEL_START_def CMDLINE_START_def split: option.split)

lemma unat_cmdline_end: "length cl < 0xe0000 \<Longrightarrow> unat (0x20000 + of_nat (length cl) :: u64) = 0x20000 + length cl"
  by (simp add: unat_word_ariths unat_of_nat)

lemma cmdline_foot: "length cl < 0xe0000 \<Longrightarrow> writes_foot (cmdline_writes cl) = {0x20000 ..< 0x20000 + length cl + 1}"
  unfolding cmdline_writes_def foot_simps span_def using unat_cmdline_end [of cl] by auto

lemma cmdline_fits: "length cl < 0xe0000 \<Longrightarrow> 0x100000 \<le> unat (mem_size m) \<Longrightarrow> fits_all m (cmdline_writes cl)"
  using unat_cmdline_end [of cl] by (simp add: cmdline_writes_def mem_fits_def)

text \<open>Files fit a Rust vector.\<close>

definition fs_ok :: "(string \<Rightarrow> bytes option) \<Rightarrow> bool" where
  "fs_ok fs \<longleftrightarrow> (\<forall>p raw. fs p = Some raw \<longrightarrow> length raw < 2 ^ 63)"

definition kernel_code :: "bz_image \<Rightarrow> bytes" where
  "kernel_code bz = drop (setup_size bz) (bz_raw bz)"

lemma bz_load_eq:
  assumes "boot_ok m msize"
  shows "bz_load bz m msize =
    (if unat msize < 0x100000 + length (kernel_code bz) then Some (Inl Kernel_too_big)
     else map_option (\<lambda>m'. Inr (m', 0x100200)) (boot_writes [(0x100000, kernel_code bz)] m))"
  by (simp add: bz_load_def Let_def kernel_code_def KERNEL_START_def split: option.split)

definition ird_writes :: "initramfs option \<Rightarrow> bytes \<Rightarrow> (u64 \<times> bytes) list" where
  "ird_writes ird raw = (case ird of None \<Rightarrow> [] | Some i \<Rightarrow> [(ird_addr i, raw)])"

lemma load_initrd_Inr:
  assumes "load_initrd fs a m msize = Some (Inr (m', ird))" and "boot_ok m msize" and "fs_ok fs"
  obtains raw where "boot_writes (ird_writes ird raw) m = Some m'"
    and "case ird of None \<Rightarrow> initrd a = None | Some i \<Rightarrow>
      (\<exists>p. initrd a = Some p \<and> fs p = Some raw) \<and> 0x100000 \<le> unat (ird_addr i) \<and> unat (ird_size i) = length raw"
proof (cases "initrd a")
  case None
  with assms(1) that [of "[]"] show thesis by (simp add: load_initrd_def ird_writes_def)
next
  case (Some p)
  with assms(1) obtain raw i where r: "fs p = Some raw" "initramfs_load m raw msize = Some (Inr (m', i))" "ird = Some i"
    by (auto simp: load_initrd_def and_then_Inr map_err_Inr split: option.splits)
  let ?s = "initramfs_spot (unat msize) (length raw)" and ?t = "min (unat msize) (2 ^ 32)"
  have len: "length raw < 2 ^ 64" using assms(3) r(1) by (fastforce simp: fs_ok_def)
  have m: "mem_size m = msize" using assms(2) by (simp add: boot_ok_def)
  from r(2) initramfs_load_eq [OF len m] have e: "m' = mem_write m ?s raw" "ird_addr i = of_nat ?s" "ird_size i = of_nat (length raw)"
    "\<not> ?t < length raw" "\<not> ?s < 0x100000"
    by (auto simp: Let_def split: if_splits)
  have sp: "?s \<le> ?t - length raw" unfolding initramfs_spot_def by (rule div_times_less_eq_dividend)
  then have "?s < 2 ^ 64" by (simp add: min_def split: if_splits)
  then have u: "unat (ird_addr i) = ?s" "unat (ird_size i) = length raw" using e len by (simp_all add: unat_of_nat)
  have "?s + length raw \<le> unat msize" using sp e(4) by linarith
  then have "boot_writes (ird_writes ird raw) m = Some m'"
    using e(1) u(1) m r(3) by (simp add: ird_writes_def write_slice_boot_def)
  with that [of raw] r Some u e(5) show thesis by simp
qed

lemma load_initrd_not_None:
  assumes "boot_ok m msize" and "fs_ok fs"
  shows "load_initrd fs a m msize \<noteq> None"
proof -
  have "initramfs_load m raw msize \<noteq> None" if "fs p = Some raw" for p raw
  proof -
    have len: "length raw < 2 ^ 64" using assms(2) that by (fastforce simp: fs_ok_def)
    have m: "mem_size m = msize" using assms(1) by (simp add: boot_ok_def)
    show ?thesis unfolding initramfs_load_eq [OF len m] Let_def by simp
  qed
  then show ?thesis
    by (auto simp: load_initrd_def and_then_None map_err_None simp del: not_None_eq split: option.splits)
qed

lemma boot_ok_writes: "boot_writes ws m = Some m' \<Longrightarrow> boot_ok m' msize \<longleftrightarrow> boot_ok m msize"
  using same_outside_size [OF boot_writes_frame] by (auto simp: boot_ok_def)

definition load_writes :: "bz_image \<Rightarrow> initramfs option \<Rightarrow> bytes \<Rightarrow> bytes \<Rightarrow> u64 \<Rightarrow> bytes \<Rightarrow> u8 \<Rightarrow> (u64 \<times> bytes) list" where
  "load_writes bz ird raw cl msize dsdt n =
     [(0x100000, kernel_code bz)] @ ird_writes ird raw @ cmdline_writes cl @ [(0x7000, zero_page bz msize ird)] @
     acpi_writes dsdt n @ smbios_writes"

lemma load_guest_Inr:
  assumes "load_guest fs dsdt a m msize n = Some (Inr (m', entry))" and "boot_ok m msize" and "fs_ok fs"
    and "length dsdt \<le> 0x1e000"
  obtains kraw bz ird raw where "fs (kernel a) = Some kraw" and "bz_parse kraw = Inr bz" and "entry = 0x100200"
    and "length (cmdline a) < 0xe0000"
    and "boot_writes (load_writes bz ird raw (ascii (cmdline a)) msize dsdt n) m = Some m'"
    and "case ird of None \<Rightarrow> initrd a = None | Some i \<Rightarrow>
      (\<exists>p. initrd a = Some p \<and> fs p = Some raw) \<and> 0x100000 \<le> unat (ird_addr i) \<and> unat (ird_size i) = length raw"
proof -
  from assms(1) obtain kraw bz m1 m2 ird m3 m4 m5 where
    k: "fs (kernel a) = Some kraw" "bz_parse kraw = Inr bz" "bz_load bz m msize = Some (Inr (m1, entry))"
    and i: "load_initrd fs a m1 msize = Some (Inr (m2, ird))"
    and c: "write_cmdline bz m2 (ascii (cmdline a)) = Some (Inr m3)" "build_zero_page bz m3 msize ird = Some m4"
    and f: "setup_acpi dsdt m4 n = Some (Inr m5)" "setup_smbios m5 = Some (Inr m')"
    by (auto simp: load_guest_def and_then_Inr map_err_Inr split: option.splits)
  have w1: "boot_writes [(0x100000, kernel_code bz)] m = Some m1" and e: "entry = 0x100200"
    using k(3) unfolding bz_load_eq [OF assms(2)] by (auto simp del: boot_writes.simps split: if_splits)
  have ok1: "boot_ok m1 msize" using assms(2) boot_ok_writes [OF w1] by simp
  obtain raw where w2: "boot_writes (ird_writes ird raw) m1 = Some m2"
    and ir: "case ird of None \<Rightarrow> initrd a = None | Some i \<Rightarrow>
      (\<exists>p. initrd a = Some p \<and> fs p = Some raw) \<and> 0x100000 \<le> unat (ird_addr i) \<and> unat (ird_size i) = length raw"
    by (rule load_initrd_Inr [OF i ok1 assms(3)])
  have w3: "boot_writes (cmdline_writes (ascii (cmdline a))) m2 = Some m3" and l: "length (cmdline a) < 0xe0000"
    using c(1) unfolding write_cmdline_eq by (auto split: if_splits)
  have w4: "boot_writes [(0x7000, zero_page bz msize ird)] m3 = Some m4"
    using c(2) by (simp add: build_zero_page_def ZERO_PAGE_START_def)
  have ok4: "boot_ok m4 msize"
    using ok1 boot_ok_writes [OF w2] boot_ok_writes [OF w3] boot_ok_writes [OF w4] by simp
  then have w5: "boot_writes (acpi_writes dsdt n) m4 = Some m5"
    using f(1) setup_acpi_eq [OF assms(4), of m4 n] by (auto simp: boot_ok_def)
  have w6: "boot_writes smbios_writes m5 = Some m'" using f(2) setup_smbios_eq [of m5] by auto
  have "boot_writes (load_writes bz ird raw (ascii (cmdline a)) msize dsdt n) m = Some m'"
    unfolding load_writes_def boot_writes_append w1 w2 w3 w4 w5 w6 option.case ..
  from that [OF k(1,2) e l this ir] show thesis .
qed

lemma load_guest_not_None:
  assumes "boot_ok m msize" and "0x100000 < unat msize" and "fs_ok fs" and "length dsdt \<le> 0x1e000"
  shows "load_guest fs dsdt a m msize n \<noteq> None"
proof
  assume none: "load_guest fs dsdt a m msize n = None"
  have total: "boot_writes ws m' \<noteq> None" if "fits_all m' ws" for ws m' using boot_writes_total [OF that] by auto
  have big: "0x100000 \<le> unat (mem_size m')" if "boot_ok m' msize" for m' using that by (simp add: boot_ok_def)
  have 1: "bz_load bz m' msize \<noteq> None" if "boot_ok m' msize" for bz m'
    using total [of m' "[(0x100000, kernel_code bz)]"] that
    unfolding bz_load_eq [OF that] by (auto simp: mem_fits_def boot_ok_def simp del: boot_writes.simps)
  have 3: "write_cmdline bz m' cl \<noteq> None" if "boot_ok m' msize" for bz m' cl
    using total [OF cmdline_fits [of cl m']] big [OF that] unfolding write_cmdline_eq by auto
  have 4: "build_zero_page bz m' msize ird \<noteq> None" if "boot_ok m' msize" "bz_parse raw = Inr bz" for bz m' ird raw
    using length_zero_page [OF that(2), of msize ird] big [OF that(1)] assms(2)
    by (simp add: build_zero_page_def write_slice_boot_def ZERO_PAGE_START_def KERNEL_START_def word_less_nat_alt)
  have 5: "setup_acpi dsdt m' n \<noteq> None" if "boot_ok m' msize" for m'
    using total [OF acpi_fits [OF assms(4) big [OF that]]] setup_acpi_eq [OF assms(4) big [OF that]] by auto
  have 6: "setup_smbios m' \<noteq> None" if "boot_ok m' msize" for m'
    using total [OF smbios_fits [OF big [OF that]]] setup_smbios_eq [of m'] by auto
  have p1: "boot_ok m1 msize" if "bz_load bz m' msize = Some (Inr (m1, e))" "boot_ok m' msize" for bz m' m1 e
    using that(1) boot_ok_writes [of _ m' m1 msize] that(2) unfolding bz_load_eq [OF that(2)]
    by (auto simp del: boot_writes.simps split: if_splits)
  have p2: "boot_ok m2 msize" if "load_initrd fs a m' msize = Some (Inr (m2, i))" "boot_ok m' msize" for m' m2 i
    using load_initrd_Inr [OF that assms(3)] boot_ok_writes [of _ m' m2 msize] that(2) by metis
  have p3: "boot_ok m3 msize" if "write_cmdline bz m' cl = Some (Inr m3)" "boot_ok m' msize" for bz m' cl m3
    using that(1) boot_ok_writes [of _ m' m3 msize] that(2) unfolding write_cmdline_eq by (auto split: if_splits)
  have p4: "boot_ok m4 msize" if "build_zero_page bz m' msize i = Some m4" "boot_ok m' msize" for bz m' i m4
    using that by (auto simp: build_zero_page_def write_slice_boot_def boot_ok_def split: if_splits)
  have p5: "boot_ok m5 msize" if "setup_acpi dsdt m' n = Some (Inr m5)" "boot_ok m' msize" for m' m5
    using that(1) boot_ok_writes [of _ m' m5 msize] that(2) setup_acpi_eq [OF assms(4) big [OF that(2)], of n] by auto
  from none show False
    using assms(1) 1 3 4 5 6 p1 p2 p3 p4 p5 load_initrd_not_None [OF _ assms(3)]
    unfolding load_guest_def
    by (auto simp: and_then_None map_err_None map_err_Inr simp del: not_None_eq split: option.splits)
qed

subsection \<open>The boot processor\<close>

definition gdt_writes :: "(u64 \<times> bytes) list" where
  "gdt_writes = entry_writes [(0x500, 0), (0x508, gdt_entry 0xa09b 0 0xfffff), (0x510, gdt_entry 0xc093 0 0xfffff)]"

definition bsp_writes :: "u64 \<Rightarrow> (u64 \<times> bytes) list" where
  "bsp_writes msize = gdt_writes @ entry_writes (table_entries msize)"

lemma gdt_foot: "writes_foot gdt_writes = {0x500..<0x518}"
  by (auto simp: gdt_writes_def span_def)

lemma bsp_foot: "msize \<le> max_identity_map \<Longrightarrow> writes_foot (bsp_writes msize) \<subseteq> {0x500..<0x518} \<union> {0x9000 ..< 0xb000 + num_gibs msize * 4096}"
  using table_foot [of msize] by (auto simp: bsp_writes_def gdt_foot)

lemma setup_bsp_eq:
  assumes "msize \<le> max_identity_map"
  shows "setup_bsp sregs m msize entry =
    map_option (\<lambda>m'. Inr (m', (snd (the (setup_gdt (mem_new 0x10000) sregs)))
        \<lparr>sr_cr3 := PML4_START, sr_cr4 := 0x20, sr_cr0 := 0x80050033, sr_efer := 0x500\<rparr>,
      \<lparr>rip = entry, rsi = ZERO_PAGE_START, rsp = BOOT_STACK_TOP, rflags = 0x2\<rparr>))
      (boot_writes (bsp_writes msize) m)"
  unfolding setup_bsp_def setup_gdt_writes [of m] bsp_writes_def boot_writes_append gdt_writes_def [symmetric]
  by (auto simp: setup_page_tables_eq [OF assms] split: option.split)

lemma bsp_fits: "msize \<le> max_identity_map \<Longrightarrow> 0x100000 \<le> unat (mem_size m) \<Longrightarrow> fits_all m (bsp_writes msize)"
  using table_fits [of msize m] by (simp add: bsp_writes_def gdt_writes_def mem_fits_def)

subsection \<open>The memory of a booted guest\<close>

lemma boot_writes_split:
  "boot_writes (ws @ vs) m = Some m' \<longleftrightarrow> (\<exists>m1. boot_writes ws m = Some m1 \<and> boot_writes vs m1 = Some m')"
  by (auto simp: boot_writes_append split: option.splits)

text \<open>What must not overlap for every structure to survive: the command line ends below the ACPI window and
  the page directories end below the command line.\<close>

lemma booted_memory:
  assumes w: "boot_writes (load_writes bz ird raw cl msize dsdt n @ bsp_writes msize) m0 = Some m"
    and z: "length (zero_page bz msize ird) = 4096" and d: "length dsdt \<le> 0x1e000" and ms: "msize \<le> max_identity_map"
    and cl: "length cl < 0xc0000" and g: "num_gibs msize \<le> 21"
    and i: "case ird of None \<Rightarrow> True | Some i \<Rightarrow> 0x100000 \<le> unat (ird_addr i)"
  shows "read_checked m 0x7000 4096 = Some (zero_page bz msize ird)"
    and "read_checked m 0x20000 (length cl) = Some cl" and "read_checked m (0x20000 + of_nat (length cl)) 1 = Some [0]"
    and "acpi_present dsdt n m" and "smbios_present m"
    and "\<And>va. va < msize \<Longrightarrow> page_walk m PML4_START va = Some va"
    and "ird = Some j \<Longrightarrow> read_checked m (ird_addr j) (length raw) = Some raw"
    and "(case ird of None \<Rightarrow> True | Some i \<Rightarrow> 0x100000 + length (kernel_code bz) \<le> unat (ird_addr i)) \<Longrightarrow>
      read_checked m 0x100000 (length (kernel_code bz)) = Some (kernel_code bz)"
proof -
  let ?K = "[(0x100000, kernel_code bz)]" and ?I = "ird_writes ird raw" and ?Z = "[(0x7000, zero_page bz msize ird)]"
  let ?A = "acpi_writes dsdt n" and ?B = "bsp_writes msize"
  have T: "boot_writes (?K @ ?I @ cmdline_writes cl @ ?Z @ ?A @ smbios_writes @ ?B) m0 = Some m"
    using w by (simp add: load_writes_def)
  have fb: "writes_foot ?B \<subseteq> {0x500..<0x518} \<union> {0x9000..<0x20000}" using bsp_foot [OF ms] g by fastforce
  note fa = acpi_foot [OF d, of n] and fs = smbios_foot
  have fz: "writes_foot ?Z = {0x7000..<0x8000}" using z by (auto simp: span_def)
  have fc: "writes_foot (cmdline_writes cl) = {0x20000 ..< 0x20000 + length cl + 1}" using cl by (intro cmdline_foot) simp
  note low = fa fs fz fc fb
  show "read_checked m 0x7000 4096 = Some (zero_page bz msize ird)"
    using boot_writes_read [of "?K @ ?I @ cmdline_writes cl" "0x7000" "zero_page bz msize ird" "?A @ smbios_writes @ ?B" m0 m] T z fa fs fb
    by (simp add: span_def) fastforce
  have u: "unat (0x20000 + of_nat (length cl) :: u64) = 0x20000 + length cl" using cl by (intro unat_cmdline_end) simp
  show "read_checked m 0x20000 (length cl) = Some cl"
    using boot_writes_read [of "?K @ ?I" "0x20000" cl "(0x20000 + of_nat (length cl), [0]) # ?Z @ ?A @ smbios_writes @ ?B" m0 m] T fa fs fb fz cl u
    by (simp add: span_def cmdline_writes_def) fastforce
  show "read_checked m (0x20000 + of_nat (length cl)) 1 = Some [0]"
    using boot_writes_read [of "?K @ ?I @ [(0x20000, cl)]" "0x20000 + of_nat (length cl)" "[0]" "?Z @ ?A @ smbios_writes @ ?B" m0 m] T fa fs fb fz cl u
    by (simp add: span_def cmdline_writes_def) fastforce
  have "boot_writes ((?K @ ?I @ cmdline_writes cl @ ?Z) @ ?A @ (smbios_writes @ ?B)) m0 = Some m" using T by simp
  then obtain ma mb where a: "boot_writes ?A ma = Some mb" "boot_writes (smbios_writes @ ?B) mb = Some m"
    using boot_writes_split [of "?K @ ?I @ cmdline_writes cl @ ?Z"] boot_writes_split [of ?A] by meson
  show "acpi_present dsdt n m"
    using acpi_present_frame [OF acpi_present_writes [OF d a(1)] boot_writes_frame [OF a(2)] d] fs fb by fastforce
  from a(2) obtain mc where c: "boot_writes smbios_writes mb = Some mc" "boot_writes ?B mc = Some m" by (auto simp: boot_writes_split)
  show "smbios_present m"
    using smbios_present_frame [OF smbios_present_writes [OF c(1)] boot_writes_frame [OF c(2)]] fb by fastforce
  show "page_walk m PML4_START va = Some va" if "va < msize" for va
    using c(2) walk_identity [OF ms _ that] by (auto simp: bsp_writes_def boot_writes_split)
  show "read_checked m (ird_addr j) (length raw) = Some raw" if "ird = Some j"
    using boot_writes_read [of ?K "ird_addr j" raw "cmdline_writes cl @ ?Z @ ?A @ smbios_writes @ ?B" m0 m] T i that low cl
    by (simp add: ird_writes_def span_def) fastforce
  show "read_checked m 0x100000 (length (kernel_code bz)) = Some (kernel_code bz)"
    if "case ird of None \<Rightarrow> True | Some i \<Rightarrow> 0x100000 + length (kernel_code bz) \<le> unat (ird_addr i)"
    using boot_writes_read [of "[]" "0x100000" "kernel_code bz" "?I @ cmdline_writes cl @ ?Z @ ?A @ smbios_writes @ ?B" m0 m] T that low cl
    by (cases ird) (simp add: ird_writes_def span_def, fastforce)+
qed

subsection \<open>Properties\<close>

text \<open>C5: No boot ever writes outside guest memory: whatever the command line, the files it names and the host,
  every unchecked write of the loader, the firmware tables, the GDT and the page tables is in bounds,
  or the boot is refused with an error before it.\<close>

theorem boot_writes_in_bounds:
  assumes "fs_ok fs" and "length dsdt \<le> 0x1e000"
  shows "cold_boot fs dsdt max_vcpus sregs a \<noteq> None"
proof
  assume none: "cold_boot fs dsdt max_vcpus sregs a = None"
  then obtain msize n where v: "validate_memory a = Inr msize" and
    c: "load_guest fs dsdt a (mem_new msize) msize n = None \<or>
      (\<exists>m entry. load_guest fs dsdt a (mem_new msize) msize n = Some (Inr (m, entry)) \<and> setup_bsp sregs m msize entry = None)"
    by (auto simp: cold_boot_def and_then_None)
  note vm = validate_memory_Inr [OF v]
  have ok: "boot_ok (mem_new msize) msize" using vm(2) by (simp add: boot_ok_def mem_new_def)
  then have "load_guest fs dsdt a (mem_new msize) msize n \<noteq> None"
    using load_guest_not_None [OF ok _ assms] vm(2) by simp
  with c obtain m entry where l: "load_guest fs dsdt a (mem_new msize) msize n = Some (Inr (m, entry))" "setup_bsp sregs m msize entry = None"
    by blast
  obtain ws where "boot_writes ws (mem_new msize) = Some m" by (rule load_guest_Inr [OF l(1) ok assms])
  then have "boot_ok m msize" using boot_ok_writes ok by blast
  then obtain m' where "boot_writes (bsp_writes msize) m = Some m'"
    using boot_writes_total [OF bsp_fits [OF vm(1), of m]] by (auto simp: boot_ok_def)
  with l(2) show False by (simp add: setup_bsp_eq [OF vm(1)])
qed

definition demo_fs :: "string \<Rightarrow> bytes option" where
  "demo_fs p = (if p = ''vmlinuz'' then Some demo_image else None)"

lemma demo_fs_ok: "fs_ok demo_fs"
  by (auto simp: fs_ok_def demo_fs_def demo_image_def split: if_splits)

theorem boot_writes_in_bounds_witness:
  "cold_boot demo_fs [] 1 demo_sregs (args_default\<lparr>kernel := ''vmlinuz''\<rparr>) \<noteq> None"
  by (rule boot_writes_in_bounds) (simp_all add: demo_fs_ok)


lemma demo_boot: "\<exists>m sregs' regs. cold_boot demo_fs [] 1 demo_sregs (args_default\<lparr>kernel := ''vmlinuz''\<rparr>) = Some (Inr (m, sregs', regs))"
proof -
  let ?a = "args_default\<lparr>kernel := ''vmlinuz''\<rparr>" and ?s = "0x10000000 :: u64" and ?bz = "\<lparr>bz_raw = demo_image, setup_size = 2560\<rparr>"
  let ?cl = "ascii (cmdline ?a)"
  have v: "validate_memory ?a = Inr ?s" "validate_smp 1 ?a = Inr 1" "validate_restore ?a = Inr ()" "validate_record ?a = Inr ()"
    by (simp_all add: validate_memory_def validate_smp_def validate_restore_def validate_record_def args_default_def
        DEFAULT_MEM_MB_def MIN_MEM_MB_def checked_mul_def max_identity_map_eq)
  have ok: "boot_ok (mem_new ?s) ?s" by (simp add: boot_ok_def mem_new_def)
  have total: "\<exists>m'. boot_writes ws m = Some m' \<and> boot_ok m' ?s" if "boot_ok m ?s" "\<And>m. boot_ok m ?s \<Longrightarrow> fits_all m ws" for ws m
    using boot_writes_total [OF that(2) [OF that(1)]] boot_ok_writes that(1) by blast
  have len: "length (kernel_code ?bz) = 256" by (simp add: kernel_code_def demo_image_def)
  obtain m1 where m1: "boot_writes [(0x100000, kernel_code ?bz)] (mem_new ?s) = Some m1" "boot_ok m1 ?s"
    using total [OF ok, of "[(0x100000, kernel_code ?bz)]"] by (auto simp: mem_fits_def boot_ok_def len simp del: boot_writes.simps)
  have "subslice demo_image 0x238 4 = subslice (replicate 0xb00 0) 0x238 4" unfolding demo_image_def by (simp add: zp_simps)
  also have "\<dots> = replicate 4 0" by (simp add: subslice_def)
  finally have clen: "length ?cl = 21" "cmdline_max ?bz = 255"
    by (simp_all add: args_default_def DEFAULT_CMDLINE_def cmdline_max_def Let_def read_u32_def
        CMDLINE_SIZE_OFF_def LEGACY_CMDLINE_MAX_def)
  obtain m3 where m3: "boot_writes (cmdline_writes ?cl) m1 = Some m3" "boot_ok m3 ?s"
    using total [OF m1(2), of "cmdline_writes ?cl"] cmdline_fits [of ?cl] clen(1) by (auto simp: boot_ok_def)
  have z: "length (zero_page ?bz ?s None) = 4096"
    by (rule length_zero_page [OF demo_image_parse]) (simp add: KERNEL_START_def)
  obtain m4 where m4: "boot_writes [(0x7000, zero_page ?bz ?s None)] m3 = Some m4" "boot_ok m4 ?s"
    using total [OF m3(2), of "[(0x7000, zero_page ?bz ?s None)]"] z by (auto simp: mem_fits_def boot_ok_def simp del: boot_writes.simps)
  then have zp: "write_slice_boot m3 0x7000 (zero_page ?bz ?s None) = Some m4" by (simp split: option.splits)
  obtain m5 where m5: "boot_writes (acpi_writes [] 1) m4 = Some m5" "boot_ok m5 ?s"
    using total [OF m4(2), of "acpi_writes [] 1"] acpi_fits [of "[]" _ 1] by (auto simp: boot_ok_def)
  obtain m6 where m6: "boot_writes smbios_writes m5 = Some m6" "boot_ok m6 ?s"
    using total [OF m5(2), of smbios_writes] smbios_fits by (auto simp: boot_ok_def)
  have ms: "?s \<le> max_identity_map" by (simp add: max_identity_map_eq)
  obtain m7 where m7: "boot_writes (bsp_writes ?s) m6 = Some m7"
    using total [OF m6(2), of "bsp_writes ?s"] bsp_fits [OF ms] by (auto simp: boot_ok_def)
  have "load_guest demo_fs [] ?a (mem_new ?s) ?s 1 = Some (Inr (m6, 0x100200))"
    using m1(1) m3(1) zp m5(1) m6(1) clen m4(2) setup_acpi_eq [of "[]" m4 1] len
    by (simp add: load_guest_def demo_fs_def demo_image_parse bz_load_eq [OF ok] load_initrd_def write_cmdline_eq
        build_zero_page_def ZERO_PAGE_START_def setup_smbios_eq boot_ok_def args_default_def del: boot_writes.simps)
  then show ?thesis using m7 unfolding cold_boot_def v and_then_simps by (simp add: setup_bsp_eq [OF ms])
qed


end
