(* ===== verification/Text_Protocol.thy ===== *)
theory Text_Protocol
  imports Launch_Config Acpi_Tables
begin

text \<open>
  What the two text protocols of the program share: the debugger stub (\<open>src/gdbstub.rs\<close>) and the
  control socket (\<open>src/control.rs\<close>) both turn socket bytes into a Rust string with
  \<open>String::from_utf8_lossy\<close>, and both write and read memory as pairs of hexadecimal digits.

  A Rust string is the list of its UTF-8 code units, one character each; \<open>ascii\<close> gives the bytes
  of such a string back. \<open>from_utf8_lossy\<close> keeps a well-formed sequence and replaces each
  maximal ill-formed prefix by U+FFFD.
\<close>

subsection \<open>Bytes and strings\<close>

definition chars_of :: "bytes \<Rightarrow> string" where
  "chars_of bs = map (\<lambda>b. char_of (unat b)) bs"

definition is_cont :: "byte \<Rightarrow> bool" where
  "is_cont b \<longleftrightarrow> 0x80 \<le> b \<and> b \<le> 0xbf"

text \<open>
  The bytes that may follow the first byte of a sequence: how many, and what the second may be.
\<close>

definition utf8_second :: "byte \<Rightarrow> byte \<Rightarrow> bool" where
  "utf8_second a b \<longleftrightarrow>
     (if a = 0xe0 then 0xa0 \<le> b \<and> b \<le> 0xbf
      else if a = 0xed then 0x80 \<le> b \<and> b \<le> 0x9f
      else if a = 0xf0 then 0x90 \<le> b \<and> b \<le> 0xbf
      else if a = 0xf4 then 0x80 \<le> b \<and> b \<le> 0x8f
      else is_cont b)"

definition utf8_width :: "byte \<Rightarrow> nat" where
  "utf8_width a =
     (if a < 0x80 then 1
      else if 0xc2 \<le> a \<and> a \<le> 0xdf then 2
      else if 0xe0 \<le> a \<and> a \<le> 0xef then 3
      else if 0xf0 \<le> a \<and> a \<le> 0xf4 then 4 else 0)"

text \<open>\<open>utf8_good a bs\<close> counts the bytes of the longest prefix of \<open>a # bs\<close> that begins a sequence.\<close>

definition utf8_good :: "byte \<Rightarrow> bytes \<Rightarrow> nat" where
  "utf8_good a bs =
     (let w = utf8_width a in
      if w \<le> 1 then 1
      else case bs of
        b # bs' \<Rightarrow> if utf8_second a b then 2 + length (takeWhile is_cont (take (w - 2) bs')) else 1
      | [] \<Rightarrow> 1)"

definition REPLACEMENT :: bytes where
  "REPLACEMENT = [0xef, 0xbf, 0xbd]"

lemma utf8_good_pos: "0 < utf8_good a bs"
  by (simp add: utf8_good_def Let_def split: list.split)

function (sequential) from_utf8_lossy :: "bytes \<Rightarrow> bytes" where
  "from_utf8_lossy [] = []"
| "from_utf8_lossy (a # bs) =
     (let n = utf8_good a bs in
      (if n = utf8_width a then take n (a # bs) else REPLACEMENT) @ from_utf8_lossy (drop n (a # bs)))"
  by pat_completeness auto
termination
  by (relation "measure length") (use utf8_good_pos in auto)

lemma from_utf8_lossy_ascii: "\<forall>b \<in> set bs. b < 0x80 \<Longrightarrow> from_utf8_lossy bs = bs"
  by (induction bs) (simp_all add: utf8_good_def utf8_width_def)

lemma chars_of_ascii [simp]: "chars_of (ascii s) = s"
proof -
  have "unat (of_char c :: byte) = of_char c" for c
  proof -
    have "of_char c < (256 :: nat)" by (cases c) (auto simp: of_char_Char)
    then show ?thesis using unat_of_nat [of "of_char c", where 'a = 8] by (simp add: take_bit_nat_eq_self of_nat_of_char)
  qed
  then show ?thesis by (induction s) (simp_all add: chars_of_def ascii_def)
qed

lemma chars_of_append [simp]: "chars_of (xs @ ys) = chars_of xs @ chars_of ys"
  by (simp add: chars_of_def)

subsection \<open>Hexadecimal digits\<close>

definition HEX_DIGITS :: string where
  "HEX_DIGITS = ''0123456789abcdef''"

primrec to_hex :: "bytes \<Rightarrow> string" where
  "to_hex [] = []"
| "to_hex (b # bs) = HEX_DIGITS ! unat (drop_bit 4 b) # HEX_DIGITS ! unat (b AND 0xf) # to_hex bs"

definition hex_value :: "char \<Rightarrow> u8 option" where
  "hex_value c =
     (let b = of_char c :: u8 in
      if 0x30 \<le> b \<and> b \<le> 0x39 then Some (b - 0x30)
      else if 0x61 \<le> b \<and> b \<le> 0x66 then Some (b - 0x61 + 10)
      else if 0x41 \<le> b \<and> b \<le> 0x46 then Some (b - 0x41 + 10)
      else None)"

fun from_hex :: "string \<Rightarrow> bytes option" where
  "from_hex [] = Some []"
| "from_hex [_] = None"
| "from_hex (x # y # s) =
     (case hex_value x of
        None \<Rightarrow> None
      | Some h \<Rightarrow>
          (case hex_value y of
             None \<Rightarrow> None
           | Some l \<Rightarrow> map_option (\<lambda>bs. (push_bit 4 h OR l) # bs) (from_hex s)))"

text \<open>Reading a digit back, on every half byte.\<close>

lemma hex_value_digit:
  assumes "n < 16"
  shows "hex_value (HEX_DIGITS ! n) = Some (of_nat n)"
proof -
  have "n \<in> {0,1,2,3,4,5,6,7,8,9,10,11,12,13,14,15}" using assms by simp presburger
  then show ?thesis by (auto simp: HEX_DIGITS_def hex_value_def)
qed

lemma half_byte: "unat (drop_bit 4 (b :: u8)) < 16" "unat (b AND 0xf) < 16"
  "push_bit 4 (drop_bit 4 b) OR (b AND 0xf) = b"
proof -
  have m: "b AND 0xf = take_bit 4 b" by (simp add: take_bit_eq_mask mask_eq_exp_minus_1)
  show "unat (b AND 0xf) < 16" unfolding m unsigned_take_bit_eq by (simp add: take_bit_eq_mod)
  show "unat (drop_bit 4 b) < 16" unfolding unsigned_drop_bit_eq using unat_lt_pow [of b] by (simp add: drop_bit_eq_div less_mult_imp_div_less take_bit_nat_eq_self)
  show "push_bit 4 (drop_bit 4 b) OR (b AND 0xf) = b" by (rule bit_word_eqI) (auto simp: m bit_simps)
qed

lemma from_hex_to_hex [simp]: "from_hex (to_hex bs) = Some bs"
  by (induction bs) (simp_all add: hex_value_digit half_byte)

lemma from_hex_to_hex_append [simp]: "from_hex (to_hex bs @ s) = map_option (\<lambda>t. bs @ t) (from_hex s)"
  by (induction bs) (simp_all add: hex_value_digit half_byte option.map_comp comp_def option.map_id0 [unfolded id_def])

lemma to_hex_append [simp]: "to_hex (xs @ ys) = to_hex xs @ to_hex ys"
  by (induction xs) simp_all

lemma length_to_hex [simp]: "length (to_hex bs) = 2 * length bs"
  by (induction bs) simp_all

lemma from_hex_length: "from_hex s = Some bs \<Longrightarrow> length s = 2 * length bs"
  by (induction s arbitrary: bs rule: from_hex.induct) (auto split: option.splits)

lemma to_hex_digits: "c \<in> set (to_hex bs) \<Longrightarrow> c \<in> set HEX_DIGITS"
proof (induction bs)
  case (Cons b bs)
  have "HEX_DIGITS ! n \<in> set HEX_DIGITS" if "n < 16" for n using that by (intro nth_mem) (simp add: HEX_DIGITS_def)
  with Cons half_byte(1,2) [of b] show ?case by (auto simp del: of_nat_numeral)
qed simp

lemma to_hex_plain:
  assumes "c \<notin> set HEX_DIGITS"
  shows "c \<notin> set (to_hex bs)"
  using to_hex_digits assms by blast

end
