(* ===== verification/Gdb_Stub.thy ===== *)
theory Gdb_Stub
  imports Text_Protocol "HOL-Library.AList"
begin

text \<open>
  The debugger stub (\<open>src/gdbstub.rs\<close>): the packet framing of the GDB remote protocol, the software
  breakpoints patched into guest memory, resuming over them, and the handling of debug exits.

  One record holds the stub, the two directions of its socket (\<open>gs_rx\<close> is what the debugger has sent
  and the stub has not read, \<open>gs_tx\<close> what the stub has written), the vCPU and guest memory. A function
  that returns \<open>std::io::Result\<close> is an \<open>io\<close> value: it keeps the changes made before an error. Reading
  past what the debugger sent is the end of the connection.

  The vCPU's ioctls are KVM's, so they are the parameter \<open>vcpu_ops\<close>, over a vCPU of an arbitrary type;
  an error carries its text. The breakpoint table is a list of entries with distinct addresses, in the
  order the hash map is walked; no result below depends on that order.
\<close>

subsection \<open>The vCPU\<close>

record gp_regs =
  g_rax :: u64
  g_rbx :: u64
  g_rcx :: u64
  g_rdx :: u64
  g_rsi :: u64
  g_rdi :: u64
  g_rsp :: u64
  g_rbp :: u64
  g_r8 :: u64
  g_r9 :: u64
  g_r10 :: u64
  g_r11 :: u64
  g_r12 :: u64
  g_r13 :: u64
  g_r14 :: u64
  g_r15 :: u64
  g_rip :: u64
  g_rflags :: u64

record selectors =
  sel_cs :: u16
  sel_ss :: u16
  sel_ds :: u16
  sel_es :: u16
  sel_fs :: u16
  sel_gs :: u16

record exception_event =
  ev_injected :: u8
  ev_nr :: u8
  ev_has_error_code :: u8
  ev_error_code :: u32

record 'v vcpu_ops =
  get_regs :: "'v \<Rightarrow> string + gp_regs"
  set_regs :: "gp_regs \<Rightarrow> 'v \<Rightarrow> string + 'v"
  get_sregs :: "'v \<Rightarrow> string + selectors"
  set_guest_debug :: "u32 \<Rightarrow> 'v \<Rightarrow> string + 'v"
  get_vcpu_events :: "'v \<Rightarrow> string + exception_event"
  set_vcpu_events :: "exception_event \<Rightarrow> 'v \<Rightarrow> string + 'v"

definition KVM_GUESTDBG_ENABLE :: u32 where "KVM_GUESTDBG_ENABLE = 1"
definition KVM_GUESTDBG_SINGLESTEP :: u32 where "KVM_GUESTDBG_SINGLESTEP = 2"
definition KVM_GUESTDBG_USE_SW_BP :: u32 where "KVM_GUESTDBG_USE_SW_BP = 0x10000"
definition BP_VECTOR :: u8 where "BP_VECTOR = 3"

subsection \<open>The stub and its effects\<close>

record 'v gdb_state =
  gs_breakpoints :: "(u64 \<times> byte) list"
  gs_attached :: bool
  gs_stopped :: bool
  gs_killed :: bool
  gs_no_ack :: bool
  gs_was_stepping :: bool
  gs_pending_step_over :: "u64 option"
  gs_resume_after_step_over :: bool
  gs_rx :: bytes
  gs_tx :: bytes
  gs_tx_open :: bool
  gs_vcpu :: 'v
  gs_mem :: guest_memory

text \<open>\<open>listen\<close>: the stub for the one debugger that connected, whose bytes will be \<open>rx\<close>.\<close>

definition gdb_listen :: "bytes \<Rightarrow> 'v \<Rightarrow> guest_memory \<Rightarrow> 'v gdb_state" where
  "gdb_listen rx v m = \<lparr>gs_breakpoints = [], gs_attached = True, gs_stopped = True, gs_killed = False, gs_no_ack = False,
     gs_was_stepping = False, gs_pending_step_over = None, gs_resume_after_step_over = False,
     gs_rx = rx, gs_tx = [], gs_tx_open = True, gs_vcpu = v, gs_mem = m\<rparr>"

datatype debug_action = Stop | ForwardToGuest | Resumed

datatype io_error = Eof | Broken_pipe | Kvm_err string

type_synonym ('v, 'a) io = "'v gdb_state \<Rightarrow> (io_error + 'a) \<times> 'v gdb_state"

definition io_ok :: "'a \<Rightarrow> ('v, 'a) io" where
  "io_ok x s = (Inr x, s)"

definition io_bind :: "('v, 'a) io \<Rightarrow> ('a \<Rightarrow> ('v, 'b) io) \<Rightarrow> ('v, 'b) io" where
  "io_bind c k s = (case c s of (Inl e, s') \<Rightarrow> (Inl e, s') | (Inr x, s') \<Rightarrow> k x s')"

definition io_update :: "('v gdb_state \<Rightarrow> 'v gdb_state) \<Rightarrow> ('v, unit) io" where
  "io_update f s = (Inr (), f s)"

text \<open>An ioctl that reads the vCPU, and one that changes it.\<close>

definition io_get :: "('v \<Rightarrow> string + 'a) \<Rightarrow> ('v, 'a) io" where
  "io_get q s = (case q (gs_vcpu s) of Inl e \<Rightarrow> (Inl (Kvm_err e), s) | Inr x \<Rightarrow> (Inr x, s))"

definition io_set :: "('v \<Rightarrow> string + 'v) \<Rightarrow> ('v, unit) io" where
  "io_set q s = (case q (gs_vcpu s) of Inl e \<Rightarrow> (Inl (Kvm_err e), s) | Inr v \<Rightarrow> (Inr (), s\<lparr>gs_vcpu := v\<rparr>))"

subsection \<open>Packet framing\<close>

fun split_byte :: "byte \<Rightarrow> bytes \<Rightarrow> (bytes \<times> bytes) option" where
  "split_byte c [] = None"
| "split_byte c (b # bs) =
     (if b = c then Some ([], bs) else map_option (\<lambda>(p, r). (b # p, r)) (split_byte c bs))"

definition rsp_checksum :: "bytes \<Rightarrow> u8" where
  "rsp_checksum bs = fold (\<lambda>b acc. acc + b) bs 0"

definition rsp_checksum_received :: "bytes \<Rightarrow> u8 \<Rightarrow> u8" where
  "rsp_checksum_received hex expected =
     (let s = (if from_utf8_lossy hex = hex then chars_of hex else '''') in
      case from_str_radix 16 s of None \<Rightarrow> NOT expected | Some v \<Rightarrow> v)"

definition send_bytes :: "bytes \<Rightarrow> 'v gdb_state \<Rightarrow> 'v gdb_state" where
  "send_bytes bs s = (if gs_tx_open s then s\<lparr>gs_tx := gs_tx s @ bs\<rparr> else s)"

lemma split_byte_length: "split_byte c bs = Some (p, r) \<Longrightarrow> length bs = Suc (length p + length r)"
  by (induction c bs arbitrary: p rule: split_byte.induct) (auto split: if_splits)

lemma send_bytes_keeps [simp]:
  "gs_rx (send_bytes bs s) = gs_rx s" "gs_no_ack (send_bytes bs s) = gs_no_ack s"
  "gs_tx_open (send_bytes bs s) = gs_tx_open s" "gs_mem (send_bytes bs s) = gs_mem s"
  "gs_breakpoints (send_bytes bs s) = gs_breakpoints s" "gs_vcpu (send_bytes bs s) = gs_vcpu s"
  by (simp_all add: send_bytes_def)

function read_packet :: "('v, string) io" where
  "read_packet s =
     (case split_byte 0x24 (gs_rx s) of
        None \<Rightarrow> (Inl Eof, s\<lparr>gs_rx := []\<rparr>)
      | Some (_, r) \<Rightarrow>
          (case split_byte 0x23 r of
             None \<Rightarrow> (Inl Eof, s\<lparr>gs_rx := []\<rparr>)
           | Some (data, c1 # c2 # rest) \<Rightarrow>
               (let expected = rsp_checksum data;
                    received = rsp_checksum_received [c1, c2] expected;
                    s = s\<lparr>gs_rx := rest\<rparr>;
                    s = (if gs_no_ack s then s else send_bytes [if received = expected then 0x2b else 0x2d] s)
                in if received = expected then (Inr (chars_of (from_utf8_lossy data)), s)
                   else if gs_no_ack s then (Inr [], s)
                   else read_packet s)
           | Some _ \<Rightarrow> (Inl Eof, s\<lparr>gs_rx := []\<rparr>)))"
  by pat_completeness auto
termination
  by (relation "measure (\<lambda>s. length (gs_rx s))") (auto dest!: split_byte_length split: if_splits)

declare read_packet.simps [simp del]

definition packet_frame :: "string \<Rightarrow> bytes" where
  "packet_frame data = 0x24 # ascii data @ 0x23 # ascii (to_hex [rsp_checksum (ascii data)])"

definition write_packet :: "string \<Rightarrow> ('v, unit) io" where
  "write_packet data s =
     (if \<not> gs_tx_open s then (Inl Broken_pipe, s)
      else let s = send_bytes (packet_frame data) s in
        if gs_no_ack s then (Inr (), s)
        else case gs_rx s of [] \<Rightarrow> (Inl Eof, s) | _ # r \<Rightarrow> (Inr (), s\<lparr>gs_rx := r\<rparr>))"

subsection \<open>Breakpoints and memory\<close>

definition poke :: "u64 \<Rightarrow> byte \<Rightarrow> guest_memory \<Rightarrow> guest_memory" where
  "poke a b m = snd (write_checked m a [b])"

definition insert_breakpoint :: "string \<Rightarrow> 'v gdb_state \<Rightarrow> string \<times> 'v gdb_state" where
  "insert_breakpoint arg s =
     (case split_once (CHR '','') arg of
        None \<Rightarrow> (''E01'', s)
      | Some (addr_hex, _) \<Rightarrow>
          (case from_str_radix 16 addr_hex of
             None \<Rightarrow> (''E01'', s)
           | Some addr \<Rightarrow>
               (case read_checked (gs_mem s) addr 1 of
                  None \<Rightarrow> (''E01'', s)
                | Some orig \<Rightarrow>
                    (''OK'', s\<lparr>gs_breakpoints := AList.update addr (orig ! 0) (gs_breakpoints s),
                              gs_mem := poke addr 0xcc (gs_mem s)\<rparr>))))"

definition remove_breakpoint :: "string \<Rightarrow> 'v gdb_state \<Rightarrow> string \<times> 'v gdb_state" where
  "remove_breakpoint arg s =
     (case split_once (CHR '','') arg of
        None \<Rightarrow> (''E01'', s)
      | Some (addr_hex, _) \<Rightarrow>
          (case from_str_radix 16 addr_hex of
             None \<Rightarrow> (''E01'', s)
           | Some addr \<Rightarrow>
               (''OK'', case map_of (gs_breakpoints s) addr of
                  None \<Rightarrow> s
                | Some orig \<Rightarrow> s\<lparr>gs_breakpoints := AList.delete addr (gs_breakpoints s),
                                gs_mem := poke addr orig (gs_mem s)\<rparr>)))"

text \<open>The loops over the table: whether an entry lies in the range, and what is done with it.\<close>

definition hits :: "u64 \<Rightarrow> nat \<Rightarrow> u64 \<Rightarrow> bool" where
  "hits addr len bp \<longleftrightarrow> addr \<le> bp \<and> bp < addr + of_nat len"

definition show_originals :: "u64 \<Rightarrow> nat \<Rightarrow> (u64 \<times> byte) list \<Rightarrow> bytes \<Rightarrow> bytes" where
  "show_originals addr len bps buf =
     fold (\<lambda>(bp, orig) buf. if hits addr len bp then buf[unat (bp - addr) := orig] else buf) bps buf"

definition shadow_write :: "u64 \<Rightarrow> bytes \<Rightarrow> (u64 \<times> byte) list \<Rightarrow> guest_memory \<Rightarrow> (u64 \<times> byte) list \<times> guest_memory" where
  "shadow_write addr data bps m =
     (map (\<lambda>(bp, orig). (bp, if hits addr (length data) bp then data ! unat (bp - addr) else orig)) bps,
      fold (\<lambda>(bp, orig) m. if hits addr (length data) bp then poke bp 0xcc m else m) bps m)"

definition read_memory :: "string \<Rightarrow> 'v gdb_state \<Rightarrow> string" where
  "read_memory arg s =
     (case split_once (CHR '','') arg of
        None \<Rightarrow> ''E01''
      | Some (addr_hex, len_hex) \<Rightarrow>
          (case (from_str_radix 16 addr_hex :: u64 option, from_str_radix 16 len_hex :: u64 option) of
             (Some addr, Some len) \<Rightarrow>
               (if len > 0x100000 then ''E01''
                else case read_checked (gs_mem s) addr (unat len) of
                    None \<Rightarrow> ''E01''
                  | Some buf \<Rightarrow> to_hex (show_originals addr (unat len) (gs_breakpoints s) buf))
           | _ \<Rightarrow> ''E01''))"

definition write_memory :: "string \<Rightarrow> 'v gdb_state \<Rightarrow> string \<times> 'v gdb_state" where
  "write_memory arg s =
     (case split_once (CHR '':'') arg of
        None \<Rightarrow> (''E01'', s)
      | Some (header, data_hex) \<Rightarrow>
          (case split_once (CHR '','') header of
             None \<Rightarrow> (''E01'', s)
           | Some (addr_hex, len_hex) \<Rightarrow>
               (case (from_str_radix 16 addr_hex :: u64 option, from_str_radix 16 len_hex :: u64 option) of
                  (Some addr, Some len) \<Rightarrow>
                    (case from_hex data_hex of
                       None \<Rightarrow> (''E01'', s)
                     | Some data \<Rightarrow>
                         if length data \<noteq> unat len then (''E01'', s)
                         else case write_checked (gs_mem s) addr data of
                             (False, m) \<Rightarrow> (''E01'', s)
                           | (True, m) \<Rightarrow>
                               (let (bps, m) = shadow_write addr data (gs_breakpoints s) m
                                in (''OK'', s\<lparr>gs_breakpoints := bps, gs_mem := m\<rparr>)))
                | _ \<Rightarrow> (''E01'', s))))"

definition detach :: "'v gdb_state \<Rightarrow> 'v gdb_state" where
  "detach s = s\<lparr>gs_mem := fold (\<lambda>(addr, orig) m. poke addr orig m) (gs_breakpoints s) (gs_mem s),
               gs_breakpoints := [], gs_attached := False, gs_stopped := False\<rparr>"

subsection \<open>Registers\<close>

definition gp_list :: "gp_regs \<Rightarrow> u64 list" where
  "gp_list r = [g_rax r, g_rbx r, g_rcx r, g_rdx r, g_rsi r, g_rdi r, g_rbp r, g_rsp r,
                g_r8 r, g_r9 r, g_r10 r, g_r11 r, g_r12 r, g_r13 r, g_r14 r, g_r15 r, g_rip r]"

definition sel_list :: "selectors \<Rightarrow> u16 list" where
  "sel_list q = [sel_cs q, sel_ss q, sel_ds q, sel_es q, sel_fs q, sel_gs q]"

definition register_bytes :: "gp_regs \<Rightarrow> selectors \<Rightarrow> bytes" where
  "register_bytes r q =
     concat (map le64 (gp_list r)) @
     concat (map le32 ((ucast (g_rflags r) :: u32) # map ucast (sel_list q)))"

definition read_all_registers :: "'v vcpu_ops \<Rightarrow> 'v gdb_state \<Rightarrow> string" where
  "read_all_registers ops s =
     (case (get_regs ops (gs_vcpu s), get_sregs ops (gs_vcpu s)) of
        (Inr r, Inr q) \<Rightarrow> to_hex (register_bytes r q)
      | _ \<Rightarrow> ''E01'')"

definition word_at :: "bytes \<Rightarrow> nat \<Rightarrow> u64" where
  "word_at bs i = of_le (subslice bs (8 * i) 8)"

definition regs_from_bytes :: "bytes \<Rightarrow> gp_regs \<Rightarrow> gp_regs" where
  "regs_from_bytes bs r =
     (let r = r\<lparr>g_rax := word_at bs 0, g_rbx := word_at bs 1, g_rcx := word_at bs 2, g_rdx := word_at bs 3,
                g_rsi := word_at bs 4, g_rdi := word_at bs 5, g_rbp := word_at bs 6, g_rsp := word_at bs 7,
                g_r8 := word_at bs 8, g_r9 := word_at bs 9, g_r10 := word_at bs 10, g_r11 := word_at bs 11,
                g_r12 := word_at bs 12, g_r13 := word_at bs 13, g_r14 := word_at bs 14, g_r15 := word_at bs 15,
                g_rip := word_at bs 16\<rparr>
      in if 140 \<le> length bs then r\<lparr>g_rflags := ucast (of_le (subslice bs 136 4) :: u32)\<rparr> else r)"

text \<open>The text of a length error is \<open>show_dec\<close> of the number of bytes.\<close>

definition write_all_registers :: "'v vcpu_ops \<Rightarrow> string \<Rightarrow> 'v gdb_state \<Rightarrow> (string + unit) \<times> 'v gdb_state" where
  "write_all_registers ops hex s =
     (case from_hex hex of
        None \<Rightarrow> (Inl ''bad hex'', s)
      | Some bs \<Rightarrow>
          if length bs < 136 then (Inl (''expected at least 136 bytes, got '' @ show_radix 10 (length bs)), s)
          else case get_regs ops (gs_vcpu s) of
              Inl e \<Rightarrow> (Inl e, s)
            | Inr r \<Rightarrow>
                (case set_regs ops (regs_from_bytes bs r) (gs_vcpu s) of
                   Inl e \<Rightarrow> (Inl e, s)
                 | Inr v \<Rightarrow> (Inr (), s\<lparr>gs_vcpu := v\<rparr>)))"

subsection \<open>Resuming\<close>

definition apply_resume_address :: "'v vcpu_ops \<Rightarrow> string \<Rightarrow> ('v, unit) io" where
  "apply_resume_address ops arg =
     (if arg = '''' then io_ok ()
      else case from_str_radix 16 arg of
          None \<Rightarrow> io_ok ()
        | Some addr \<Rightarrow>
            io_bind (io_get (get_regs ops)) (\<lambda>regs. io_set (set_regs ops (regs\<lparr>g_rip := addr\<rparr>))))"

definition step_over_prepare :: "u64 \<Rightarrow> bool \<Rightarrow> 'v gdb_state \<Rightarrow> bool \<times> 'v gdb_state" where
  "step_over_prepare rip single_step s =
     (case map_of (gs_breakpoints s) rip of
        Some orig \<Rightarrow> (True, s\<lparr>gs_mem := poke rip orig (gs_mem s), gs_pending_step_over := Some rip,
                              gs_resume_after_step_over := \<not> single_step\<rparr>)
      | None \<Rightarrow> (False, s\<lparr>gs_pending_step_over := None\<rparr>))"

definition resume :: "'v vcpu_ops \<Rightarrow> bool \<Rightarrow> ('v, unit) io" where
  "resume ops single_step =
     io_bind (io_get (get_regs ops)) (\<lambda>regs s.
       let (stepping_over, s) = step_over_prepare (g_rip regs) single_step s;
           force_single_step = (single_step \<or> stepping_over);
           control = KVM_GUESTDBG_ENABLE OR KVM_GUESTDBG_USE_SW_BP;
           control = (if force_single_step then control OR KVM_GUESTDBG_SINGLESTEP else control)
       in io_bind (io_set (set_guest_debug ops control)) (\<lambda>_.
            io_update (\<lambda>s. s\<lparr>gs_was_stepping := force_single_step, gs_stopped := False\<rparr>)) s)"

definition inject_breakpoint_exception :: "'v vcpu_ops \<Rightarrow> ('v, unit) io" where
  "inject_breakpoint_exception ops =
     io_bind (io_get (get_vcpu_events ops)) (\<lambda>ev.
       io_set (set_vcpu_events ops (ev\<lparr>ev_injected := 1, ev_nr := BP_VECTOR, ev_has_error_code := 0, ev_error_code := 0\<rparr>)))"

definition report_stop :: "('v, debug_action) io" where
  "report_stop = io_bind (io_update (\<lambda>s. s\<lparr>gs_stopped := True\<rparr>)) (\<lambda>_.
     io_bind (write_packet ''S05'') (\<lambda>_. io_ok Stop))"

definition handle_debug_exit :: "'v vcpu_ops \<Rightarrow> u64 \<Rightarrow> ('v, debug_action) io" where
  "handle_debug_exit ops pc s =
     (if gs_was_stepping s then
        let s = s\<lparr>gs_was_stepping := False\<rparr> in
        case gs_pending_step_over s of
          Some addr \<Rightarrow>
            (let s = s\<lparr>gs_pending_step_over := None, gs_mem := poke addr 0xcc (gs_mem s)\<rparr> in
             if gs_resume_after_step_over s then io_bind (resume ops False) (\<lambda>_. io_ok Resumed) s
             else report_stop s)
        | None \<Rightarrow> report_stop s
      else if map_of (gs_breakpoints s) pc \<noteq> None then report_stop s
      else io_bind (inject_breakpoint_exception ops) (\<lambda>_. io_ok ForwardToGuest) s)"

subsection \<open>Commands\<close>

text \<open>\<open>starts_with\<close> is \<open>str::starts_with\<close>; \<open>reply_with\<close> is the arm that answers and falls through to \<open>write_packet\<close>.\<close>

definition starts_with :: "string \<Rightarrow> string \<Rightarrow> bool" where
  "starts_with p s \<longleftrightarrow> take (length p) s = p"

definition reply_with :: "string \<times> 'v gdb_state \<Rightarrow> (io_error + unit) \<times> 'v gdb_state" where
  "reply_with r = (case r of (reply, s) \<Rightarrow> write_packet reply s)"

definition handle_packet :: "'v vcpu_ops \<Rightarrow> string \<Rightarrow> ('v, unit) io" where
  "handle_packet ops packet s =
     (case packet of
        [] \<Rightarrow> reply_with ('''', s)
      | c # arg \<Rightarrow>
          if c = CHR ''?'' then reply_with (''S05'', s)
          else if c = CHR ''g'' then reply_with (read_all_registers ops s, s)
          else if c = CHR ''G'' then
            (case write_all_registers ops arg s of
               (Inr _, s) \<Rightarrow> reply_with (''OK'', s)
             | (Inl msg, s) \<Rightarrow> reply_with (''E01;'' @ msg, s))
          else if c = CHR ''m'' then reply_with (read_memory arg s, s)
          else if c = CHR ''M'' then reply_with (write_memory arg s)
          else if c = CHR ''c'' then io_bind (apply_resume_address ops arg) (\<lambda>_. resume ops False) s
          else if c = CHR ''s'' then io_bind (apply_resume_address ops arg) (\<lambda>_. resume ops True) s
          else if c = CHR ''Z'' \<and> starts_with ''Z0,'' packet then reply_with (insert_breakpoint (drop 3 packet) s)
          else if c = CHR ''z'' \<and> starts_with ''z0,'' packet then reply_with (remove_breakpoint (drop 3 packet) s)
          else if c = CHR ''Z'' \<or> c = CHR ''z'' then reply_with ('''', s)
          else if c = CHR ''D'' then reply_with (''OK'', detach s)
          else if c = CHR ''k'' then (Inr (), s\<lparr>gs_killed := True, gs_attached := False\<rparr>)
          else if starts_with ''qSupported'' packet then reply_with (''PacketSize=4000'', s)
          else if packet = ''QStartNoAckMode'' then reply_with (''OK'', s\<lparr>gs_no_ack := True\<rparr>)
          else reply_with ('''', s))"

text \<open>
  Serving commands until the debugger resumes the guest or leaves. Each round consumes at least one
  byte of what the debugger sent, so the loop ends: with the resume, or with the connection.
\<close>

definition rx_shrinks :: "('v, 'a) io \<Rightarrow> bool" where
  "rx_shrinks c \<longleftrightarrow> (\<forall>s. length (gs_rx (snd (c s))) \<le> length (gs_rx s))"

named_theorems rx_intros \<open>operations that send nothing back into their own input\<close>

lemma rx_shrinks_bind [rx_intros]: "rx_shrinks c \<Longrightarrow> (\<And>x. rx_shrinks (k x)) \<Longrightarrow> rx_shrinks (io_bind c k)"
  unfolding rx_shrinks_def
proof
  fix s
  assume c: "\<forall>s. length (gs_rx (snd (c s))) \<le> length (gs_rx s)"
    and k: "\<And>x. \<forall>s. length (gs_rx (snd (k x s))) \<le> length (gs_rx s)"
  obtain r s' where r: "c s = (r, s')" by fastforce
  have "length (gs_rx s') \<le> length (gs_rx s)" using c [rule_format, of s] by (simp add: r)
  moreover have "length (gs_rx (snd (k x s'))) \<le> length (gs_rx s')" for x using k by blast
  ultimately show "length (gs_rx (snd (io_bind c k s))) \<le> length (gs_rx s)"
    by (auto simp: io_bind_def r intro: le_trans split: sum.split)
qed

lemma rx_shrinks_basic [rx_intros]:
  "rx_shrinks (io_ok x)" "rx_shrinks (io_get q)" "rx_shrinks (io_set q')"
  by (auto simp: rx_shrinks_def io_ok_def io_get_def io_set_def split: sum.split)

lemma rx_shrinks_update [rx_intros]: "(\<And>s. gs_rx (f s) = gs_rx s) \<Longrightarrow> rx_shrinks (io_update f)"
  by (simp add: rx_shrinks_def io_update_def)

lemma rx_shrinks_write_packet [rx_intros]: "rx_shrinks (write_packet data)"
  by (simp add: rx_shrinks_def write_packet_def Let_def send_bytes_def split: list.split)

lemma rx_step_over_prepare [simp]: "gs_rx (snd (step_over_prepare rip b s)) = gs_rx s"
  by (simp add: step_over_prepare_def split: option.split)

lemma rx_shrinks_resume [rx_intros]: "rx_shrinks (resume ops b)"
proof -
  have "rx_shrinks (io_bind (io_set q) (\<lambda>_. io_update (\<lambda>s. s\<lparr>gs_was_stepping := w, gs_stopped := False\<rparr>)))" for q :: "'a \<Rightarrow> string + 'a" and w
    by (intro rx_intros) simp
  then have *: "length (gs_rx (snd (io_bind (io_set q) (\<lambda>_. io_update (\<lambda>s. s\<lparr>gs_was_stepping := w, gs_stopped := False\<rparr>)) t))) \<le> length (gs_rx s)"
    if "gs_rx t = gs_rx s" for q :: "'a \<Rightarrow> string + 'a" and w t s
    using that unfolding rx_shrinks_def by metis
  show ?thesis
    unfolding resume_def
    by (intro rx_intros, unfold rx_shrinks_def) (auto simp: Let_def split_beta intro!: *)
qed

lemma rx_shrinks_apply_resume_address [rx_intros]: "rx_shrinks (apply_resume_address ops arg)"
  unfolding apply_resume_address_def by (auto intro!: rx_intros split: option.split)

lemma rx_of_commands [simp]:
  "gs_rx (snd (insert_breakpoint arg s)) = gs_rx s" "gs_rx (snd (remove_breakpoint arg s)) = gs_rx s"
  "gs_rx (snd (write_memory arg s)) = gs_rx s" "gs_rx (snd (write_all_registers ops arg s)) = gs_rx s"
  "gs_rx (detach s) = gs_rx s"
  by (auto simp: insert_breakpoint_def remove_breakpoint_def write_memory_def write_all_registers_def detach_def Let_def split_beta
      split: option.split prod.split bool.split sum.split)

lemma rx_reply_with: "gs_rx (snd r) = gs_rx s \<Longrightarrow> length (gs_rx (snd (reply_with r))) \<le> length (gs_rx s)"
  using rx_shrinks_write_packet [of "fst r", unfolded rx_shrinks_def, rule_format, of "snd r"]
  by (simp add: reply_with_def split_beta)

lemma rx_shrinks_handle_packet: "rx_shrinks (handle_packet ops packet)"
proof -
  have "length (gs_rx (snd (case write_all_registers ops arg s of (Inr _, s) \<Rightarrow> reply_with (''OK'', s) | (Inl msg, s) \<Rightarrow> reply_with (''E01;'' @ msg, s))))
      \<le> length (gs_rx s)" for arg s
  proof (cases "write_all_registers ops arg s")
    case (Pair r s')
    then have "gs_rx s' = gs_rx s" using rx_of_commands(4) [of ops arg s] by simp
    then show ?thesis by (simp add: Pair rx_reply_with split: sum.split)
  qed
  moreover have "length (gs_rx (snd (io_bind (apply_resume_address ops arg) (\<lambda>_. resume ops b) s))) \<le> length (gs_rx s)" for arg b s
    by (rule rx_shrinks_bind [OF rx_shrinks_apply_resume_address rx_shrinks_resume, unfolded rx_shrinks_def, rule_format])
  ultimately show ?thesis
    unfolding rx_shrinks_def handle_packet_def by (auto simp: rx_reply_with split: list.split)
qed

text \<open>One attempt to read a packet: the connection ends, a packet is returned, or a bad one is refused and asked for again.\<close>

lemma read_packet_cases:
  obtains "read_packet s = (Inl Eof, s\<lparr>gs_rx := []\<rparr>)"
  | (ret) p rest ack where "read_packet s = (Inr p, if gs_no_ack s then s\<lparr>gs_rx := rest\<rparr> else send_bytes ack (s\<lparr>gs_rx := rest\<rparr>))"
      and "length rest < length (gs_rx s)"
  | (retry) rest where "read_packet s = read_packet (send_bytes [0x2d] (s\<lparr>gs_rx := rest\<rparr>))" and "length rest < length (gs_rx s)"
proof (cases "\<exists>p0 r data c1 c2 rest. split_byte 0x24 (gs_rx s) = Some (p0, r) \<and> split_byte 0x23 r = Some (data, c1 # c2 # rest)")
  case False
  then have "read_packet s = (Inl Eof, s\<lparr>gs_rx := []\<rparr>)"
    by (subst read_packet.simps) (auto split: option.split list.split)
  then show ?thesis by (rule that(1))
next
  case True
  then obtain p0 r data c1 c2 rest where
    sp: "split_byte 0x24 (gs_rx s) = Some (p0, r)" "split_byte 0x23 r = Some (data, c1 # c2 # rest)" by blast
  have len: "length rest < length (gs_rx s)" using sp [THEN split_byte_length] by simp
  let ?good = "rsp_checksum_received [c1, c2] (rsp_checksum data) = rsp_checksum data"
  have eq: "read_packet s =
      (if ?good then (Inr (chars_of (from_utf8_lossy data)), if gs_no_ack s then s\<lparr>gs_rx := rest\<rparr> else send_bytes [0x2b] (s\<lparr>gs_rx := rest\<rparr>))
       else if gs_no_ack s then (Inr [], s\<lparr>gs_rx := rest\<rparr>) else read_packet (send_bytes [0x2d] (s\<lparr>gs_rx := rest\<rparr>)))"
    by (subst read_packet.simps) (simp add: sp Let_def)
  show ?thesis
  proof (cases "?good \<or> gs_no_ack s")
    case True
    then show ?thesis
      using eq by (intro ret [of "if ?good then chars_of (from_utf8_lossy data) else []" rest "[0x2b]"] len) auto
  next
    case False
    then show ?thesis using eq len by (intro retry) simp_all
  qed
qed

lemma read_packet_consumes: "read_packet s = (Inr p, s') \<Longrightarrow> length (gs_rx s') < length (gs_rx s)"
proof (induction "length (gs_rx s)" arbitrary: s rule: less_induct)
  case less
  show ?case
  proof (cases s rule: read_packet_cases)
    case (ret p rest ack)
    with less(2) show ?thesis by auto
  next
    case (retry rest)
    with less(1) [of "send_bytes [0x2d] (s\<lparr>gs_rx := rest\<rparr>)"] less(2) show ?thesis by simp
  qed (use less(2) in simp)
qed

lemma serve_consumes:
  assumes "read_packet s = (Inr packet, s')" and "handle_packet ops packet s' = (r, s'')"
  shows "length (gs_rx s'') < length (gs_rx s)"
  using read_packet_consumes [OF assms(1)] assms(2)
    rx_shrinks_handle_packet [of ops packet, unfolded rx_shrinks_def, rule_format, of s'] by simp

function serve_until_resume :: "'v vcpu_ops \<Rightarrow> ('v, unit) io" where
  "serve_until_resume ops s =
     (if gs_stopped s \<and> gs_attached s then
        (case read_packet s of
           (Inl e, s') \<Rightarrow> (Inl e, s')
         | (Inr packet, s') \<Rightarrow>
             (case handle_packet ops packet s' of
                (Inl e, s'') \<Rightarrow> (Inl e, s'')
              | (Inr _, s'') \<Rightarrow> serve_until_resume ops s''))
      else (Inr (), s))"
  by pat_completeness auto
termination
  by (relation "measure (\<lambda>(ops, s). length (gs_rx s))") (simp, simp, metis serve_consumes)

declare serve_until_resume.simps [simp del]

text \<open>
  The two places where the vCPU loop (\<open>src/vcpu.rs\<close>) consults the stub: before each entry into the
  guest, and after a debug exit, whose error is only logged.
\<close>

datatype gate = Quit | Gdb_failed io_error | Served | Enter

definition gdb_before_run :: "'v vcpu_ops \<Rightarrow> 'v gdb_state \<Rightarrow> gate \<times> 'v gdb_state" where
  "gdb_before_run ops s =
     (if gs_killed s then (Quit, s)
      else if gs_attached s \<and> gs_stopped s then
        (case serve_until_resume ops s of
           (Inl e, s) \<Rightarrow> (Gdb_failed e, s)
         | (Inr _, s) \<Rightarrow> (Served, s))
      else (Enter, s))"

definition gdb_after_debug_exit :: "'v vcpu_ops \<Rightarrow> u64 \<Rightarrow> 'v gdb_state \<Rightarrow> 'v gdb_state" where
  "gdb_after_debug_exit ops pc s = snd (handle_debug_exit ops pc s)"

end
