(* ===== verification/Gdb_Session.thy ===== *)
theory Gdb_Session
  imports Gdb_Stub
begin

text \<open>
  What a debugging session does (\<open>src/gdbstub.rs\<close>). The reference is a debugger's view of a guest with no
  breakpoint patched in: a plain memory and a set of breakpoint addresses. \<open>debugger_view\<close> maps the stub's
  patched memory and its table to that view; reads, writes, insertion and removal are shown to act on
  the view as on the plain memory, over whole sessions read from the socket.
\<close>

subsection \<open>Framing\<close>

definition plain_text :: "string \<Rightarrow> bool" where
  "plain_text p \<longleftrightarrow> (\<forall>c \<in> set p. c \<noteq> CHR ''#'' \<and> of_char c < (128 :: nat))"

lemma ascii_byte: "of_char c < (128 :: nat) \<Longrightarrow> (of_char c :: byte) < 0x80"
  unfolding word_less_nat_alt using unat_of_nat [of "of_char c", where 'a = 8] by (simp add: of_nat_of_char take_bit_nat_eq_self)

lemma split_byte_append: "c \<notin> set p \<Longrightarrow> split_byte c (p @ c # r) = Some (p, r)"
  by (induction p) auto

lemma split_byte_hash: "plain_text p \<Longrightarrow> split_byte 0x23 (ascii p @ 0x23 # r) = Some (ascii p, r)"
proof (rule split_byte_append)
  assume p: "plain_text p"
  have "c = CHR ''#''" if "of_char c = (0x23 :: byte)" for c
    using chars_of_ascii [of "[c]"] that chars_of_ascii [of "''#''"] by (simp add: chars_of_def ascii_def)
  then show "0x23 \<notin> set (ascii p)" using p unfolding ascii_def plain_text_def set_map image_iff by metis
qed

lemma lossy_plain: "plain_text p \<Longrightarrow> chars_of (from_utf8_lossy (ascii p)) = p"
proof -
  assume "plain_text p"
  then have "\<forall>b \<in> set (ascii p). b < 0x80"
    unfolding plain_text_def ascii_def set_map ball_simps using ascii_byte by metis
  then show ?thesis by (simp only: from_utf8_lossy_ascii chars_of_ascii)
qed

lemma to_digit_hex: "n < 16 \<Longrightarrow> to_digit 16 (HEX_DIGITS ! n) = Some n"
proof -
  assume "n < 16"
  then have "n \<in> {0,1,2,3,4,5,6,7,8,9,10,11,12,13,14,15}" by simp presburger
  then show ?thesis by (auto simp: HEX_DIGITS_def to_digit_def)
qed

lemma hex_digit_plain: "n < 16 \<Longrightarrow> HEX_DIGITS ! n \<noteq> CHR ''+'' \<and> HEX_DIGITS ! n \<noteq> CHR ''#'' \<and> of_char (HEX_DIGITS ! n) < (128 :: nat)"
proof -
  assume "n < 16"
  then have "n \<in> {0,1,2,3,4,5,6,7,8,9,10,11,12,13,14,15}" by simp presburger
  then show ?thesis by (auto simp: HEX_DIGITS_def)
qed

lemma byte_hex_value: "from_str_radix 16 (to_hex [b]) = Some (b :: u8)"
proof -
  let ?h = "unat (drop_bit 4 b)" and ?l = "unat (b AND 0xf)"
  have v: "?h * 16 + ?l = unat b"
  proof -
    have "b AND 0xf = take_bit 4 b" by (simp add: take_bit_eq_mask mask_eq_exp_minus_1)
    then have l: "?l = unat b mod 16" by (simp only: unsigned_take_bit_eq) (simp add: take_bit_eq_mod)
    have h: "?h = unat b div 16" unfolding unsigned_drop_bit_eq using unat_lt_pow [of b] by (simp add: drop_bit_eq_div take_bit_nat_eq_self)
    show ?thesis unfolding l h by simp
  qed
  have "parse_digits 16 [HEX_DIGITS ! ?h, HEX_DIGITS ! ?l] (0 :: u8) = Some b"
    using v unat_lt_pow [of b] by (subst parse_digits_eq) (simp_all add: to_digit_hex half_byte)
  then show ?thesis using hex_digit_plain [OF half_byte(1), of b] by (simp add: from_str_radix_def)
qed

lemma rsp_checksum_good: "rsp_checksum_received (ascii (to_hex [b])) e = b"
proof -
  have "\<forall>c \<in> set (ascii (to_hex [b])). c < 0x80"
    using hex_digit_plain [OF half_byte(1), of b] hex_digit_plain [OF half_byte(2), of b] ascii_byte by (auto simp: ascii_def)
  from from_utf8_lossy_ascii [OF this] show ?thesis unfolding rsp_checksum_received_def by (simp add: byte_hex_value del: to_hex.simps)
qed

lemma ascii_two: "ascii (to_hex [b]) = [ascii (to_hex [b]) ! 0, ascii (to_hex [b]) ! 1]"
  by (simp add: ascii_def)

lemma read_packet_frame:
  assumes "plain_text p" and "gs_rx s = packet_frame p @ r"
  shows "read_packet s = (Inr p, let s = s\<lparr>gs_rx := r\<rparr> in if gs_no_ack s then s else send_bytes [0x2b] s)"
proof -
  obtain c1 c2 where c: "ascii (to_hex [rsp_checksum (ascii p)]) = [c1, c2]" using ascii_two [of "rsp_checksum (ascii p)"] by metis
  have "split_byte 0x24 (gs_rx s) = Some ([], ascii p @ 0x23 # c1 # c2 # r)" by (simp only: assms(2) packet_frame_def c) simp
  moreover have "split_byte 0x23 (ascii p @ 0x23 # c1 # c2 # r) = Some (ascii p, c1 # c2 # r)" by (rule split_byte_hash [OF assms(1)])
  moreover have "rsp_checksum_received [c1, c2] (rsp_checksum (ascii p)) = rsp_checksum (ascii p)"
    using rsp_checksum_good [of "rsp_checksum (ascii p)"] unfolding c .
  ultimately show ?thesis by (subst read_packet.simps) (simp add: Let_def lossy_plain [OF assms(1)])
qed

lemma write_packet_no_ack:
  "gs_no_ack s \<Longrightarrow> gs_tx_open s \<Longrightarrow> write_packet d s = (Inr (), s\<lparr>gs_tx := gs_tx s @ packet_frame d\<rparr>)"
  by (simp add: write_packet_def send_bytes_def)

subsection \<open>The debugger's view of memory\<close>

definition entry_at :: "(u64 \<times> byte) list \<Rightarrow> nat \<Rightarrow> byte option" where
  "entry_at bps i = (if i < 2 ^ 64 then map_of bps (of_nat i) else None)"

definition overlay :: "(nat \<Rightarrow> byte option) \<Rightarrow> guest_memory \<Rightarrow> guest_memory" where
  "overlay f m = m\<lparr>mem_bytes := (\<lambda>i. case f i of None \<Rightarrow> mem_bytes m i | Some b \<Rightarrow> b)\<rparr>"

definition debugger_view :: "'v gdb_state \<Rightarrow> guest_memory" where
  "debugger_view s = overlay (entry_at (gs_breakpoints s)) (gs_mem s)"

definition table_ok :: "(u64 \<times> byte) list \<Rightarrow> guest_memory \<Rightarrow> bool" where
  "table_ok bps m \<longleftrightarrow> distinct (map fst bps) \<and> (\<forall>a \<in> fst ` set bps. unat a < unat (mem_size m))"

lemma memory_eqI: "mem_size m = mem_size m' \<Longrightarrow> (\<And>i. mem_bytes m i = mem_bytes m' i) \<Longrightarrow> m = (m' :: guest_memory)"
  by (cases m, cases m') auto

lemma overlay_simps [simp]:
  "mem_size (overlay f m) = mem_size m"
  "mem_bytes (overlay f m) i = (case f i of None \<Rightarrow> mem_bytes m i | Some b \<Rightarrow> b)"
  by (simp_all add: overlay_def)

lemma mem_size_poke [simp]: "mem_size (poke a b m) = mem_size m"
  by (simp add: poke_def)

lemma mem_bytes_poke:
  "mem_bytes (poke a b m) i = (if i = unat a \<and> unat a < unat (mem_size m) then b else mem_bytes m i)"
  by (auto simp: poke_def write_checked_eq mem_bytes_write)

lemma unat_of_nat_64 [simp]: "i < 2 ^ 64 \<Longrightarrow> unat (of_nat i :: u64) = i"
  by (simp add: unat_of_nat take_bit_nat_eq_self)

lemma entry_at_unat [simp]: "entry_at bps (unat a) = map_of bps a"
  using unat_lt_pow [of a] by (simp add: entry_at_def)

lemma entry_at_None: "map_of bps a = None \<Longrightarrow> entry_at bps (unat a) = None"
  by simp

lemma entry_at_other: "(\<And>k. k \<noteq> a \<Longrightarrow> map_of bps' k = map_of bps k) \<Longrightarrow> i \<noteq> unat a \<Longrightarrow> entry_at bps' i = entry_at bps i"
  by (metis entry_at_def unat_of_nat_64)

lemma table_ok_bound: "table_ok bps m \<Longrightarrow> map_of bps a = Some b \<Longrightarrow> unat a < unat (mem_size m)"
  by (force simp: table_ok_def dest!: map_of_SomeD)

lemma table_ok_map_of: "table_ok bps m \<Longrightarrow> (a, b) \<in> set bps \<Longrightarrow> map_of bps a = Some b"
  by (simp add: table_ok_def)

lemma table_ok_size: "mem_size m' = mem_size m \<Longrightarrow> table_ok bps m' = table_ok bps m"
  by (simp add: table_ok_def)

lemma overlay_insert:
  assumes "map_of bps a = None" and "unat a < unat (mem_size m)"
  shows "overlay (entry_at (AList.update a (mem_bytes m (unat a)) bps)) (poke a 0xcc m) = overlay (entry_at bps) m"
proof (rule memory_eqI, simp)
  fix i
  show "mem_bytes (overlay (entry_at (AList.update a (mem_bytes m (unat a)) bps)) (poke a 0xcc m)) i = mem_bytes (overlay (entry_at bps) m) i"
    using assms entry_at_other [of a "AList.update a (mem_bytes m (unat a)) bps" bps i]
    by (cases "i = unat a") (simp_all add: update_conv' mem_bytes_poke split: option.split)
qed

lemma overlay_remove:
  assumes "map_of bps a = Some b" and "unat a < unat (mem_size m)"
  shows "overlay (entry_at (AList.delete a bps)) (poke a b m) = overlay (entry_at bps) m"
proof (rule memory_eqI, simp)
  fix i
  show "mem_bytes (overlay (entry_at (AList.delete a bps)) (poke a b m)) i = mem_bytes (overlay (entry_at bps) m) i"
    using assms entry_at_other [of a "AList.delete a bps" bps i]
    by (cases "i = unat a") (simp_all add: delete_conv' mem_bytes_poke split: option.split)
qed

text \<open>The loops that patch memory over the whole table.\<close>

lemma fold_poke:
  assumes "table_ok bps m"
  shows "mem_size (fold (\<lambda>(a, b) m. if P a then poke a (f b) m else m) bps m) = mem_size m"
    and "mem_bytes (fold (\<lambda>(a, b) m. if P a then poke a (f b) m else m) bps m) i =
      (case entry_at bps i of Some b \<Rightarrow> if P (of_nat i) then f b else mem_bytes m i | None \<Rightarrow> mem_bytes m i)"
  using assms
proof (induction bps arbitrary: m)
  case Nil
  { case 1 show ?case by simp next case 2 show ?case by (simp add: entry_at_def) }
next
  case (Cons e bps)
  obtain a b where e: "e = (a, b)" by fastforce
  { case 1
    then have "table_ok bps (if P a then poke a (f b) m else m)" by (simp add: table_ok_def e)
    from Cons(1) [OF this] show ?case by (simp add: e)
  next
    case 2
    then have t: "table_ok bps (if P a then poke a (f b) m else m)" and a: "map_of bps a = None" "unat a < unat (mem_size m)"
      by (auto simp: table_ok_def e map_of_eq_None_iff image_iff)
    show ?case
      using Cons(2) [OF t] a unat_of_nat_64 [of i] unat_lt_pow [of a]
      by (cases "i = unat a") (auto simp: e mem_bytes_poke entry_at_def split: option.split)
  }
qed

lemma detach_restores:
  assumes "table_ok (gs_breakpoints s) (gs_mem s)"
  shows "gs_mem (detach s) = debugger_view s"
  using fold_poke [OF assms, of "\<lambda>_. True" "\<lambda>b. b"]
  by (intro memory_eqI) (simp_all add: detach_def debugger_view_def split: option.split)

subsection \<open>Reading and writing through the patches\<close>

lemma hits_iff:
  assumes "unat addr + n \<le> unat (msz :: u64)"
  shows "hits addr n bp \<longleftrightarrow> unat addr \<le> unat bp \<and> unat bp < unat addr + n"
proof -
  have "n < 2 ^ 64" "unat addr + n < 2 ^ 64" using assms unat_lt_pow [of msz] by simp_all
  then have "unat (addr + of_nat n) = unat addr + n" by (simp add: unat_word_ariths unat_of_nat take_bit_nat_eq_self)
  then show ?thesis by (simp add: hits_def word_le_nat_alt word_less_nat_alt)
qed

lemma length_show_originals [simp]: "length (show_originals addr n bps buf) = length buf"
  by (induction bps arbitrary: buf) (auto simp: show_originals_def)

lemma show_originals_Cons:
  "show_originals addr n ((a, b) # bps) buf = show_originals addr n bps (if hits addr n a then buf[unat (a - addr) := b] else buf)"
  by (simp add: show_originals_def)

lemma show_originals_nth:
  assumes "unat addr + n \<le> unat (mem_size m)" and "table_ok bps m" and "length buf = n" and "i < n"
  shows "show_originals addr n bps buf ! i = (case entry_at bps (unat addr + i) of None \<Rightarrow> buf ! i | Some b \<Rightarrow> b)"
  using assms(2-)
proof (induction bps arbitrary: buf)
  case Nil
  then show ?case by (simp add: show_originals_def entry_at_def)
next
  case (Cons e bps)
  obtain a b where e: "e = (a, b)" by fastforce
  have t: "table_ok bps m" and a: "map_of bps a = None" using Cons(2) by (auto simp: table_ok_def e map_of_eq_None_iff image_iff)
  have d: "unat addr \<le> unat a \<Longrightarrow> unat (a - addr) = unat a - unat addr" by (simp add: unat_sub word_le_nat_alt)
  note h = hits_iff [OF assms(1), of a]
  have lt: "unat addr + i < 2 ^ 64" using assms(1,4) unat_lt_pow [of "mem_size m"] by simp
  let ?buf = "if hits addr n a then buf[unat (a - addr) := b] else buf"
  have IH: "show_originals addr n bps ?buf ! i = (case entry_at bps (unat addr + i) of None \<Rightarrow> ?buf ! i | Some b \<Rightarrow> b)"
    using Cons by (intro Cons.IH t) auto
  show ?case
  proof (cases "unat addr + i = unat a")
    case True
    then have "?buf ! i = b" using h d Cons(3,4) by (auto simp: True [symmetric])
    with IH True show ?thesis by (simp add: e show_originals_Cons a)
  next
    case False
    then have "?buf ! i = buf ! i" using h d by (auto simp: nth_list_update)
    moreover have "entry_at (e # bps) (unat addr + i) = entry_at bps (unat addr + i)"
      using False unat_of_nat_64 [OF lt] by (auto simp: entry_at_def e simp del: of_nat_add)
    ultimately show ?thesis using IH by (auto simp: e show_originals_Cons split: option.split if_splits)
  qed
qed

lemma read_memory_view:
  assumes "table_ok bps m" and "unat addr + n \<le> unat (mem_size m)"
  shows "show_originals addr n bps (mem_read m (unat addr) n) = mem_read (overlay (entry_at bps) m) (unat addr) n"
  by (rule nth_equalityI) (use assms in \<open>auto simp: show_originals_nth mem_read_def split: option.split\<close>)

lemma write_memory_view:
  assumes "table_ok bps m" and "unat addr + length data \<le> unat (mem_size m)"
  defines "sw \<equiv> shadow_write addr data bps (mem_write m (unat addr) data)"
  shows "overlay (entry_at (fst sw)) (snd sw) = mem_write (overlay (entry_at bps) m) (unat addr) data"
    and "table_ok (fst sw) (snd sw)" and "map fst (fst sw) = map fst bps"
proof -
  let ?m = "mem_write m (unat addr) data"
  let ?new = "\<lambda>a b. if hits addr (length data) a then data ! unat (a - addr) else b"
  have t: "table_ok bps ?m" using assms(1) by (simp add: table_ok_def)
  have sz: "mem_size (snd sw) = mem_size m" using fold_poke(1) [OF t] by (simp add: sw_def shadow_write_def)
  have mb: "mem_bytes (snd sw) i = (case entry_at bps i of Some b \<Rightarrow> if hits addr (length data) (of_nat i) then 0xcc else mem_bytes ?m i
      | None \<Rightarrow> mem_bytes ?m i)" for i
    using fold_poke(2) [OF t, of _ "\<lambda>_. 0xcc" i] by (simp add: sw_def shadow_write_def)
  show keys: "map fst (fst sw) = map fst bps" by (auto simp: sw_def shadow_write_def)
  have mo: "map_of (fst sw) a = map_option (?new a) (map_of bps a)" for a
    unfolding sw_def shadow_write_def by (induction bps) auto
  show "table_ok (fst sw) (snd sw)"
    using assms(1) keys sz unfolding table_ok_def by (metis list.set_map)
  show "overlay (entry_at (fst sw)) (snd sw) = mem_write (overlay (entry_at bps) m) (unat addr) data"
  proof (rule memory_eqI, simp add: sz)
    fix i
    have new: "?new (of_nat i) b = (if unat addr \<le> i \<and> i < unat addr + length data then data ! (i - unat addr) else b)"
      if "i < 2 ^ 64" for b
      using that by (auto simp: hits_iff [OF assms(2)] unat_sub word_le_nat_alt)
    show "mem_bytes (overlay (entry_at (fst sw)) (snd sw)) i = mem_bytes (mem_write (overlay (entry_at bps) m) (unat addr) data) i"
    proof (cases "entry_at bps i")
      case None
      then have "entry_at (fst sw) i = None" by (auto simp: entry_at_def mo split: if_splits)
      with None show ?thesis by (simp add: mb mem_bytes_write)
    next
      case (Some b)
      then have "i < 2 ^ 64" "entry_at (fst sw) i = Some (?new (of_nat i) b)" by (auto simp: entry_at_def mo split: if_splits)
      with Some new [of b] show ?thesis by (simp add: mem_bytes_write)
    qed
  qed
qed

subsection \<open>The reference\<close>

text \<open>The commands a debugger sends about memory, as it writes them, and what they do to a guest without patches.\<close>

datatype mem_cmd = Read u64 u64 | Write u64 bytes | Insert u64 | Remove u64

definition hex_text :: "nat \<Rightarrow> string" where
  "hex_text n = show_radix 16 n"

fun cmd_text :: "mem_cmd \<Rightarrow> string" where
  "cmd_text (Read a n) = ''m'' @ hex_text (unat a) @ '','' @ hex_text (unat n)"
| "cmd_text (Write a bs) = ''M'' @ hex_text (unat a) @ '','' @ hex_text (length bs) @ '':'' @ to_hex bs"
| "cmd_text (Insert a) = ''Z0,'' @ hex_text (unat a) @ '',1''"
| "cmd_text (Remove a) = ''z0,'' @ hex_text (unat a) @ '',1''"

fun ref_cmd :: "mem_cmd \<Rightarrow> u64 set \<times> guest_memory \<Rightarrow> string \<times> u64 set \<times> guest_memory" where
  "ref_cmd (Read a n) (B, m) =
     (if n > 0x100000 then ''E01'' else case read_checked m a (unat n) of None \<Rightarrow> ''E01'' | Some bs \<Rightarrow> to_hex bs, B, m)"
| "ref_cmd (Write a bs) (B, m) =
     (case write_checked m a bs of (False, _) \<Rightarrow> (''E01'', B, m) | (True, m') \<Rightarrow> (''OK'', B, m'))"
| "ref_cmd (Insert a) (B, m) = (if unat a < unat (mem_size m) then (''OK'', insert a B, m) else (''E01'', B, m))"
| "ref_cmd (Remove a) (B, m) = (''OK'', B - {a}, m)"

primrec ref_run :: "mem_cmd list \<Rightarrow> u64 set \<times> guest_memory \<Rightarrow> string list \<times> u64 set \<times> guest_memory" where
  "ref_run [] st = ([], st)"
| "ref_run (c # cs) st =
     (case ref_cmd c st of (reply, st') \<Rightarrow> case ref_run cs st' of (replies, st'') \<Rightarrow> (reply # replies, st''))"

text \<open>No breakpoint is inserted where one is, and what is written has a length a packet can state.\<close>

primrec well_used :: "mem_cmd list \<Rightarrow> u64 set \<times> guest_memory \<Rightarrow> bool" where
  "well_used [] st \<longleftrightarrow> True"
| "well_used (c # cs) st \<longleftrightarrow>
     (case c of Insert a \<Rightarrow> a \<notin> fst st | Write a bs \<Rightarrow> length bs < 2 ^ 64 | _ \<Rightarrow> True) \<and>
     well_used cs (snd (ref_cmd c st))"

definition abs_state :: "'v gdb_state \<Rightarrow> u64 set \<times> guest_memory" where
  "abs_state s = (fst ` set (gs_breakpoints s), debugger_view s)"

definition stub_ok :: "'v gdb_state \<Rightarrow> bool" where
  "stub_ok s \<longleftrightarrow> table_ok (gs_breakpoints s) (gs_mem s)"

lemma hex_text_plain:
  "CHR '','' \<notin> set (hex_text n)" "CHR '':'' \<notin> set (hex_text n)" "plain_text (hex_text n)"
proof -
  have d: "\<exists>d < 16. c = digit_char d" if "c \<in> set (hex_text n)" for c
    using that show_radix_chars [of 16 c n] by (simp add: hex_text_def)
  have v: "of_char (digit_char k) = (if k < 10 then 48 + k else 87 + k :: nat)" if "k < 16" for k
    using that by (simp add: digit_char_def of_char_of)
  have neq: "digit_char k \<noteq> CHR '',''" "digit_char k \<noteq> CHR '':''" "digit_char k \<noteq> CHR ''#''" if "k < 16" for k
    using v [OF that] that by (auto split: if_splits)
  show "CHR '','' \<notin> set (hex_text n)" "CHR '':'' \<notin> set (hex_text n)" using d neq(1,2) by metis+
  have "of_char (digit_char k) < (128 :: nat)" if "k < 16" for k using v [OF that] that by simp
  then show "plain_text (hex_text n)" unfolding plain_text_def using d neq(3) by metis
qed

lemma hex_text_parse [simp]: "n < 2 ^ 64 \<Longrightarrow> from_str_radix 16 (hex_text n) = Some (of_nat n :: u64)"
  using from_str_radix_show [of 16 n, where 'a = 64] by (simp add: hex_text_def)

lemma hex_text_parse_unat [simp]: "from_str_radix 16 (hex_text (unat a)) = Some (a :: u64)"
  using hex_text_parse [of "unat a"] unat_lt_pow [of a] by simp

lemma plain_text_append [simp]: "plain_text (p @ q) \<longleftrightarrow> plain_text p \<and> plain_text q"
  by (auto simp: plain_text_def)

lemma plain_text_to_hex: "plain_text (to_hex bs)"
  by (induction bs) (auto simp: plain_text_def hex_digit_plain half_byte)

lemma cmd_text_plain: "plain_text (cmd_text c)"
proof -
  have "plain_text ''m''" "plain_text ''M''" "plain_text '',''" "plain_text '':''" "plain_text ''Z0,''" "plain_text ''z0,''" "plain_text '',1''"
    by (simp_all add: plain_text_def)
  then show ?thesis by (cases c) (simp_all only: cmd_text.simps plain_text_append plain_text_to_hex hex_text_plain simp_thms)
qed

subsection \<open>The stub implements the reference\<close>

text \<open>A handler's result does to the view what the reference does, and answers the same.\<close>

definition acts_as :: "mem_cmd \<Rightarrow> 'v gdb_state \<Rightarrow> string \<times> 'v gdb_state \<Rightarrow> bool" where
  "acts_as c s r \<longleftrightarrow> (\<exists>bps m. r = (fst (ref_cmd c (abs_state s)), s\<lparr>gs_breakpoints := bps, gs_mem := m\<rparr>) \<and>
     stub_ok (s\<lparr>gs_breakpoints := bps, gs_mem := m\<rparr>) \<and>
     abs_state (s\<lparr>gs_breakpoints := bps, gs_mem := m\<rparr>) = snd (ref_cmd c (abs_state s)))"

lemma acts_asI:
  assumes "r = (reply, s\<lparr>gs_breakpoints := bps, gs_mem := m\<rparr>)" and "table_ok bps m"
    and "ref_cmd c (abs_state s) = (reply, fst ` set bps, overlay (entry_at bps) m)"
  shows "acts_as c s r"
  using assms unfolding acts_as_def stub_ok_def abs_state_def debugger_view_def
  by (intro exI [of _ bps] exI [of _ m]) simp

lemma acts_as_same:
  assumes "r = (reply, s)" and "stub_ok s" and "ref_cmd c (abs_state s) = (reply, abs_state s)"
  shows "acts_as c s r"
  using assms unfolding acts_as_def by (intro exI [of _ "gs_breakpoints s"] exI [of _ "gs_mem s"]) simp

lemma split_once_comma [simp]:
  "split_once (CHR '','') (hex_text n @ CHR '','' # r) = Some (hex_text n, r)"
  "split_once (CHR '','') (hex_text n @ '','' @ r) = Some (hex_text n, r)"
  by (simp_all add: hex_text_plain)

lemma split_once_colon:
  "split_once (CHR '':'') (hex_text a @ '','' @ hex_text n @ '':'' @ r) = Some (hex_text a @ '','' @ hex_text n, r)"
proof -
  have "CHR '':'' \<notin> set (hex_text a @ '','' @ hex_text n)" by (simp add: hex_text_plain)
  from split_once_field [OF this, of r] show ?thesis by simp
qed

lemma handle_cmd_text:
  "handle_packet ops (cmd_text (Read a n)) s = reply_with (read_memory (hex_text (unat a) @ '','' @ hex_text (unat n)) s, s)"
  "handle_packet ops (cmd_text (Write a bs)) s =
     reply_with (write_memory (hex_text (unat a) @ '','' @ hex_text (length bs) @ '':'' @ to_hex bs) s)"
  "handle_packet ops (cmd_text (Insert a)) s = reply_with (insert_breakpoint (hex_text (unat a) @ '',1'') s)"
  "handle_packet ops (cmd_text (Remove a)) s = reply_with (remove_breakpoint (hex_text (unat a) @ '',1'') s)"
  by (simp_all add: handle_packet_def starts_with_def)

lemma read_cmd:
  assumes "stub_ok s"
  shows "read_memory (hex_text (unat a) @ '','' @ hex_text (unat n)) s = fst (ref_cmd (Read a n) (abs_state s))"
  using read_memory_view [OF assms [unfolded stub_ok_def], of a "unat n"]
  by (simp add: read_memory_def abs_state_def read_checked_eq debugger_view_def)

lemma write_cmd:
  assumes ok: "stub_ok s" and len: "length bs < 2 ^ 64"
  shows "acts_as (Write a bs) s (write_memory (hex_text (unat a) @ '','' @ hex_text (length bs) @ '':'' @ to_hex bs) s)"
proof (cases "unat a + length bs \<le> unat (mem_size (gs_mem s))")
  case True
  let ?sw = "shadow_write a bs (gs_breakpoints s) (mem_write (gs_mem s) (unat a) bs)"
  note w = write_memory_view [OF ok [unfolded stub_ok_def] True]
  have "write_memory (hex_text (unat a) @ '','' @ hex_text (length bs) @ '':'' @ to_hex bs) s =
      (''OK'', s\<lparr>gs_breakpoints := fst ?sw, gs_mem := snd ?sw\<rparr>)"
    using True len unfolding write_memory_def split_once_colon by (simp add: write_checked_eq split_beta)
  moreover have "set (map fst (fst ?sw)) = set (map fst (gs_breakpoints s))" unfolding w(3) ..
  ultimately show ?thesis
    using w(1,2) True by (intro acts_asI [where bps = "fst ?sw" and m = "snd ?sw"])
      (simp_all add: stub_ok_def abs_state_def debugger_view_def write_checked_eq)
next
  case False
  then have "write_memory (hex_text (unat a) @ '','' @ hex_text (length bs) @ '':'' @ to_hex bs) s = (''E01'', s)"
    using len unfolding write_memory_def split_once_colon by (simp add: write_checked_eq)
  with False ok show ?thesis
    by (intro acts_as_same) (simp_all add: abs_state_def debugger_view_def write_checked_eq)
qed

lemma insert_cmd:
  assumes ok: "stub_ok s" and new: "a \<notin> fst (abs_state s)"
  shows "acts_as (Insert a) s (insert_breakpoint (hex_text (unat a) @ '',1'') s)"
proof (cases "unat a < unat (mem_size (gs_mem s))")
  case True
  let ?bps = "AList.update a (mem_bytes (gs_mem s) (unat a)) (gs_breakpoints s)" and ?m = "poke a 0xcc (gs_mem s)"
  have none: "map_of (gs_breakpoints s) a = None" using new by (simp add: abs_state_def map_of_eq_None_iff)
  have keys: "fst ` set ?bps = insert a (fst ` set (gs_breakpoints s))" by (simp add: dom_update)
  have "insert_breakpoint (hex_text (unat a) @ '',1'') s = (''OK'', s\<lparr>gs_breakpoints := ?bps, gs_mem := ?m\<rparr>)"
    using True by (simp add: insert_breakpoint_def read_checked_eq mem_read_def)
  moreover have "table_ok ?bps ?m" using ok True keys by (auto simp: stub_ok_def table_ok_def distinct_update)
  moreover have "overlay (entry_at ?bps) ?m = overlay (entry_at (gs_breakpoints s)) (gs_mem s)" by (rule overlay_insert [OF none True])
  ultimately show ?thesis
    using keys True by (intro acts_asI [where bps = ?bps and m = ?m]) (simp_all add: stub_ok_def abs_state_def debugger_view_def)
next
  case False
  with ok show ?thesis
    by (intro acts_as_same) (simp_all add: insert_breakpoint_def read_checked_eq abs_state_def debugger_view_def)
qed

lemma remove_cmd:
  assumes ok: "stub_ok s"
  shows "acts_as (Remove a) s (remove_breakpoint (hex_text (unat a) @ '',1'') s)"
proof (cases "map_of (gs_breakpoints s) a")
  case (Some b)
  let ?bps = "AList.delete a (gs_breakpoints s)" and ?m = "poke a b (gs_mem s)"
  have keys: "fst ` set ?bps = fst ` set (gs_breakpoints s) - {a}" using arg_cong [OF delete_keys [of a "gs_breakpoints s"], of set] by simp
  have in_ram: "unat a < unat (mem_size (gs_mem s))" using ok Some by (simp add: stub_ok_def table_ok_bound)
  have "remove_breakpoint (hex_text (unat a) @ '',1'') s = (''OK'', s\<lparr>gs_breakpoints := ?bps, gs_mem := ?m\<rparr>)"
    by (simp add: remove_breakpoint_def Some)
  moreover have "table_ok ?bps ?m" using ok keys by (auto simp: stub_ok_def table_ok_def distinct_delete)
  moreover have "overlay (entry_at ?bps) ?m = overlay (entry_at (gs_breakpoints s)) (gs_mem s)" by (rule overlay_remove [OF Some in_ram])
  ultimately show ?thesis
    using keys by (intro acts_asI [where bps = ?bps and m = ?m]) (simp_all add: stub_ok_def abs_state_def debugger_view_def)
next
  case None
  then have "a \<notin> fst ` set (gs_breakpoints s)" by (simp add: map_of_eq_None_iff)
  with None ok show ?thesis
    by (intro acts_as_same) (simp_all add: remove_breakpoint_def abs_state_def debugger_view_def)
qed

lemma cmd_acts:
  assumes "stub_ok s" and "well_used [c] (abs_state s)"
  obtains r where "handle_packet ops (cmd_text c) s = reply_with r" and "acts_as c s r"
proof (cases c)
  case (Read a n)
  have "acts_as (Read a n) s (fst (ref_cmd (Read a n) (abs_state s)), s)"
    using assms(1) by (intro acts_as_same) (simp_all add: abs_state_def)
  then show ?thesis using that read_cmd [OF assms(1), of a n] unfolding Read handle_cmd_text by metis
next
  case (Write a bs)
  with assms(2) have "length bs < 2 ^ 64" by simp
  from write_cmd [OF assms(1) this] show ?thesis using that unfolding Write handle_cmd_text by metis
next
  case (Insert a)
  with assms(2) have "a \<notin> fst (abs_state s)" by simp
  from insert_cmd [OF assms(1) this] show ?thesis using that unfolding Insert handle_cmd_text by metis
next
  case (Remove a)
  show ?thesis using that remove_cmd [OF assms(1), of a] unfolding Remove handle_cmd_text by metis
qed

text \<open>One command, whichever it is, served in no-acknowledgement mode.\<close>

lemma cmd_simulated:
  assumes "stub_ok s" and "gs_no_ack s" and "gs_tx_open s" and "well_used [c] (abs_state s)"
  shows "\<exists>bps m. handle_packet ops (cmd_text c) s =
      (Inr (), s\<lparr>gs_breakpoints := bps, gs_mem := m, gs_tx := gs_tx s @ packet_frame (fst (ref_cmd c (abs_state s)))\<rparr>) \<and>
    stub_ok (s\<lparr>gs_breakpoints := bps, gs_mem := m\<rparr>) \<and>
    abs_state (s\<lparr>gs_breakpoints := bps, gs_mem := m\<rparr>) = snd (ref_cmd c (abs_state s))"
proof -
  obtain r where r: "handle_packet ops (cmd_text c) s = reply_with r" "acts_as c s r" by (rule cmd_acts [OF assms(1,4)])
  from r(2) obtain bps m where "r = (fst (ref_cmd c (abs_state s)), s\<lparr>gs_breakpoints := bps, gs_mem := m\<rparr>)"
    "stub_ok (s\<lparr>gs_breakpoints := bps, gs_mem := m\<rparr>)"
    "abs_state (s\<lparr>gs_breakpoints := bps, gs_mem := m\<rparr>) = snd (ref_cmd c (abs_state s))"
    unfolding acts_as_def by blast
  with r(1) show ?thesis using assms(2,3) by (intro exI conjI) (simp_all add: reply_with_def write_packet_no_ack)
qed

subsection \<open>Sessions\<close>

primrec session_bytes :: "mem_cmd list \<Rightarrow> bytes" where
  "session_bytes [] = []"
| "session_bytes (c # cs) = packet_frame (cmd_text c) @ session_bytes cs"

lemma serve_step:
  assumes "gs_stopped s" and "gs_attached s" and "gs_no_ack s" and "plain_text p" and "gs_rx s = packet_frame p @ r"
    and "handle_packet ops p (s\<lparr>gs_rx := r\<rparr>) = (Inr (), s')"
  shows "serve_until_resume ops s = serve_until_resume ops s'"
  using assms read_packet_frame [OF assms(4,5)] by (subst serve_until_resume.simps) simp

lemma handle_D: "handle_packet ops ''D'' s = reply_with (''OK'', detach s)"
  by (simp add: handle_packet_def starts_with_def)

lemma serve_D:
  assumes "gs_stopped s" and "gs_attached s" and "gs_no_ack s" and "gs_tx_open s" and "gs_rx s = packet_frame ''D'' @ r"
  shows "serve_until_resume ops s = (Inr (), (detach (s\<lparr>gs_rx := r\<rparr>))\<lparr>gs_tx := gs_tx s @ packet_frame ''OK''\<rparr>)"
proof -
  have h: "handle_packet ops ''D'' (s\<lparr>gs_rx := r\<rparr>) = (Inr (), (detach (s\<lparr>gs_rx := r\<rparr>))\<lparr>gs_tx := gs_tx s @ packet_frame ''OK''\<rparr>)"
    using assms by (simp add: handle_D reply_with_def write_packet_no_ack detach_def)
  have "serve_until_resume ops s = serve_until_resume ops ((detach (s\<lparr>gs_rx := r\<rparr>))\<lparr>gs_tx := gs_tx s @ packet_frame ''OK''\<rparr>)"
    using assms by (intro serve_step [OF _ _ _ _ _ h]) (simp_all add: plain_text_def)
  then show ?thesis by (subst (asm) (2) serve_until_resume.simps) (simp add: detach_def)
qed

lemma serve_cmds:
  assumes "stub_ok s" and "gs_no_ack s" and "gs_tx_open s" and "gs_stopped s" and "gs_attached s"
    and "gs_rx s = session_bytes cs @ packet_frame ''D'' @ rest" and "well_used cs (abs_state s)"
  shows "\<exists>s'. serve_until_resume ops s = (Inr (), s') \<and>
    gs_tx s' = gs_tx s @ concat (map packet_frame (fst (ref_run cs (abs_state s)))) @ packet_frame ''OK'' \<and>
    gs_mem s' = snd (snd (ref_run cs (abs_state s))) \<and>
    gs_breakpoints s' = [] \<and> \<not> gs_attached s' \<and> gs_vcpu s' = gs_vcpu s \<and> gs_rx s' = rest"
  using assms
proof (induction cs arbitrary: s)
  case Nil
  have "serve_until_resume ops s = (Inr (), (detach (s\<lparr>gs_rx := rest\<rparr>))\<lparr>gs_tx := gs_tx s @ packet_frame ''OK''\<rparr>)"
    using Nil by (intro serve_D) simp_all
  moreover have "gs_mem (detach (s\<lparr>gs_rx := rest\<rparr>)) = debugger_view s"
    using detach_restores [of "s\<lparr>gs_rx := rest\<rparr>"] Nil(1) by (simp add: stub_ok_def debugger_view_def)
  ultimately show ?case by (simp add: abs_state_def) (simp add: detach_def)
next
  case (Cons c cs)
  let ?r = "session_bytes cs @ packet_frame ''D'' @ rest" and ?reply = "fst (ref_cmd c (abs_state s))"
  let ?s = "s\<lparr>gs_rx := ?r\<rparr>"
  have same: "stub_ok ?s = stub_ok s" "abs_state ?s = abs_state s" by (simp_all add: stub_ok_def abs_state_def debugger_view_def)
  obtain bps m where h: "handle_packet ops (cmd_text c) ?s = (Inr (), ?s\<lparr>gs_breakpoints := bps, gs_mem := m, gs_tx := gs_tx s @ packet_frame ?reply\<rparr>)"
    and ok: "stub_ok (?s\<lparr>gs_breakpoints := bps, gs_mem := m\<rparr>)"
    and ab: "abs_state (?s\<lparr>gs_breakpoints := bps, gs_mem := m\<rparr>) = snd (ref_cmd c (abs_state s))"
    using cmd_simulated [of ?s c ops] Cons(2-) unfolding same by auto
  let ?s' = "?s\<lparr>gs_breakpoints := bps, gs_mem := m, gs_tx := gs_tx s @ packet_frame ?reply\<rparr>"
  have st: "stub_ok ?s'" "abs_state ?s' = snd (ref_cmd c (abs_state s))"
    using ok ab by (simp_all add: stub_ok_def abs_state_def debugger_view_def)
  have "serve_until_resume ops s = serve_until_resume ops ?s'"
    using Cons(2-) cmd_text_plain by (intro serve_step [OF _ _ _ _ _ h]) simp_all
  moreover have "well_used cs (abs_state ?s')" using Cons(8) unfolding st by simp
  then obtain s' where "serve_until_resume ops ?s' = (Inr (), s')"
    "gs_tx s' = gs_tx ?s' @ concat (map packet_frame (fst (ref_run cs (abs_state ?s')))) @ packet_frame ''OK''"
    "gs_mem s' = snd (snd (ref_run cs (abs_state ?s')))"
    "gs_breakpoints s' = []" "\<not> gs_attached s'" "gs_vcpu s' = gs_vcpu ?s'" "gs_rx s' = rest"
    using Cons(1) [OF st(1)] Cons(2-) by auto
  ultimately show ?case unfolding st by (intro exI [of _ s']) (simp add: split_beta)
qed

text \<open>A session whose first packet turns acknowledgements off.\<close>

definition no_ack_session :: "bytes \<Rightarrow> 'v \<Rightarrow> guest_memory \<Rightarrow> 'v gdb_state" where
  "no_ack_session r v m = (gdb_listen r v m)\<lparr>gs_no_ack := True, gs_tx := [0x2b] @ packet_frame ''OK''\<rparr>"

lemma serve_no_ack:
  "serve_until_resume ops (gdb_listen (packet_frame ''QStartNoAckMode'' @ r) v m) = serve_until_resume ops (no_ack_session r v m)"
proof -
  let ?s = "gdb_listen (packet_frame ''QStartNoAckMode'' @ r) v m"
  have p: "plain_text ''QStartNoAckMode''" by (simp add: plain_text_def)
  have "read_packet ?s = (Inr ''QStartNoAckMode'', (gdb_listen r v m)\<lparr>gs_tx := [0x2b]\<rparr>)"
    using read_packet_frame [OF p, of ?s r] by (simp add: gdb_listen_def send_bytes_def)
  moreover have "handle_packet ops ''QStartNoAckMode'' ((gdb_listen r v m)\<lparr>gs_tx := [0x2b]\<rparr>) = (Inr (), no_ack_session r v m)"
    by (simp add: handle_packet_def starts_with_def reply_with_def gdb_listen_def no_ack_session_def write_packet_no_ack)
  ultimately show ?thesis by (subst serve_until_resume.simps) (simp add: gdb_listen_def)
qed


text \<open>A vCPU for examples: its registers, the guest-debug control word and the pending exception.\<close>

definition demo_regs :: "u64 \<Rightarrow> gp_regs" where
  "demo_regs ip = \<lparr>g_rax = 1, g_rbx = 2, g_rcx = 3, g_rdx = 4, g_rsi = 5, g_rdi = 6, g_rsp = 7, g_rbp = 8, g_r8 = 9, g_r9 = 10,
     g_r10 = 11, g_r11 = 12, g_r12 = 13, g_r13 = 14, g_r14 = 15, g_r15 = 16, g_rip = ip, g_rflags = 2\<rparr>"

definition demo_event :: exception_event where
  "demo_event = \<lparr>ev_injected = 0, ev_nr = 0, ev_has_error_code = 0, ev_error_code = 0\<rparr>"

definition demo_vcpu_ops :: "(gp_regs \<times> u32 \<times> exception_event) vcpu_ops" where
  "demo_vcpu_ops = \<lparr>get_regs = (\<lambda>(r, c, e). Inr r), set_regs = (\<lambda>r (_, c, e). Inr (r, c, e)),
     get_sregs = (\<lambda>_. Inr \<lparr>sel_cs = 16, sel_ss = 24, sel_ds = 24, sel_es = 24, sel_fs = 0, sel_gs = 0\<rparr>),
     set_guest_debug = (\<lambda>c (r, _, e). Inr (r, c, e)), get_vcpu_events = (\<lambda>(r, c, e). Inr e),
     set_vcpu_events = (\<lambda>e (r, c, _). Inr (r, c, e))\<rparr>"

definition demo_cmds :: "mem_cmd list" where
  "demo_cmds = [Insert 0x101, Read 0x100 2, Write 0x101 [0x90], Read 0x100 2, Remove 0x101]"


subsection \<open>A breakpoint inserted twice\<close>

lemma insert_result:
  "unat a < unat (mem_size (gs_mem s)) \<Longrightarrow> insert_breakpoint (hex_text (unat a) @ '',1'') s =
     (''OK'', s\<lparr>gs_breakpoints := AList.update a (mem_bytes (gs_mem s) (unat a)) (gs_breakpoints s), gs_mem := poke a 0xcc (gs_mem s)\<rparr>)"
  by (simp add: insert_breakpoint_def read_checked_eq mem_read_def)

lemma remove_result:
  "map_of (gs_breakpoints s) a = Some b \<Longrightarrow> remove_breakpoint (hex_text (unat a) @ '',1'') s =
     (''OK'', s\<lparr>gs_breakpoints := AList.delete a (gs_breakpoints s), gs_mem := poke a b (gs_mem s)\<rparr>)"
  by (simp add: remove_breakpoint_def)

lemma serve_cmd:
  assumes "gs_stopped s" and "gs_attached s" and "gs_no_ack s" and "gs_tx_open s" and "gs_rx s = packet_frame (cmd_text c) @ r"
    and "handle_packet ops (cmd_text c) (s\<lparr>gs_rx := r\<rparr>) = reply_with (reply, s')" and "gs_no_ack s'" and "gs_tx_open s'"
  shows "serve_until_resume ops s = serve_until_resume ops (s'\<lparr>gs_tx := gs_tx s' @ packet_frame reply\<rparr>)"
  using assms cmd_text_plain by (intro serve_step) (simp_all add: reply_with_def write_packet_no_ack)

text \<open>C27: a breakpoint inserted twice at one address stays in the guest for ever. The second insertion takes the stub's own
  \<open>0xcc\<close> for the original byte; when the debugger then removes the breakpoint and detaches, the stub has
  answered every packet with \<open>OK\<close> and has no breakpoint left, and guest memory holds \<open>0xcc\<close> at that address,
  whatever instruction was there.\<close>

theorem double_insert_left_in_guest:
  assumes "unat a < unat (mem_size m)"
  defines "rx \<equiv> packet_frame ''QStartNoAckMode'' @ session_bytes [Insert a, Insert a, Remove a] @ packet_frame ''D''"
  shows "\<exists>s. serve_until_resume ops (gdb_listen rx v m) = (Inr (), s) \<and>
    gs_tx s = [0x2b] @ concat (map packet_frame (replicate 5 ''OK'')) \<and>
    gs_breakpoints s = [] \<and> \<not> gs_attached s \<and> mem_bytes (gs_mem s) (unat a) = 0xcc"
proof -
  let ?o = "mem_bytes m (unat a)" and ?m1 = "poke a 0xcc m" and ?ok = "packet_frame ''OK''"
  let ?st = "\<lambda>cs bps m t. (no_ack_session (session_bytes cs @ packet_frame ''D'') v m)\<lparr>gs_breakpoints := bps, gs_tx := t\<rparr>"
  have "serve_until_resume ops (gdb_listen rx v m) = serve_until_resume ops (?st [Insert a, Insert a, Remove a] [] m ([0x2b] @ ?ok))"
    unfolding rx_def serve_no_ack by (simp add: no_ack_session_def gdb_listen_def)
  also have "\<dots> = serve_until_resume ops (?st [Insert a, Remove a] [(a, ?o)] ?m1 ([0x2b] @ ?ok @ ?ok))"
    by (subst serve_cmd [OF _ _ _ _ _ trans [OF handle_cmd_text(3) [of ops a] arg_cong [OF insert_result [of a], where f = reply_with]]])
      (simp_all add: assms(1) no_ack_session_def gdb_listen_def)
  also have "\<dots> = serve_until_resume ops (?st [Remove a] [(a, 0xcc)] (poke a 0xcc ?m1) ([0x2b] @ ?ok @ ?ok @ ?ok))"
    by (subst serve_cmd [OF _ _ _ _ _ trans [OF handle_cmd_text(3) [of ops a] arg_cong [OF insert_result [of a], where f = reply_with]]])
      (simp_all add: assms(1) no_ack_session_def gdb_listen_def mem_bytes_poke)
  also have "\<dots> = serve_until_resume ops (?st [] [] (poke a 0xcc (poke a 0xcc ?m1)) ([0x2b] @ ?ok @ ?ok @ ?ok @ ?ok))"
    by (subst serve_cmd [OF _ _ _ _ _ trans [OF handle_cmd_text(4) [of ops a] arg_cong [OF remove_result [where a = a and b = "0xcc"], where f = reply_with]]])
      (simp_all add: assms(1) no_ack_session_def gdb_listen_def)
  also have "\<dots> = (Inr (), (detach (?st [] [] (poke a 0xcc (poke a 0xcc ?m1)) [] \<lparr>gs_rx := []\<rparr>))
      \<lparr>gs_tx := [0x2b] @ ?ok @ ?ok @ ?ok @ ?ok @ ?ok\<rparr>)"
    by (subst serve_D [where r = "[]"]) (simp_all add: no_ack_session_def gdb_listen_def detach_def)
  finally show ?thesis
    using assms(1) by (simp add: detach_def no_ack_session_def gdb_listen_def mem_bytes_poke numeral_eq_Suc)
qed

theorem double_insert_left_in_guest_witness:
  "\<exists>s. serve_until_resume demo_vcpu_ops
      (gdb_listen (packet_frame ''QStartNoAckMode'' @ session_bytes [Insert 0x80, Insert 0x80, Remove 0x80] @ packet_frame ''D'')
        (demo_regs 0x80, 0, demo_event) (mem_new 0x1000)) = (Inr (), s) \<and>
    mem_bytes (mem_new 0x1000) 0x80 = 0 \<and> mem_bytes (gs_mem s) 0x80 = 0xcc \<and> gs_breakpoints s = []"
  using double_insert_left_in_guest [of "0x80" "mem_new 0x1000" demo_vcpu_ops "(demo_regs 0x80, 0, demo_event)"]
  by (auto simp: mem_new_def)

subsection \<open>Resuming over a breakpoint\<close>

lemma io_simps:
  "io_bind c k s = (case c s of (Inl e, s') \<Rightarrow> (Inl e, s') | (Inr x, s') \<Rightarrow> k x s')"
  "io_ok x s = (Inr x, s)" "io_update f s = (Inr (), f s)"
  by (simp_all add: io_bind_def io_ok_def io_update_def)

lemma handle_c: "handle_packet ops ''c'' s = resume ops False s"
  and handle_s: "handle_packet ops ''s'' s = resume ops True s"
  by (simp_all add: handle_packet_def starts_with_def apply_resume_address_def io_simps)

definition RUN_CONTROL :: u32 where
  "RUN_CONTROL = KVM_GUESTDBG_ENABLE OR KVM_GUESTDBG_USE_SW_BP"

definition STEP_CONTROL :: u32 where
  "STEP_CONTROL = RUN_CONTROL OR KVM_GUESTDBG_SINGLESTEP"

text \<open>What a resume that succeeds leaves: on a breakpoint, the original byte is back for one forced step.\<close>

lemma resume_on_breakpoint:
  assumes "get_regs ops (gs_vcpu s) = Inr r" and "map_of (gs_breakpoints s) (g_rip r) = Some orig"
    and "set_guest_debug ops STEP_CONTROL (gs_vcpu s) = Inr v"
  shows "resume ops b s = (Inr (), s\<lparr>gs_mem := poke (g_rip r) orig (gs_mem s), gs_pending_step_over := Some (g_rip r),
    gs_resume_after_step_over := \<not> b, gs_vcpu := v, gs_was_stepping := True, gs_stopped := False\<rparr>)"
  using assms by (simp add: resume_def io_simps io_get_def io_set_def step_over_prepare_def STEP_CONTROL_def RUN_CONTROL_def)

lemma resume_elsewhere:
  assumes "get_regs ops (gs_vcpu s) = Inr r" and "map_of (gs_breakpoints s) (g_rip r) = None"
    and "set_guest_debug ops (if b then STEP_CONTROL else RUN_CONTROL) (gs_vcpu s) = Inr v"
  shows "resume ops b s = (Inr (), s\<lparr>gs_pending_step_over := None, gs_vcpu := v, gs_was_stepping := b, gs_stopped := False\<rparr>)"
  using assms by (cases b) (simp_all add: resume_def io_simps io_get_def io_set_def step_over_prepare_def STEP_CONTROL_def RUN_CONTROL_def)

lemma resume_InrE:
  assumes "resume ops b s = (Inr u, s')"
  obtains r v where "get_regs ops (gs_vcpu s) = Inr r"
    and "set_guest_debug ops (if b \<or> map_of (gs_breakpoints s) (g_rip r) \<noteq> None then STEP_CONTROL else RUN_CONTROL) (gs_vcpu s) = Inr v"
    and "s' = (case map_of (gs_breakpoints s) (g_rip r) of
        Some orig \<Rightarrow> s\<lparr>gs_mem := poke (g_rip r) orig (gs_mem s), gs_pending_step_over := Some (g_rip r),
          gs_resume_after_step_over := \<not> b, gs_vcpu := v, gs_was_stepping := True, gs_stopped := False\<rparr>
      | None \<Rightarrow> s\<lparr>gs_pending_step_over := None, gs_vcpu := v, gs_was_stepping := b, gs_stopped := False\<rparr>)"
proof (cases "get_regs ops (gs_vcpu s)")
  case (Inl e)
  with assms show ?thesis by (simp add: resume_def io_simps io_get_def)
next
  case (Inr r)
  have vc: "gs_vcpu (snd (step_over_prepare (g_rip r) b s)) = gs_vcpu s" by (simp add: step_over_prepare_def split: option.split)
  let ?c = "if b \<or> map_of (gs_breakpoints s) (g_rip r) \<noteq> None then STEP_CONTROL else RUN_CONTROL"
  show ?thesis
  proof (cases "set_guest_debug ops ?c (gs_vcpu s)")
    case (Inl e)
    with assms Inr show ?thesis
      by (auto simp: resume_def io_simps io_get_def io_set_def step_over_prepare_def STEP_CONTROL_def RUN_CONTROL_def split: option.splits if_splits)
  next
    case (Inr v)
    show ?thesis
    proof (rule that [OF \<open>get_regs ops (gs_vcpu s) = Inr r\<close> Inr])
      show "s' = (case map_of (gs_breakpoints s) (g_rip r) of
        Some orig \<Rightarrow> s\<lparr>gs_mem := poke (g_rip r) orig (gs_mem s), gs_pending_step_over := Some (g_rip r),
          gs_resume_after_step_over := \<not> b, gs_vcpu := v, gs_was_stepping := True, gs_stopped := False\<rparr>
      | None \<Rightarrow> s\<lparr>gs_pending_step_over := None, gs_vcpu := v, gs_was_stepping := b, gs_stopped := False\<rparr>)"
        using assms Inr resume_on_breakpoint [OF \<open>get_regs ops (gs_vcpu s) = Inr r\<close>, of _ v b]
          resume_elsewhere [OF \<open>get_regs ops (gs_vcpu s) = Inr r\<close>, of b v]
        by (auto split: option.splits if_splits)
    qed
  qed
qed

text \<open>C28: continuing from one breakpoint runs straight over a breakpoint on the next instruction executed. The guest is stopped
  on a breakpoint, the debugger sends \<open>c\<close>, the guest executes the one instruction that was under the
  breakpoint (changing its registers and memory in any way), and arrives at another breakpoint of the
  table. Then the debug exit of that step reports nothing to the debugger and resumes the guest with the
  second breakpoint's original byte in memory: it is not hit.\<close>

theorem adjacent_breakpoint_missed:
  assumes "table_ok (gs_breakpoints s) (gs_mem s)"
    and "get_regs ops (gs_vcpu s) = Inr r" and "map_of (gs_breakpoints s) (g_rip r) = Some b1"
    and "handle_packet ops ''c'' s = (Inr (), s1)"
    and "s2 = s1\<lparr>gs_vcpu := v2, gs_mem := m2\<rparr>" and "mem_size m2 = mem_size (gs_mem s1)"
    and "get_regs ops v2 = Inr r2" and "map_of (gs_breakpoints s) (g_rip r2) = Some b2"
    and "set_guest_debug ops STEP_CONTROL v2 = Inr v3"
  shows "\<exists>s3. handle_debug_exit ops (g_rip r2) s2 = (Inr Resumed, s3) \<and>
    gs_tx s3 = gs_tx s \<and> \<not> gs_stopped s3 \<and> gs_vcpu s3 = v3 \<and> mem_bytes (gs_mem s3) (unat (g_rip r2)) = b2"
proof -
  obtain v where s1: "s1 = s\<lparr>gs_mem := poke (g_rip r) b1 (gs_mem s), gs_pending_step_over := Some (g_rip r),
      gs_resume_after_step_over := True, gs_vcpu := v, gs_was_stepping := True, gs_stopped := False\<rparr>"
    by (rule resume_InrE [OF assms(4) [unfolded handle_c]]) (use assms(2,3) in auto)
  let ?t = "s2\<lparr>gs_was_stepping := False, gs_pending_step_over := None, gs_mem := poke (g_rip r) 0xcc m2\<rparr>"
  have "handle_debug_exit ops (g_rip r2) s2 = io_bind (resume ops False) (\<lambda>_. io_ok Resumed) ?t"
    by (simp add: handle_debug_exit_def assms(5) s1)
  moreover have "resume ops False ?t = (Inr (), ?t\<lparr>gs_mem := poke (g_rip r2) b2 (gs_mem ?t), gs_pending_step_over := Some (g_rip r2),
      gs_resume_after_step_over := \<not> False, gs_vcpu := v3, gs_was_stepping := True, gs_stopped := False\<rparr>)"
    by (rule resume_on_breakpoint) (simp_all add: assms s1)
  moreover have "unat (g_rip r2) < unat (mem_size m2)" using table_ok_bound [OF assms(1,8)] assms(6) s1 by simp
  ultimately show ?thesis by (simp add: io_simps assms(5) s1 mem_bytes_poke)
qed

definition demo_stopped :: "(u64 \<times> byte) list \<Rightarrow> u64 \<Rightarrow> bytes \<Rightarrow> (gp_regs \<times> u32 \<times> exception_event) gdb_state" where
  "demo_stopped bps ip rx =
     (no_ack_session rx (demo_regs ip, 0, demo_event) (fold (\<lambda>(a, b). poke a 0xcc) bps (mem_new 0x1000)))\<lparr>gs_breakpoints := bps\<rparr>"

theorem adjacent_breakpoint_missed_witness:
  "\<exists>s1 s3. handle_packet demo_vcpu_ops ''c'' (demo_stopped [(0x100, 0x90), (0x101, 0x91)] 0x100 []) = (Inr (), s1) \<and>
    handle_debug_exit demo_vcpu_ops 0x101 (s1\<lparr>gs_vcpu := (demo_regs 0x101, STEP_CONTROL, demo_event)\<rparr>) = (Inr Resumed, s3) \<and>
    gs_tx s3 = gs_tx (demo_stopped [(0x100, 0x90), (0x101, 0x91)] 0x100 []) \<and> mem_bytes (gs_mem s3) 0x101 = 0x91"
proof -
  let ?s = "demo_stopped [(0x100, 0x90), (0x101, 0x91)] 0x100 []"
  obtain s1 where s1: "handle_packet demo_vcpu_ops ''c'' ?s = (Inr (), s1)"
    by (simp add: handle_c resume_on_breakpoint [where r = "demo_regs 0x100" and orig = "0x90" and v = "(demo_regs 0x100, STEP_CONTROL, demo_event)"]
      demo_stopped_def no_ack_session_def gdb_listen_def demo_vcpu_ops_def demo_regs_def)
  have "table_ok (gs_breakpoints ?s) (gs_mem ?s)"
    by (simp add: table_ok_def demo_stopped_def no_ack_session_def gdb_listen_def mem_new_def)
  from adjacent_breakpoint_missed [OF this _ _ s1 refl, of "demo_regs 0x100" "0x90" "gs_mem s1" "(demo_regs 0x101, STEP_CONTROL, demo_event)"
      "demo_regs 0x101" "0x91" "(demo_regs 0x101, STEP_CONTROL, demo_event)"]
  have "\<exists>s3. handle_debug_exit demo_vcpu_ops 0x101 (s1\<lparr>gs_vcpu := (demo_regs 0x101, STEP_CONTROL, demo_event), gs_mem := gs_mem s1\<rparr>) = (Inr Resumed, s3) \<and>
      gs_tx s3 = gs_tx ?s \<and> mem_bytes (gs_mem s3) 0x101 = 0x91"
    by (auto simp: demo_vcpu_ops_def demo_regs_def demo_stopped_def no_ack_session_def gdb_listen_def)
  with s1 show ?thesis by simp
qed

subsection \<open>Detaching after a step\<close>

text \<open>a debugger that single-steps and then detaches leaves the guest single-stepping, and every later step reaches the
  guest as a breakpoint exception. \<open>dbg\<close> reads back the last control word given to \<open>KVM_SET_GUEST_DEBUG\<close>, which
  KVM keeps while the guest runs. After \<open>s\<close>, the step's debug exit and \<open>D\<close>, the stub is detached and single-stepping
  is still on in KVM; and each debug exit from then on, wherever the guest is, injects vector 3 into it.\<close>

lemma detach_leaves_single_step:
  assumes "\<And>c v v'. set_guest_debug ops c v = Inr v' \<Longrightarrow> dbg v' = c"
    and "handle_packet ops ''s'' s = (Inr (), s1)"
    and "dbg v2 = dbg (gs_vcpu s1)"
    and "gs_pending_step_over s1 = None"
    and "handle_debug_exit ops pc (s1\<lparr>gs_vcpu := v2, gs_mem := m2\<rparr>) = (Inr a, s2)"
    and "handle_packet ops ''D'' s2 = (Inr (), s3)"
  shows "a = Stop \<and> \<not> gs_attached s3 \<and> dbg (gs_vcpu s3) AND KVM_GUESTDBG_SINGLESTEP \<noteq> 0 \<and>
    handle_debug_exit ops pc' (s3\<lparr>gs_vcpu := v4, gs_mem := m4\<rparr>) =
      io_bind (inject_breakpoint_exception ops) (\<lambda>_. io_ok ForwardToGuest) (s3\<lparr>gs_vcpu := v4, gs_mem := m4\<rparr>)"
proof -
  obtain r v where rv: "get_regs ops (gs_vcpu s) = Inr r" "set_guest_debug ops STEP_CONTROL (gs_vcpu s) = Inr v"
    and s1: "s1 = s\<lparr>gs_pending_step_over := None, gs_vcpu := v, gs_was_stepping := True, gs_stopped := False\<rparr>"
    by (rule resume_InrE [OF assms(2) [unfolded handle_s]]) (use assms(4) in \<open>auto split: option.splits\<close>)
  have dbg: "dbg v2 = STEP_CONTROL" using assms(1) [OF rv(2)] assms(3) s1 by simp
  let ?t = "s1\<lparr>gs_vcpu := v2, gs_mem := m2, gs_was_stepping := False, gs_stopped := True\<rparr>"
  have "handle_debug_exit ops pc (s1\<lparr>gs_vcpu := v2, gs_mem := m2\<rparr>) = io_bind (write_packet ''S05'') (\<lambda>_. io_ok Stop) ?t"
    by (simp add: handle_debug_exit_def report_stop_def io_simps s1)
  then have s2: "a = Stop" "gs_was_stepping s2 = False" "gs_vcpu s2 = v2"
    using assms(5) by (auto simp: io_simps write_packet_def send_bytes_def Let_def split: if_splits list.splits)
  have s3: "gs_was_stepping s3 = False" "gs_vcpu s3 = v2" "gs_breakpoints s3 = []" "\<not> gs_attached s3"
    using assms(6) s2(2,3) by (auto simp: handle_D reply_with_def detach_def write_packet_def send_bytes_def Let_def split: if_splits list.splits)
  have "STEP_CONTROL AND KVM_GUESTDBG_SINGLESTEP \<noteq> 0"
    by (simp add: STEP_CONTROL_def RUN_CONTROL_def KVM_GUESTDBG_ENABLE_def KVM_GUESTDBG_USE_SW_BP_def KVM_GUESTDBG_SINGLESTEP_def)
  with s2(1) s3 dbg show ?thesis by (simp add: handle_debug_exit_def)
qed

lemma detach_leaves_single_step_example:
  "\<exists>s1 s2 s3 s4. handle_packet demo_vcpu_ops ''s'' (demo_stopped [] 0x100 []) = (Inr (), s1) \<and>
    handle_debug_exit demo_vcpu_ops 0x101 (s1\<lparr>gs_vcpu := (demo_regs 0x101, STEP_CONTROL, demo_event), gs_mem := gs_mem s1\<rparr>) = (Inr Stop, s2) \<and>
    handle_packet demo_vcpu_ops ''D'' s2 = (Inr (), s3) \<and> fst (snd (gs_vcpu s3)) AND KVM_GUESTDBG_SINGLESTEP \<noteq> 0 \<and>
    handle_debug_exit demo_vcpu_ops 0x102 (s3\<lparr>gs_vcpu := (demo_regs 0x102, STEP_CONTROL, demo_event), gs_mem := gs_mem s3\<rparr>) = (Inr ForwardToGuest, s4) \<and>
    ev_injected (snd (snd (gs_vcpu s4))) = 1 \<and> ev_nr (snd (snd (gs_vcpu s4))) = 3"
proof -
  let ?v = "\<lambda>ip. (demo_regs ip, STEP_CONTROL, demo_event)" and ?s = "demo_stopped [] 0x100 []"
  have law: "set_guest_debug demo_vcpu_ops c v = Inr v' \<Longrightarrow> (fst \<circ> snd) v' = c" for c v v' by (auto simp: demo_vcpu_ops_def split: prod.splits)
  obtain s1 where s1: "handle_packet demo_vcpu_ops ''s'' ?s = (Inr (), s1)" "s1 = ?s\<lparr>gs_pending_step_over := None, gs_vcpu := ?v 0x100, gs_was_stepping := True, gs_stopped := False\<rparr>"
    using resume_elsewhere [of demo_vcpu_ops ?s "demo_regs 0x100" True "?v 0x100"]
    by (simp add: handle_s demo_stopped_def no_ack_session_def gdb_listen_def demo_vcpu_ops_def)
  obtain s2 where s2: "handle_debug_exit demo_vcpu_ops 0x101 (s1\<lparr>gs_vcpu := ?v 0x101, gs_mem := gs_mem s1\<rparr>) = (Inr Stop, s2)"
    "gs_no_ack s2" "gs_tx_open s2"
    by (simp add: s1(2) handle_debug_exit_def report_stop_def io_simps write_packet_no_ack demo_stopped_def no_ack_session_def gdb_listen_def)
  obtain s3 where s3: "handle_packet demo_vcpu_ops ''D'' s2 = (Inr (), s3)"
    using s2(2,3) by (simp add: handle_D reply_with_def write_packet_no_ack detach_def)
  have "(fst \<circ> snd) (?v 0x101) = (fst \<circ> snd) (gs_vcpu s1)" by (simp add: s1(2))
  from detach_leaves_single_step [OF law s1(1) this _ s2(1) s3, where pc' = "0x102" and ?v4.0 = "?v 0x102" and ?m4.0 = "gs_mem s3"] show ?thesis
    using s1(1) s2(1) s3 by (auto simp: s1(2) io_simps inject_breakpoint_exception_def io_get_def io_set_def demo_vcpu_ops_def BP_VECTOR_def
      demo_stopped_def no_ack_session_def gdb_listen_def)
qed

subsection \<open>Well-formed stubs\<close>

text \<open>
  Every breakpoint of the table is in guest RAM with \<open>0xcc\<close> at its address, except the one being stepped
  over; and a step-over is pending only while its forced step runs.
\<close>

definition armed :: "'v gdb_state \<Rightarrow> bool" where
  "armed s \<longleftrightarrow> table_ok (gs_breakpoints s) (gs_mem s) \<and>
     (\<forall>a. map_of (gs_breakpoints s) a \<noteq> None \<longrightarrow> gs_pending_step_over s \<noteq> Some a \<longrightarrow> mem_bytes (gs_mem s) (unat a) = 0xcc) \<and>
     (\<forall>a. gs_pending_step_over s = Some a \<longrightarrow> map_of (gs_breakpoints s) a \<noteq> None \<and> gs_was_stepping s \<and> \<not> gs_stopped s)"

text \<open>The stub at work: it serves a packet, the guest runs without writing to a patched address, or a debug exit is handled.\<close>

inductive gdb_step :: "'v vcpu_ops \<Rightarrow> 'v gdb_state \<Rightarrow> 'v gdb_state \<Rightarrow> bool" for ops where
  Serve: "gs_stopped s \<Longrightarrow> gs_attached s \<Longrightarrow> read_packet s = (Inr p, s') \<Longrightarrow> handle_packet ops p s' = (Inr (), s'') \<Longrightarrow> gdb_step ops s s''"
| Guest: "\<not> gs_stopped s \<Longrightarrow> mem_size m = mem_size (gs_mem s) \<Longrightarrow>
    (\<And>a. map_of (gs_breakpoints s) a \<noteq> None \<Longrightarrow> mem_bytes m (unat a) = mem_bytes (gs_mem s) (unat a)) \<Longrightarrow>
    gdb_step ops s (s\<lparr>gs_vcpu := v, gs_mem := m\<rparr>)"
| Trap: "\<not> gs_stopped s \<Longrightarrow> handle_debug_exit ops pc s = (Inr a, s') \<Longrightarrow> gdb_step ops s s'"

lemma mem_bytes_poke_at: "mem_bytes (poke a b m) (unat x) = (if x = a \<and> unat a < unat (mem_size m) then b else mem_bytes m (unat x))"
  by (simp add: mem_bytes_poke word_unat_eq_iff)

lemma armed_io [simp]: "armed (s\<lparr>gs_rx := r\<rparr>) = armed s" "armed (s\<lparr>gs_tx := t\<rparr>) = armed s" "armed (send_bytes bs s) = armed s"
  by (simp_all add: armed_def send_bytes_def)

lemma stopped_send_bytes [simp]: "gs_stopped (send_bytes bs s) = gs_stopped s"
  by (simp add: send_bytes_def)

lemma armed_write_packet: "armed s \<Longrightarrow> armed (snd (write_packet d s))"
  by (simp add: write_packet_def Let_def split: list.split)

lemma armed_reply_with: "armed (snd r) \<Longrightarrow> armed (snd (reply_with r))"
  by (simp add: reply_with_def split_beta armed_write_packet)

lemma read_packet_keeps:
  "read_packet s = (r, s') \<Longrightarrow> armed s' = armed s \<and> gs_stopped s' = gs_stopped s"
proof (induction "length (gs_rx s)" arbitrary: s rule: less_induct)
  case less
  show ?case
  proof (cases s rule: read_packet_cases)
    case (ret p rest ack)
    with less(2) show ?thesis by (cases "gs_no_ack s") auto
  next
    case (retry rest)
    with less(1) [of "send_bytes [0x2d] (s\<lparr>gs_rx := rest\<rparr>)"] less(2) show ?thesis by simp
  qed (use less(2) in auto)
qed

lemma armed_insert:
  assumes "armed s" and "gs_stopped s"
  shows "armed (snd (insert_breakpoint arg s))"
proof -
  have "armed (s\<lparr>gs_breakpoints := AList.update a b (gs_breakpoints s), gs_mem := poke a 0xcc (gs_mem s)\<rparr>)"
    if "unat a < unat (mem_size (gs_mem s))" for a b
    using assms that by (auto simp: armed_def table_ok_def distinct_update dom_update update_conv' mem_bytes_poke_at split: if_splits)
  moreover have "unat a < unat (mem_size (gs_mem s))" if "read_checked (gs_mem s) a 1 = Some x" for a x
    using that by (simp add: read_checked_eq split: if_splits)
  ultimately show ?thesis using assms(1) by (auto simp: insert_breakpoint_def split: option.split)
qed

lemma armed_remove:
  assumes "armed s" and "gs_stopped s"
  shows "armed (snd (remove_breakpoint arg s))"
proof -
  have "armed (s\<lparr>gs_breakpoints := AList.delete a (gs_breakpoints s), gs_mem := poke a b (gs_mem s)\<rparr>)" for a b
  proof -
    have "table_ok (AList.delete a (gs_breakpoints s)) (poke a b (gs_mem s))"
    proof -
      have t: "table_ok (gs_breakpoints s) (gs_mem s)" using assms(1) by (simp add: armed_def)
      then have "distinct (map fst (AList.delete a (gs_breakpoints s)))" by (intro distinct_delete) (simp add: table_ok_def)
      moreover have "unat x < unat (mem_size (gs_mem s))" if "x \<in> fst ` set (AList.delete a (gs_breakpoints s))" for x
        using t subsetD [OF dom_delete_subset that] unfolding table_ok_def by (elim conjE bspec)
      ultimately show ?thesis unfolding table_ok_def mem_size_poke by (intro conjI ballI)
    qed
    then show ?thesis using assms by (auto simp: armed_def delete_conv' mem_bytes_poke_at split: if_splits)
  qed
  then show ?thesis using assms(1) by (auto simp: remove_breakpoint_def split: option.split)
qed

lemma armed_write_memory:
  assumes "armed s" and "gs_stopped s"
  shows "armed (snd (write_memory arg s))"
proof -
  let ?bps = "gs_breakpoints s"
  have none: "gs_pending_step_over s = None" using assms by (auto simp: armed_def)
  have t: "table_ok ?bps (gs_mem s)" using assms(1) by (simp add: armed_def)
  have "armed (s\<lparr>gs_breakpoints := fst (shadow_write a d ?bps m), gs_mem := snd (shadow_write a d ?bps m)\<rparr>)"
    if w: "write_checked (gs_mem s) a d = (True, m)" for a d m
  proof -
    have fit: "unat a + length d \<le> unat (mem_size (gs_mem s))" and m: "m = mem_write (gs_mem s) (unat a) d"
      using w by (auto simp: write_checked_eq split: if_splits)
    have t': "table_ok ?bps m" using t by (simp add: table_ok_def m)
    have "mem_bytes (snd (shadow_write a d ?bps m)) (unat x) = 0xcc" if x: "map_of ?bps x = Some o'" for x o'
      using fold_poke(2) [OF t', of _ "\<lambda>_. 0xcc" "unat x"] assms(1) none x
      by (auto simp: shadow_write_def m mem_bytes_write hits_iff [OF fit] armed_def)
    moreover have "map_of (fst (shadow_write a d ?bps m)) x \<noteq> None \<Longrightarrow> map_of ?bps x \<noteq> None" for x
      using write_memory_view(3) [OF t fit] unfolding m map_of_eq_None_iff by (metis image_set)
    ultimately have "mem_bytes (snd (shadow_write a d ?bps m)) (unat x) = 0xcc" if "map_of (fst (shadow_write a d ?bps m)) x \<noteq> None" for x
      using that by blast
    then show ?thesis using write_memory_view(2) [OF t fit] none by (simp add: armed_def m)
  qed
  then show ?thesis using assms(1) unfolding write_memory_def
    by (auto simp: Let_def split: option.split prod.split bool.split) (metis fst_conv snd_conv)
qed

lemma armed_detach: "armed s \<Longrightarrow> gs_stopped s \<Longrightarrow> armed (detach s)"
  by (auto simp: armed_def detach_def table_ok_def)

lemma armed_resume:
  assumes "armed s" and "gs_pending_step_over s = None" and "resume ops b s = (Inr u, s')"
  shows "armed s'"
proof (rule resume_InrE [OF assms(3)])
  fix r v
  assume s': "s' = (case map_of (gs_breakpoints s) (g_rip r) of
        Some orig \<Rightarrow> s\<lparr>gs_mem := poke (g_rip r) orig (gs_mem s), gs_pending_step_over := Some (g_rip r),
          gs_resume_after_step_over := \<not> b, gs_vcpu := v, gs_was_stepping := True, gs_stopped := False\<rparr>
      | None \<Rightarrow> s\<lparr>gs_pending_step_over := None, gs_vcpu := v, gs_was_stepping := b, gs_stopped := False\<rparr>)"
  show "armed s'" using assms(1,2) unfolding s' by (auto simp: armed_def table_ok_def mem_bytes_poke_at split: option.split)
qed

lemma armed_no_ack: "armed (s\<lparr>gs_no_ack := b\<rparr>) = armed s"
  by (simp add: armed_def)

lemma ex_if: "(c \<Longrightarrow> \<exists>r. A = f r \<and> P r) \<Longrightarrow> (\<not> c \<Longrightarrow> \<exists>r. B = f r \<and> P r) \<Longrightarrow> \<exists>r. (if c then A else B) = f r \<and> P r"
  by simp

text \<open>Every packet is answered from one of these.\<close>

lemma handle_packet_cases:
  obtains (resumes) arg b where "handle_packet ops p s = io_bind (apply_resume_address ops arg) (\<lambda>_. resume ops b) s"
  | (registers) arg where "handle_packet ops p s = (case write_all_registers ops arg s of (Inr _, s) \<Rightarrow> reply_with (''OK'', s)
      | (Inl msg, s) \<Rightarrow> reply_with (''E01;'' @ msg, s))"
  | (killed) "handle_packet ops p s = (Inr (), s\<lparr>gs_killed := True, gs_attached := False\<rparr>)"
  | (replies) r where "handle_packet ops p s = reply_with r"
      and "snd r = s \<or> (\<exists>arg. r = write_memory arg s) \<or> (\<exists>arg. r = insert_breakpoint arg s) \<or>
           (\<exists>arg. r = remove_breakpoint arg s) \<or> snd r = detach s \<or> snd r = s\<lparr>gs_no_ack := True\<rparr>"
proof (cases p)
  case Nil
  then show ?thesis by (intro replies [of "([], s)"]) (simp_all add: handle_packet_def)
next
  case (Cons c arg)
  consider "c = CHR ''G''" | "c = CHR ''c''" | "c = CHR ''s''" | "c = CHR ''k''" | "c \<notin> set ''Gcsk''" by auto
  then show ?thesis
  proof cases
    case 5
    then have n: "(c = CHR ''G'') = False" "(c = CHR ''c'') = False" "(c = CHR ''s'') = False" "(c = CHR ''k'') = False" by simp_all
    have "\<exists>r. handle_packet ops p s = reply_with r \<and> (snd r = s \<or> (\<exists>arg. r = write_memory arg s) \<or> (\<exists>arg. r = insert_breakpoint arg s) \<or>
        (\<exists>arg. r = remove_breakpoint arg s) \<or> snd r = detach s \<or> snd r = s\<lparr>gs_no_ack := True\<rparr>)"
      unfolding Cons handle_packet_def list.case n if_False
      by (intro ex_if; (rule exI, rule conjI, rule refl, (unfold snd_conv)?, blast))
    then show ?thesis using replies by blast
  qed (use Cons that in \<open>simp_all add: handle_packet_def\<close>)
qed

lemma armed_handle_packet:
  assumes "armed s" and "gs_stopped s" and "handle_packet ops p s = (Inr (), s')"
  shows "armed s'"
proof -
  have none: "gs_pending_step_over s = None" using assms(1,2) by (auto simp: armed_def)
  have reply: "armed s'" if "reply_with r = (Inr (), s')" and "armed (snd r)" for r
    using armed_reply_with [OF that(2)] that(1) by simp
  have go: "armed s'" if bnd: "io_bind (apply_resume_address ops arg) (\<lambda>_. resume ops b) s = (Inr (), s')" for arg b
  proof -
    from bnd obtain t where t: "apply_resume_address ops arg s = (Inr (), t)" "resume ops b t = (Inr (), s')"
      by (auto simp: io_simps split: prod.splits sum.splits)
    from t(1) have "\<exists>v. t = s\<lparr>gs_vcpu := v\<rparr>"
      by (auto simp: apply_resume_address_def io_simps io_get_def io_set_def intro: exI [of _ "gs_vcpu s"] split: if_splits option.splits sum.splits prod.splits)
    then obtain v where "t = s\<lparr>gs_vcpu := v\<rparr>" ..
    with assms(1) none have "armed t" "gs_pending_step_over t = None" by (simp_all add: armed_def)
    from armed_resume [OF this t(2)] show ?thesis .
  qed
  have G: "armed s'" if "(case write_all_registers ops arg s of (Inr _, s) \<Rightarrow> reply_with (''OK'', s)
      | (Inl msg, s) \<Rightarrow> reply_with (''E01;'' @ msg, s)) = (Inr (), s')" for arg
  proof -
    have "armed (snd (write_all_registers ops arg s))"
      using assms(1) by (auto simp: write_all_registers_def armed_def split: option.split sum.split)
    then show ?thesis using that reply by (auto split: prod.splits sum.splits)
  qed
  from handle_packet_cases [of ops p s] show ?thesis
  proof cases
    case (resumes arg b)
    show ?thesis by (rule go [OF trans [OF resumes [symmetric] assms(3)]])
  next
    case (registers arg)
    show ?thesis by (rule G [OF trans [OF registers [symmetric] assms(3)]])
  next
    case killed
    with assms(1,3) show ?thesis by (auto simp: armed_def)
  next
    case (replies r)
    have "armed (snd r)"
      using replies(2) assms(1) armed_insert [OF assms(1,2)] armed_remove [OF assms(1,2)] armed_write_memory [OF assms(1,2)] armed_detach [OF assms(1,2)]
      by (auto simp: armed_no_ack)
    then show ?thesis by (rule reply [OF trans [OF replies(1) [symmetric] assms(3)]])
  qed
qed

lemma armed_report_stop:
  assumes "armed s" and "gs_pending_step_over s = None" and "report_stop s = (r, s')"
  shows "armed s'"
proof -
  have "armed (s\<lparr>gs_stopped := True\<rparr>)" using assms(1,2) by (simp add: armed_def)
  from armed_write_packet [OF this, of "''S05''"] assms(3) show ?thesis
    by (auto simp: report_stop_def io_simps split: prod.splits sum.splits)
qed

lemma armed_handle_debug_exit:
  assumes "armed s" and "\<not> gs_stopped s" and "handle_debug_exit ops pc s = (Inr a, s')"
  shows "armed s'"
proof (cases "gs_was_stepping s")
  case False
  then have none: "gs_pending_step_over s = None" using assms(1) by (auto simp: armed_def)
  have "\<exists>v. t = s\<lparr>gs_vcpu := v\<rparr>" if "inject_breakpoint_exception ops s = (Inr (), t)" for t
    using that by (auto simp: inject_breakpoint_exception_def io_simps io_get_def io_set_def split: sum.splits)
  moreover have "armed (s\<lparr>gs_vcpu := v\<rparr>)" for v using assms(1) by (simp add: armed_def)
  ultimately have "armed t" if "inject_breakpoint_exception ops s = (Inr (), t)" for t using that by blast
  with False assms(3) armed_report_stop [OF assms(1) none] show ?thesis
    by (auto simp: handle_debug_exit_def io_simps split: if_splits prod.splits sum.splits)
next
  case True
  let ?t = "s\<lparr>gs_was_stepping := False\<rparr>"
  show ?thesis
  proof (cases "gs_pending_step_over s")
    case None
    then have "armed ?t" using assms(1) by (simp add: armed_def)
    from armed_report_stop [OF this] None True assms(3) show ?thesis by (simp add: handle_debug_exit_def Let_def)
  next
    case (Some addr)
    let ?u = "s\<lparr>gs_was_stepping := False, gs_pending_step_over := None, gs_mem := poke addr 0xcc (gs_mem s)\<rparr>"
    have "unat addr < unat (mem_size (gs_mem s))" using assms(1) Some table_ok_bound by (auto simp: armed_def)
    then have u: "armed ?u" using assms(1) Some by (auto simp: armed_def table_ok_def mem_bytes_poke_at)
    have "armed s'" if "io_bind (resume ops False) (\<lambda>_. io_ok Resumed) ?u = (Inr a, s')"
      using that armed_resume [OF u] by (auto simp: io_simps split: prod.splits sum.splits)
    with armed_report_stop [OF u] Some True assms(3) show ?thesis
      by (auto simp: handle_debug_exit_def Let_def split: if_splits)
  qed
qed

lemma armed_step: "gdb_step ops s s' \<Longrightarrow> armed s \<Longrightarrow> armed s'"
proof (induction rule: gdb_step.induct)
  case (Serve s p s' s'')
  then show ?case using read_packet_keeps armed_handle_packet by metis
next
  case (Guest s m v)
  then show ?case by (auto simp: armed_def table_ok_def)
next
  case (Trap s pc a s')
  then show ?case using armed_handle_debug_exit by blast
qed



subsection \<open>Registers\<close>

lemma subslice_concat:
  assumes "\<And>x. x \<in> set xs \<Longrightarrow> length (f x) = n" and "i < length xs"
  shows "subslice (concat (map f xs) @ ys) (n * i) n = f (xs ! i)"
  using assms
proof (induction xs arbitrary: i)
  case (Cons x xs)
  show ?case
  proof (cases i)
    case 0
    with Cons(2) show ?thesis by (simp add: subslice_def)
  next
    case (Suc j)
    with Cons(1) [of j] Cons(2,3) show ?thesis by (simp add: subslice_def)
  qed
qed simp

lemma word_at_gp:
  assumes "i < 17"
  shows "word_at (register_bytes r q) i = gp_list r ! i"
proof -
  have "subslice (register_bytes r q) (8 * i) 8 = le64 (gp_list r ! i)"
    unfolding register_bytes_def by (rule subslice_concat) (use assms in \<open>simp_all add: gp_list_def\<close>)
  then show ?thesis by (simp add: word_at_def)
qed

lemma length_register_bytes: "length (register_bytes r q) = 164"
  by (simp add: register_bytes_def gp_list_def sel_list_def)

lemma regs_from_register_bytes:
  "regs_from_bytes (register_bytes r q) r0 = r\<lparr>g_rflags := take_bit 32 (g_rflags r)\<rparr>"
proof -
  have "length (concat (map le64 (gp_list r))) = 136" by (simp add: gp_list_def)
  then have "subslice (register_bytes r q) 136 4 = le32 (ucast (g_rflags r))" by (simp add: register_bytes_def subslice_def)
  moreover have "ucast (ucast (g_rflags r) :: u32) = take_bit 32 (g_rflags r)" by (rule bit_word_eqI) (auto simp: bit_simps)
  ultimately show ?thesis
    by (simp add: regs_from_bytes_def word_at_gp length_register_bytes) (simp add: gp_list_def)
qed

text \<open>what \<open>g\<close> reports, \<open>G\<close> puts back. The reply to \<open>g\<close> is the 164 bytes of the register file in hexadecimal; sent back with
  \<open>G\<close>, on any vCPU state in between, it makes the stub set exactly the general-purpose registers, the
  instruction pointer and the low 32 flag bits that \<open>g\<close> read, and nothing else of the session changes.\<close>

lemma registers_roundtrip:
  assumes "get_regs ops (gs_vcpu s) = Inr r" and "get_sregs ops (gs_vcpu s) = Inr q"
    and "get_regs ops v = Inr r0" and "set_regs ops (r\<lparr>g_rflags := take_bit 32 (g_rflags r)\<rparr>) v = Inr v'"
  shows "length (read_all_registers ops s) = 328 \<and>
    write_all_registers ops (read_all_registers ops s) (t\<lparr>gs_vcpu := v\<rparr>) = (Inr (), t\<lparr>gs_vcpu := v'\<rparr>)"
  using assms by (simp add: read_all_registers_def write_all_registers_def length_register_bytes regs_from_register_bytes)

lemma registers_roundtrip_example:
  "write_all_registers demo_vcpu_ops (read_all_registers demo_vcpu_ops (demo_stopped [] 0x100 [])) (demo_stopped [] 0x200 []) =
     (Inr (), demo_stopped [] 0x100 [])"
  using registers_roundtrip [of demo_vcpu_ops "demo_stopped [] 0x100 []" "demo_regs 0x100" "sum.projr (get_sregs demo_vcpu_ops undefined)"
      "(demo_regs 0x200, 0, demo_event)" "demo_regs 0x200" "(demo_regs 0x100, 0, demo_event)" "demo_stopped [] 0x200 []"]
  by (simp add: demo_vcpu_ops_def demo_stopped_def no_ack_session_def gdb_listen_def demo_regs_def)

end
