(* ===== verification/Serial.thy ===== *)
theory Serial
  imports Snapshot_Codec
begin

text \<open>
  The 16550 UART (\<open>src/serial.rs\<close>). The host's console or log file is the list of
  bytes handed to it (\<open>Sink::write\<close> is best effort: what the host does with them is not the
  device's business). The tracing switch only prints.

  A guest access of \<open>n\<close> bytes is answered by a list of \<open>n\<close> bytes. The trace section describes
  whole runs: any interleaving of keystrokes and guest accesses.
\<close>

definition COM1_BASE :: u16 where "COM1_BASE = 0x3f8"
definition COM1_IRQ :: u32 where "COM1_IRQ = 4"
definition COM2_BASE :: u16 where "COM2_BASE = 0x2f8"
definition COM2_IRQ :: u32 where "COM2_IRQ = 3"
definition COM3_BASE :: u16 where "COM3_BASE = 0x3e8"
definition COM3_IRQ :: u32 where "COM3_IRQ = 4"
definition COM4_BASE :: u16 where "COM4_BASE = 0x2e8"
definition COM4_IRQ :: u32 where "COM4_IRQ = 3"
definition com_ports :: "u16 \<Rightarrow> u16 \<Rightarrow> bool" where "com_ports bs port \<longleftrightarrow> bs \<le> port \<and> port < bs + 8"

lemmas com_defs = COM1_BASE_def COM2_BASE_def COM3_BASE_def COM4_BASE_def com_ports_def
lemmas com_irqs = COM1_IRQ_def COM2_IRQ_def COM3_IRQ_def COM4_IRQ_def

definition REG_RBR :: u16 where "REG_RBR = 0"
definition REG_IER :: u16 where "REG_IER = 1"
definition REG_IIR :: u16 where "REG_IIR = 2"
definition REG_LSR :: u16 where "REG_LSR = 5"
definition REG_MSR :: u16 where "REG_MSR = 6"
definition REG_SCR :: u16 where "REG_SCR = 7"
definition IER_RDI :: u8 where "IER_RDI = 0x01"
definition IER_THRI :: u8 where "IER_THRI = 0x02"
definition IER_MASK :: u8 where "IER_MASK = 0x0f"
definition IIR_NO_INTERRUPT :: u8 where "IIR_NO_INTERRUPT = 0x01"
definition IIR_THRI :: u8 where "IIR_THRI = 0x02"
definition IIR_RDI :: u8 where "IIR_RDI = 0x04"
definition LSR_DR :: u8 where "LSR_DR = 0x01"
definition LSR_THRE_TEMT :: u8 where "LSR_THRE_TEMT = 0x60"
definition MSR_CTS_DSR_DCD :: u8 where "MSR_CTS_DSR_DCD = 0xb0"

lemmas uart_regs = REG_RBR_def REG_IER_def REG_IIR_def REG_LSR_def REG_MSR_def REG_SCR_def

datatype sink = Stdout | Log_File

record serial =
  ser_base :: u16
  ser_sink :: sink
  ser_sent :: bytes
  ier :: u8
  scratch :: u8
  rx :: bytes

definition serial_new :: serial where
  "serial_new = \<lparr>ser_base = COM1_BASE, ser_sink = Stdout, ser_sent = [], ier = 0, scratch = 0, rx = []\<rparr>"

definition new_capture :: "u16 \<Rightarrow> serial" where
  "new_capture bs = \<lparr>ser_base = bs, ser_sink = Log_File, ser_sent = [], ier = 0, scratch = 0, rx = []\<rparr>"

definition sink_write :: "bytes \<Rightarrow> serial \<Rightarrow> serial" where
  "sink_write data s = s\<lparr>ser_sent := ser_sent s @ data\<rparr>"

definition push_rx_byte :: "serial \<Rightarrow> byte \<Rightarrow> bool \<times> serial" where
  "push_rx_byte s b = (ier s AND IER_RDI \<noteq> 0, s\<lparr>rx := rx s @ [b]\<rparr>)"

definition handle_out :: "serial \<Rightarrow> u16 \<Rightarrow> bytes \<Rightarrow> bool \<times> serial" where
  "handle_out s port data =
     (case data of
        [] \<Rightarrow> (False, s)
      | b # _ \<Rightarrow>
          let reg = port - ser_base s in
          if reg = REG_RBR then (ier s AND IER_THRI \<noteq> 0, sink_write data s)
          else if reg = REG_IER then
            let s = s\<lparr>ier := b AND IER_MASK\<rparr>
            in (ier s AND IER_THRI \<noteq> 0 \<or> (ier s AND IER_RDI \<noteq> 0 \<and> rx s \<noteq> []), s)
          else if reg = REG_SCR then (False, s\<lparr>scratch := b\<rparr>)
          else (False, s))"

definition iir :: "serial \<Rightarrow> u8" where
  "iir s =
     (if ier s AND IER_RDI \<noteq> 0 \<and> rx s \<noteq> [] then IIR_RDI
      else if ier s AND IER_THRI \<noteq> 0 then IIR_THRI
      else IIR_NO_INTERRUPT)"

definition handle_in :: "serial \<Rightarrow> u16 \<Rightarrow> nat \<Rightarrow> bytes \<times> serial" where
  "handle_in s port n =
     (let reg = port - ser_base s;
          (val, s) =
            (if reg = REG_RBR then (case rx s of [] \<Rightarrow> (0, s) | b # bs \<Rightarrow> (b, s\<lparr>rx := bs\<rparr>))
             else if reg = REG_IIR then (iir s, s)
             else if reg = REG_IER then (ier s, s)
             else if reg = REG_LSR then (LSR_THRE_TEMT OR (if rx s = [] then 0 else LSR_DR), s)
             else if reg = REG_MSR then (MSR_CTS_DSR_DCD, s)
             else if reg = REG_SCR then (scratch s, s)
             else (0, s))
      in ((replicate n 0)[0 := val], s))"

definition serial_save_state :: "serial \<Rightarrow> bytes" where
  "serial_save_state s = [ier s, scratch s] @ le32 (of_nat (length (rx s))) @ rx s"

definition serial_restore_state :: "bytes \<Rightarrow> serial \<Rightarrow> (snap_error + unit) \<times> serial" where
  "serial_restore_state data =
     take_into take_u8 (\<lambda>v. ier_update (\<lambda>_. v))
     (take_into take_u8 (\<lambda>v. scratch_update (\<lambda>_. v))
     (\<lambda>buf s.
        case take_u32 buf of
          Inl e \<Rightarrow> (Inl e, s)
        | Inr (n, buf) \<Rightarrow> take_into (take_bytes (unat n)) (\<lambda>v. rx_update (\<lambda>_. v)) (\<lambda>_ s. (Inr (), s)) buf s)) data"

subsection \<open>Runs of the port\<close>

text \<open>What can happen to a port: a keystroke of the host, a write or a read of \<open>n\<close> bytes by the guest.\<close>

datatype serial_op = Key byte | Out_op u16 bytes | In_op u16 nat

fun serial_step :: "serial \<Rightarrow> serial_op \<Rightarrow> bool \<times> bytes \<times> serial" where
  "serial_step s (Key b) = (case push_rx_byte s b of (irq, s') \<Rightarrow> (irq, [], s'))"
| "serial_step s (Out_op p data) = (case handle_out s p data of (irq, s') \<Rightarrow> (irq, [], s'))"
| "serial_step s (In_op p n) = (case handle_in s p n of (bs, s') \<Rightarrow> (False, bs, s'))"

fun serial_run :: "serial \<Rightarrow> serial_op list \<Rightarrow> serial" where
  "serial_run s [] = s"
| "serial_run s (x # xs) = serial_run (snd (snd (serial_step s x))) xs"

text \<open>The bytes the guest took from the receive buffer while the line status register said there was one.\<close>

definition data_ready :: "serial \<Rightarrow> bool" where
  "data_ready s \<longleftrightarrow> bit (hd (fst (handle_in s (ser_base s + REG_LSR) 1))) 0"

fun received :: "serial \<Rightarrow> serial_op list \<Rightarrow> bytes" where
  "received s [] = []"
| "received s (x # xs) =
     (case x of
        In_op p n \<Rightarrow> if p = ser_base s + REG_RBR \<and> 0 < n \<and> data_ready s then take 1 (fst (handle_in s p n)) else []
      | _ \<Rightarrow> []) @ received (snd (snd (serial_step s x))) xs"

fun keys :: "serial_op list \<Rightarrow> bytes" where
  "keys [] = []"
| "keys (Key b # xs) = b # keys xs"
| "keys (_ # xs) = keys xs"

fun transmitted :: "u16 \<Rightarrow> serial_op list \<Rightarrow> bytes" where
  "transmitted bs [] = []"
| "transmitted bs (Out_op p data # xs) = (if p = bs then data else []) @ transmitted bs xs"
| "transmitted bs (_ # xs) = transmitted bs xs"

lemma data_ready_iff [simp]: "data_ready s \<longleftrightarrow> rx s \<noteq> []"
  by (simp add: data_ready_def handle_in_def uart_regs LSR_THRE_TEMT_def LSR_DR_def bit_simps)

lemma serial_base [simp]: "ser_base (snd (snd (serial_step s x))) = ser_base s"
  by (cases x) (auto simp: push_rx_byte_def handle_out_def handle_in_def sink_write_def Let_def split: list.split prod.split if_splits)

text \<open>One step of the receive queue and of the transmitted stream.\<close>

lemma rx_step:
  assumes "\<And>p n. x = In_op p n \<Longrightarrow> 0 < n"
  shows "rx s @ keys [x] = received s [x] @ rx (snd (snd (serial_step s x)))"
proof (cases x)
  case (Key b)
  then show ?thesis by (simp add: push_rx_byte_def)
next
  case (Out_op p data)
  then show ?thesis by (auto simp: handle_out_def sink_write_def Let_def split: list.split)
next
  case (In_op p n)
  moreover from In_op assms obtain k where "n = Suc k" by (cases n) auto
  moreover have "p - ser_base s = REG_RBR \<longleftrightarrow> p = ser_base s + REG_RBR" by (simp add: REG_RBR_def)
  ultimately show ?thesis
    by (cases "rx s") (auto simp: handle_in_def Let_def split: if_splits)
qed

lemma sent_step: "ser_sent (snd (snd (serial_step s x))) = ser_sent s @ transmitted (ser_base s) [x]"
  by (cases x) (auto simp: push_rx_byte_def handle_out_def handle_in_def sink_write_def Let_def uart_regs split: list.split prod.split if_splits)

lemma keys_Cons: "keys (x # xs) = keys [x] @ keys xs"
  by (cases x) simp_all

lemma transmitted_Cons: "transmitted bs (x # xs) = transmitted bs [x] @ transmitted bs xs"
  by (cases x) simp_all

text \<open>The two conditions the interrupt line stands for.\<close>

definition rx_cause :: "serial \<Rightarrow> bool" where
  "rx_cause s \<longleftrightarrow> ier s AND IER_RDI \<noteq> 0 \<and> rx s \<noteq> []"

definition tx_cause :: "serial \<Rightarrow> bool" where
  "tx_cause s \<longleftrightarrow> ier s AND IER_THRI \<noteq> 0"

text \<open>The identification register tells the guest of a cause exactly when there is one.\<close>

lemma iir_cause: "iir s = IIR_NO_INTERRUPT \<longleftrightarrow> \<not> rx_cause s \<and> \<not> tx_cause s" "iir s = IIR_RDI \<longleftrightarrow> rx_cause s"
  by (auto simp: iir_def rx_cause_def tx_cause_def IIR_NO_INTERRUPT_def IIR_RDI_def IIR_THRI_def)

subsection \<open>Properties\<close>

text \<open>C30: The console is two streams. In every run, whatever registers the guest touches and however
  keystrokes interleave with it, what it received from the receive buffer followed by what
  is still queued is exactly what was queued and typed, in order, and what reached the host is
  exactly what the guest wrote to the transmit register.\<close>

theorem serial_streams:
  assumes "\<forall>p n. In_op p n \<in> set xs \<longrightarrow> 0 < n"
  shows "rx s @ keys xs = received s xs @ rx (serial_run s xs) \<and>
    ser_sent (serial_run s xs) = ser_sent s @ transmitted (ser_base s) xs"
  using assms
proof (induction xs arbitrary: s)
  case (Cons x xs)
  let ?s = "snd (snd (serial_step s x))"
  have "\<And>p n. x = In_op p n \<Longrightarrow> 0 < n" using Cons.prems by auto
  then have 1: "rx s @ keys [x] = received s [x] @ rx ?s" by (rule rx_step)
  from Cons have 2: "rx ?s @ keys xs = received ?s xs @ rx (serial_run ?s xs)"
    "ser_sent (serial_run ?s xs) = ser_sent ?s @ transmitted (ser_base ?s) xs" by simp_all
  have "rx s @ keys (x # xs) = received s [x] @ rx ?s @ keys xs"
    unfolding keys_Cons [of x xs] using 1 by (metis append.assoc)
  also have "\<dots> = received s (x # xs) @ rx (serial_run s (x # xs))" unfolding 2(1) by simp
  finally show ?case using 2(2) sent_step [of s x] transmitted_Cons [of "ser_base s" x xs] by simp
qed simp

theorem serial_streams_witness:
  "received serial_new [Key 65, In_op 0x3f8 1, Key 66, Out_op 0x3f8 [67], Key 68, In_op 0x3f8 2] @
     rx (serial_run serial_new [Key 65, In_op 0x3f8 1, Key 66, Out_op 0x3f8 [67], Key 68, In_op 0x3f8 2]) = [65, 66, 68] \<and>
   ser_sent (serial_run serial_new [Key 65, In_op 0x3f8 1, Key 66, Out_op 0x3f8 [67], Key 68, In_op 0x3f8 2]) = [67]"
proof -
  have "rx serial_new = []" "ser_sent serial_new = []" "ser_base serial_new = 0x3f8"
    by (simp_all add: serial_new_def COM1_BASE_def)
  with serial_streams [of "[Key 65, In_op 0x3f8 1, Key 66, Out_op 0x3f8 [67], Key 68, In_op 0x3f8 2]" serial_new]
  show ?thesis by simp
qed

text \<open>No interrupt edge is lost: a step that makes a cause true that was not true before asks for an
  interrupt, and a step never asks for one unless a cause holds after it, so that the guest
  handler always finds it in the identification register.\<close>

lemma serial_interrupt_edges:
  assumes "serial_step s x = (irq, out, s')"
  shows "(rx_cause s' \<and> \<not> rx_cause s \<or> tx_cause s' \<and> \<not> tx_cause s \<longrightarrow> irq) \<and> (irq \<longrightarrow> iir s' \<noteq> IIR_NO_INTERRUPT)"
proof (cases x)
  case (Key b)
  then show ?thesis using assms unfolding iir_cause by (auto simp: push_rx_byte_def rx_cause_def tx_cause_def)
next
  case (Out_op p data)
  then show ?thesis using assms unfolding iir_cause
    by (cases data) (auto simp: handle_out_def sink_write_def Let_def rx_cause_def tx_cause_def split: if_splits)
next
  case (In_op p n)
  then show ?thesis using assms
    by (auto simp: handle_in_def Let_def rx_cause_def tx_cause_def split: if_splits list.splits)
qed

text \<open>Restoring a saved port gives any port the interrupt enables, the scratch register and the unread
  keystrokes of the saved one, and keeps the base port and the output of the restored one.\<close>

lemma serial_snapshot_roundtrip:
  assumes "length (rx s) < 2 ^ 32"
  shows "serial_restore_state (serial_save_state s) t = (Inr (), t\<lparr>ier := ier s, scratch := scratch s, rx := rx s\<rparr>)"
proof -
  have "take_bytes (unat (of_nat (length (rx s)) :: u32)) (rx s) = Inr (rx s, [])"
    using assms by (simp add: take_bytes_def unat_of_nat)
  then show ?thesis
    by (simp add: serial_restore_state_def serial_save_state_def take_into_simps c32.dec_enc take_into_def [of "take_bytes n" for n])
qed

end
