(* ===== verification/Snapshot_Stream.thy ===== *)
theory Snapshot_Stream
  imports Serial Pci_Bus Boot_Sequence
begin

text \<open>
  The serialized machine (\<open>src/snapshot.rs\<close>): what is captured of a live one, the stream that a snapshot
  file and a migration connection both carry, and its parser.

  A KVM structure is the bytes of its C representation; \<open>layout\<close> gives the size of each, which
  \<open>kvm_bindings\<close> fixes. The ioctls are the parameter \<open>capture_ops\<close>. A reader returns the value and the
  rest of the stream, or an error (\<open>Inl\<close>), or panics (\<open>None\<close>): \<open>vec![0u8; n]\<close> panics when \<open>n\<close> is
  over \<open>isize::MAX\<close>. That the allocator runs out of memory is not modelled.
\<close>

subsection \<open>Captured state\<close>

datatype kvm_struct =
    Regs | Sregs | Mp_state | Xsave | Xcrs | Vcpu_events | Pic_master | Pic_slave | Ioapic | Pit | Lapic

type_synonym layout = "kvm_struct \<Rightarrow> nat"

record captured_state =
  cs_num_cpus :: u8
  cs_struct :: "kvm_struct \<Rightarrow> bytes"
  cs_msrs :: "(u32 \<times> u64) list"
  cs_serial_blob :: bytes
  cs_pci_blob :: bytes
  cs_virtio_blobs :: "bytes list"

definition SNAP_MAGIC :: bytes where
  "SNAP_MAGIC = ascii ''HBSNAP01''"

definition MSR_INDICES :: "u32 list" where
  "MSR_INDICES = [0xc0000080, 0xc0000081, 0xc0000082, 0xc0000083, 0xc0000084, 0xc0000102, 0x174, 0x175, 0x176]"

record 'v capture_ops =
  co_struct :: "kvm_struct \<Rightarrow> 'v \<Rightarrow> string + bytes"
  co_msrs :: "u32 list \<Rightarrow> 'v \<Rightarrow> string + (u32 \<times> u64) list"

datatype capture_error = Get_failed kvm_struct string | Get_msrs_failed string

text \<open>The ioctls in the order they are issued; the first that fails ends the capture.\<close>

definition VCPU_ORDER :: "kvm_struct list" where
  "VCPU_ORDER = [Regs, Sregs, Mp_state, Xsave, Xcrs, Vcpu_events, Lapic]"

definition VM_ORDER :: "kvm_struct list" where
  "VM_ORDER = [Pic_master, Pic_slave, Ioapic, Pit]"

primrec get_structs :: "'v capture_ops \<Rightarrow> 'v \<Rightarrow> kvm_struct list \<Rightarrow> (kvm_struct \<Rightarrow> bytes) \<Rightarrow> capture_error + (kvm_struct \<Rightarrow> bytes)" where
  "get_structs ops v [] f = Inr f"
| "get_structs ops v (k # ks) f =
     (case co_struct ops k v of Inl e \<Rightarrow> Inl (Get_failed k e) | Inr b \<Rightarrow> get_structs ops v ks (f(k := b)))"

definition capture_live_state ::
  "'v capture_ops \<Rightarrow> 'v \<Rightarrow> serial \<Rightarrow> 'k pci_bus \<Rightarrow> bytes list \<Rightarrow> capture_error + captured_state" where
  "capture_live_state ops v ser bus virtio =
     try_bind (get_structs ops v VCPU_ORDER (\<lambda>_. [])) (\<lambda>f.
     case co_msrs ops MSR_INDICES v of
       Inl e \<Rightarrow> Inl (Get_msrs_failed e)
     | Inr msrs \<Rightarrow>
         try_bind (get_structs ops v VM_ORDER f) (\<lambda>f.
         Inr \<lparr>cs_num_cpus = 1, cs_struct = f, cs_msrs = msrs, cs_serial_blob = serial_save_state ser,
              cs_pci_blob = pci_save_state bus, cs_virtio_blobs = virtio\<rparr>))"

subsection \<open>The stream\<close>

definition FIRST_STRUCTS :: "kvm_struct list" where
  "FIRST_STRUCTS = [Regs, Sregs, Mp_state, Xsave, Xcrs, Vcpu_events]"

definition LAST_STRUCTS :: "kvm_struct list" where
  "LAST_STRUCTS = [Pic_master, Pic_slave, Ioapic, Pit, Lapic]"

definition msr_bytes :: "u32 \<times> u64 \<Rightarrow> bytes" where
  "msr_bytes e = le32 (fst e) @ le64 (snd e)"

definition blob_bytes :: "bytes \<Rightarrow> bytes" where
  "blob_bytes b = le32 (of_nat (length b)) @ b"

definition all_blobs :: "captured_state \<Rightarrow> bytes list" where
  "all_blobs c = cs_virtio_blobs c @ [cs_serial_blob c, cs_pci_blob c]"

definition header_bytes :: "captured_state \<Rightarrow> u64 \<Rightarrow> bytes" where
  "header_bytes c msize =
     SNAP_MAGIC @ le64 msize @ [cs_num_cpus c] @ concat (map (cs_struct c) FIRST_STRUCTS) @
     le32 (of_nat (length (cs_msrs c))) @ concat (map msr_bytes (cs_msrs c)) @
     concat (map (cs_struct c) LAST_STRUCTS) @
     le32 (of_nat (length (all_blobs c))) @ concat (map blob_bytes (all_blobs c))"

text \<open>\<open>wr\<close> is the writer's \<open>write_all\<close>.\<close>

definition write_to :: "(bytes \<Rightarrow> 'f \<Rightarrow> 'e + 'f) \<Rightarrow> captured_state \<Rightarrow> guest_memory \<Rightarrow> 'f \<Rightarrow> 'e + 'f" where
  "write_to wr c m f =
     try_bind (wr (header_bytes c (mem_size m)) f) (\<lambda>f. wr (mem_read m 0 (unat (mem_size m))) f)"

text \<open>\<open>create\<close> is \<open>File::create\<close>: the file system, or the error, when \<open>path\<close> is created empty.\<close>

datatype 'e save_error = Capture_failed capture_error | Create_failed string 'e | Write_failed string 'e

definition save_to_file ::
  "(string \<Rightarrow> 'e + 'f) \<Rightarrow> (bytes \<Rightarrow> 'f \<Rightarrow> 'e + 'f) \<Rightarrow> 'v capture_ops \<Rightarrow> string \<Rightarrow> guest_memory \<Rightarrow> 'v \<Rightarrow> serial \<Rightarrow> 'k pci_bus \<Rightarrow>
   bytes list \<Rightarrow> 'e save_error + 'f" where
  "save_to_file create wr ops path m v ser bus virtio =
     try_bind (map_sum Capture_failed id (capture_live_state ops v ser bus virtio)) (\<lambda>c.
     try_bind (map_sum (Create_failed path) id (create path)) (\<lambda>f.
     map_sum (Write_failed path) id (write_to wr c m f)))"

subsection \<open>Reading it back\<close>

datatype snapshot_error = Ended_early | Snap_bad_magic | No_pci_blob | No_serial_blob

type_synonym 'a reader = "bytes \<Rightarrow> (snapshot_error + 'a \<times> bytes) option"

definition rd_ok :: "'a \<Rightarrow> 'a reader" where
  "rd_ok x r = Some (Inr (x, r))"

definition rd_fail :: "snapshot_error \<Rightarrow> 'a reader" where
  "rd_fail e r = Some (Inl e)"

definition rd_bind :: "'a reader \<Rightarrow> ('a \<Rightarrow> 'b reader) \<Rightarrow> 'b reader" where
  "rd_bind p k r =
     (case p r of None \<Rightarrow> None | Some (Inl e) \<Rightarrow> Some (Inl e) | Some (Inr (x, r')) \<Rightarrow> k x r')"

definition read_exact_vec :: "nat \<Rightarrow> bytes reader" where
  "read_exact_vec n r =
     (if 2 ^ 63 \<le> n then None
      else if length r < n then Some (Inl Ended_early) else Some (Inr (take n r, drop n r)))"

definition rd_u8 :: "u8 reader" where
  "rd_u8 = rd_bind (read_exact_vec 1) (\<lambda>b. rd_ok (hd b))"

definition rd_u32 :: "u32 reader" where
  "rd_u32 = rd_bind (read_exact_vec 4) (\<lambda>b. rd_ok (of_le b))"

definition rd_u64 :: "u64 reader" where
  "rd_u64 = rd_bind (read_exact_vec 8) (\<lambda>b. rd_ok (of_le b))"

primrec read_structs :: "layout \<Rightarrow> kvm_struct list \<Rightarrow> (kvm_struct \<Rightarrow> bytes) \<Rightarrow> (kvm_struct \<Rightarrow> bytes) reader" where
  "read_structs lay [] f = rd_ok f"
| "read_structs lay (k # ks) f = rd_bind (read_exact_vec (lay k)) (\<lambda>b. read_structs lay ks (f(k := b)))"

primrec read_times :: "nat \<Rightarrow> 'a reader \<Rightarrow> 'a list reader" where
  "read_times 0 p = rd_ok []"
| "read_times (Suc n) p = rd_bind p (\<lambda>x. rd_bind (read_times n p) (\<lambda>xs. rd_ok (x # xs)))"

definition read_msr :: "(u32 \<times> u64) reader" where
  "read_msr = rd_bind rd_u32 (\<lambda>i. rd_bind rd_u64 (\<lambda>d. rd_ok (i, d)))"

definition read_blob :: "bytes reader" where
  "read_blob = rd_bind rd_u32 (\<lambda>n. read_exact_vec (unat n))"

record loaded_snapshot =
  ls_mem_size :: u64
  ls_captured :: captured_state
  ls_memory :: bytes

definition read_from :: "layout \<Rightarrow> loaded_snapshot reader" where
  "read_from lay =
     rd_bind (read_exact_vec (length SNAP_MAGIC)) (\<lambda>magic.
     if magic \<noteq> SNAP_MAGIC then rd_fail Snap_bad_magic else
     rd_bind rd_u64 (\<lambda>msize.
     rd_bind rd_u8 (\<lambda>cpus.
     rd_bind (read_structs lay FIRST_STRUCTS (\<lambda>_. [])) (\<lambda>f.
     rd_bind rd_u32 (\<lambda>msr_count.
     rd_bind (read_times (unat msr_count) read_msr) (\<lambda>msrs.
     rd_bind (read_structs lay LAST_STRUCTS f) (\<lambda>f.
     rd_bind rd_u32 (\<lambda>blob_count.
     rd_bind (read_times (unat blob_count) read_blob) (\<lambda>blobs.
     if blobs = [] then rd_fail No_pci_blob
     else if butlast blobs = [] then rd_fail No_serial_blob
     else rd_bind (read_exact_vec (unat msize)) (\<lambda>memory.
       rd_ok \<lparr>ls_mem_size = msize,
         ls_captured = \<lparr>cs_num_cpus = cpus, cs_struct = f, cs_msrs = msrs, cs_serial_blob = last (butlast blobs),
           cs_pci_blob = last blobs, cs_virtio_blobs = butlast (butlast blobs)\<rparr>,
         ls_memory = memory\<rparr>))))))))))"

subsection \<open>Readers that consume exactly what was written\<close>

text \<open>
  \<open>reads p xs x\<close>: the reader \<open>p\<close> takes exactly \<open>xs\<close> off any stream that starts with it and returns \<open>x\<close>, and any
  proper prefix of \<open>xs\<close> is a clean error. It composes, so a whole format is proved field by field.
\<close>

definition reads :: "'a reader \<Rightarrow> bytes \<Rightarrow> 'a \<Rightarrow> bool" where
  "reads p xs x \<longleftrightarrow> (\<forall>rest. p (xs @ rest) = Some (Inr (x, rest))) \<and> (\<forall>k < length xs. p (take k xs) = Some (Inl Ended_early))"

named_theorems reads_intros \<open>what each reader takes\<close>

lemma reads_ok [reads_intros]: "reads (rd_ok x) [] x"
  by (simp add: reads_def rd_ok_def)

text \<open>\<open>leads p xs q\<close>: having taken \<open>xs\<close>, the reader \<open>p\<close> goes on as \<open>q\<close>.\<close>

definition leads :: "'a reader \<Rightarrow> bytes \<Rightarrow> 'a reader \<Rightarrow> bool" where
  "leads p xs q \<longleftrightarrow> (\<forall>rest. p (xs @ rest) = q rest) \<and> (\<forall>k < length xs. p (take k xs) = Some (Inl Ended_early))"

lemma leads_refl: "leads q [] q"
  by (simp add: leads_def)

lemma leads_bind:
  assumes "reads p xs x" and "leads (k x) ys q"
  shows "leads (rd_bind p k) (xs @ ys) q"
  unfolding leads_def
proof (intro conjI allI impI)
  fix rest
  show "rd_bind p k ((xs @ ys) @ rest) = q rest"
    using assms by (simp add: reads_def leads_def rd_bind_def)
next
  fix n
  assume n: "n < length (xs @ ys)"
  show "rd_bind p k (take n (xs @ ys)) = Some (Inl Ended_early)"
  proof (cases "n < length xs")
    case True
    with assms(1) show ?thesis by (simp add: reads_def rd_bind_def)
  next
    case False
    then have "p (take n (xs @ ys)) = Some (Inr (x, take (n - length xs) ys))" using assms(1) by (simp add: reads_def)
    moreover have "n - length xs < length ys" using n False by simp
    ultimately show ?thesis using assms(2) by (simp add: leads_def rd_bind_def)
  qed
qed

lemma reads_leads: "reads p xs x \<longleftrightarrow> leads p xs (rd_ok x)"
  by (simp add: reads_def leads_def rd_ok_def)

lemma leads_trans:
  assumes "leads p xs q" and "leads q ys r"
  shows "leads p (xs @ ys) r"
  unfolding leads_def
proof (intro conjI allI impI)
  fix rest
  show "p ((xs @ ys) @ rest) = r rest" using assms by (simp add: leads_def)
next
  fix n
  assume n: "n < length (xs @ ys)"
  show "p (take n (xs @ ys)) = Some (Inl Ended_early)"
  proof (cases "n < length xs")
    case True
    with assms(1) show ?thesis by (simp add: leads_def)
  next
    case False
    then have "p (take n (xs @ ys)) = q (take (n - length xs) ys)" using assms(1) by (simp add: leads_def)
    moreover have "n - length xs < length ys" using n False by simp
    ultimately show ?thesis using assms(2) by (simp add: leads_def)
  qed
qed

lemma reads_bind: "reads p xs x \<Longrightarrow> reads (k x) ys y \<Longrightarrow> reads (rd_bind p k) (xs @ ys) y"
  unfolding reads_leads [of "rd_bind p k"] reads_leads [of "k x"] by (rule leads_bind)

lemma reads_bind_ok: "reads p xs x \<Longrightarrow> reads (rd_bind p (\<lambda>x. rd_ok (f x))) xs (f x)"
  using reads_bind [of p xs x "\<lambda>x. rd_ok (f x)" "[]" "f x"] by (simp add: reads_ok)

lemma reads_exact: "length xs = n \<Longrightarrow> n < 2 ^ 63 \<Longrightarrow> reads (read_exact_vec n) xs xs"
  by (auto simp: reads_def read_exact_vec_def)

lemma reads_u8 [reads_intros]: "reads rd_u8 [b] b"
  unfolding rd_u8_def using reads_bind_ok [OF reads_exact [of "[b]" 1], of hd] by simp

lemma reads_u32 [reads_intros]: "reads rd_u32 (le32 w) w"
  unfolding rd_u32_def using reads_bind_ok [OF reads_exact [of "le32 w" 4], of "of_le :: bytes \<Rightarrow> u32"] by simp

lemma reads_u64 [reads_intros]: "reads rd_u64 (le64 w) w"
  unfolding rd_u64_def using reads_bind_ok [OF reads_exact [of "le64 w" 8], of "of_le :: bytes \<Rightarrow> u64"] by simp

lemma reads_msr [reads_intros]: "reads read_msr (msr_bytes e) e"
  unfolding read_msr_def msr_bytes_def
  by (rule reads_bind [OF reads_u32], rule reads_bind [OF reads_u64, where ys = "[]", simplified]) (simp add: reads_ok)

lemma reads_blob [reads_intros]:
  assumes "length b < 2 ^ 32"
  shows "reads read_blob (blob_bytes b) b"
  unfolding read_blob_def blob_bytes_def
  by (rule reads_bind [OF reads_u32], rule reads_exact) (use assms in \<open>simp_all add: unat_of_nat take_bit_nat_eq_self\<close>)

lemma reads_structs:
  assumes "\<And>k. k \<in> set ks \<Longrightarrow> length (g k) = lay k \<and> lay k < 2 ^ 63"
  shows "reads (read_structs lay ks f) (concat (map g ks)) (\<lambda>k. if k \<in> set ks then g k else f k)"
  using assms
proof (induction ks arbitrary: f)
  case Nil
  show ?case by (simp add: reads_ok)
next
  case (Cons k ks)
  have "reads (read_structs lay ks (f(k := g k))) (concat (map g ks)) (\<lambda>j. if j \<in> set ks then g j else (f(k := g k)) j)"
    by (rule Cons.IH) (use Cons.prems in auto)
  moreover have "(\<lambda>j. if j \<in> set ks then g j else (f(k := g k)) j) = (\<lambda>j. if j \<in> set (k # ks) then g j else f j)" by auto
  moreover have "reads (read_exact_vec (lay k)) (g k) (g k)" using Cons.prems [of k] by (intro reads_exact) auto
  ultimately show ?case using reads_bind by fastforce
qed

lemma reads_times:
  assumes "\<And>x. x \<in> set xs \<Longrightarrow> reads p (f x) x"
  shows "reads (read_times (length xs) p) (concat (map f xs)) xs"
  using assms
proof (induction xs)
  case Nil
  show ?case by (simp add: reads_ok)
next
  case (Cons x xs)
  have "reads (rd_bind (read_times (length xs) p) (\<lambda>xs. rd_ok (x # xs))) (concat (map f xs)) (x # xs)"
    by (rule reads_bind_ok) (use Cons in auto)
  with Cons.prems [of x] show ?case using reads_bind by fastforce
qed

subsection \<open>The whole stream\<close>

definition captured_ok :: "layout \<Rightarrow> captured_state \<Rightarrow> bool" where
  "captured_ok lay c \<longleftrightarrow> (\<forall>k. length (cs_struct c k) = lay k \<and> lay k < 2 ^ 63) \<and> length (cs_msrs c) < 2 ^ 32 \<and>
     length (all_blobs c) < 2 ^ 32 \<and> (\<forall>b \<in> set (all_blobs c). length b < 2 ^ 32)"

lemma all_structs: "k \<in> set LAST_STRUCTS \<or> k \<in> set FIRST_STRUCTS"
  by (cases k) (simp_all add: FIRST_STRUCTS_def LAST_STRUCTS_def)

lemma blobs_split:
  "all_blobs c \<noteq> []" "butlast (all_blobs c) \<noteq> []" "last (all_blobs c) = cs_pci_blob c"
  "last (butlast (all_blobs c)) = cs_serial_blob c" "butlast (butlast (all_blobs c)) = cs_virtio_blobs c"
  by (simp_all add: all_blobs_def butlast_append)

text \<open>The header takes the parser to the memory.\<close>

lemma leads_header:
  assumes ok: "captured_ok lay c"
  shows "leads (read_from lay) (header_bytes c msize) (rd_bind (read_exact_vec (unat msize)) (\<lambda>memory.
       rd_ok \<lparr>ls_mem_size = msize, ls_captured = c, ls_memory = memory\<rparr>))"
proof -
  have n: "unat (of_nat (length (cs_msrs c)) :: u32) = length (cs_msrs c)" "unat (of_nat (length (all_blobs c)) :: u32) = length (all_blobs c)"
    using ok by (simp_all add: captured_ok_def unat_of_nat take_bit_nat_eq_self)
  let ?f = "\<lambda>k. if k \<in> set FIRST_STRUCTS then cs_struct c k else []"
  have s1: "reads (read_structs lay FIRST_STRUCTS (\<lambda>_. [])) (concat (map (cs_struct c) FIRST_STRUCTS)) ?f"
    and s2: "reads (read_structs lay LAST_STRUCTS ?f) (concat (map (cs_struct c) LAST_STRUCTS)) (\<lambda>k. if k \<in> set LAST_STRUCTS then cs_struct c k else ?f k)"
    using ok by (intro reads_structs; simp add: captured_ok_def)+
  have f: "(\<lambda>k. if k \<in> set LAST_STRUCTS then cs_struct c k else ?f k) = cs_struct c" using all_structs by (intro ext) auto
  have m: "reads (read_times (length (cs_msrs c)) read_msr) (concat (map msr_bytes (cs_msrs c))) (cs_msrs c)"
    by (intro reads_times reads_intros)
  have b: "reads (read_times (length (all_blobs c)) read_blob) (concat (map blob_bytes (all_blobs c))) (all_blobs c)"
    using ok by (intro reads_times reads_blob) (simp add: captured_ok_def)
  have mg: "reads (read_exact_vec (length SNAP_MAGIC)) SNAP_MAGIC SNAP_MAGIC" by (rule reads_exact) (simp_all add: SNAP_MAGIC_def ascii_def)
  have c: "\<lparr>cs_num_cpus = cs_num_cpus c, cs_struct = cs_struct c, cs_msrs = cs_msrs c, cs_serial_blob = cs_serial_blob c,
      cs_pci_blob = cs_pci_blob c, cs_virtio_blobs = cs_virtio_blobs c\<rparr> = c" by simp
  have end_: "leads k (concat (map blob_bytes (all_blobs c))) q"
    if "k = rd_bind (read_times (length (all_blobs c)) read_blob) k'" and "k' (all_blobs c) = q" for k k' and q :: "loaded_snapshot reader"
    using leads_bind [OF b, of k' "[]" q] leads_refl [of q] that by simp
  show ?thesis
    unfolding read_from_def header_bytes_def append_assoc
    by (rule leads_bind [OF mg], simp only: simp_thms if_False, rule leads_bind [OF reads_u64], rule leads_bind [OF reads_u8],
        rule leads_bind [OF s1], rule leads_bind [OF reads_u32], unfold n, rule leads_bind [OF m], rule leads_bind [OF s2],
        rule leads_bind [OF reads_u32], unfold n, rule end_ [OF refl])
      (simp add: blobs_split f c del: captured_state.surjective)
qed

lemma reads_stream:
  assumes "captured_ok lay c" and "mem_size m < 2 ^ 63"
  shows "reads (read_from lay) (header_bytes c (mem_size m) @ mem_read m 0 (unat (mem_size m)))
    \<lparr>ls_mem_size = mem_size m, ls_captured = c, ls_memory = mem_read m 0 (unat (mem_size m))\<rparr>"
proof -
  have "unat (mem_size m) < 2 ^ 63" using assms(2) by (simp add: word_less_nat_alt)
  then have "reads (rd_bind (read_exact_vec (unat (mem_size m))) (\<lambda>memory.
       rd_ok \<lparr>ls_mem_size = mem_size m, ls_captured = c, ls_memory = memory\<rparr>)) (mem_read m 0 (unat (mem_size m)))
       \<lparr>ls_mem_size = mem_size m, ls_captured = c, ls_memory = mem_read m 0 (unat (mem_size m))\<rparr>"
    by (intro reads_bind_ok reads_exact) simp_all
  from leads_trans [OF leads_header [OF assms(1)] this [unfolded reads_leads]] show ?thesis unfolding reads_leads .
qed

text \<open>C17: a snapshot or migration stream reads back as the machine that was written, and a stream cut short anywhere is
  refused with a clean error. The bytes written for a captured state and a guest memory (under 8 EiB), with anything
  after them, parse to that memory size, that captured state and those bytes of RAM, leaving what came after;
  and parsing any proper prefix of them returns the end-of-stream error: it neither panics nor
  succeeds.\<close>

theorem snapshot_stream_roundtrip:
  assumes "captured_ok lay c" and "mem_size m < 2 ^ 63" and "write_to (\<lambda>bs f. Inr (f @ bs)) c m [] = (Inr stream :: unit + bytes)"
  shows "read_from lay (stream @ rest) =
      Some (Inr (\<lparr>ls_mem_size = mem_size m, ls_captured = c, ls_memory = mem_read m 0 (unat (mem_size m))\<rparr>, rest)) \<and>
    (\<forall>k < length stream. read_from lay (take k stream) = Some (Inl Ended_early))"
proof -
  have "stream = header_bytes c (mem_size m) @ mem_read m 0 (unat (mem_size m))"
    using assms(3) by (simp add: write_to_def try_bind_def)
  with reads_stream [OF assms(1,2)] show ?thesis unfolding reads_def by blast
qed

definition demo_captured :: captured_state where
  "demo_captured = \<lparr>cs_num_cpus = 1, cs_struct = (\<lambda>k. if k = Regs then [1, 2] else []), cs_msrs = [(0x174, 7)],
     cs_serial_blob = [9], cs_pci_blob = [8, 8], cs_virtio_blobs = [[5]]\<rparr>"

theorem snapshot_stream_roundtrip_witness:
  "read_from (\<lambda>k. if k = Regs then 2 else 0) ((header_bytes demo_captured 4 @ [0, 0, 0, 0]) @ [0xff]) =
     Some (Inr (\<lparr>ls_mem_size = 4, ls_captured = demo_captured, ls_memory = [0, 0, 0, 0]\<rparr>, [0xff]))"
proof -
  have ok: "captured_ok (\<lambda>k. if k = Regs then 2 else 0) demo_captured"
    by (simp add: captured_ok_def demo_captured_def all_blobs_def)
  have "(write_to (\<lambda>bs f. Inr (f @ bs)) demo_captured (mem_new 4) [] :: unit + bytes) = Inr (header_bytes demo_captured 4 @ [0, 0, 0, 0])"
    by (simp add: write_to_def try_bind_def mem_new_def mem_read_def upt_rec)
  from snapshot_stream_roundtrip [OF ok _ this, of "[0xff]"] show ?thesis
    by (simp add: mem_new_def mem_read_def upt_rec)
qed

text \<open>a snapshot whose header claims 8 EiB of memory or more crashes the program instead of being refused. Reading a
  well-formed header with such a size panics whatever follows it, for a file given to \<open>--restore\<close> and for a
  migration stream alike, before the size is compared with the machine's.\<close>

lemma oversized_snapshot_panics:
  assumes "captured_ok lay c" and "2 ^ 63 \<le> msize"
  shows "read_from lay (header_bytes c msize @ rest) = None"
proof -
  have big: "2 ^ 63 \<le> unat msize" using assms(2) by (simp add: word_le_nat_alt)
  have "read_from lay (header_bytes c msize @ rest) =
      rd_bind (read_exact_vec (unat msize)) (\<lambda>memory. rd_ok \<lparr>ls_mem_size = msize, ls_captured = c, ls_memory = memory\<rparr>) rest"
    using leads_header [OF assms(1), of msize] by (simp add: leads_def)
  then show ?thesis using big by (simp add: rd_bind_def read_exact_vec_def)
qed

lemma oversized_snapshot_panics_example:
  "read_from (\<lambda>k. if k = Regs then 2 else 0) (header_bytes demo_captured (2 ^ 63) @ []) = None"
  by (rule oversized_snapshot_panics) (simp_all add: captured_ok_def demo_captured_def all_blobs_def)

end
