(* ===== verification/Vcpu_Dispatch.thy ===== *)
theory Vcpu_Dispatch
  imports Serial Pci_Bus Record_Replay Exit_Signal
begin

text \<open>
  What a vCPU thread does with a VM exit (\<open>src/vcpu.rs\<close>), the interrupt lines it raises (\<open>src/irq.rs\<close>), the
  state it shares with the other threads (\<open>SharedState\<close> of \<open>src/machine.rs\<close>) and the history of
  exits kept for a crash dump (\<open>src/crashdump.rs\<close>).

  The devices behind the buses are a \<open>device_table\<close>: what \<open>Device::read\<close>, \<open>write\<close>, \<open>tick\<close> and \<open>take_pending_irq\<close> of a
  handle do to the rest of the world, of an arbitrary type \<open>'w\<close> (device states, guest memory,
  exit signal). A write need not return (\<open>None\<close>). \<open>handle_exit\<close> is run under the shared lock except for
  the device call itself, so that one exit is one step; the world may change between steps.

  \<open>pulses\<close> lists the eventfd writes, \<open>msis\<close> the \<open>KVM_SIGNAL_MSI\<close> requests, \<open>irq_bugs\<close> the lines whose pulse
  found no irqfd, which the code reports as a bug of its own.
\<close>

definition DEBUG_CONSOLE_PORT :: u16 where "DEBUG_CONSOLE_PORT = 0xe9"
definition HISTORY_LEN :: nat where "HISTORY_LEN = 32"

datatype vcpu_exit = IoOut u16 bytes | IoIn u16 nat | MmioRead u64 nat | MmioWrite u64 bytes | Hlt | Shutdown | Other_exit nat

datatype exit_kind = K_IoOut | K_IoIn | K_MmioRead | K_MmioWrite | K_Hlt | K_Other

record exit_record =
  rec_kind :: exit_kind
  rec_addr :: u64

fun classify_exit :: "vcpu_exit \<Rightarrow> exit_record" where
  "classify_exit (IoOut p _) = \<lparr>rec_kind = K_IoOut, rec_addr = ucast p\<rparr>"
| "classify_exit (IoIn p _) = \<lparr>rec_kind = K_IoIn, rec_addr = ucast p\<rparr>"
| "classify_exit (MmioRead a _) = \<lparr>rec_kind = K_MmioRead, rec_addr = a\<rparr>"
| "classify_exit (MmioWrite a _) = \<lparr>rec_kind = K_MmioWrite, rec_addr = a\<rparr>"
| "classify_exit Hlt = \<lparr>rec_kind = K_Hlt, rec_addr = 0\<rparr>"
| "classify_exit _ = \<lparr>rec_kind = K_Other, rec_addr = 0\<rparr>"

definition history_push :: "exit_record list \<Rightarrow> exit_record \<Rightarrow> exit_record list" where
  "history_push h r = (if length h = HISTORY_LEN then tl h else h) @ [r]"

subsection \<open>Shared state\<close>

record 'k shared_state =
  serial_port :: serial
  extra_uarts :: "serial option list"
  mmio_bus :: bus
  io_bus :: bus
  sh_pci :: "'k pci_bus"
  plugin_pci_devices :: "(device_id \<times> u32) list"
  msi_devfns :: "(u32 \<times> u8) list"

definition msi_devfn :: "'k shared_state \<Rightarrow> u32 \<Rightarrow> u8 option" where
  "msi_devfn st irq = map_option snd (find (\<lambda>(line, _). line = irq) (msi_devfns st))"

record ('k, 'w) vm =
  shared :: "'k shared_state"
  world :: 'w
  irq_lines :: "u32 list"
  pulses :: "u32 list"
  irq_bugs :: "u32 list"
  msis :: "(u32 \<times> u32) list"
  debug_out :: bytes

record 'w device_table =
  dt_read :: "device_id \<Rightarrow> u64 \<Rightarrow> nat \<Rightarrow> 'w \<Rightarrow> bytes \<times> 'w"
  dt_write :: "device_id \<Rightarrow> u64 \<Rightarrow> bytes \<Rightarrow> 'w \<Rightarrow> (bool \<times> 'w) option"
  dt_tick :: "device_id \<Rightarrow> 'w \<Rightarrow> 'w"
  dt_take_pending_irq :: "device_id \<Rightarrow> 'w \<Rightarrow> bool \<times> 'w"

text \<open>Registering a line twice keeps the first; \<open>failure\<close> is the error of the eventfd or the ioctl, if any.\<close>

definition irq_register :: "(u32 \<Rightarrow> 'e option) \<Rightarrow> u32 list \<Rightarrow> u32 \<Rightarrow> 'e + u32 list" where
  "irq_register failure lines gsi =
     (if gsi \<in> set lines then Inr lines
      else (case failure gsi of None \<Rightarrow> Inr (lines @ [gsi]) | Some e \<Rightarrow> Inl e))"

definition irq_pulse :: "u32 \<Rightarrow> ('k, 'w) vm \<Rightarrow> ('k, 'w) vm" where
  "irq_pulse gsi v =
     (if gsi \<in> set (irq_lines v) then v\<lparr>pulses := pulses v @ [gsi]\<rparr> else v\<lparr>irq_bugs := irq_bugs v @ [gsi]\<rparr>)"

definition signal_pci_irq :: "u32 \<Rightarrow> ('k, 'w) vm \<Rightarrow> ('k, 'w) vm" where
  "signal_pci_irq irq v =
     (case msi_devfn (shared v) irq of
        None \<Rightarrow> irq_pulse irq v
      | Some devfn \<Rightarrow>
          (case msi_state (sh_pci (shared v)) devfn of
             None \<Rightarrow> irq_pulse irq v
           | Some (address, data) \<Rightarrow> v\<lparr>msis := msis v @ [(address, ucast data)]\<rparr>))"

subsection \<open>One exit\<close>

definition vcpu_find_device :: "bool \<Rightarrow> u64 \<Rightarrow> ('k, 'w) vm \<Rightarrow> (device_id \<times> u64 \<times> u32 option) option" where
  "vcpu_find_device is_mmio addr v = find_device (if is_mmio then mmio_bus (shared v) else io_bus (shared v)) addr"

text \<open>The outer option is a device write that does not return, the inner one an unmapped address.\<close>

definition dispatch_write ::
  "'w device_table \<Rightarrow> bool \<Rightarrow> u64 \<Rightarrow> bytes \<Rightarrow> ('k, 'w) vm \<Rightarrow> (u32 option option \<times> ('k, 'w) vm) option" where
  "dispatch_write dt is_mmio addr data v =
     (case vcpu_find_device is_mmio addr v of
        None \<Rightarrow> Some (None, v)
      | Some (d, off, irq) \<Rightarrow>
          (case dt_write dt d off data (world v) of
             None \<Rightarrow> None
           | Some (wants_irq, w) \<Rightarrow> Some (Some (if wants_irq then irq else None), v\<lparr>world := w\<rparr>)))"

definition dispatch_read :: "'w device_table \<Rightarrow> bool \<Rightarrow> u64 \<Rightarrow> nat \<Rightarrow> ('k, 'w) vm \<Rightarrow> bytes option \<times> ('k, 'w) vm" where
  "dispatch_read dt is_mmio addr n v =
     (case vcpu_find_device is_mmio addr v of
        None \<Rightarrow> (None, v)
      | Some (d, off, _) \<Rightarrow> (case dt_read dt d off n (world v) of (bs, w) \<Rightarrow> (Some bs, v\<lparr>world := w\<rparr>)))"

definition handle_extra_uart_out :: "nat \<Rightarrow> u32 \<Rightarrow> u16 \<Rightarrow> bytes \<Rightarrow> ('k, 'w) vm \<Rightarrow> ('k, 'w) vm" where
  "handle_extra_uart_out slot irq port data v =
     (case extra_uarts (shared v) ! slot of
        None \<Rightarrow> v
      | Some uart \<Rightarrow>
          (case handle_out uart port data of (wants_irq, uart') \<Rightarrow>
             let v = v\<lparr>shared := (shared v)\<lparr>extra_uarts := (extra_uarts (shared v))[slot := Some uart']\<rparr>\<rparr>
             in if wants_irq then irq_pulse irq v else v))"

definition handle_extra_uart_in :: "nat \<Rightarrow> u16 \<Rightarrow> nat \<Rightarrow> ('k, 'w) vm \<Rightarrow> bytes \<times> ('k, 'w) vm" where
  "handle_extra_uart_in slot port n v =
     (case extra_uarts (shared v) ! slot of
        None \<Rightarrow> (replicate n 0xff, v)
      | Some uart \<Rightarrow>
          (case handle_in uart port n of (bs, uart') \<Rightarrow>
             (bs, v\<lparr>shared := (shared v)\<lparr>extra_uarts := (extra_uarts (shared v))[slot := Some uart']\<rparr>\<rparr>)))"

datatype action = Continue bytes | Triple_fault | Unhandled_exit nat

text \<open>\<open>Continue bs\<close> carries the bytes a read returned to the guest.\<close>

definition raise_result :: "(u32 option option \<times> ('k, 'w) vm) option \<Rightarrow> (action \<times> ('k, 'w) vm) option" where
  "raise_result r =
     (case r of
        None \<Rightarrow> None
      | Some (Some (Some irq), v) \<Rightarrow> Some (Continue [], signal_pci_irq irq v)
      | Some (_, v) \<Rightarrow> Some (Continue [], v))"

fun handle_exit :: "'k kvm_ops \<Rightarrow> 'w device_table \<Rightarrow> vcpu_exit \<Rightarrow> ('k, 'w) vm \<Rightarrow> (action \<times> ('k, 'w) vm) option" where
  "handle_exit kops dt (IoOut port data) v =
     (if com_ports COM1_BASE port then
        (case handle_out (serial_port (shared v)) port data of (wants_irq, ser) \<Rightarrow>
           let v = v\<lparr>shared := (shared v)\<lparr>serial_port := ser\<rparr>\<rparr>
           in Some (Continue [], if wants_irq then irq_pulse COM1_IRQ v else v))
      else if com_ports COM2_BASE port then Some (Continue [], handle_extra_uart_out 0 COM2_IRQ port data v)
      else if com_ports COM3_BASE port then Some (Continue [], handle_extra_uart_out 1 COM3_IRQ port data v)
      else if com_ports COM4_BASE port then Some (Continue [], handle_extra_uart_out 2 COM4_IRQ port data v)
      else if port = DEBUG_CONSOLE_PORT then Some (Continue [], v\<lparr>debug_out := debug_out v @ data\<rparr>)
      else if owns_port port then
        (case io_out kops (sh_pci (shared v)) port data (mmio_bus (shared v), io_bus (shared v)) of (bus, mmio, io) \<Rightarrow>
           Some (Continue [], v\<lparr>shared := (shared v)\<lparr>sh_pci := bus, mmio_bus := mmio, io_bus := io\<rparr>\<rparr>))
      else raise_result (dispatch_write dt False (ucast port) data v))"
| "handle_exit kops dt (IoIn port n) v =
     (if com_ports COM1_BASE port then
        (case handle_in (serial_port (shared v)) port n of (bs, ser) \<Rightarrow>
           Some (Continue bs, v\<lparr>shared := (shared v)\<lparr>serial_port := ser\<rparr>\<rparr>))
      else if com_ports COM2_BASE port then (case handle_extra_uart_in 0 port n v of (bs, v') \<Rightarrow> Some (Continue bs, v'))
      else if com_ports COM3_BASE port then (case handle_extra_uart_in 1 port n v of (bs, v') \<Rightarrow> Some (Continue bs, v'))
      else if com_ports COM4_BASE port then (case handle_extra_uart_in 2 port n v of (bs, v') \<Rightarrow> Some (Continue bs, v'))
      else if owns_port port then
        (case io_in (sh_pci (shared v)) port n of (bs, bus) \<Rightarrow>
           Some (Continue bs, v\<lparr>shared := (shared v)\<lparr>sh_pci := bus\<rparr>\<rparr>))
      else
        (case dispatch_read dt False (ucast port) n v of
           (Some bs, v') \<Rightarrow> Some (Continue bs, v') | (None, v') \<Rightarrow> Some (Continue (replicate n 0xff), v')))"
| "handle_exit kops dt (MmioRead addr n) v =
     (case dispatch_read dt True addr n v of
        (Some bs, v') \<Rightarrow> Some (Continue bs, v') | (None, v') \<Rightarrow> Some (Continue (replicate n 0), v'))"
| "handle_exit kops dt (MmioWrite addr data) v = raise_result (dispatch_write dt True addr data v)"
| "handle_exit kops dt Hlt v = Some (Continue [], v)"
| "handle_exit kops dt Shutdown v = Some (Triple_fault, v)"
| "handle_exit kops dt (Other_exit e) v = Some (Unhandled_exit e, v)"

subsection \<open>Host polling\<close>

fun push_keys :: "bytes \<Rightarrow> serial \<Rightarrow> bool \<times> serial" where
  "push_keys [] s = (False, s)"
| "push_keys (b # bs) s =
     (case push_rx_byte s b of (w, s) \<Rightarrow> (case push_keys bs s of (w', s) \<Rightarrow> (w \<or> w', s)))"

definition poll_replay :: "replayer \<Rightarrow> u64 \<times> u64 \<Rightarrow> ('k, 'w) vm \<Rightarrow> replayer \<times> ('k, 'w) vm" where
  "poll_replay r now v =
     (case poll_keyboard r now of
        (None, r) \<Rightarrow> (r, v)
      | (Some bs, r) \<Rightarrow>
          (case push_keys bs (serial_port (shared v)) of (wants_irq, ser) \<Rightarrow>
             let v = v\<lparr>shared := (shared v)\<lparr>serial_port := ser\<rparr>\<rparr>
             in (r, if wants_irq then irq_pulse COM1_IRQ v else v)))"

fun tick_devices :: "'w device_table \<Rightarrow> (device_id \<times> u32) list \<Rightarrow> 'w \<Rightarrow> u32 list \<times> 'w" where
  "tick_devices dt [] w = ([], w)"
| "tick_devices dt ((d, irq) # ds) w =
     (case dt_take_pending_irq dt d (dt_tick dt d w) of (pending, w) \<Rightarrow>
        (case tick_devices dt ds w of (irqs, w) \<Rightarrow> (if pending then irq # irqs else irqs, w)))"

definition poll_plugins :: "'w device_table \<Rightarrow> ('k, 'w) vm \<Rightarrow> ('k, 'w) vm" where
  "poll_plugins dt v =
     (case tick_devices dt (plugin_pci_devices (shared v)) (world v) of (irqs, w) \<Rightarrow>
        fold signal_pci_irq irqs (v\<lparr>world := w\<rparr>))"

subsection \<open>The PCI bus keeps identities and maps only registered lines\<close>

definition identities :: "'k pci_bus \<Rightarrow> (u8 \<times> pci_identity) list" where
  "identities bus = map (\<lambda>(d, s). (d, s_identity s)) (slots bus)"

text \<open>The interrupt lines that a bus, or a PCI function that may be mapped on it, can ask for.\<close>

definition bus_lines :: "bus \<Rightarrow> u32 set" where
  "bus_lines b = {i. \<exists>r \<in> set b. region_irq r = Some i}"

definition pci_lines :: "'k pci_bus \<Rightarrow> u32 set" where
  "pci_lines bus = {i. \<exists>(d, x) \<in> set (identities bus). identity_irq x = Some i}"

lemma bus_lines_unregister: "bus_lines (unregister b d) \<subseteq> bus_lines b"
  by (auto simp: bus_lines_def unregister_def)

lemma bus_lines_register: "bus_lines (register b bs sz d irq) \<subseteq> bus_lines b \<union> set_option irq"
  by (auto simp: bus_lines_def register_def unregister_def Let_def split: option.splits if_splits)

lemma identities_put:
  "find_slot ss d = Some s \<Longrightarrow> s_identity s' = s_identity s \<Longrightarrow>
   map (\<lambda>(d, s). (d, s_identity s)) (put_slot ss d s') = map (\<lambda>(d, s). (d, s_identity s)) ss"
  by (induction ss d s' rule: put_slot.induct) (auto split: if_splits)

lemma identity_found: "find_slot (slots bus) d = Some s \<Longrightarrow> (d, s_identity s) \<in> set (identities bus)"
  by (force simp: identities_def find_slot_def dest: find_SomeD)

lemma write_bar_lines:
  assumes "write_bar kops s i v bb k = (s', bb', k')"
  shows "bus_lines (fst bb') \<union> bus_lines (snd bb') \<subseteq>
    bus_lines (fst bb) \<union> bus_lines (snd bb) \<union> set_option (identity_irq (s_identity s))"
  using assms
  by (cases bb) (auto simp: write_bar_def on_bus_def Let_def split: if_splits prod.splits
      dest!: subsetD [OF bus_lines_unregister] subsetD [OF bus_lines_register])

lemma config_write_lines:
  fixes bus :: "'k pci_bus"
  assumes "config_write kops bus off data bb = (bus', bb')"
  shows "identities bus' = identities bus \<and>
    bus_lines (fst bb') \<union> bus_lines (snd bb') \<subseteq> bus_lines (fst bb) \<union> bus_lines (snd bb) \<union> pci_lines bus"
proof (cases "decode_address bus")
  case (Some dr)
  obtain devfn reg where dr: "dr = (devfn, reg)" by (cases dr)
  show ?thesis
  proof (cases "find_slot (slots bus) devfn")
    case s: (Some s)
    have irq: "set_option (identity_irq (s_identity s)) \<subseteq> pci_lines bus"
      using identity_found [OF s] by (force simp: pci_lines_def)
    define Q where "Q = (\<lambda>(bus' :: 'k pci_bus) bb'. identities bus' = identities bus \<and>
      bus_lines (fst bb') \<union> bus_lines (snd bb') \<subseteq> bus_lines (fst bb) \<union> bus_lines (snd bb) \<union> pci_lines bus)"
    have same: "Q bus bb" by (auto simp: Q_def)
    have put: "Q (bus\<lparr>slots := put_slot (slots bus) devfn s'\<rparr>) bb" if "s_identity s' = s_identity s" for s'
      using identities_put [OF s that] by (auto simp: Q_def identities_def)
    have bar: "Q (bus\<lparr>slots := put_slot (slots bus) devfn s', pci_vm := v'\<rparr>) bb1"
      if "write_bar kops s i (of_le data) bb (pci_vm bus) = (s', bb1, v')" for i s' bb1 v'
      using write_bar_frame(1) [OF that] write_bar_lines [OF that] irq identities_put [OF s]
      unfolding Q_def identities_def by fastforce
    have "Q (fst (config_write kops bus off data bb)) (snd (config_write kops bus off data bb))"
      using Some s by (auto simp: config_write_def dr Let_def same put bar split: option.split prod.split)
    with assms show ?thesis by (simp add: Q_def)
  qed (use assms Some dr in \<open>auto simp: config_write_def\<close>)
qed (use assms in \<open>auto simp: config_write_def\<close>)

lemma io_out_lines:
  assumes "io_out kops bus port data bb = (bus', bb')"
  shows "identities bus' = identities bus \<and>
    bus_lines (fst bb') \<union> bus_lines (snd bb') \<subseteq> bus_lines (fst bb) \<union> bus_lines (snd bb) \<union> pci_lines bus"
proof (cases "config_write kops bus (port - CONFIG_DATA) data bb = (bus', bb')")
  case True
  then show ?thesis by (rule config_write_lines)
next
  case False
  with assms show ?thesis by (auto simp: io_out_def identities_def split: if_splits)
qed

lemma pci_inv_address [simp]: "pci_inv (bus\<lparr>config_address := a\<rparr>) bb \<longleftrightarrow> pci_inv bus bb"
  by (simp add: pci_inv_def)

lemma io_out_inv: "pci_inv bus bb \<Longrightarrow> io_out kops bus port data bb = (bus', bb') \<Longrightarrow> pci_inv bus' bb'"
  by (auto simp: io_out_def split: if_splits intro: config_write_inv)

lemma config_dword_identity: "config_dword s reg f = (x, s') \<Longrightarrow> s_identity s' = s_identity s"
  by (auto simp: config_dword_def Let_def split: if_splits option.splits prod.splits)

lemma io_in_keeps:
  assumes "pci_inv bus bb" and "io_in bus port n = (bs, bus')"
  shows "pci_inv bus' bb \<and> identities bus' = identities bus"
proof (cases "bus' = bus")
  case False
  with assms(2) obtain devfn reg s x s' f where s: "find_slot (slots bus) devfn = Some s" "config_dword s reg f = (x, s')"
    and b: "bus' = bus\<lparr>slots := put_slot (slots bus) devfn s'\<rparr>"
    by (auto simp: io_in_def config_read_def Let_def split: if_splits option.splits prod.splits)
  have "slot_ok s'" using config_dword_slot_ok [OF s(2)] find_slot_all [of slot_ok, OF _ s(1)] assms(1) by (simp add: pci_inv_def)
  moreover have "identities bus' = identities bus"
    using identities_put [OF s(1) config_dword_identity [OF s(2)]] by (simp add: b identities_def)
  ultimately show ?thesis using assms(1) put_slot_all [of slot_ok] by (simp add: b pci_inv_def)
qed (use assms in simp)

subsection \<open>The invariant of a running machine\<close>

text \<open>Every line that anything can raise has an irqfd.\<close>

definition uart_irqs :: "u32 list" where
  "uart_irqs = [COM2_IRQ, COM3_IRQ, COM4_IRQ]"

definition vm_inv :: "('k, 'w) vm \<Rightarrow> bool" where
  "vm_inv v \<longleftrightarrow> pci_inv (sh_pci (shared v)) (mmio_bus (shared v), io_bus (shared v)) \<and>
     length (extra_uarts (shared v)) = 3 \<and> COM1_IRQ \<in> set (irq_lines v) \<and>
     (\<forall>i < 3. extra_uarts (shared v) ! i \<noteq> None \<longrightarrow> uart_irqs ! i \<in> set (irq_lines v)) \<and>
     bus_lines (mmio_bus (shared v)) \<union> bus_lines (io_bus (shared v)) \<union> pci_lines (sh_pci (shared v)) \<union>
       snd ` set (plugin_pci_devices (shared v)) \<subseteq> set (irq_lines v)"

text \<open>What no step changes, and the invariant.\<close>

definition vm_step_ok :: "('k, 'w) vm \<Rightarrow> ('k, 'w) vm \<Rightarrow> bool" where
  "vm_step_ok v v' \<longleftrightarrow> vm_inv v' \<and> irq_bugs v' = irq_bugs v \<and> irq_lines v' = irq_lines v \<and>
     identities (sh_pci (shared v')) = identities (sh_pci (shared v)) \<and>
     plugin_pci_devices (shared v') = plugin_pci_devices (shared v)"

lemma vm_step_ok_refl: "vm_inv v \<Longrightarrow> vm_step_ok v v"
  by (simp add: vm_step_ok_def)

lemma vm_step_ok_trans: "vm_step_ok v v1 \<Longrightarrow> vm_step_ok v1 v2 \<Longrightarrow> vm_step_ok v v2"
  by (simp add: vm_step_ok_def)

lemma vm_step_ok_world: "vm_inv v \<Longrightarrow> vm_step_ok v (v\<lparr>world := w\<rparr>)"
  by (simp add: vm_step_ok_def vm_inv_def)

lemma vm_step_ok_debug: "vm_inv v \<Longrightarrow> vm_step_ok v (v\<lparr>debug_out := x\<rparr>)"
  by (simp add: vm_step_ok_def vm_inv_def)

lemma vm_step_ok_serial: "vm_inv v \<Longrightarrow> vm_step_ok v (v\<lparr>shared := (shared v)\<lparr>serial_port := x\<rparr>\<rparr>)"
  by (simp add: vm_step_ok_def vm_inv_def)

lemma irq_pulse_ok: "vm_inv v \<Longrightarrow> irq \<in> set (irq_lines v) \<Longrightarrow> vm_step_ok v (irq_pulse irq v)"
  by (simp add: vm_step_ok_def vm_inv_def irq_pulse_def)

lemma signal_pci_irq_ok: "vm_inv v \<Longrightarrow> irq \<in> set (irq_lines v) \<Longrightarrow> vm_step_ok v (signal_pci_irq irq v)"
proof -
  assume v: "vm_inv v" "irq \<in> set (irq_lines v)"
  have "vm_step_ok v (v\<lparr>msis := x\<rparr>)" for x using v(1) by (simp add: vm_step_ok_def vm_inv_def)
  with irq_pulse_ok [OF v] show ?thesis by (auto simp: signal_pci_irq_def split: option.split)
qed

lemma found_line:
  assumes "vm_inv v" and "vcpu_find_device is_mmio addr v = Some (d, off, Some irq)"
  shows "irq \<in> set (irq_lines v)"
proof -
  from assms(2) obtain r where "r \<in> set (if is_mmio then mmio_bus (shared v) else io_bus (shared v))" "region_irq r = Some irq"
    unfolding vcpu_find_device_def by (metis find_device_SomeE)
  then have "irq \<in> bus_lines (mmio_bus (shared v)) \<union> bus_lines (io_bus (shared v))" by (auto simp: bus_lines_def split: if_splits)
  with assms(1) show ?thesis by (auto simp: vm_inv_def)
qed

lemma raise_write_ok:
  assumes "vm_inv v" and "raise_result (dispatch_write dt is_mmio addr data v) = Some (act, v')"
  shows "vm_step_ok v v'"
proof (cases "vcpu_find_device is_mmio addr v")
  case None
  with assms show ?thesis by (simp add: raise_result_def dispatch_write_def vm_step_ok_refl)
next
  case (Some x)
  then obtain d off irq b w where x: "vcpu_find_device is_mmio addr v = Some (d, off, irq)"
    and w: "dt_write dt d off data (world v) = Some (b, w)"
    using assms(2) by (cases x) (auto simp: raise_result_def dispatch_write_def split: option.splits)
  have ok: "vm_step_ok v (v\<lparr>world := w\<rparr>)" by (rule vm_step_ok_world [OF assms(1)])
  then have inv: "vm_inv (v\<lparr>world := w\<rparr>)" by (simp add: vm_step_ok_def)
  show ?thesis
  proof (cases "b \<and> irq \<noteq> None")
    case True
    then obtain i where i: "irq = Some i" by auto
    from found_line [OF assms(1)] x i have "i \<in> set (irq_lines (v\<lparr>world := w\<rparr>))" by simp
    then have "vm_step_ok v (signal_pci_irq i (v\<lparr>world := w\<rparr>))"
      using vm_step_ok_trans [OF ok signal_pci_irq_ok [OF inv]] by simp
    with assms(2) x w True i show ?thesis by (simp add: raise_result_def dispatch_write_def)
  next
    case False
    with assms(2) x w ok show ?thesis by (auto simp: raise_result_def dispatch_write_def split: option.splits if_splits)
  qed
qed

lemma dispatch_read_ok: "vm_inv v \<Longrightarrow> dispatch_read dt is_mmio addr n v = (r, v') \<Longrightarrow> vm_step_ok v v'"
  by (auto simp: dispatch_read_def vm_step_ok_refl vm_step_ok_world split: option.splits prod.splits)

lemma vm_step_ok_uart:
  "vm_inv v \<Longrightarrow> i < 3 \<Longrightarrow> extra_uarts (shared v) ! i \<noteq> None \<Longrightarrow>
   vm_step_ok v (v\<lparr>shared := (shared v)\<lparr>extra_uarts := (extra_uarts (shared v))[i := Some x]\<rparr>\<rparr>)"
  by (auto simp: vm_step_ok_def vm_inv_def nth_list_update)

lemma extra_uart_out_ok:
  assumes "vm_inv v" and "i < 3" and "irq = uart_irqs ! i"
  shows "vm_step_ok v (handle_extra_uart_out i irq port data v)"
proof (cases "extra_uarts (shared v) ! i")
  case (Some u)
  obtain b u' where h: "handle_out u port data = (b, u')" by (cases "handle_out u port data")
  let ?v = "v\<lparr>shared := (shared v)\<lparr>extra_uarts := (extra_uarts (shared v))[i := Some u']\<rparr>\<rparr>"
  have ok: "vm_step_ok v ?v" using vm_step_ok_uart [OF assms(1,2)] Some by simp
  moreover have "irq \<in> set (irq_lines ?v)" using assms Some by (simp add: vm_inv_def)
  ultimately have "vm_step_ok v (irq_pulse irq ?v)" using irq_pulse_ok [of ?v] vm_step_ok_trans by (auto simp: vm_step_ok_def)
  with ok h Some show ?thesis by (simp add: handle_extra_uart_out_def Let_def)
qed (simp add: handle_extra_uart_out_def vm_step_ok_refl assms(1))

lemma extra_uart_in_ok:
  assumes "vm_inv v" and "i < 3" and "handle_extra_uart_in i port n v = (bs, v')"
  shows "vm_step_ok v v'"
  using assms vm_step_ok_uart [OF assms(1,2)]
  by (auto simp: handle_extra_uart_in_def vm_step_ok_refl split: option.splits prod.splits)

lemma vm_step_ok_pci:
  assumes "vm_inv v" and "pci_inv bus (mmio, io)" and "identities bus = identities (sh_pci (shared v))"
    and "bus_lines mmio \<union> bus_lines io \<subseteq>
      bus_lines (mmio_bus (shared v)) \<union> bus_lines (io_bus (shared v)) \<union> pci_lines (sh_pci (shared v))"
  shows "vm_step_ok v (v\<lparr>shared := (shared v)\<lparr>sh_pci := bus, mmio_bus := mmio, io_bus := io\<rparr>\<rparr>)"
proof -
  have "pci_lines bus = pci_lines (sh_pci (shared v))" using assms(3) by (simp add: pci_lines_def)
  with assms show ?thesis unfolding vm_step_ok_def vm_inv_def by simp blast
qed

lemma pci_out_ok:
  assumes "vm_inv v" and "io_out kops (sh_pci (shared v)) port data (mmio_bus (shared v), io_bus (shared v)) = (bus, mmio, io)"
  shows "vm_step_ok v (v\<lparr>shared := (shared v)\<lparr>sh_pci := bus, mmio_bus := mmio, io_bus := io\<rparr>\<rparr>)"
  using io_out_lines [OF assms(2)] io_out_inv [OF _ assms(2)] assms(1)
  by (intro vm_step_ok_pci) (auto simp: vm_inv_def)

lemma pci_in_ok:
  assumes "vm_inv v" and "io_in (sh_pci (shared v)) port n = (bs, bus)"
  shows "vm_step_ok v (v\<lparr>shared := (shared v)\<lparr>sh_pci := bus\<rparr>\<rparr>)"
  using io_in_keeps [OF _ assms(2), of "(mmio_bus (shared v), io_bus (shared v))"] assms(1)
  by (auto simp: vm_step_ok_def vm_inv_def pci_lines_def)

lemma serial_pulse_ok:
  assumes "vm_inv v"
  shows "vm_step_ok v (irq_pulse COM1_IRQ (v\<lparr>shared := (shared v)\<lparr>serial_port := x\<rparr>\<rparr>))"
proof -
  let ?v = "v\<lparr>shared := (shared v)\<lparr>serial_port := x\<rparr>\<rparr>"
  have ok: "vm_step_ok v ?v" by (rule vm_step_ok_serial [OF assms])
  then have "vm_step_ok ?v (irq_pulse COM1_IRQ ?v)"
    using assms by (intro irq_pulse_ok) (auto simp: vm_step_ok_def vm_inv_def)
  with ok show ?thesis by (rule vm_step_ok_trans)
qed

lemma uart_out_oks:
  assumes "vm_inv v"
  shows "vm_step_ok v (handle_extra_uart_out 0 COM2_IRQ port data v)" "vm_step_ok v (handle_extra_uart_out (Suc 0) COM3_IRQ port data v)"
    "vm_step_ok v (handle_extra_uart_out 2 COM4_IRQ port data v)"
  using assms by (intro extra_uart_out_ok; simp add: uart_irqs_def)+

lemma handle_exit_ok:
  assumes "vm_inv v" and "handle_exit kops dt e v = Some (act, v')"
  shows "vm_step_ok v v'"
proof (cases e)
  case (IoOut port data)
  show ?thesis
    using assms(2) pci_out_ok [OF assms(1)] raise_write_ok [OF assms(1)]
    by (auto simp: IoOut Let_def serial_pulse_ok [OF assms(1)] uart_out_oks [OF assms(1)] vm_step_ok_debug [OF assms(1)]
        vm_step_ok_serial [OF assms(1)] split: if_splits prod.splits)
next
  case (IoIn port n)
  then show ?thesis
    using assms(2) vm_step_ok_serial [OF assms(1)] extra_uart_in_ok [OF assms(1), of 0] extra_uart_in_ok [OF assms(1), of "Suc 0"]
      extra_uart_in_ok [OF assms(1), of 2] pci_in_ok [OF assms(1)] dispatch_read_ok [OF assms(1)]
    by (auto split: if_splits prod.splits option.splits)
next
  case (MmioRead addr n)
  then show ?thesis using assms(2) dispatch_read_ok [OF assms(1)] by (auto split: prod.splits option.splits)
next
  case (MmioWrite addr data)
  then show ?thesis using assms(2) raise_write_ok [OF assms(1)] by simp
qed (use assms vm_step_ok_refl in auto)

lemma poll_replay_ok:
  assumes "vm_inv v" and "poll_replay r now v = (r', v')"
  shows "vm_step_ok v v'"
  using assms
  by (auto simp: poll_replay_def Let_def serial_pulse_ok [OF assms(1)] vm_step_ok_serial [OF assms(1)] vm_step_ok_refl
      split: prod.splits option.splits if_splits)

lemma fold_signal_ok: "vm_inv v \<Longrightarrow> set irqs \<subseteq> set (irq_lines v) \<Longrightarrow> vm_step_ok v (fold signal_pci_irq irqs v)"
proof (induction irqs arbitrary: v)
  case (Cons i irqs)
  then have 1: "vm_step_ok v (signal_pci_irq i v)" by (simp add: signal_pci_irq_ok)
  moreover from 1 Cons have "vm_step_ok (signal_pci_irq i v) (fold signal_pci_irq irqs (signal_pci_irq i v))"
    by (simp add: vm_step_ok_def)
  ultimately show ?case by (simp add: vm_step_ok_trans)
qed (simp add: vm_step_ok_refl)

lemma tick_devices_irqs: "tick_devices dt ds w = (irqs, w') \<Longrightarrow> set irqs \<subseteq> snd ` set ds"
  by (induction dt ds w arbitrary: irqs w' rule: tick_devices.induct) (fastforce split: prod.splits if_splits)+

lemma poll_plugins_ok:
  assumes "vm_inv v"
  shows "vm_step_ok v (poll_plugins dt v)"
proof -
  obtain irqs w where t: "tick_devices dt (plugin_pci_devices (shared v)) (world v) = (irqs, w)" by (metis prod.collapse)
  have ok: "vm_step_ok v (v\<lparr>world := w\<rparr>)" by (rule vm_step_ok_world [OF assms])
  have "set irqs \<subseteq> set (irq_lines (v\<lparr>world := w\<rparr>))" using tick_devices_irqs [OF t] assms by (force simp: vm_inv_def)
  then have "vm_step_ok (v\<lparr>world := w\<rparr>) (fold signal_pci_irq irqs (v\<lparr>world := w\<rparr>))"
    using ok by (intro fold_signal_ok) (auto simp: vm_step_ok_def)
  with ok t show ?thesis by (simp add: poll_plugins_def vm_step_ok_trans)
qed

subsection \<open>Runs\<close>

text \<open>Steps of any vCPU, the boot processor's polling, and the rest of the world (other threads, the
  kernel) acting on devices and memory between them. The replayer is any.\<close>

inductive vm_run :: "'k kvm_ops \<Rightarrow> 'w device_table \<Rightarrow> ('k, 'w) vm \<Rightarrow> ('k, 'w) vm \<Rightarrow> bool" for kops dt where
  start: "vm_run kops dt v v"
| exit: "vm_run kops dt v v1 \<Longrightarrow> handle_exit kops dt e v1 = Some (act, v2) \<Longrightarrow> vm_run kops dt v v2"
| replay: "vm_run kops dt v v1 \<Longrightarrow> poll_replay r now v1 = (r', v2) \<Longrightarrow> vm_run kops dt v v2"
| plugins: "vm_run kops dt v v1 \<Longrightarrow> vm_run kops dt v (poll_plugins dt v1)"
| outside: "vm_run kops dt v v1 \<Longrightarrow> vm_run kops dt v (v1\<lparr>world := w\<rparr>)"

lemma vm_run_ok: "vm_run kops dt v v' \<Longrightarrow> vm_inv v \<Longrightarrow> vm_step_ok v v'"
proof (induction rule: vm_run.induct)
  case (start v)
  then show ?case by (rule vm_step_ok_refl)
next
  case (exit v v1 e act v2)
  then have "vm_step_ok v v1" by simp
  moreover from this have "vm_step_ok v1 v2" using exit by (intro handle_exit_ok) (auto simp: vm_step_ok_def)
  ultimately show ?case by (rule vm_step_ok_trans)
next
  case (replay v v1 r now r' v2)
  then have "vm_step_ok v v1" by simp
  moreover from this have "vm_step_ok v1 v2" using replay by (intro poll_replay_ok) (auto simp: vm_step_ok_def)
  ultimately show ?case by (rule vm_step_ok_trans)
next
  case (plugins v v1)
  then have "vm_step_ok v v1" by simp
  moreover from this have "vm_step_ok v1 (poll_plugins dt v1)" by (intro poll_plugins_ok) (auto simp: vm_step_ok_def)
  ultimately show ?case by (rule vm_step_ok_trans)
next
  case (outside v v1 w)
  then have "vm_step_ok v v1" by simp
  moreover from this have "vm_step_ok v1 (v1\<lparr>world := w\<rparr>)" by (intro vm_step_ok_world) (auto simp: vm_step_ok_def)
  ultimately show ?case by (rule vm_step_ok_trans)
qed

text \<open>The crash history is the last exits in order.\<close>

lemma history_last:
  "foldl history_push [] rs = drop (length rs - HISTORY_LEN) rs"
proof (induction rs rule: rev_induct)
  case (snoc r rs)
  have "drop (length rs - 31) rs = tl (drop (length rs - 32) rs)" if "32 \<le> length rs"
  proof -
    have "length rs - 31 = Suc (length rs - 32)" using that by simp
    then show ?thesis by (simp only: drop_Suc tl_drop)
  qed
  with snoc show ?case by (cases "length rs < HISTORY_LEN") (auto simp: history_push_def HISTORY_LEN_def)
qed simp

subsection \<open>Shared lines\<close>


text \<open>Two plugins on line 5, each asking for an interrupt on every write; the first has enabled MSI.\<close>

definition demo_vm :: "(unit, unit) vm" where
  "demo_vm = \<lparr>shared = \<lparr>serial_port = serial_new, extra_uarts = [None, None, None],
       mmio_bus = [\<lparr>base = 0xe0000000, last_addr = 0xe0000fff, device = 0, region_irq = Some 5\<rparr>,
         \<lparr>base = 0xe0001000, last_addr = 0xe0001fff, device = 1, region_irq = Some 5\<rparr>],
       io_bus = [], sh_pci = \<lparr>slots = [(0x08, demo_slot\<lparr>s_msi := \<lparr>msi_enabled = True, msi_address = 0xfee00000, msi_data = 0x41\<rparr>\<rparr>),
         (0x10, demo_slot)], config_address = 0, pci_vm = None\<rparr>, plugin_pci_devices = [(0, 5), (1, 5)], msi_devfns = [(5, 0x08), (5, 0x10)]\<rparr>,
     world = (), irq_lines = [5], pulses = [], irq_bugs = [], msis = [], debug_out = []\<rparr>"

definition demo_table :: "unit device_table" where
  "demo_table = \<lparr>dt_read = (\<lambda>_ _ n w. (replicate n 0, w)), dt_write = (\<lambda>_ _ _ w. Some (True, w)), dt_tick = (\<lambda>_ w. w),
     dt_take_pending_irq = (\<lambda>_ w. (False, w))\<rparr>"


end
