(* ===== verification/Plugin_Device.thy ===== *)
theory Plugin_Device
  imports Guest_Memory Device_Bus Pci_Bus
begin

text \<open>
  Device plugins: what untrusted plugin code can do to the guest and what the machine does with it.

  The transport-independent device of \<open>src/plugin.rs\<close> is over a record of functions, the trait
  \<open>PluginTransport\<close>. The sandboxed transport of \<open>src/pydevice_proc.rs\<close> is modelled down to its pipe: frames, the reader
  thread that serves memory callbacks, requests with time-outs, the fault latch. The child process is
  any byte stream. The callbacks of in-process and native plugins (\<open>src/pydevice.rs\<close>, \<open>src/native_plugin.rs\<close>) and those of
  WebAssembly plugins (\<open>src/wasm_plugin.rs\<close>) are modelled as well; Python, \<open>dlopen\<close> and wasmtime are not.

  Error texts are constructors; a reply that carries one is \<open>Reply_err\<close>.
\<close>

subsection \<open>Frames\<close>

definition MSG_IDENTITY :: u8 where "MSG_IDENTITY = 1"
definition MSG_READ :: u8 where "MSG_READ = 2"
definition MSG_WRITE :: u8 where "MSG_WRITE = 3"
definition MSG_HAS_TICK :: u8 where "MSG_HAS_TICK = 4"
definition MSG_TICK :: u8 where "MSG_TICK = 5"
definition MSG_SHUTDOWN :: u8 where "MSG_SHUTDOWN = 6"
definition MSG_HAS_RESET :: u8 where "MSG_HAS_RESET = 7"
definition MSG_RESET :: u8 where "MSG_RESET = 8"
definition MSG_OK :: u8 where "MSG_OK = 0x80"
definition MSG_OK_BYTES :: u8 where "MSG_OK_BYTES = 0x81"
definition MSG_OK_BOOL :: u8 where "MSG_OK_BOOL = 0x82"
definition MSG_OK_IDENTITY :: u8 where "MSG_OK_IDENTITY = 0x83"
definition MSG_ERR :: u8 where "MSG_ERR = 0xFF"
definition MSG_CB_READ_MEM :: u8 where "MSG_CB_READ_MEM = 0x90"
definition MSG_CB_WRITE_MEM :: u8 where "MSG_CB_WRITE_MEM = 0x91"
definition MSG_CB_RAISE_IRQ :: u8 where "MSG_CB_RAISE_IRQ = 0x92"
definition MAX_FRAME_LEN :: u32 where "MAX_FRAME_LEN = 64 * 1024 * 1024"

lemmas msg_defs = MSG_OK_def MSG_OK_BYTES_def MSG_OK_BOOL_def MSG_ERR_def MSG_CB_READ_MEM_def MSG_CB_WRITE_MEM_def
  MSG_CB_RAISE_IRQ_def

type_synonym frame = "u8 \<times> bytes"

definition write_frame :: "u8 \<Rightarrow> bytes \<Rightarrow> bytes" where
  "write_frame ty payload = le32 (of_nat (length payload + 1)) @ [ty] @ payload"

text \<open>\<open>None\<close> is the end of the stream or a frame that is refused; what follows it is never read.\<close>

definition read_frame :: "bytes \<Rightarrow> (frame \<times> bytes) option" where
  "read_frame s =
     (if length s < 4 then None
      else
        let len = of_le (take 4 s) :: u32; s = drop 4 s in
        if len = 0 \<or> MAX_FRAME_LEN < len then None
        else if length s < unat len then None
        else let body = take (unat len) s in Some ((hd body, tl body), drop (unat len) s))"

subsection \<open>Memory callbacks\<close>

datatype plugin_msg =
    Malformed_read | Malformed_write | Outside_dma u64 nat | Outside_memory u64 nat
  | Faulted | Stdin_failed | No_response | Exited | Wrong_length nat nat | Child_error bytes | Unexpected_reply u8
  | Exceeds_scratch nat | Trapped string | Scratch_unreadable | Scratch_unwritable

datatype plugin_reply = Reply_bytes bytes | Reply_ok | Reply_err plugin_msg

type_synonym dma_range = "(u64 \<times> u64) option"

definition handle_read_mem :: "dma_range \<Rightarrow> guest_memory \<Rightarrow> bytes \<Rightarrow> plugin_reply" where
  "handle_read_mem rng m payload =
     (if length payload < 12 then Reply_err Malformed_read
      else
        let addr = of_le (subslice payload 0 8) :: u64; sz = unat (of_le (subslice payload 8 4) :: u32) in
        if \<not> dma_range_allows rng addr (of_nat sz) then Reply_err (Outside_dma addr sz)
        else if \<not> in_bounds m addr (of_nat sz) then Reply_err (Outside_memory addr sz)
        else Reply_bytes (case read_checked m addr sz of None \<Rightarrow> replicate sz 0 | Some bs \<Rightarrow> bs))"

definition handle_write_mem :: "dma_range \<Rightarrow> guest_memory \<Rightarrow> bytes \<Rightarrow> plugin_reply \<times> guest_memory" where
  "handle_write_mem rng m payload =
     (if length payload < 8 then (Reply_err Malformed_write, m)
      else
        let addr = of_le (subslice payload 0 8) :: u64; data = drop 8 payload in
        if \<not> dma_range_allows rng addr (of_nat (length data)) then (Reply_err (Outside_dma addr (length data)), m)
        else
          (case write_checked m addr data of (ok, m') \<Rightarrow>
             (if ok then Reply_ok else Reply_err (Outside_memory addr (length data)), m')))"

text \<open>\<open>HyperbugCtx::read_mem\<close>, \<open>write_mem\<close> and the C callbacks: an exception or \<open>-1\<close> is \<open>None\<close> and \<open>False\<close>.\<close>

definition host_read_mem :: "dma_range \<Rightarrow> guest_memory \<Rightarrow> u64 \<Rightarrow> u64 \<Rightarrow> bytes option" where
  "host_read_mem rng m addr sz =
     (if \<not> dma_range_allows rng addr sz then None
      else if \<not> in_bounds m addr sz then None
      else read_checked m addr (unat sz))"

definition host_write_mem :: "dma_range \<Rightarrow> guest_memory \<Rightarrow> u64 \<Rightarrow> bytes \<Rightarrow> bool \<times> guest_memory" where
  "host_write_mem rng m addr data =
     (if \<not> dma_range_allows rng addr (of_nat (length data)) then (False, m) else write_checked m addr data)"

text \<open>
  The WebAssembly imports take 32-bit sizes and sign-extend them. Allocating more than
  \<open>isize::MAX\<close> bytes panics: the outer \<open>None\<close>. \<open>lin\<close> is the module's linear memory, once the
  host knows it.
\<close>

definition host_vec :: "u64 \<Rightarrow> bytes option" where
  "host_vec sz = (if 2 ^ 63 \<le> unat sz then None else Some (replicate (unat sz) 0))"

definition wasm_read_mem :: "dma_range \<Rightarrow> guest_memory \<Rightarrow> bytes option \<Rightarrow> u64 \<Rightarrow> u32 \<Rightarrow> u32 \<Rightarrow> (int \<times> bytes option) option" where
  "wasm_read_mem rng m lin addr buf_ptr sz =
     (let sz = scast sz :: u64 in
      if \<not> dma_range_allows rng addr sz then Some (-1, lin)
      else
        (case lin of
           None \<Rightarrow> Some (-1, lin)
         | Some l \<Rightarrow>
             (case host_vec sz of
                None \<Rightarrow> None
              | Some buf \<Rightarrow>
                  if \<not> in_bounds m addr sz then Some (-1, lin)
                  else
                    let buf = (case read_checked m addr (unat sz) of None \<Rightarrow> buf | Some bs \<Rightarrow> bs);
                        at = unat (scast buf_ptr :: u64)
                    in if length l < at + length buf then Some (-1, lin)
                       else Some (0, Some (take at l @ buf @ drop (at + length buf) l)))))"

definition wasm_write_mem :: "dma_range \<Rightarrow> guest_memory \<Rightarrow> bytes option \<Rightarrow> u64 \<Rightarrow> u32 \<Rightarrow> u32 \<Rightarrow> (int \<times> guest_memory) option" where
  "wasm_write_mem rng m lin addr buf_ptr sz =
     (let sz = scast sz :: u64 in
      if \<not> dma_range_allows rng addr sz then Some (-1, m)
      else
        (case lin of
           None \<Rightarrow> Some (-1, m)
         | Some l \<Rightarrow>
             (case host_vec sz of
                None \<Rightarrow> None
              | Some buf \<Rightarrow>
                  let at = unat (scast buf_ptr :: u64) in
                  if length l < at + unat sz then Some (-1, m)
                  else (case write_checked m addr (subslice l at (unat sz)) of (ok, m') \<Rightarrow> Some (if ok then 0 else -1, m')))))"

subsection \<open>The reader thread\<close>

record reader_state =
  rd_mem :: guest_memory
  rd_irq :: bool
  rd_answers :: "plugin_reply list"
  rd_replies :: "frame list"

definition serve_frame :: "dma_range \<Rightarrow> frame \<Rightarrow> reader_state \<Rightarrow> reader_state" where
  "serve_frame rng fr s =
     (case fr of (ty, payload) \<Rightarrow>
        if ty = MSG_CB_RAISE_IRQ then s\<lparr>rd_irq := True\<rparr>
        else if ty = MSG_CB_READ_MEM then s\<lparr>rd_answers := rd_answers s @ [handle_read_mem rng (rd_mem s) payload]\<rparr>
        else if ty = MSG_CB_WRITE_MEM then
          (case handle_write_mem rng (rd_mem s) payload of (r, m) \<Rightarrow> s\<lparr>rd_mem := m, rd_answers := rd_answers s @ [r]\<rparr>)
        else s\<lparr>rd_replies := rd_replies s @ [(ty, payload)]\<rparr>)"

function reader_loop :: "dma_range \<Rightarrow> bytes \<Rightarrow> reader_state \<Rightarrow> reader_state" where
  "reader_loop rng str s =
     (case read_frame str of None \<Rightarrow> s | Some (fr, rest) \<Rightarrow> reader_loop rng rest (serve_frame rng fr s))"
  by pat_completeness auto

termination
  by (relation "measure (\<lambda>(rng, str, s). length str)") (auto simp: read_frame_def Let_def split: if_splits)

declare reader_loop.simps [simp del]

subsection \<open>The device\<close>

record plugin_identity =
  pi_vendor_id :: u16
  pi_device_id :: u16
  pi_class_code :: u32
  pi_bar_sizes :: "u32 list"
  pi_bar_is_io :: "bool list"
  pi_interrupt_line :: u8
  pi_msi_capable :: bool

definition identity_default :: plugin_identity where
  "identity_default = \<lparr>pi_vendor_id = 0, pi_device_id = 0, pi_class_code = 0, pi_bar_sizes = replicate NUM_BARS 0,
     pi_bar_is_io = replicate NUM_BARS False, pi_interrupt_line = 0, pi_msi_capable = False\<rparr>"

definition parse_sandboxed_reply :: "bytes \<Rightarrow> plugin_identity" where
  "parse_sandboxed_reply payload =
     (let header_len = 1 + 2 + 2 + 4 + NUM_BARS * 4 + 1 + 1 + 1 in
      if payload = [] \<or> hd payload \<noteq> 1 \<or> length payload < header_len then identity_default
      else
        let io_mask = payload ! (9 + NUM_BARS * 4)
        in \<lparr>pi_vendor_id = of_le (subslice payload 1 2), pi_device_id = of_le (subslice payload 3 2),
            pi_class_code = of_le (subslice payload 5 4),
            pi_bar_sizes = map (\<lambda>i. of_le (subslice payload (9 + i * 4) 4)) [0..<NUM_BARS],
            pi_bar_is_io = map (\<lambda>i. io_mask AND push_bit i 1 \<noteq> 0) [0..<NUM_BARS],
            pi_interrupt_line = payload ! (9 + NUM_BARS * 4 + 1),
            pi_msi_capable = (payload ! (9 + NUM_BARS * 4 + 2) \<noteq> 0)\<rparr>)"

text \<open>
  \<open>call_read\<close> is given the zeroed buffer and returns it as the plugin left it. \<open>irq_flag\<close> and
  \<open>clear_irq_flag\<close> are the \<open>AtomicBool\<close> that a device shares with its transport, which sets it whenever the
  plugin raises an interrupt.
\<close>

record 't transport_ops =
  call_read :: "u64 \<Rightarrow> bytes \<Rightarrow> 't \<Rightarrow> (plugin_msg option \<times> bytes) \<times> 't"
  call_write :: "u64 \<Rightarrow> bytes \<Rightarrow> 't \<Rightarrow> (plugin_msg + bool) \<times> 't"
  call_tick :: "'t \<Rightarrow> plugin_msg option \<times> 't"
  has_tick :: "'t \<Rightarrow> bool"
  call_reset :: "'t \<Rightarrow> plugin_msg option \<times> 't"
  has_reset :: "'t \<Rightarrow> bool"
  irq_flag :: "'t \<Rightarrow> bool"
  clear_irq_flag :: "'t \<Rightarrow> 't"

record 't scripted_device =
  sd_transport :: 't
  sd_identity :: plugin_identity
  sd_read_errors :: u64
  sd_write_errors :: u64
  sd_tick_errors :: u64
  sd_reset_errors :: u64

definition scripted_new :: "'t \<Rightarrow> plugin_identity \<Rightarrow> 't scripted_device" where
  "scripted_new t i = \<lparr>sd_transport = t, sd_identity = i, sd_read_errors = 0, sd_write_errors = 0,
     sd_tick_errors = 0, sd_reset_errors = 0\<rparr>"

text \<open>The new count, and whether this occurrence is logged.\<close>

definition rate_limited_log :: "u64 \<Rightarrow> bool \<times> u64" where
  "rate_limited_log count = (let count = count + 1 in (count \<le> 5 \<or> count mod 1000 = 0, count))"

definition scripted_reload :: "'t scripted_device \<Rightarrow> 't scripted_device \<Rightarrow> 't scripted_device" where
  "scripted_reload fresh d = d\<lparr>sd_transport := sd_transport fresh, sd_identity := sd_identity fresh,
     sd_read_errors := 0, sd_write_errors := 0, sd_tick_errors := 0, sd_reset_errors := 0\<rparr>"

definition scripted_read :: "'t transport_ops \<Rightarrow> u64 \<Rightarrow> nat \<Rightarrow> 't scripted_device \<Rightarrow> bytes \<times> 't scripted_device" where
  "scripted_read ops off n d =
     (case call_read ops off (replicate n 0) (sd_transport d) of ((err, data), t) \<Rightarrow>
        let d = d\<lparr>sd_transport := t\<rparr> in
        (data, if err = None then d else d\<lparr>sd_read_errors := snd (rate_limited_log (sd_read_errors d))\<rparr>))"

definition scripted_write :: "'t transport_ops \<Rightarrow> u64 \<Rightarrow> bytes \<Rightarrow> 't scripted_device \<Rightarrow> bool \<times> 't scripted_device" where
  "scripted_write ops off data d =
     (case call_write ops off data (sd_transport d) of
        (Inr wants_irq, t) \<Rightarrow> (wants_irq, d\<lparr>sd_transport := t\<rparr>)
      | (Inl e, t) \<Rightarrow> (False, d\<lparr>sd_transport := t, sd_write_errors := snd (rate_limited_log (sd_write_errors d))\<rparr>))"

definition scripted_take_pending_irq :: "'t transport_ops \<Rightarrow> 't scripted_device \<Rightarrow> bool \<times> 't scripted_device" where
  "scripted_take_pending_irq ops d =
     (irq_flag ops (sd_transport d), d\<lparr>sd_transport := clear_irq_flag ops (sd_transport d)\<rparr>)"

definition scripted_tick :: "'t transport_ops \<Rightarrow> 't scripted_device \<Rightarrow> 't scripted_device" where
  "scripted_tick ops d =
     (if \<not> has_tick ops (sd_transport d) then d
      else
        (case call_tick ops (sd_transport d) of (err, t) \<Rightarrow>
           let d = d\<lparr>sd_transport := t\<rparr> in
           if err = None then d else d\<lparr>sd_tick_errors := snd (rate_limited_log (sd_tick_errors d))\<rparr>))"

definition scripted_reset :: "'t transport_ops \<Rightarrow> 't scripted_device \<Rightarrow> 't scripted_device" where
  "scripted_reset ops d =
     (if \<not> has_reset ops (sd_transport d) then d
      else
        (case call_reset ops (sd_transport d) of (err, t) \<Rightarrow>
           let d = d\<lparr>sd_transport := t\<rparr> in
           if err = None then d else d\<lparr>sd_reset_errors := snd (rate_limited_log (sd_reset_errors d))\<rparr>))"

text \<open>The answers of \<open>impl PciDevice for ScriptedDevice\<close>.\<close>

definition scripted_pci :: "plugin_identity \<Rightarrow> pci_device" where
  "scripted_pci i = \<lparr>dev_identity = \<lparr>id_vendor_id = pi_vendor_id i, id_device_id = pi_device_id i, id_subsystem_vendor_id = 0,
       id_subsystem_device_id = 0, id_class_code = pi_class_code i, id_revision_id = 0,
       id_interrupt_line = pi_interrupt_line i, id_interrupt_pin = 1, id_msi_capable = pi_msi_capable i, id_extra_caps = []\<rparr>,
     dev_bar_sizes = pi_bar_sizes i,
     dev_bar_is_io = (\<lambda>n. if n < length (pi_bar_is_io i) then pi_bar_is_io i ! n else False), dev_ioevent_entries = []\<rparr>"

subsection \<open>The sandboxed transport\<close>

text \<open>What the child does with the \<open>n\<close>-th request: whether its input pipe takes it, and what comes back.\<close>

datatype recv = Recv frame | Recv_timeout | Recv_disconnected

type_synonym child = "nat \<Rightarrow> bool \<times> recv"

record sandbox =
  sb_faulted :: bool
  sb_killed :: bool
  sb_sent :: "frame list"
  sb_calls :: nat
  sb_has_tick :: bool
  sb_has_reset :: bool
  sb_irq :: bool

definition sandbox_fault :: "sandbox \<Rightarrow> sandbox" where
  "sandbox_fault s = (if \<not> sb_faulted s then s\<lparr>sb_faulted := True, sb_killed := True\<rparr> else s)"

definition sandbox_call :: "child \<Rightarrow> u8 \<Rightarrow> bytes \<Rightarrow> sandbox \<Rightarrow> (plugin_msg + frame) \<times> sandbox" where
  "sandbox_call child ty payload s =
     (if sb_faulted s then (Inl Faulted, s)
      else
        (case child (sb_calls s) of (written, r) \<Rightarrow>
           let s = s\<lparr>sb_calls := Suc (sb_calls s)\<rparr> in
           if \<not> written then (Inl Stdin_failed, sandbox_fault s)
           else
             let s = s\<lparr>sb_sent := sb_sent s @ [(ty, payload)]\<rparr> in
             (case r of
                Recv fr \<Rightarrow> (Inr fr, s)
              | Recv_timeout \<Rightarrow> (Inl No_response, sandbox_fault s)
              | Recv_disconnected \<Rightarrow> (Inl Exited, sandbox_fault s))))"

definition sandbox_read :: "child \<Rightarrow> u64 \<Rightarrow> bytes \<Rightarrow> sandbox \<Rightarrow> (plugin_msg option \<times> bytes) \<times> sandbox" where
  "sandbox_read child off data s =
     (case sandbox_call child MSG_READ (le64 off @ le32 (of_nat (length data))) s of
        (Inl e, s) \<Rightarrow> ((Some e, data), s)
      | (Inr (ty, reply), s) \<Rightarrow>
          if ty = MSG_OK_BYTES then
            (if length reply \<noteq> length data then ((Some (Wrong_length (length reply) (length data)), data), s)
             else ((None, reply), s))
          else if ty = MSG_ERR then ((Some (Child_error reply), data), s)
          else ((Some (Unexpected_reply ty), data), s))"

definition sandbox_write :: "child \<Rightarrow> u64 \<Rightarrow> bytes \<Rightarrow> sandbox \<Rightarrow> (plugin_msg + bool) \<times> sandbox" where
  "sandbox_write child off data s =
     (case sandbox_call child MSG_WRITE (le64 off @ data) s of
        (Inl e, s) \<Rightarrow> (Inl e, s)
      | (Inr (ty, reply), s) \<Rightarrow>
          if ty = MSG_OK_BOOL then (Inr (reply \<noteq> [] \<and> hd reply \<noteq> 0), s)
          else if ty = MSG_ERR then (Inl (Child_error reply), s)
          else (Inl (Unexpected_reply ty), s))"

definition sandbox_simple :: "child \<Rightarrow> u8 \<Rightarrow> sandbox \<Rightarrow> plugin_msg option \<times> sandbox" where
  "sandbox_simple child req s =
     (case sandbox_call child req [] s of
        (Inl e, s) \<Rightarrow> (Some e, s)
      | (Inr (ty, reply), s) \<Rightarrow>
          if ty = MSG_OK then (None, s)
          else if ty = MSG_ERR then (Some (Child_error reply), s)
          else (Some (Unexpected_reply ty), s))"

definition sandbox_tick :: "child \<Rightarrow> sandbox \<Rightarrow> plugin_msg option \<times> sandbox" where
  "sandbox_tick child s = (if \<not> sb_has_tick s then (None, s) else sandbox_simple child MSG_TICK s)"

definition sandbox_reset :: "child \<Rightarrow> sandbox \<Rightarrow> plugin_msg option \<times> sandbox" where
  "sandbox_reset child s = (if \<not> sb_has_reset s then (None, s) else sandbox_simple child MSG_RESET s)"

definition sandbox_ops :: "child \<Rightarrow> sandbox transport_ops" where
  "sandbox_ops child = \<lparr>call_read = sandbox_read child, call_write = sandbox_write child, call_tick = sandbox_tick child,
     has_tick = sb_has_tick, call_reset = sandbox_reset child, has_reset = sb_has_reset,
     irq_flag = sb_irq, clear_irq_flag = (\<lambda>s. s\<lparr>sb_irq := False\<rparr>)\<rparr>"

text \<open>The end of \<open>spawn\<close>: the load reply, then identity, \<open>HAS_TICK\<close> and \<open>HAS_RESET\<close>.\<close>

definition sandbox_flag :: "child \<Rightarrow> u8 \<Rightarrow> sandbox \<Rightarrow> (plugin_msg + bool) \<times> sandbox" where
  "sandbox_flag child req s =
     (case sandbox_call child req [] s of
        (Inl e, s) \<Rightarrow> (Inl e, s)
      | (Inr (ty, reply), s) \<Rightarrow> (Inr (ty = MSG_OK_BOOL \<and> reply \<noteq> [] \<and> hd reply = 1), s))"

definition sandbox_spawn :: "child \<Rightarrow> recv \<Rightarrow> bool \<Rightarrow> plugin_msg + sandbox \<times> plugin_identity" where
  "sandbox_spawn child loaded want_pci =
     (let s = \<lparr>sb_faulted = False, sb_killed = False, sb_sent = [], sb_calls = 0, sb_has_tick = False, sb_has_reset = False,
        sb_irq = False\<rparr> in
      case loaded of
        Recv_timeout \<Rightarrow> Inl No_response
      | Recv_disconnected \<Rightarrow> Inl No_response
      | Recv (ty, payload) \<Rightarrow>
          if ty = MSG_ERR then Inl (Child_error payload)
          else if ty \<noteq> MSG_OK then Inl (Unexpected_reply ty)
          else
            (case (if want_pci then
                     (case sandbox_call child MSG_IDENTITY [] s of
                        (Inl e, s) \<Rightarrow> Inl e
                      | (Inr (ty, reply), s) \<Rightarrow> Inr (if ty = MSG_OK_IDENTITY then parse_sandboxed_reply reply else identity_default, s))
                   else Inr (identity_default, s)) of
               Inl e \<Rightarrow> Inl e
             | Inr (i, s) \<Rightarrow>
                 (case sandbox_flag child MSG_HAS_TICK s of
                    (Inl e, s) \<Rightarrow> Inl e
                  | (Inr tick, s) \<Rightarrow>
                      (case sandbox_flag child MSG_HAS_RESET (s\<lparr>sb_has_tick := tick\<rparr>) of
                         (Inl e, s) \<Rightarrow> Inl e
                       | (Inr rst, s) \<Rightarrow> Inr (s\<lparr>sb_has_reset := rst\<rparr>, i)))))"

subsection \<open>Confinement\<close>

definition dma_set :: "dma_range \<Rightarrow> nat set" where
  "dma_set rng = (case rng of None \<Rightarrow> UNIV | Some (bs, sz) \<Rightarrow> {unat bs ..< unat bs + unat sz})"

definition agree :: "nat set \<Rightarrow> guest_memory \<Rightarrow> guest_memory \<Rightarrow> bool" where
  "agree S m m' \<longleftrightarrow> mem_size m' = mem_size m \<and> (\<forall>i \<in> S. mem_bytes m' i = mem_bytes m i)"

lemma dma_allows_span: "dma_range_allows rng addr len \<Longrightarrow> span addr (unat len) \<subseteq> dma_set rng"
  by (cases rng) (auto simp: dma_set_def span_def dma_range_allows_exact)

lemma agree_in_bounds: "agree S m m' \<Longrightarrow> in_bounds m' addr len = in_bounds m addr len"
  by (simp add: agree_def in_bounds_iff)

lemma agree_read: "agree S m m' \<Longrightarrow> span addr n \<subseteq> S \<Longrightarrow> read_checked m' addr n = read_checked m addr n"
  by (auto simp: agree_def read_checked_eq span_def mem_read_def)

lemma agree_write:
  "agree S m m' \<Longrightarrow> fst (write_checked m' addr data) = fst (write_checked m addr data) \<and>
    agree S (snd (write_checked m addr data)) (snd (write_checked m' addr data))"
  by (auto simp: agree_def write_checked_eq mem_bytes_write)

text \<open>
  The contract of a memory port given to a plugin: it writes only what it may, and what it answers and
  writes depends on nothing else.
\<close>

locale dma_port =
  fixes allowed :: "nat set" and rd :: "guest_memory \<Rightarrow> 'q \<Rightarrow> 'a" and wr :: "guest_memory \<Rightarrow> 'w \<Rightarrow> 'a \<times> guest_memory"
  assumes wr_inside: "same_outside allowed m (snd (wr m x))"
    and rd_local: "agree allowed m m' \<Longrightarrow> rd m' q = rd m q"
    and wr_local: "agree allowed m m' \<Longrightarrow> fst (wr m' x) = fst (wr m x) \<and> agree allowed (snd (wr m x)) (snd (wr m' x))"
begin

text \<open>A plugin chooses its next access from the answers it has had.\<close>

primrec port_run :: "('a list \<Rightarrow> 'q + 'w) \<Rightarrow> nat \<Rightarrow> guest_memory \<Rightarrow> 'a list \<times> guest_memory" where
  "port_run prog 0 m = ([], m)"
| "port_run prog (Suc n) m =
     (case port_run prog n m of (h, m1) \<Rightarrow>
        (case prog h of
           Inl q \<Rightarrow> (h @ [rd m1 q], m1)
         | Inr x \<Rightarrow> (h @ [fst (wr m1 x)], snd (wr m1 x))))"

lemma port_run_confined: "same_outside allowed m (snd (port_run prog n m))"
  by (induction n) (auto split: prod.split sum.split intro: same_outside_step wr_inside)

lemma port_run_noninterference:
  assumes "agree allowed m m'"
  shows "fst (port_run prog n m') = fst (port_run prog n m) \<and> agree allowed (snd (port_run prog n m)) (snd (port_run prog n m'))"
  using assms
proof (induction n)
  case (Suc n)
  obtain h m1 where r: "port_run prog n m = (h, m1)" by (cases "port_run prog n m")
  with Suc obtain m1' where r': "port_run prog n m' = (h, m1')" and a: "agree allowed m1 m1'"
    by (cases "port_run prog n m'") simp
  show ?case using rd_local [OF a] wr_local [OF a] a by (simp add: r r' split: sum.split)
qed simp

end

lemma host_write_mem_inside: "same_outside (dma_set rng) m (snd (host_write_mem rng m addr data))"
proof (cases "dma_range_allows rng addr (of_nat (length data)) \<and> length data < 2 ^ 64")
  case True
  then have "span addr (length data) \<subseteq> dma_set rng" using dma_allows_span [of rng addr "of_nat (length data)"] by (simp add: unat_of_nat)
  then show ?thesis using same_outside_write_checked [of addr data m] True by (auto simp: host_write_mem_def intro: same_outside_mono)
next
  case False
  moreover have "\<not> unat addr + length data \<le> unat (mem_size m)" if "\<not> length data < 2 ^ 64"
    using that unat_lt_pow [of "mem_size m"] by simp
  ultimately show ?thesis by (auto simp: host_write_mem_def write_checked_eq)
qed

lemma host_write_mem_local:
  "agree (dma_set rng) m m' \<Longrightarrow> fst (host_write_mem rng m' addr data) = fst (host_write_mem rng m addr data) \<and>
    agree (dma_set rng) (snd (host_write_mem rng m addr data)) (snd (host_write_mem rng m' addr data))"
  using agree_write [of "dma_set rng" m m'] by (simp add: host_write_mem_def)

lemma host_read_mem_local:
  "agree (dma_set rng) m m' \<Longrightarrow> host_read_mem rng m' addr sz = host_read_mem rng m addr sz"
  using agree_read [of "dma_set rng" m m' addr "unat sz"] dma_allows_span [of rng addr sz] agree_in_bounds [of "dma_set rng" m m']
  by (simp add: host_read_mem_def)

text \<open>The pipe's callbacks are the host callbacks behind a decoder.\<close>

lemma handle_write_mem_host:
  "handle_write_mem rng m payload =
     (if length payload < 8 then (Reply_err Malformed_write, m)
      else
        let a = of_le (subslice payload 0 8); n = length (drop 8 payload); r = host_write_mem rng m a (drop 8 payload)
        in (if \<not> dma_range_allows rng a (of_nat n) then Reply_err (Outside_dma a n)
            else if fst r then Reply_ok else Reply_err (Outside_memory a n), snd r))"
  by (auto simp: handle_write_mem_def host_write_mem_def Let_def split: prod.split)

lemma handle_write_mem_inside: "same_outside (dma_set rng) m (snd (handle_write_mem rng m payload))"
  by (simp add: handle_write_mem_host Let_def host_write_mem_inside)

lemma handle_write_mem_local:
  "agree (dma_set rng) m m' \<Longrightarrow> fst (handle_write_mem rng m' payload) = fst (handle_write_mem rng m payload) \<and>
    agree (dma_set rng) (snd (handle_write_mem rng m payload)) (snd (handle_write_mem rng m' payload))"
  using host_write_mem_local [of rng m m'] by (simp add: handle_write_mem_host Let_def)

lemma handle_read_mem_local: "agree (dma_set rng) m m' \<Longrightarrow> handle_read_mem rng m' payload = handle_read_mem rng m payload"
proof -
  assume a: "agree (dma_set rng) m m'"
  let ?n = "of_le (subslice payload 8 4) :: u32" and ?a = "of_le (subslice payload 0 8) :: u64"
  have u: "unat (of_nat (unat ?n) :: u64) = unat ?n" by (simp add: unat_simps)
  have "read_checked m' ?a (unat ?n) = read_checked m ?a (unat ?n)" if "dma_range_allows rng ?a (of_nat (unat ?n))"
    using agree_read [OF a] dma_allows_span [OF that] unfolding u by blast
  then show ?thesis using agree_in_bounds [OF a] by (auto simp: handle_read_mem_def Let_def)
qed

interpretation sandbox_port: dma_port "dma_set rng" "handle_read_mem rng" "handle_write_mem rng" for rng
  by unfold_locales (auto simp: handle_write_mem_inside handle_read_mem_local handle_write_mem_local)

text \<open>In-process and native plugins reach memory through the same contract.\<close>

interpretation host_port: dma_port "dma_set rng" "\<lambda>m (a, n). host_read_mem rng m a n"
    "\<lambda>m (a, bs). (if fst (host_write_mem rng m a bs) then Some [] else None, snd (host_write_mem rng m a bs))" for rng
  by unfold_locales (auto simp: host_write_mem_inside host_read_mem_local host_write_mem_local)

subsection \<open>The reader serves any stream within the contract\<close>

lemma serve_frame_confined: "same_outside (dma_set rng) (rd_mem s) (rd_mem (serve_frame rng fr s))"
  using handle_write_mem_inside [of rng "rd_mem s"] by (auto simp: serve_frame_def split: prod.split) (metis snd_conv)

definition same_view :: "nat set \<Rightarrow> reader_state \<Rightarrow> reader_state \<Rightarrow> bool" where
  "same_view S s s' \<longleftrightarrow> agree S (rd_mem s) (rd_mem s') \<and> rd_irq s' = rd_irq s \<and> rd_answers s' = rd_answers s \<and> rd_replies s' = rd_replies s"

lemma serve_frame_view:
  assumes "same_view (dma_set rng) s s'"
  shows "same_view (dma_set rng) (serve_frame rng fr s) (serve_frame rng fr s')"
proof -
  obtain ty payload where fr: "fr = (ty, payload)" by (cases fr)
  have a: "agree (dma_set rng) (rd_mem s) (rd_mem s')" using assms by (simp add: same_view_def)
  note rd = handle_read_mem_local [OF a, of payload] and wr = handle_write_mem_local [OF a, of payload]
  show ?thesis
    using assms rd wr
    by (cases "handle_write_mem rng (rd_mem s) payload"; cases "handle_write_mem rng (rd_mem s') payload")
      (simp add: serve_frame_def fr same_view_def)
qed

lemma reader_loop_confined: "same_outside (dma_set rng) (rd_mem s) (rd_mem (reader_loop rng str s))"
proof (induction rng str s rule: reader_loop.induct)
  case (1 rng str s)
  show ?case
  proof (cases "read_frame str")
    case (Some x)
    then obtain fr rest where x: "read_frame str = Some (fr, rest)" by (cases x) auto
    from same_outside_step [OF serve_frame_confined 1 [OF x refl]] x show ?thesis by (simp add: reader_loop.simps [of rng str])
  qed (simp add: reader_loop.simps)
qed

lemma reader_loop_view:
  "same_view (dma_set rng) s s' \<Longrightarrow> same_view (dma_set rng) (reader_loop rng str s) (reader_loop rng str s')"
proof (induction rng str s arbitrary: s' rule: reader_loop.induct)
  case (1 rng str s)
  show ?case
  proof (cases "read_frame str")
    case (Some x)
    then obtain fr rest where x: "read_frame str = Some (fr, rest)" by (cases x) auto
    from 1(1) [OF x refl serve_frame_view [OF 1(2)]] x show ?thesis by (simp add: reader_loop.simps [of rng str])
  qed (use 1(2) in \<open>simp add: reader_loop.simps\<close>)
qed

subsection \<open>Faults\<close>

datatype device_op = D_read u64 nat | D_write u64 bytes | D_tick | D_reset

text \<open>What the rest of the machine sees of one operation: the bytes read and whether an interrupt is asked for.\<close>

fun device_step :: "'t transport_ops \<Rightarrow> device_op \<Rightarrow> 't scripted_device \<Rightarrow> (bytes \<times> bool) \<times> 't scripted_device" where
  "device_step ops (D_read off n) d = (case scripted_read ops off n d of (bs, d') \<Rightarrow> ((bs, False), d'))"
| "device_step ops (D_write off data) d = (case scripted_write ops off data d of (irq, d') \<Rightarrow> (([], irq), d'))"
| "device_step ops D_tick d = (([], False), scripted_tick ops d)"
| "device_step ops D_reset d = (([], False), scripted_reset ops d)"

fun device_run :: "'t transport_ops \<Rightarrow> device_op list \<Rightarrow> 't scripted_device \<Rightarrow> (bytes \<times> bool) list \<times> 't scripted_device" where
  "device_run ops [] d = ([], d)"
| "device_run ops (x # xs) d =
     (case device_step ops x d of (r, d1) \<Rightarrow> (case device_run ops xs d1 of (rs, d2) \<Rightarrow> (r # rs, d2)))"

fun inert :: "device_op \<Rightarrow> bytes \<times> bool" where
  "inert (D_read off n) = (replicate n 0, False)"
| "inert _ = ([], False)"

lemma faulted_call: "sb_faulted s \<Longrightarrow> sandbox_call child ty payload s = (Inl Faulted, s)"
  by (simp add: sandbox_call_def)

lemma faulted_step:
  assumes "sb_faulted (sd_transport d)"
  shows "\<exists>d'. device_step (sandbox_ops child) x d = (inert x, d') \<and> sd_transport d' = sd_transport d"
  using assms
  by (cases x) (auto simp: sandbox_ops_def scripted_read_def scripted_write_def scripted_tick_def scripted_reset_def Let_def
      sandbox_read_def sandbox_write_def sandbox_tick_def sandbox_reset_def sandbox_simple_def faulted_call)

lemma call_faults:
  assumes "\<not> sb_faulted s" and "child (sb_calls s) = (written, r)"
  shows "sb_faulted (snd (sandbox_call child ty payload s)) \<longleftrightarrow> \<not> (written \<and> (\<exists>fr. r = Recv fr))"
    and "sb_killed (snd (sandbox_call child ty payload s)) \<longleftrightarrow> sb_killed s \<or> \<not> (written \<and> (\<exists>fr. r = Recv fr))"
  using assms by (auto simp: sandbox_call_def sandbox_fault_def Let_def split: recv.split)

subsection \<open>Properties\<close>

text \<open>C34: A sandboxed plugin is confined to its declared DMA range whatever bytes its process writes into the pipe,
  malformed frames included: guest memory outside the range is unchanged, and everything the
  plugin is told depends only on guest memory inside it.\<close>

theorem plugin_dma_confined:
  fixes str :: bytes
  assumes "agree (dma_set rng) m m'"
  shows "same_outside (dma_set rng) m (rd_mem (reader_loop rng str (\<lparr>rd_mem = m, rd_irq = b, rd_answers = [], rd_replies = []\<rparr>))) \<and>
    rd_answers (reader_loop rng str \<lparr>rd_mem = m', rd_irq = b, rd_answers = [], rd_replies = []\<rparr>) =
      rd_answers (reader_loop rng str \<lparr>rd_mem = m, rd_irq = b, rd_answers = [], rd_replies = []\<rparr>) \<and>
    agree (dma_set rng) (rd_mem (reader_loop rng str \<lparr>rd_mem = m, rd_irq = b, rd_answers = [], rd_replies = []\<rparr>))
      (rd_mem (reader_loop rng str \<lparr>rd_mem = m', rd_irq = b, rd_answers = [], rd_replies = []\<rparr>))"
proof -
  let ?s = "\<lambda>m. \<lparr>rd_mem = m, rd_irq = b, rd_answers = [], rd_replies = []\<rparr>"
  have "same_view (dma_set rng) (?s m) (?s m')" using assms by (simp add: same_view_def)
  from reader_loop_view [OF this, of str] reader_loop_confined [of rng "?s m" str] show ?thesis by (simp add: same_view_def)
qed

theorem plugin_dma_confined_witness:
  "mem_bytes (rd_mem (reader_loop (Some (0x100, 0x10))
     (write_frame MSG_CB_WRITE_MEM (le64 0x200 @ [1, 2]) @ write_frame MSG_CB_WRITE_MEM (le64 0x104 @ [9]))
     \<lparr>rd_mem = mem_new 0x1000, rd_irq = False, rd_answers = [], rd_replies = []\<rparr>)) 0x200 = 0"
proof -
  have "agree (dma_set (Some (0x100, 0x10))) (mem_new 0x1000) (mem_new 0x1000)" by (simp add: agree_def)
  from plugin_dma_confined [OF this, of "write_frame MSG_CB_WRITE_MEM (le64 0x200 @ [1, 2]) @ write_frame MSG_CB_WRITE_MEM (le64 0x104 @ [9])" False]
  show ?thesis by (simp add: same_outside_def dma_set_def mem_new_def)
qed

text \<open>Frames round-trip through the pipe, whatever follows them, up to the size limit of the reader.\<close>

lemma frame_roundtrip:
  assumes "length payload + 1 \<le> unat MAX_FRAME_LEN"
  shows "read_frame (write_frame ty payload @ rest) = Some ((ty, payload), rest)"
proof -
  define w where "w = (of_nat (length payload + 1) :: u32)"
  have "length payload + 1 < 2 ^ 32" using assms by (simp add: MAX_FRAME_LEN_def)
  then have u: "unat w = length payload + 1" unfolding w_def by (simp only: unat_of_nat) simp
  then have "w \<noteq> 0" "\<not> MAX_FRAME_LEN < w" using assms by (auto simp: word_less_nat_alt)
  moreover have "write_frame ty payload = le32 w @ ty # payload" by (simp add: write_frame_def w_def)
  ultimately show ?thesis using u by (simp add: read_frame_def Let_def)
qed

text \<open>C36: Time-outs fail closed: when the child does not answer a request it is killed, and from then on the
  device is inert: every read returns zeros, no write asks for an interrupt, and nothing
  is sent to the child any more.\<close>

theorem sandbox_fails_closed:
  assumes "\<not> sb_faulted s" and "snd (child (sb_calls s)) = Recv_timeout" and "sandbox_call child ty payload s = (r, s')"
    and "device_run (sandbox_ops child) xs (scripted_new s' i) = (rs, d)"
  shows "sb_killed s' \<and> (\<exists>e. r = Inl e) \<and> rs = map inert xs \<and> sd_transport d = s'"
proof -
  obtain written x where c: "child (sb_calls s) = (written, x)" by (cases "child (sb_calls s)")
  have f: "sb_faulted s'" "sb_killed s'" using call_faults [where child = child and s = s and ty = ty and payload = payload, OF assms(1) c] assms(2,3) c by auto
  have e: "\<exists>e. r = Inl e" using assms(1-3) c by (auto simp: sandbox_call_def Let_def split: if_splits)
  have "rs = map inert xs \<and> sd_transport d = s'" if "device_run (sandbox_ops child) xs d0 = (rs, d)" "sd_transport d0 = s'" for xs d0 rs
    using that
  proof (induction xs arbitrary: d0 rs)
    case (Cons x xs)
    obtain d1 where "device_step (sandbox_ops child) x d0 = (inert x, d1)" "sd_transport d1 = s'"
      using faulted_step [of d0 child x] f(1) Cons.prems(2) by auto
    with Cons show ?case by (auto split: prod.splits)
  qed simp
  from this [OF assms(4)] f(2) e show ?thesis by (simp add: scripted_new_def)
qed

theorem sandbox_fails_closed_witness:
  "\<exists>r s' d. sandbox_call (\<lambda>_. (True, Recv_timeout)) MSG_READ [] \<lparr>sb_faulted = False, sb_killed = False, sb_sent = [], sb_calls = 0,
      sb_has_tick = True, sb_has_reset = False, sb_irq = False\<rparr> = (r, s') \<and>
    device_run (sandbox_ops (\<lambda>_. (True, Recv_timeout))) [D_read 0 4, D_tick] (scripted_new s' identity_default) =
      ([([0, 0, 0, 0], False), ([], False)], d) \<and> sb_killed s'"
proof -
  let ?s = "\<lparr>sb_faulted = False, sb_killed = False, sb_sent = [], sb_calls = 0, sb_has_tick = True, sb_has_reset = False, sb_irq = False\<rparr>"
  obtain r s' where c: "sandbox_call (\<lambda>_. (True, Recv_timeout)) MSG_READ [] ?s = (r, s')" by (metis prod.collapse)
  obtain rs d where x: "device_run (sandbox_ops (\<lambda>_. (True, Recv_timeout))) [D_read 0 4, D_tick] (scripted_new s' identity_default) = (rs, d)"
    by (metis prod.collapse)
  show ?thesis using sandbox_fails_closed [OF _ _ c x] c x by (auto simp: eval_nat_numeral)
qed

text \<open>A WebAssembly plugin without a DMA range can bring the machine down: a read of a negative size is
  sign-extended, passes the range check and is allocated before the bounds check, which panics.\<close>

lemma wasm_negative_size_panics:
  assumes "(2 :: nat) ^ 31 \<le> unat sz"
  shows "wasm_read_mem None m (Some lin) addr buf_ptr sz = None \<and> wasm_write_mem None m (Some lin) addr buf_ptr sz = None"
proof -
  have "unat sz div 2 ^ 31 = 1" using assms unat_lt_pow [of sz] by (intro div_nat_eqI) simp_all
  then have "bit (unat sz) 31" by (simp add: bit_iff_odd)
  then have "bit sz 31" by (simp add: bit_unsigned_iff)
  then have "bit (scast sz :: u64) 63" by (simp add: bit_simps)
  then have "bit (unat (scast sz :: u64)) 63" by (simp add: bit_unsigned_iff)
  then have "odd (unat (scast sz :: u64) div 2 ^ 63)" by (rule bit_iff_odd [THEN iffD1])
  then have "2 ^ 63 \<le> unat (scast sz :: u64)" using div_less [of "unat (scast sz :: u64)" "2 ^ 63"] by (metis even_zero not_le)
  then show ?thesis by (simp add: wasm_read_mem_def wasm_write_mem_def host_vec_def dma_range_allows_def Let_def)
qed

lemma wasm_negative_size_panics_example:
  "wasm_read_mem None (mem_new 0x1000) (Some []) 0 0 0xffffffff = None"
  using wasm_negative_size_panics [of "0xffffffff" "mem_new 0x1000" "[]" 0 0] by simp

end
