(* ===== verification/Plugin_Transports.thy ===== *)
theory Plugin_Transports
  imports Plugin_Device Virtio_I2c Virtio_Gpio
begin

text \<open>
  Plugins inside the process: Python (\<open>src/pydevice.rs\<close>), native libraries (\<open>src/native_plugin.rs\<close>) and WebAssembly
  modules (\<open>src/wasm_plugin.rs\<close>). The foreign code is a parameter: a program that answers or asks the host
  for a callback and goes on with what the callback answered. CPython, \<open>dlopen\<close> and wasmtime appear
  as what their calls return: an export that may be missing, an attribute that may not convert, a trap.

  A panic of the host inside a callback ends the thread; it is a latch of the transport, after which
  nothing of the plugin runs.
\<close>

subsection \<open>Foreign code\<close>

text \<open>A callback that answers \<open>None\<close> has panicked.\<close>

datatype ('q, 'a, 'r) foreign = Finish 'r | Ask 'q "'a \<Rightarrow> ('q, 'a, 'r) foreign"

primrec run_foreign :: "('q \<Rightarrow> 'h \<Rightarrow> 'a option \<times> 'h) \<Rightarrow> ('q, 'a, 'r) foreign \<Rightarrow> 'h \<Rightarrow> 'r option \<times> 'h" where
  "run_foreign h (Finish r) = (\<lambda>s. (Some r, s))"
| "run_foreign h (Ask q k) = (\<lambda>s. case h q s of (None, s') \<Rightarrow> (None, s') | (Some a, s') \<Rightarrow> run_foreign h (k a) s')"

text \<open>What every context given to a plugin shares with the machine.\<close>

record plugin_host =
  ph_mem :: guest_memory
  ph_irq_pending :: bool

datatype host_call = Read_mem u64 u64 | Write_mem u64 bytes | Raise_irq

text \<open>\<open>HyperbugCtx\<close> and the C callback table; a write answers \<open>Some []\<close> or \<open>None\<close>.\<close>

fun host_serve :: "dma_range \<Rightarrow> host_call \<Rightarrow> plugin_host \<Rightarrow> bytes option option \<times> plugin_host" where
  "host_serve rng (Read_mem addr sz) s = (Some (host_read_mem rng (ph_mem s) addr sz), s)"
| "host_serve rng (Write_mem addr data) s =
     (case host_write_mem rng (ph_mem s) addr data of (ok, m) \<Rightarrow> (Some (if ok then Some [] else None), s\<lparr>ph_mem := m\<rparr>))"
| "host_serve rng Raise_irq s = (Some None, s\<lparr>ph_irq_pending := True\<rparr>)"

type_synonym 'r abi_prog = "(host_call, bytes option, 'r) foreign"

definition run_abi :: "dma_range \<Rightarrow> 'r abi_prog \<Rightarrow> plugin_host \<Rightarrow> 'r \<times> plugin_host" where
  "run_abi rng p s = (case run_foreign (host_serve rng) p s of (r, s') \<Rightarrow> (the r, s'))"

text \<open>The import functions of a module, which brings its linear memory along.\<close>

datatype wasm_call = W_read_mem bytes u64 u32 u32 | W_write_mem bytes u64 u32 u32 | W_raise_irq bytes

fun wasm_serve :: "dma_range \<Rightarrow> bool \<Rightarrow> wasm_call \<Rightarrow> plugin_host \<Rightarrow> (int \<times> bytes) option \<times> plugin_host" where
  "wasm_serve rng known (W_read_mem lin addr buf_ptr sz) s =
     (case wasm_read_mem rng (ph_mem s) (if known then Some lin else None) addr buf_ptr sz of
        None \<Rightarrow> (None, s)
      | Some (code, l) \<Rightarrow> (Some (code, case l of None \<Rightarrow> lin | Some l \<Rightarrow> l), s))"
| "wasm_serve rng known (W_write_mem lin addr buf_ptr sz) s =
     (case wasm_write_mem rng (ph_mem s) (if known then Some lin else None) addr buf_ptr sz of
        None \<Rightarrow> (None, s)
      | Some (code, m) \<Rightarrow> (Some (code, lin), s\<lparr>ph_mem := m\<rparr>))"
| "wasm_serve rng known (W_raise_irq lin) s = (Some (0, lin), s\<lparr>ph_irq_pending := True\<rparr>)"

subsection \<open>Versions\<close>

definition PLUGIN_API_VERSION :: u32 where "PLUGIN_API_VERSION = 1"
definition PLUGIN_API_MIN_SUPPORTED :: u32 where "PLUGIN_API_MIN_SUPPORTED = 1"

datatype load_error =
    Unreadable string | Nul_byte string | Not_instantiable string | Open_failed string | Missing_export string
  | Unsupported_version int | Bad_attribute string | Export_trapped string | Identity_unreadable | Zero_lines
  | Names_mismatch nat u16 | Panicked

subsection \<open>Native libraries\<close>

text \<open>\<open>'s\<close> is the opaque state behind the pointer that \<open>hyperbug_plugin_create\<close> returns.\<close>

record c_pci_identity =
  c_vendor_id :: u16
  c_device_id :: u16
  c_class_code :: u32
  c_bar_sizes :: "u32 list"
  c_io_bars_mask :: u8
  c_interrupt_line :: u8
  c_msi_capable :: u8

record 's native_lib =
  nl_abi_version :: "u32 option"
  nl_create :: "'s abi_prog option"
  nl_destroy :: "('s \<Rightarrow> unit abi_prog) option"
  nl_read :: "('s \<Rightarrow> u64 \<Rightarrow> bytes \<Rightarrow> (bytes \<times> 's) abi_prog) option"
  nl_write :: "('s \<Rightarrow> u64 \<Rightarrow> bytes \<Rightarrow> (u32 \<times> 's) abi_prog) option"
  nl_tick :: "('s \<Rightarrow> 's abi_prog) option"
  nl_reset :: "('s \<Rightarrow> 's abi_prog) option"
  nl_pci_identity :: "('s \<Rightarrow> (u32 \<times> c_pci_identity \<times> 's) abi_prog) option"

record 's native_transport =
  nt_state :: 's
  nt_read_fn :: "'s \<Rightarrow> u64 \<Rightarrow> bytes \<Rightarrow> (bytes \<times> 's) abi_prog"
  nt_write_fn :: "'s \<Rightarrow> u64 \<Rightarrow> bytes \<Rightarrow> (u32 \<times> 's) abi_prog"
  nt_tick_fn :: "('s \<Rightarrow> 's abi_prog) option"
  nt_reset_fn :: "('s \<Rightarrow> 's abi_prog) option"
  nt_dma_range :: dma_range
  nt_host :: plugin_host

definition native_run :: "'r abi_prog \<Rightarrow> 's native_transport \<Rightarrow> 'r \<times> 's native_transport" where
  "native_run p t = (case run_abi (nt_dma_range t) p (nt_host t) of (r, h) \<Rightarrow> (r, t\<lparr>nt_host := h\<rparr>))"

definition native_call_read :: "u64 \<Rightarrow> bytes \<Rightarrow> 's native_transport \<Rightarrow> (plugin_msg option \<times> bytes) \<times> 's native_transport" where
  "native_call_read off data t =
     (case native_run (nt_read_fn t (nt_state t) off data) t of ((bs, s), t) \<Rightarrow> ((None, bs), t\<lparr>nt_state := s\<rparr>))"

definition native_call_write :: "u64 \<Rightarrow> bytes \<Rightarrow> 's native_transport \<Rightarrow> (plugin_msg + bool) \<times> 's native_transport" where
  "native_call_write off data t =
     (case native_run (nt_write_fn t (nt_state t) off data) t of ((wants_irq, s), t) \<Rightarrow> (Inr (wants_irq \<noteq> 0), t\<lparr>nt_state := s\<rparr>))"

definition native_call_hook :: "('s \<Rightarrow> 's abi_prog) option \<Rightarrow> 's native_transport \<Rightarrow> plugin_msg option \<times> 's native_transport" where
  "native_call_hook hook t =
     (case hook of
        None \<Rightarrow> (None, t)
      | Some f \<Rightarrow> (case native_run (f (nt_state t)) t of (s, t) \<Rightarrow> (None, t\<lparr>nt_state := s\<rparr>)))"

definition native_ops :: "'s native_transport transport_ops" where
  "native_ops = \<lparr>call_read = native_call_read, call_write = native_call_write,
     call_tick = (\<lambda>t. native_call_hook (nt_tick_fn t) t), has_tick = (\<lambda>t. nt_tick_fn t \<noteq> None),
     call_reset = (\<lambda>t. native_call_hook (nt_reset_fn t) t), has_reset = (\<lambda>t. nt_reset_fn t \<noteq> None),
     irq_flag = (\<lambda>t. ph_irq_pending (nt_host t)), clear_irq_flag = nt_host_update (ph_irq_pending_update (\<lambda>_. False))\<rparr>"

definition required :: "string \<Rightarrow> 'x option \<Rightarrow> load_error + 'x" where
  "required name x = (case x of None \<Rightarrow> Inl (Missing_export name) | Some f \<Rightarrow> Inr f)"

definition identity_from_c :: "c_pci_identity \<Rightarrow> plugin_identity" where
  "identity_from_c c = \<lparr>pi_vendor_id = c_vendor_id c, pi_device_id = c_device_id c, pi_class_code = c_class_code c,
     pi_bar_sizes = c_bar_sizes c, pi_bar_is_io = map (\<lambda>i. c_io_bars_mask c AND push_bit i 1 \<noteq> 0) [0..<NUM_BARS],
     pi_interrupt_line = c_interrupt_line c, pi_msi_capable = (c_msi_capable c \<noteq> 0)\<rparr>"

definition native_identity :: "bool \<Rightarrow> 's native_lib \<Rightarrow> 's native_transport \<Rightarrow> plugin_identity \<times> 's native_transport" where
  "native_identity want_pci lib t =
     (case (if want_pci then nl_pci_identity lib else None) of
        None \<Rightarrow> (identity_default, t)
      | Some f \<Rightarrow>
          (case native_run (f (nt_state t)) t of ((has_identity, c, s), t) \<Rightarrow>
             (if has_identity = 0 then identity_default else identity_from_c c, t\<lparr>nt_state := s\<rparr>)))"

definition native_spawn :: "(string \<Rightarrow> 's native_lib option) \<Rightarrow> string \<Rightarrow> guest_memory \<Rightarrow> dma_range \<Rightarrow> bool \<Rightarrow>
    load_error + 's native_transport scripted_device" where
  "native_spawn dlopen path m rng want_pci =
     try_bind (case dlopen path of None \<Rightarrow> Inl (Open_failed path) | Some lib \<Rightarrow> Inr lib) (\<lambda>lib.
     try_bind (required ''hyperbug_plugin_abi_version'' (nl_abi_version lib)) (\<lambda>declared.
       if PLUGIN_API_VERSION < declared \<or> declared < PLUGIN_API_MIN_SUPPORTED then Inl (Unsupported_version (uint declared))
       else
         try_bind (required ''hyperbug_plugin_create'' (nl_create lib)) (\<lambda>create_fn.
         try_bind (required ''hyperbug_plugin_destroy'' (nl_destroy lib)) (\<lambda>destroy_fn.
         try_bind (required ''hyperbug_plugin_read'' (nl_read lib)) (\<lambda>read_fn.
         try_bind (required ''hyperbug_plugin_write'' (nl_write lib)) (\<lambda>write_fn.
           case run_abi rng create_fn \<lparr>ph_mem = m, ph_irq_pending = False\<rparr> of (s, h) \<Rightarrow>
             (case native_identity want_pci lib \<lparr>nt_state = s, nt_read_fn = read_fn, nt_write_fn = write_fn,
                  nt_tick_fn = nl_tick lib, nt_reset_fn = nl_reset lib, nt_dma_range = rng, nt_host = h\<rparr> of (identity, t) \<Rightarrow>
                Inr (scripted_new t identity))))))))"

subsection \<open>WebAssembly modules\<close>

text \<open>
  A module call yields its globals and linear memory, and its result or \<open>None\<close> for a trap. The start
  function runs at instantiation, before the host knows the module's memory.
\<close>

definition SCRATCH_SIZE :: nat where "SCRATCH_SIZE = 4096"

record 'g wasm_result =
  wr_value :: "u32 option"
  wr_globals :: 'g
  wr_lin :: bytes

type_synonym 'g wasm_prog = "(wasm_call, int \<times> bytes, 'g wasm_result) foreign"

record 'g wasm_module =
  wm_start :: "'g wasm_prog option"
  wm_memory :: bool
  wm_abi_version :: "('g \<Rightarrow> bytes \<Rightarrow> 'g wasm_prog) option"
  wm_read :: "(u64 \<Rightarrow> u32 \<Rightarrow> u32 \<Rightarrow> 'g \<Rightarrow> bytes \<Rightarrow> 'g wasm_prog) option"
  wm_write :: "(u64 \<Rightarrow> u32 \<Rightarrow> u32 \<Rightarrow> 'g \<Rightarrow> bytes \<Rightarrow> 'g wasm_prog) option"
  wm_tick :: "('g \<Rightarrow> bytes \<Rightarrow> 'g wasm_prog) option"
  wm_reset :: "('g \<Rightarrow> bytes \<Rightarrow> 'g wasm_prog) option"
  wm_pci_identity :: "(u32 \<Rightarrow> 'g \<Rightarrow> bytes \<Rightarrow> 'g wasm_prog) option"
  wm_create :: "('g \<Rightarrow> bytes \<Rightarrow> 'g wasm_prog) option"

record 'g wasm_store =
  ws_globals :: 'g
  ws_lin :: bytes
  ws_dma_range :: dma_range
  ws_host :: plugin_host
  ws_panicked :: bool

record 'g wasm_transport =
  wt_store :: "'g wasm_store"
  wt_read_fn :: "u64 \<Rightarrow> u32 \<Rightarrow> u32 \<Rightarrow> 'g \<Rightarrow> bytes \<Rightarrow> 'g wasm_prog"
  wt_write_fn :: "u64 \<Rightarrow> u32 \<Rightarrow> u32 \<Rightarrow> 'g \<Rightarrow> bytes \<Rightarrow> 'g wasm_prog"
  wt_tick_fn :: "('g \<Rightarrow> bytes \<Rightarrow> 'g wasm_prog) option"
  wt_reset_fn :: "('g \<Rightarrow> bytes \<Rightarrow> 'g wasm_prog) option"

definition wasm_run :: "('g \<Rightarrow> bytes \<Rightarrow> 'g wasm_prog) \<Rightarrow> 'g wasm_store \<Rightarrow> u32 option \<times> 'g wasm_store" where
  "wasm_run f st =
     (if ws_panicked st then (None, st)
      else
        (case run_foreign (wasm_serve (ws_dma_range st) True) (f (ws_globals st) (ws_lin st)) (ws_host st) of
           (None, h) \<Rightarrow> (None, st\<lparr>ws_host := h, ws_panicked := True\<rparr>)
         | (Some r, h) \<Rightarrow> (wr_value r, st\<lparr>ws_globals := wr_globals r, ws_lin := wr_lin r, ws_host := h\<rparr>)))"

definition wasm_call_read :: "u64 \<Rightarrow> bytes \<Rightarrow> 'g wasm_transport \<Rightarrow> (plugin_msg option \<times> bytes) \<times> 'g wasm_transport" where
  "wasm_call_read off data t =
     (if SCRATCH_SIZE < length data then ((Some (Exceeds_scratch (length data)), data), t)
      else
        (case wasm_run (wt_read_fn t off (of_nat (length data)) 0) (wt_store t) of
           (None, st) \<Rightarrow> ((Some (Trapped ''hyperbug_read''), data), t\<lparr>wt_store := st\<rparr>)
         | (Some _, st) \<Rightarrow>
             if length (ws_lin st) < length data then ((Some Scratch_unreadable, data), t\<lparr>wt_store := st\<rparr>)
             else ((None, take (length data) (ws_lin st)), t\<lparr>wt_store := st\<rparr>)))"

definition wasm_call_write :: "u64 \<Rightarrow> bytes \<Rightarrow> 'g wasm_transport \<Rightarrow> (plugin_msg + bool) \<times> 'g wasm_transport" where
  "wasm_call_write off data t =
     (if SCRATCH_SIZE < length data then (Inl (Exceeds_scratch (length data)), t)
      else if length (ws_lin (wt_store t)) < length data then (Inl Scratch_unwritable, t)
      else
        let st = (wt_store t)\<lparr>ws_lin := data @ drop (length data) (ws_lin (wt_store t))\<rparr> in
        (case wasm_run (wt_write_fn t off 0 (of_nat (length data))) st of
           (None, st) \<Rightarrow> (Inl (Trapped ''hyperbug_write''), t\<lparr>wt_store := st\<rparr>)
         | (Some wants_irq, st) \<Rightarrow> (Inr (wants_irq \<noteq> 0), t\<lparr>wt_store := st\<rparr>)))"

definition wasm_call_hook :: "string \<Rightarrow> ('g \<Rightarrow> bytes \<Rightarrow> 'g wasm_prog) option \<Rightarrow> 'g wasm_transport \<Rightarrow>
    plugin_msg option \<times> 'g wasm_transport" where
  "wasm_call_hook name hook t =
     (case hook of
        None \<Rightarrow> (None, t)
      | Some f \<Rightarrow> (case wasm_run f (wt_store t) of (r, st) \<Rightarrow> (if r = None then Some (Trapped name) else None, t\<lparr>wt_store := st\<rparr>)))"

definition wasm_ops :: "'g wasm_transport transport_ops" where
  "wasm_ops = \<lparr>call_read = wasm_call_read, call_write = wasm_call_write,
     call_tick = (\<lambda>t. wasm_call_hook ''hyperbug_tick'' (wt_tick_fn t) t), has_tick = (\<lambda>t. wt_tick_fn t \<noteq> None),
     call_reset = (\<lambda>t. wasm_call_hook ''hyperbug_reset'' (wt_reset_fn t) t), has_reset = (\<lambda>t. wt_reset_fn t \<noteq> None),
     irq_flag = (\<lambda>t. ph_irq_pending (ws_host (wt_store t))),
     clear_irq_flag = wt_store_update (ws_host_update (ph_irq_pending_update (\<lambda>_. False)))\<rparr>"

definition parse_pci_identity :: "bytes \<Rightarrow> plugin_identity" where
  "parse_pci_identity buf =
     \<lparr>pi_vendor_id = of_le (subslice buf 0 2), pi_device_id = of_le (subslice buf 2 2), pi_class_code = of_le (subslice buf 4 4),
      pi_bar_sizes = map (\<lambda>i. of_le (subslice buf (8 + i * 4) 4)) [0..<NUM_BARS],
      pi_bar_is_io = map (\<lambda>i. buf ! (8 + NUM_BARS * 4) AND push_bit i 1 \<noteq> 0) [0..<NUM_BARS],
      pi_interrupt_line = buf ! (8 + NUM_BARS * 4 + 1), pi_msi_capable = (buf ! (8 + NUM_BARS * 4 + 2) \<noteq> 0)\<rparr>"

text \<open>One call during loading: a panic of the host ends the load, a trap is its error.\<close>

definition wasm_load_call :: "string \<Rightarrow> ('g \<Rightarrow> bytes \<Rightarrow> 'g wasm_prog) \<Rightarrow> 'g wasm_store \<Rightarrow> load_error + (u32 \<times> 'g wasm_store)" where
  "wasm_load_call name f st =
     (case wasm_run f st of (r, st) \<Rightarrow>
        if ws_panicked st then Inl Panicked
        else (case r of None \<Rightarrow> Inl (Export_trapped name) | Some v \<Rightarrow> Inr (v, st)))"

definition wasm_identity :: "bool \<Rightarrow> 'g wasm_module \<Rightarrow> 'g wasm_store \<Rightarrow> load_error + (plugin_identity \<times> 'g wasm_store)" where
  "wasm_identity want_pci md st =
     (case (if want_pci then wm_pci_identity md else None) of
        None \<Rightarrow> Inr (identity_default, st)
      | Some f \<Rightarrow>
          try_bind (wasm_load_call ''hyperbug_pci_identity'' (f 0) st) (\<lambda>(has_identity, st).
            let n = 2 + 2 + 4 + NUM_BARS * 4 + 1 + 1 + 1 in
            if has_identity = 0 then Inr (identity_default, st)
            else if length (ws_lin st) < n then Inl Identity_unreadable
            else Inr (parse_pci_identity (take n (ws_lin st)), st)))"

definition wasm_instantiate :: "'g wasm_module \<Rightarrow> string \<Rightarrow> guest_memory \<Rightarrow> dma_range \<Rightarrow> load_error + 'g wasm_store" where
  "wasm_instantiate md path m rng =
     (case wm_start md of
        None \<Rightarrow> Inl (Not_instantiable path)
      | Some p \<Rightarrow>
          (case run_foreign (wasm_serve rng False) p \<lparr>ph_mem = m, ph_irq_pending = False\<rparr> of
             (None, h) \<Rightarrow> Inl Panicked
           | (Some r, h) \<Rightarrow> if wr_value r = None then Inl (Not_instantiable path) else 
               Inr \<lparr>ws_globals = wr_globals r, ws_lin = wr_lin r, ws_dma_range = rng, ws_host = h, ws_panicked = False\<rparr>))"

definition wasm_spawn :: "(string \<Rightarrow> 'g wasm_module option) \<Rightarrow> string \<Rightarrow> guest_memory \<Rightarrow> dma_range \<Rightarrow> bool \<Rightarrow>
    load_error + 'g wasm_transport scripted_device" where
  "wasm_spawn from_file path m rng want_pci =
     try_bind (case from_file path of None \<Rightarrow> Inl (Open_failed path) | Some md \<Rightarrow> Inr md) (\<lambda>md.
     try_bind (wasm_instantiate md path m rng) (\<lambda>st.
       if \<not> wm_memory md then Inl (Missing_export ''memory'')
       else
         try_bind (required ''hyperbug_abi_version'' (wm_abi_version md)) (\<lambda>abi_version_fn.
         try_bind (wasm_load_call ''hyperbug_abi_version'' abi_version_fn st) (\<lambda>(declared, st).
           if sint PLUGIN_API_VERSION < sint declared \<or> sint declared < sint PLUGIN_API_MIN_SUPPORTED
           then Inl (Unsupported_version (sint declared))
           else
             try_bind (required ''hyperbug_read'' (wm_read md)) (\<lambda>read_fn.
             try_bind (required ''hyperbug_write'' (wm_write md)) (\<lambda>write_fn.
             try_bind (case wm_create md of None \<Rightarrow> Inr st | Some f \<Rightarrow> map_sum id snd (wasm_load_call ''hyperbug_create'' f st)) (\<lambda>st.
             try_bind (wasm_identity want_pci md st) (\<lambda>(identity, st).
               Inr (scripted_new \<lparr>wt_store = st, wt_read_fn = read_fn, wt_write_fn = write_fn, wt_tick_fn = wm_tick md,
                 wt_reset_fn = wm_reset md\<rparr> identity)))))))))"

subsection \<open>Python in the process\<close>

text \<open>
  A method returns a value or raises (\<open>None\<close>). \<open>Py_object\<close> is any value but \<open>bytes\<close>, with its truth value when asking
  for it does not raise and what it converts to as an integer. Attributes are what \<open>getattr\<close> and
  \<open>extract\<close> give: an outer \<open>None\<close> for a missing one, an inner \<open>None\<close> for one of the wrong type.
\<close>

datatype py_value = Py_bytes bytes | Py_object "bool option" "int option"

record 's py_instance =
  py_state :: 's
  py_read :: "('s \<Rightarrow> u64 \<Rightarrow> nat \<Rightarrow> (py_value option \<times> 's) abi_prog) option"
  py_write :: "('s \<Rightarrow> u64 \<Rightarrow> bytes \<Rightarrow> (py_value option \<times> 's) abi_prog) option"
  py_tick :: "('s \<Rightarrow> (py_value option \<times> 's) abi_prog) option"
  py_reset :: "('s \<Rightarrow> (py_value option \<times> 's) abi_prog) option"
  py_api_version :: "u32 option option"
  py_vendor_id :: "u32 option"
  py_device_id :: "u32 option"
  py_class_code :: "u32 option"
  py_bar_sizes :: "u32 list option"
  py_io_bars :: "nat list option option"
  py_interrupt_line :: "u8 option"
  py_msi_capable :: "bool option"

definition or_zero :: "u32 option \<Rightarrow> u32" where
  "or_zero v = (case v of None \<Rightarrow> 0 | Some x \<Rightarrow> x)"

definition snapshot :: "'s py_instance \<Rightarrow> plugin_identity" where
  "snapshot p =
     (let bar_sizes = (case py_bar_sizes p of None \<Rightarrow> replicate NUM_BARS 0 | Some xs \<Rightarrow> take NUM_BARS (xs @ replicate NUM_BARS 0));
          bar_is_io = (case py_io_bars p of
            Some (Some idx) \<Rightarrow> map (\<lambda>i. i \<in> set idx) [0..<NUM_BARS]
          | _ \<Rightarrow> replicate NUM_BARS False)
      in \<lparr>pi_vendor_id = ucast (or_zero (py_vendor_id p)), pi_device_id = ucast (or_zero (py_device_id p)),
          pi_class_code = or_zero (py_class_code p), pi_bar_sizes = bar_sizes, pi_bar_is_io = bar_is_io,
          pi_interrupt_line = (case py_interrupt_line p of None \<Rightarrow> 0 | Some v \<Rightarrow> v),
          pi_msi_capable = (case py_msi_capable p of None \<Rightarrow> False | Some v \<Rightarrow> v)\<rparr>)"

definition check_api_version :: "u32 option option \<Rightarrow> load_error option" where
  "check_api_version attr =
     (case attr of
        None \<Rightarrow> None
      | Some None \<Rightarrow> Some (Bad_attribute ''hyperbug_api_version'')
      | Some (Some declared) \<Rightarrow>
          if PLUGIN_API_VERSION < declared then Some (Unsupported_version (uint declared))
          else if declared < PLUGIN_API_MIN_SUPPORTED then Some (Unsupported_version (uint declared))
          else None)"

record 's in_process =
  ip_state :: 's
  ip_read_fn :: "'s \<Rightarrow> u64 \<Rightarrow> nat \<Rightarrow> (py_value option \<times> 's) abi_prog"
  ip_write_fn :: "'s \<Rightarrow> u64 \<Rightarrow> bytes \<Rightarrow> (py_value option \<times> 's) abi_prog"
  ip_tick_fn :: "('s \<Rightarrow> (py_value option \<times> 's) abi_prog) option"
  ip_reset_fn :: "('s \<Rightarrow> (py_value option \<times> 's) abi_prog) option"
  ip_dma_range :: dma_range
  ip_host :: plugin_host

definition py_call :: "(py_value option \<times> 's) abi_prog \<Rightarrow> 's in_process \<Rightarrow> py_value option \<times> 's in_process" where
  "py_call p t = (case run_abi (ip_dma_range t) p (ip_host t) of ((v, s), h) \<Rightarrow> (v, t\<lparr>ip_state := s, ip_host := h\<rparr>))"

definition py_call_read :: "u64 \<Rightarrow> bytes \<Rightarrow> 's in_process \<Rightarrow> (plugin_msg option \<times> bytes) \<times> 's in_process" where
  "py_call_read off data t =
     (case py_call (ip_read_fn t (ip_state t) off (length data)) t of (v, t) \<Rightarrow>
        (case v of
           Some (Py_bytes b) \<Rightarrow>
             let n = min (length b) (length data); data' = take n b @ drop n data in
             ((if length b \<noteq> length data then Some (Wrong_length (length b) (length data)) else None, data'), t)
         | Some (Py_object _ _) \<Rightarrow> ((Some (Trapped ''read() must return bytes''), data), t)
         | None \<Rightarrow> ((Some (Trapped ''read() raised''), data), t)))"

definition is_truthy :: "py_value \<Rightarrow> bool" where
  "is_truthy v = (case v of Py_bytes b \<Rightarrow> b \<noteq> [] | Py_object tr _ \<Rightarrow> tr = Some True)"

definition py_call_write :: "u64 \<Rightarrow> bytes \<Rightarrow> 's in_process \<Rightarrow> (plugin_msg + bool) \<times> 's in_process" where
  "py_call_write off data t =
     (case py_call (ip_write_fn t (ip_state t) off data) t of (v, t) \<Rightarrow>
        (case v of Some v \<Rightarrow> (Inr (is_truthy v), t) | None \<Rightarrow> (Inl (Trapped ''write() raised''), t)))"

definition py_call_hook :: "string \<Rightarrow> ('s \<Rightarrow> (py_value option \<times> 's) abi_prog) option \<Rightarrow> 's in_process \<Rightarrow>
    plugin_msg option \<times> 's in_process" where
  "py_call_hook name hook t =
     (case hook of
        None \<Rightarrow> (None, t)
      | Some f \<Rightarrow> (case py_call (f (ip_state t)) t of (v, t) \<Rightarrow> (if v = None then Some (Trapped name) else None, t)))"

definition in_process_ops :: "'s in_process transport_ops" where
  "in_process_ops = \<lparr>call_read = py_call_read, call_write = py_call_write,
     call_tick = (\<lambda>t. py_call_hook ''tick() raised'' (ip_tick_fn t) t), has_tick = (\<lambda>t. ip_tick_fn t \<noteq> None),
     call_reset = (\<lambda>t. py_call_hook ''reset() raised'' (ip_reset_fn t) t), has_reset = (\<lambda>t. ip_reset_fn t \<noteq> None),
     irq_flag = (\<lambda>t. ph_irq_pending (ip_host t)), clear_irq_flag = ip_host_update (ph_irq_pending_update (\<lambda>_. False))\<rparr>"

text \<open>
  Reading the source, naming the module after the next identifier (the counter survives a failed
  load) and instantiating the class, the part all three Python loaders share.
\<close>

definition load_class :: "(string \<Rightarrow> string option) \<Rightarrow> (string \<Rightarrow> string \<Rightarrow> u64 \<Rightarrow> string \<Rightarrow> 'i option) \<Rightarrow>
    string \<Rightarrow> string \<Rightarrow> u64 \<Rightarrow> (load_error + 'i) \<times> u64" where
  "load_class read_file instantiate path class_name next_id =
     (case read_file path of
        None \<Rightarrow> (Inl (Unreadable path), next_id)
      | Some source \<Rightarrow>
          if CHR 0x00 \<in> set source then (Inl (Nul_byte ''device source''), next_id)
          else if CHR 0x00 \<in> set path then (Inl (Nul_byte ''device path''), next_id)
          else (case instantiate source path next_id class_name of
                  None \<Rightarrow> (Inl (Not_instantiable class_name), next_id + 1)
                | Some i \<Rightarrow> (Inr i, next_id + 1)))"

definition load_inner :: "(string \<Rightarrow> string option) \<Rightarrow> (string \<Rightarrow> string \<Rightarrow> u64 \<Rightarrow> string \<Rightarrow> 's py_instance option) \<Rightarrow>
    string \<Rightarrow> string \<Rightarrow> guest_memory \<Rightarrow> dma_range \<Rightarrow> bool \<Rightarrow> u64 \<Rightarrow> (load_error + 's in_process scripted_device) \<times> u64" where
  "load_inner read_file instantiate path class_name m rng is_pci next_id =
     (case load_class read_file instantiate path class_name next_id of (r, next_id) \<Rightarrow>
        (try_bind r (\<lambda>p.
           case check_api_version (py_api_version p) of
             Some e \<Rightarrow> Inl e
           | None \<Rightarrow>
               let identity = (if is_pci then snapshot p else identity_default) in
               try_bind (required ''read'' (py_read p)) (\<lambda>read_fn.
               try_bind (required ''write'' (py_write p)) (\<lambda>write_fn.
                 Inr (scripted_new \<lparr>ip_state = py_state p, ip_read_fn = read_fn, ip_write_fn = write_fn, ip_tick_fn = py_tick p,
                   ip_reset_fn = py_reset p, ip_dma_range = rng, ip_host = \<lparr>ph_mem = m, ph_irq_pending = False\<rparr>\<rparr> identity)))),
         next_id))"

subsection \<open>Python I2C targets and GPIO banks\<close>

record 's py_i2c_target =
  it_state :: 's
  it_write_fn :: "'s \<Rightarrow> bytes \<Rightarrow> py_value option \<times> 's"
  it_read_fn :: "'s \<Rightarrow> nat \<Rightarrow> py_value option \<times> 's"

definition py_i2c_write :: "'s py_i2c_target \<Rightarrow> bytes \<Rightarrow> 's py_i2c_target" where
  "py_i2c_write t data = t\<lparr>it_state := snd (it_write_fn t (it_state t) data)\<rparr>"

definition py_i2c_read :: "'s py_i2c_target \<Rightarrow> nat \<Rightarrow> bytes \<times> 's py_i2c_target" where
  "py_i2c_read t len =
     (case it_read_fn t (it_state t) len of (v, s) \<Rightarrow>
        (case v of Some (Py_bytes b) \<Rightarrow> b | _ \<Rightarrow> [], t\<lparr>it_state := s\<rparr>))"

definition py_target_ops :: "'s py_i2c_target target_ops" where
  "py_target_ops = \<lparr>i2c_write = py_i2c_write, i2c_read = py_i2c_read\<rparr>"

record 's py_i2c_instance =
  pt_state :: 's
  pt_api_version :: "u32 option option"
  pt_i2c_write :: "('s \<Rightarrow> bytes \<Rightarrow> py_value option \<times> 's) option"
  pt_i2c_read :: "('s \<Rightarrow> nat \<Rightarrow> py_value option \<times> 's) option"

definition load_i2c :: "(string \<Rightarrow> string option) \<Rightarrow> (string \<Rightarrow> string \<Rightarrow> u64 \<Rightarrow> string \<Rightarrow> 's py_i2c_instance option) \<Rightarrow>
    string \<Rightarrow> string \<Rightarrow> u64 \<Rightarrow> (load_error + 's py_i2c_target) \<times> u64" where
  "load_i2c read_file instantiate path class_name next_id =
     (case load_class read_file instantiate path class_name next_id of (r, next_id) \<Rightarrow>
        (try_bind r (\<lambda>p.
           case check_api_version (pt_api_version p) of
             Some e \<Rightarrow> Inl e
           | None \<Rightarrow>
               try_bind (required ''i2c_write'' (pt_i2c_write p)) (\<lambda>write_fn.
               try_bind (required ''i2c_read'' (pt_i2c_read p)) (\<lambda>read_fn.
                 Inr \<lparr>it_state = pt_state p, it_write_fn = write_fn, it_read_fn = read_fn\<rparr>))),
         next_id))"

text \<open>A method of a GPIO bank returns its value, the lines it passed to \<open>raise_irq\<close> meanwhile, and its state.\<close>

type_synonym 's bank_method = "'s \<Rightarrow> py_value option \<times> u16 list \<times> 's"

record 's py_gpio_bank =
  gb_state :: 's
  gb_ngpio :: u16
  gb_names :: "bytes list"
  gb_get_direction_fn :: "u16 \<Rightarrow> 's bank_method"
  gb_set_direction_fn :: "u16 \<Rightarrow> u8 \<Rightarrow> 's bank_method"
  gb_get_value_fn :: "u16 \<Rightarrow> 's bank_method"
  gb_set_value_fn :: "u16 \<Rightarrow> u8 \<Rightarrow> 's bank_method"
  gb_fired :: "u16 list"

definition bank_call :: "'s bank_method \<Rightarrow> 's py_gpio_bank \<Rightarrow> py_value option \<times> 's py_gpio_bank" where
  "bank_call f b = (case f (gb_state b) of (v, lines, s) \<Rightarrow> (v, b\<lparr>gb_state := s, gb_fired := gb_fired b @ lines\<rparr>))"

definition extract_u8 :: "u8 \<Rightarrow> py_value option \<Rightarrow> u8" where
  "extract_u8 dflt v = (case v of Some (Py_object _ (Some n)) \<Rightarrow> if 0 \<le> n \<and> n < 256 then of_int n else dflt | _ \<Rightarrow> dflt)"

definition py_get_direction :: "'s py_gpio_bank \<Rightarrow> u16 \<Rightarrow> u8 \<times> 's py_gpio_bank" where
  "py_get_direction b line = (case bank_call (gb_get_direction_fn b line) b of (v, b) \<Rightarrow> (extract_u8 DIRECTION_NONE v, b))"

definition py_set_direction :: "'s py_gpio_bank \<Rightarrow> u16 \<Rightarrow> u8 \<Rightarrow> 's py_gpio_bank" where
  "py_set_direction b line dir = snd (bank_call (gb_set_direction_fn b line dir) b)"

definition py_get_value :: "'s py_gpio_bank \<Rightarrow> u16 \<Rightarrow> u8 \<times> 's py_gpio_bank" where
  "py_get_value b line = (case bank_call (gb_get_value_fn b line) b of (v, b) \<Rightarrow> (extract_u8 0 v, b))"

definition py_set_value :: "'s py_gpio_bank \<Rightarrow> u16 \<Rightarrow> u8 \<Rightarrow> 's py_gpio_bank" where
  "py_set_value b line val = snd (bank_call (gb_set_value_fn b line val) b)"

definition py_take_fired_irqs :: "'s py_gpio_bank \<Rightarrow> u16 list \<times> 's py_gpio_bank" where
  "py_take_fired_irqs b = (gb_fired b, b\<lparr>gb_fired := []\<rparr>)"

definition py_bank_ops :: "'s py_gpio_bank bank_ops" where
  "py_bank_ops = \<lparr>ngpio = gb_ngpio, names = gb_names, get_direction = py_get_direction, set_direction = py_set_direction,
     get_value = py_get_value, set_value = py_set_value, take_fired_irqs = py_take_fired_irqs\<rparr>"

record 's py_gpio_instance =
  pg_state :: 's
  pg_api_version :: "u32 option option"
  pg_ngpio :: "u16 option"
  pg_names :: "bytes list option"
  pg_get_direction :: "(u16 \<Rightarrow> 's bank_method) option"
  pg_set_direction :: "(u16 \<Rightarrow> u8 \<Rightarrow> 's bank_method) option"
  pg_get_value :: "(u16 \<Rightarrow> 's bank_method) option"
  pg_set_value :: "(u16 \<Rightarrow> u8 \<Rightarrow> 's bank_method) option"

definition load_gpio_bank :: "(string \<Rightarrow> string option) \<Rightarrow> (string \<Rightarrow> string \<Rightarrow> u64 \<Rightarrow> string \<Rightarrow> 's py_gpio_instance option) \<Rightarrow>
    string \<Rightarrow> string \<Rightarrow> u64 \<Rightarrow> (load_error + 's py_gpio_bank) \<times> u64" where
  "load_gpio_bank read_file instantiate path class_name next_id =
     (case load_class read_file instantiate path class_name next_id of (r, next_id) \<Rightarrow>
        (try_bind r (\<lambda>p.
           case check_api_version (pg_api_version p) of
             Some e \<Rightarrow> Inl e
           | None \<Rightarrow>
               try_bind (case pg_ngpio p of None \<Rightarrow> Inl (Bad_attribute ''ngpio'') | Some n \<Rightarrow> Inr n) (\<lambda>n.
               let nms = (case pg_names p of None \<Rightarrow> [] | Some xs \<Rightarrow> xs) in
               if n = 0 then Inl Zero_lines
               else if nms \<noteq> [] \<and> length nms \<noteq> unat n then Inl (Names_mismatch (length nms) n)
               else
                 try_bind (required ''get_direction'' (pg_get_direction p)) (\<lambda>get_direction_fn.
                 try_bind (required ''set_direction'' (pg_set_direction p)) (\<lambda>set_direction_fn.
                 try_bind (required ''get_value'' (pg_get_value p)) (\<lambda>get_value_fn.
                 try_bind (required ''set_value'' (pg_set_value p)) (\<lambda>set_value_fn.
                   Inr \<lparr>gb_state = pg_state p, gb_ngpio = n, gb_names = nms, gb_get_direction_fn = get_direction_fn,
                     gb_set_direction_fn = set_direction_fn, gb_get_value_fn = get_value_fn, gb_set_value_fn = set_value_fn,
                     gb_fired = []\<rparr>)))))),
         next_id))"

subsection \<open>Confinement of foreign code\<close>

definition host_view :: "nat set \<Rightarrow> plugin_host \<Rightarrow> plugin_host \<Rightarrow> bool" where
  "host_view S s t \<longleftrightarrow> agree S (ph_mem s) (ph_mem t) \<and> ph_irq_pending t = ph_irq_pending s"

text \<open>The contract of a set of callbacks, and what it gives for every program over them.\<close>

locale confined_host =
  fixes allowed :: "nat set" and serve :: "'q \<Rightarrow> plugin_host \<Rightarrow> 'a option \<times> plugin_host"
  assumes serve_inside: "same_outside allowed (ph_mem s) (ph_mem (snd (serve q s)))"
    and serve_local: "host_view allowed s t \<Longrightarrow>
      fst (serve q t) = fst (serve q s) \<and> host_view allowed (snd (serve q s)) (snd (serve q t))"
begin

lemma run_inside: "same_outside allowed (ph_mem s) (ph_mem (snd (run_foreign serve p s)))"
proof (induction p arbitrary: s)
  case (Ask q k)
  show ?case
    using serve_inside [of s q] Ask [of _ "snd (serve q s)"]
    by (cases "serve q s") (auto split: option.split intro: same_outside_step)
qed simp

lemma run_local:
  "host_view allowed s t \<Longrightarrow> fst (run_foreign serve p t) = fst (run_foreign serve p s) \<and>
    host_view allowed (snd (run_foreign serve p s)) (snd (run_foreign serve p t))"
proof (induction p arbitrary: s t)
  case (Ask q k)
  obtain a s' b t' where eq: "serve q s = (a, s')" "serve q t = (b, t')" by (metis prod.collapse)
  with serve_local [OF Ask.prems, of q] have "b = a" "host_view allowed s' t'" by simp_all
  with Ask.IH show ?case by (cases a) (simp_all add: eq)
qed simp

end

interpretation abi_host: confined_host "dma_set rng" "host_serve rng" for rng
proof
  fix s t :: plugin_host and q
  show "same_outside (dma_set rng) (ph_mem s) (ph_mem (snd (host_serve rng q s)))"
    using host_write_mem_inside by (cases q) (simp_all add: case_prod_beta)
  assume v: "host_view (dma_set rng) s t"
  then have a: "agree (dma_set rng) (ph_mem s) (ph_mem t)" by (simp add: host_view_def)
  show "fst (host_serve rng q t) = fst (host_serve rng q s) \<and>
      host_view (dma_set rng) (snd (host_serve rng q s)) (snd (host_serve rng q t))"
    using v host_read_mem_local [OF a] host_write_mem_local [OF a] by (cases q) (simp_all add: case_prod_beta host_view_def)
qed

text \<open>The imports of a module obey the same contract, in particular when they panic.\<close>

lemma wasm_write_mem_host:
  "wasm_write_mem rng m lin addr buf_ptr sz =
     (let sz = scast sz :: u64; at = unat (scast buf_ptr :: u64) in
      case lin of
        None \<Rightarrow> Some (-1, m)
      | Some l \<Rightarrow>
          if \<not> dma_range_allows rng addr sz then Some (-1, m)
          else if 2 ^ 63 \<le> unat sz then None
          else if length l < at + unat sz then Some (-1, m)
          else (case host_write_mem rng m addr (subslice l at (unat sz)) of (ok, m') \<Rightarrow> Some (if ok then 0 else -1, m')))"
  by (auto simp: wasm_write_mem_def host_write_mem_def host_vec_def Let_def subslice_def split: option.split)

lemma wasm_read_mem_host:
  "wasm_read_mem rng m lin addr buf_ptr sz =
     (let sz = scast sz :: u64; at = unat (scast buf_ptr :: u64) in
      case lin of
        None \<Rightarrow> Some (-1, lin)
      | Some l \<Rightarrow>
          if \<not> dma_range_allows rng addr sz then Some (-1, lin)
          else if 2 ^ 63 \<le> unat sz then None
          else (case host_read_mem rng m addr sz of
                  None \<Rightarrow> Some (-1, lin)
                | Some bs \<Rightarrow>
                    if length l < at + length bs then Some (-1, lin)
                    else Some (0, Some (take at l @ bs @ drop (at + length bs) l))))"
  by (auto simp: wasm_read_mem_def host_read_mem_def host_vec_def Let_def in_bounds_iff read_checked_eq split: option.split)

interpretation wasm_host: confined_host "dma_set rng" "wasm_serve rng known" for rng known
proof
  fix s t :: plugin_host and q
  have inside: "same_outside (dma_set rng) (ph_mem s) m" if "wasm_write_mem rng (ph_mem s) lin addr p sz = Some (c, m)" for lin addr p sz c m
    using that host_write_mem_inside [of rng "ph_mem s" addr]
    by (auto simp: wasm_write_mem_host Let_def split: option.splits if_splits prod.splits) (metis snd_conv)+
  show "same_outside (dma_set rng) (ph_mem s) (ph_mem (snd (wasm_serve rng known q s)))"
    by (cases q) (auto split: option.split dest: inside)
  assume v: "host_view (dma_set rng) s t"
  then have a: "agree (dma_set rng) (ph_mem s) (ph_mem t)" by (simp add: host_view_def)
  have rd: "wasm_read_mem rng (ph_mem t) lin addr p sz = wasm_read_mem rng (ph_mem s) lin addr p sz" for lin addr p sz
    by (simp only: wasm_read_mem_host host_read_mem_local [OF a])
  have wr: "rel_option (\<lambda>x y. fst y = fst x \<and> agree (dma_set rng) (snd x) (snd y))
      (wasm_write_mem rng (ph_mem s) lin addr p sz) (wasm_write_mem rng (ph_mem t) lin addr p sz)" for lin addr p sz
    using a host_write_mem_local [OF a] by (auto simp: wasm_write_mem_host Let_def case_prod_beta split: option.split)
  show "fst (wasm_serve rng known q t) = fst (wasm_serve rng known q s) \<and>
      host_view (dma_set rng) (snd (wasm_serve rng known q s)) (snd (wasm_serve rng known q t))"
  proof (cases q)
    case (W_write_mem lin addr p sz)
    then show ?thesis
      using v wr [of "if known then Some lin else None" addr p sz] by (auto simp: host_view_def elim: option.rel_cases split: prod.splits)
  qed (use v in \<open>auto simp: rd host_view_def split: option.split\<close>)
qed

subsection \<open>From callbacks to devices\<close>

text \<open>A relation that every call of a transport keeps is kept by every run of the device, with equal answers.\<close>

locale transport_sim =
  fixes ops :: "'t transport_ops" and R :: "'t \<Rightarrow> 't \<Rightarrow> bool"
  assumes sim_read: "R t u \<Longrightarrow> fst (call_read ops off data u) = fst (call_read ops off data t) \<and>
      R (snd (call_read ops off data t)) (snd (call_read ops off data u))"
    and sim_write: "R t u \<Longrightarrow> fst (call_write ops off data u) = fst (call_write ops off data t) \<and>
      R (snd (call_write ops off data t)) (snd (call_write ops off data u))"
    and sim_tick: "R t u \<Longrightarrow> has_tick ops u = has_tick ops t \<and> fst (call_tick ops u) = fst (call_tick ops t) \<and>
      R (snd (call_tick ops t)) (snd (call_tick ops u))"
    and sim_reset: "R t u \<Longrightarrow> has_reset ops u = has_reset ops t \<and> fst (call_reset ops u) = fst (call_reset ops t) \<and>
      R (snd (call_reset ops t)) (snd (call_reset ops u))"
begin

lemma step_sim:
  "R (sd_transport d) (sd_transport e) \<Longrightarrow> fst (device_step ops x e) = fst (device_step ops x d) \<and>
    R (sd_transport (snd (device_step ops x d))) (sd_transport (snd (device_step ops x e)))"
  using sim_read [of "sd_transport d" "sd_transport e"] sim_write [of "sd_transport d" "sd_transport e"]
    sim_tick [of "sd_transport d" "sd_transport e"] sim_reset [of "sd_transport d" "sd_transport e"]
  by (cases x) (simp_all add: scripted_read_def scripted_write_def scripted_tick_def scripted_reset_def case_prod_beta Let_def split: sum.split)

lemma run_sim:
  "R (sd_transport d) (sd_transport e) \<Longrightarrow> fst (device_run ops xs e) = fst (device_run ops xs d) \<and>
    R (sd_transport (snd (device_run ops xs d))) (sd_transport (snd (device_run ops xs e)))"
proof (induction xs arbitrary: d e)
  case (Cons x xs)
  from Cons.IH [OF conjunct2 [OF step_sim [OF Cons.prems, of x]]] step_sim [OF Cons.prems, of x] show ?case
    by (simp add: case_prod_beta)
qed simp

end

text \<open>Two stores that differ only in guest memory outside the range.\<close>

definition store_view :: "dma_range \<Rightarrow> guest_memory \<Rightarrow> 'g wasm_store \<Rightarrow> 'g wasm_store \<Rightarrow> bool" where
  "store_view rng m0 t u \<longleftrightarrow> ws_globals u = ws_globals t \<and> ws_lin u = ws_lin t \<and>
     ws_dma_range t = rng \<and> ws_dma_range u = rng \<and> ws_panicked u = ws_panicked t \<and>
     host_view (dma_set rng) (ws_host t) (ws_host u) \<and>
     same_outside (dma_set rng) m0 (ph_mem (ws_host t))"

lemma wasm_run_view:
  assumes "store_view rng m0 t u"
  shows "fst (wasm_run f u) = fst (wasm_run f t) \<and> ws_lin (snd (wasm_run f u)) = ws_lin (snd (wasm_run f t)) \<and>
    store_view rng m0 (snd (wasm_run f t)) (snd (wasm_run f u))"
proof -
  let ?S = "dma_set rng" and ?p = "f (ws_globals t) (ws_lin t)" and ?w = "wasm_serve rng True"
  have v: "host_view ?S (ws_host t) (ws_host u)" and outs: "same_outside ?S m0 (ph_mem (ws_host t))"
    using assms by (simp_all add: store_view_def)
  obtain r t' s u' where eq: "run_foreign ?w ?p (ws_host t) = (r, t')" "run_foreign ?w ?p (ws_host u) = (s, u')" by (metis prod.collapse)
  with wasm_host.run_local [OF v, of True ?p] have "s = r" "host_view ?S t' u'" by simp_all
  moreover have "same_outside ?S m0 (ph_mem t')"
    using same_outside_step [OF outs wasm_host.run_inside [of rng "ws_host t" True ?p]] eq by simp
  ultimately show ?thesis using assms by (cases r) (simp_all add: wasm_run_def eq store_view_def)
qed

definition transport_view :: "dma_range \<Rightarrow> guest_memory \<Rightarrow> 'g wasm_transport \<Rightarrow> 'g wasm_transport \<Rightarrow> bool" where
  "transport_view rng m0 t u \<longleftrightarrow> (\<exists>st. u = t\<lparr>wt_store := st\<rparr> \<and> store_view rng m0 (wt_store t) st)"

lemma wasm_hook_view:
  assumes "store_view rng m0 (wt_store t) st"
  shows "fst (wasm_call_hook name hook (t\<lparr>wt_store := st\<rparr>)) = fst (wasm_call_hook name hook t) \<and>
    transport_view rng m0 (snd (wasm_call_hook name hook t)) (snd (wasm_call_hook name hook (t\<lparr>wt_store := st\<rparr>)))"
  using assms wasm_run_view [OF assms] by (cases hook) (auto simp: wasm_call_hook_def transport_view_def case_prod_beta)

interpretation wasm_sim: transport_sim wasm_ops "transport_view rng m0" for rng m0
proof
  fix t u :: "'g wasm_transport" and off :: u64 and data :: bytes
  assume "transport_view rng m0 t u"
  then obtain st where u: "u = t\<lparr>wt_store := st\<rparr>" and v: "store_view rng m0 (wt_store t) st" by (auto simp: transport_view_def)
  have lin: "ws_lin st = ws_lin (wt_store t)" using v by (simp add: store_view_def)
  have v': "store_view rng m0 ((wt_store t)\<lparr>ws_lin := l\<rparr>) (st\<lparr>ws_lin := l\<rparr>)" for l using v by (simp add: store_view_def)
  show "fst (call_read wasm_ops off data u) = fst (call_read wasm_ops off data t) \<and>
      transport_view rng m0 (snd (call_read wasm_ops off data t)) (snd (call_read wasm_ops off data u))"
    using v wasm_run_view [OF v, of "wt_read_fn t off (of_nat (length data)) 0"]
    by (auto simp: wasm_ops_def wasm_call_read_def u transport_view_def case_prod_beta split: option.split)
  show "fst (call_write wasm_ops off data u) = fst (call_write wasm_ops off data t) \<and>
      transport_view rng m0 (snd (call_write wasm_ops off data t)) (snd (call_write wasm_ops off data u))"
    using v wasm_run_view [OF v', of "wt_write_fn t off 0 (of_nat (length data))"]
    by (auto simp: wasm_ops_def wasm_call_write_def u transport_view_def case_prod_beta lin Let_def split: option.split)
  show "has_tick wasm_ops u = has_tick wasm_ops t \<and> fst (call_tick wasm_ops u) = fst (call_tick wasm_ops t) \<and>
      transport_view rng m0 (snd (call_tick wasm_ops t)) (snd (call_tick wasm_ops u))"
    using wasm_hook_view [OF v] by (simp add: wasm_ops_def u)
  show "has_reset wasm_ops u = has_reset wasm_ops t \<and> fst (call_reset wasm_ops u) = fst (call_reset wasm_ops t) \<and>
      transport_view rng m0 (snd (call_reset wasm_ops t)) (snd (call_reset wasm_ops u))"
    using wasm_hook_view [OF v] by (simp add: wasm_ops_def u)
qed

text \<open>Python plugins and native libraries that keep to their callbacks are confined the same way.\<close>

lemma run_abi_view:
  assumes "host_view (dma_set rng) s t"
  shows "fst (run_abi rng p t) = fst (run_abi rng p s) \<and> host_view (dma_set rng) (snd (run_abi rng p s)) (snd (run_abi rng p t)) \<and>
    same_outside (dma_set rng) (ph_mem s) (ph_mem (snd (run_abi rng p s)))"
  using abi_host.run_local [OF assms, of p] abi_host.run_inside [of rng s p] by (simp add: run_abi_def case_prod_beta)

definition py_view :: "dma_range \<Rightarrow> guest_memory \<Rightarrow> 's in_process \<Rightarrow> 's in_process \<Rightarrow> bool" where
  "py_view rng m0 t u \<longleftrightarrow> ip_dma_range t = rng \<and> u = t\<lparr>ip_host := ip_host u\<rparr> \<and> host_view (dma_set rng) (ip_host t) (ip_host u) \<and>
     same_outside (dma_set rng) m0 (ph_mem (ip_host t))"

lemma py_call_view:
  assumes "py_view rng m0 t u"
  shows "fst (py_call p u) = fst (py_call p t) \<and> py_view rng m0 (snd (py_call p t)) (snd (py_call p u))"
proof -
  have v: "host_view (dma_set rng) (ip_host t) (ip_host u)" and d: "ip_dma_range t = rng" "ip_dma_range u = rng"
    and outs: "same_outside (dma_set rng) m0 (ph_mem (ip_host t))" and u: "u = t\<lparr>ip_host := ip_host u\<rparr>"
    using assms by (auto simp: py_view_def) (metis in_process.select_convs(6) in_process.surjective in_process.update_convs(7))
  obtain x s t' y s' u' where eq: "run_abi rng p (ip_host t) = ((x, s), t')" "run_abi rng p (ip_host u) = ((y, s'), u')"
    by (metis prod.collapse)
  with run_abi_view [OF v, of p] have "y = x" "s' = s" "host_view (dma_set rng) t' u'" "same_outside (dma_set rng) (ph_mem (ip_host t)) (ph_mem t')"
    by simp_all
  moreover have "u\<lparr>ip_state := s, ip_host := u'\<rparr> = t\<lparr>ip_state := s, ip_host := u'\<rparr>" by (subst u) simp
  ultimately show ?thesis using same_outside_step [OF outs] d by (simp add: py_call_def eq py_view_def)
qed

lemma py_view_fields: "py_view rng m0 t u \<Longrightarrow> ip_state u = ip_state t \<and> ip_read_fn u = ip_read_fn t \<and> ip_write_fn u = ip_write_fn t \<and>
    ip_tick_fn u = ip_tick_fn t \<and> ip_reset_fn u = ip_reset_fn t"
  by (cases t; cases u) (simp add: py_view_def)

interpretation py_sim: transport_sim in_process_ops "py_view rng m0" for rng m0
proof
  fix t u :: "'s in_process" and off :: u64 and data :: bytes
  assume v: "py_view rng m0 t u"
  note py_view_fields [OF v, simp] and call = py_call_view [OF v]
  have hook: "fst (py_call_hook name hook u) = fst (py_call_hook name hook t) \<and>
      py_view rng m0 (snd (py_call_hook name hook t)) (snd (py_call_hook name hook u))" for name hook
    using v call by (cases hook) (simp_all add: py_call_hook_def case_prod_beta)
  show "fst (call_read in_process_ops off data u) = fst (call_read in_process_ops off data t) \<and>
      py_view rng m0 (snd (call_read in_process_ops off data t)) (snd (call_read in_process_ops off data u))"
    using call by (simp add: in_process_ops_def py_call_read_def case_prod_beta Let_def split: option.split py_value.split)
  show "fst (call_write in_process_ops off data u) = fst (call_write in_process_ops off data t) \<and>
      py_view rng m0 (snd (call_write in_process_ops off data t)) (snd (call_write in_process_ops off data u))"
    using call by (simp add: in_process_ops_def py_call_write_def case_prod_beta split: option.split)
  show "has_tick in_process_ops u = has_tick in_process_ops t \<and> fst (call_tick in_process_ops u) = fst (call_tick in_process_ops t) \<and>
      py_view rng m0 (snd (call_tick in_process_ops t)) (snd (call_tick in_process_ops u))"
    using hook by (simp add: in_process_ops_def)
  show "has_reset in_process_ops u = has_reset in_process_ops t \<and> fst (call_reset in_process_ops u) = fst (call_reset in_process_ops t) \<and>
      py_view rng m0 (snd (call_reset in_process_ops t)) (snd (call_reset in_process_ops u))"
    using hook by (simp add: in_process_ops_def)
qed

subsection \<open>Loading keeps the view\<close>

lemma try_bind_rel:
  "rel_sum (=) R x y \<Longrightarrow> (\<And>a b. R a b \<Longrightarrow> rel_sum (=) S (f a) (g b)) \<Longrightarrow> rel_sum (=) S (try_bind x f) (try_bind y g)"
  by (auto simp: try_bind_def elim!: rel_sum.cases)

lemma try_bind_rel_same: "(\<And>a. rel_sum (=) S (f a) (g a)) \<Longrightarrow> rel_sum (=) S (try_bind x f) (try_bind x g)"
  by (auto simp: try_bind_def split: sum.split)

definition with_store :: "dma_range \<Rightarrow> guest_memory \<Rightarrow> ('v \<times> 'g wasm_store) \<Rightarrow> ('v \<times> 'g wasm_store) \<Rightarrow> bool" where
  "with_store rng m0 x y \<longleftrightarrow> fst y = fst x \<and> store_view rng m0 (snd x) (snd y)"

lemma wasm_load_call_rel:
  assumes "store_view rng m0 t u"
  shows "rel_sum (=) (with_store rng m0) (wasm_load_call name f t) (wasm_load_call name f u)"
proof -
  obtain r t' s u' where eq: "wasm_run f t = (r, t')" "wasm_run f u = (s, u')" by (metis prod.collapse)
  with wasm_run_view [OF assms, of f] have "s = r" and v: "store_view rng m0 t' u'" by simp_all
  moreover from v have "ws_panicked u' = ws_panicked t'" by (simp add: store_view_def)
  ultimately show ?thesis by (cases r) (simp_all add: wasm_load_call_def eq with_store_def)
qed

lemma wasm_identity_rel:
  assumes "store_view rng m0 t u"
  shows "rel_sum (=) (with_store rng m0) (wasm_identity want_pci md t) (wasm_identity want_pci md u)"
proof (cases "if want_pci then wm_pci_identity md else None")
  case None
  then show ?thesis using assms by (auto simp: wasm_identity_def with_store_def)
next
  case (Some f)
  show ?thesis
    unfolding wasm_identity_def Some option.case
    by (rule try_bind_rel [OF wasm_load_call_rel [OF assms]]) (auto simp: with_store_def store_view_def Let_def)
qed

lemma wasm_instantiate_rel:
  assumes "agree (dma_set rng) m m'"
  shows "rel_sum (=) (store_view rng m) (wasm_instantiate md path m rng) (wasm_instantiate md path m' rng)"
proof (cases "wm_start md")
  case (Some p)
  let ?h = "\<lambda>m. \<lparr>ph_mem = m, ph_irq_pending = False\<rparr>"
  have "host_view (dma_set rng) (?h m) (?h m')" using assms by (simp add: host_view_def)
  from wasm_host.run_local [OF this, of False p] wasm_host.run_inside [of rng "?h m" False p] show ?thesis
    by (cases "run_foreign (wasm_serve rng False) p (?h m)"; cases "run_foreign (wasm_serve rng False) p (?h m')")
      (auto simp: wasm_instantiate_def Some store_view_def split: option.split)
qed (simp add: wasm_instantiate_def)

lemma wasm_spawn_rel:
  assumes "agree (dma_set rng) m m'"
  shows "rel_sum (=) (\<lambda>d e. transport_view rng m (sd_transport d) (sd_transport e) \<and> sd_identity e = sd_identity d)
    (wasm_spawn from_file path m rng want_pci) (wasm_spawn from_file path m' rng want_pci)"
proof -
  have create: "rel_sum (=) (store_view rng m)
      (case c of None \<Rightarrow> Inr st | Some f \<Rightarrow> map_sum id snd (wasm_load_call name f st))
      (case c of None \<Rightarrow> Inr su | Some f \<Rightarrow> map_sum id snd (wasm_load_call name f su))"
    if "store_view rng m st su" for c name and st su :: "'a wasm_store"
  proof (cases c)
    case (Some f)
    have "rel_sum (=) (\<lambda>x y. store_view rng m (snd x) (snd y)) (wasm_load_call name f st) (wasm_load_call name f su)"
      by (rule sum.rel_mono_strong [OF wasm_load_call_rel [OF that]]) (simp_all add: with_store_def)
    then show ?thesis by (simp add: Some sum.rel_map)
  qed (use that in simp)
  show ?thesis
    unfolding wasm_spawn_def
  proof (intro try_bind_rel_same, rule try_bind_rel [OF wasm_instantiate_rel [OF assms]], goal_cases)
    case (1 md st su)
    show ?case
    proof (cases "wm_memory md")
      case True
      have "rel_sum (=) (\<lambda>d e. transport_view rng m (sd_transport d) (sd_transport e) \<and> sd_identity e = sd_identity d)
          (try_bind (case wm_create md of None \<Rightarrow> Inr st | Some f \<Rightarrow> map_sum id snd (wasm_load_call ''hyperbug_create'' f st)) (\<lambda>st.
             try_bind (wasm_identity want_pci md st) (\<lambda>(i, st). Inr (scripted_new (k st) i))))
          (try_bind (case wm_create md of None \<Rightarrow> Inr su | Some f \<Rightarrow> map_sum id snd (wasm_load_call ''hyperbug_create'' f su)) (\<lambda>st.
             try_bind (wasm_identity want_pci md st) (\<lambda>(i, st). Inr (scripted_new (k st) i))))"
        if "store_view rng m st su" and "\<And>st. wt_store (k st) = st" and "\<And>st su. (k st)\<lparr>wt_store := su\<rparr> = k su"
        for st su and k :: "_ \<Rightarrow> 'a wasm_transport"
        using that by (intro try_bind_rel [OF create] try_bind_rel [OF wasm_identity_rel])
          (auto simp: with_store_def scripted_new_def transport_view_def intro!: exI)
      with 1 True show ?thesis
        by (simp, intro try_bind_rel_same try_bind_rel [OF wasm_load_call_rel]) (auto simp: with_store_def intro!: try_bind_rel_same)
    qed simp
  qed
qed

text \<open>The WebAssembly and sandbox wire formats of an identity differ by one tag byte.\<close>

lemma parse_pci_identity_sandboxed:
  assumes "length buf = 35"
  shows "parse_sandboxed_reply (1 # buf) = parse_pci_identity buf"
  using assms by (simp add: parse_sandboxed_reply_def parse_pci_identity_def NUM_BARS_def subslice_def drop_Cons' numeral_eq_Suc Let_def)

subsection \<open>Properties\<close>

text \<open>C35: A WebAssembly plugin is confined to its declared DMA range from its start function on, through every sequence
  of guest accesses, ticks and resets and also when a callback panics: guest memory outside the
  range keeps its contents, and two guests that differ only outside it load the plugin alike, as the
  same PCI device, and get the same answers.\<close>

theorem wasm_plugin_confined:
  assumes "agree (dma_set rng) m m'" and "wasm_spawn from_file path m rng want_pci = Inr d"
    and "device_run wasm_ops xs d = (rs, d')"
  shows "same_outside (dma_set rng) m (ph_mem (ws_host (wt_store (sd_transport d')))) \<and>
    (\<exists>e e'. wasm_spawn from_file path m' rng want_pci = Inr e \<and> sd_identity e = sd_identity d \<and> device_run wasm_ops xs e = (rs, e'))"
proof -
  obtain e where e: "wasm_spawn from_file path m' rng want_pci = Inr e" "sd_identity e = sd_identity d"
    and v: "transport_view rng m (sd_transport d) (sd_transport e)"
    using wasm_spawn_rel [OF assms(1), of from_file path want_pci] assms(2) by (auto elim: rel_sum.cases)
  obtain e' where "device_run wasm_ops xs e = (rs, e')" "transport_view rng m (sd_transport d') (sd_transport e')"
    using wasm_sim.run_sim [OF v, of xs] assms(3) by (cases "device_run wasm_ops xs e") simp
  with e show ?thesis by (auto simp: transport_view_def store_view_def)
qed

text \<open>A module whose every register write stores one byte at guest address \<open>0x108\<close> and one at \<open>0x200\<close>.\<close>

definition demo_module :: "unit wasm_module" where
  "demo_module =
     \<lparr>wm_start = Some (Finish \<lparr>wr_value = Some 0, wr_globals = (), wr_lin = replicate 8 7\<rparr>), wm_memory = True,
      wm_abi_version = Some (\<lambda>g l. Finish \<lparr>wr_value = Some 1, wr_globals = g, wr_lin = l\<rparr>),
      wm_read = Some (\<lambda>off n p g l. Finish \<lparr>wr_value = Some 0, wr_globals = g, wr_lin = l\<rparr>),
      wm_write = Some (\<lambda>off p n g l.
        Ask (W_write_mem l 0x108 0 1) (\<lambda>(c, l). Ask (W_write_mem l 0x200 0 1) (\<lambda>(c, l).
          Finish \<lparr>wr_value = Some (of_int c), wr_globals = g, wr_lin = l\<rparr>))),
      wm_tick = None, wm_reset = None, wm_pci_identity = None, wm_create = None\<rparr>"

theorem wasm_plugin_confined_witness:
  "\<exists>d rs d'. wasm_spawn (\<lambda>_. Some demo_module) ''demo'' (mem_new 0x1000) (Some (0x100, 0x10)) False = Inr d \<and>
     device_run wasm_ops [D_write 0 [42], D_read 0 1] d = (rs, d') \<and>
     mem_bytes (ph_mem (ws_host (wt_store (sd_transport d')))) 0x200 = 0"
proof -
  obtain d where d: "wasm_spawn (\<lambda>_. Some demo_module) ''demo'' (mem_new 0x1000) (Some (0x100, 0x10)) False = Inr d"
    by (simp add: wasm_spawn_def demo_module_def try_bind_def required_def wasm_instantiate_def wasm_load_call_def wasm_run_def
        wasm_identity_def PLUGIN_API_VERSION_def PLUGIN_API_MIN_SUPPORTED_def)
  obtain rs d' where r: "device_run wasm_ops [D_write 0 [42], D_read 0 1] d = (rs, d')" by (metis prod.collapse)
  have "agree (dma_set (Some (0x100, 0x10))) (mem_new 0x1000) (mem_new 0x1000)" by (simp add: agree_def)
  from wasm_plugin_confined [OF this d r] d r show ?thesis by (auto simp: same_outside_def dma_set_def mem_new_def)
qed

end
