(* ===== verification/Virtio_Blk.thy ===== *)
theory Virtio_Blk
  imports Virtio_Legacy Boot_Memory
begin

text \<open>
  The block device (\<open>src/virtio_blk.rs\<close>). The disk image is a host file: its bytes and a cursor,
  with the standard library's \<open>seek\<close>, \<open>read_exact\<close> and \<open>write_all\<close> (a read past the end is an error,
  a write past the end extends the file). Reads and writes by the host that fail for other reasons
  than the end of the file are not modelled.

  io_uring is the host's: \<open>ring_env\<close> decides whether a push and a submit succeed, \<open>blk_sq\<close> is
  the list of entries pushed so far and \<open>blk_cq\<close> the completions the host has posted. What
  the host does with an entry is not modelled; the theorems say which entries it is given.
\<close>

definition SECTOR_SIZE :: u64 where "SECTOR_SIZE = 512"
definition VIRTIO_BLK_T_IN :: u32 where "VIRTIO_BLK_T_IN = 0"
definition VIRTIO_BLK_T_OUT :: u32 where "VIRTIO_BLK_T_OUT = 1"
definition VIRTIO_BLK_T_FLUSH :: u32 where "VIRTIO_BLK_T_FLUSH = 4"
definition VIRTIO_BLK_T_DISCARD :: u32 where "VIRTIO_BLK_T_DISCARD = 11"
definition VIRTIO_BLK_T_WRITE_ZEROES :: u32 where "VIRTIO_BLK_T_WRITE_ZEROES = 13"
definition VIRTIO_BLK_S_OK :: u8 where "VIRTIO_BLK_S_OK = 0"
definition VIRTIO_BLK_S_IOERR :: u8 where "VIRTIO_BLK_S_IOERR = 1"
definition VIRTIO_BLK_S_UNSUPP :: u8 where "VIRTIO_BLK_S_UNSUPP = 2"
definition VIRTIO_BLK_F_BLK_SIZE :: u32 where "VIRTIO_BLK_F_BLK_SIZE = push_bit 6 1"
definition VIRTIO_BLK_F_DISCARD :: u32 where "VIRTIO_BLK_F_DISCARD = push_bit 13 1"
definition VIRTIO_BLK_F_WRITE_ZEROES :: u32 where "VIRTIO_BLK_F_WRITE_ZEROES = push_bit 14 1"
definition REQUEST_HEADER_LEN :: nat where "REQUEST_HEADER_LEN = 16"
definition DISCARD_SEGMENT_LEN :: nat where "DISCARD_SEGMENT_LEN = 16"
definition DISCARD_F_UNMAP :: u32 where "DISCARD_F_UNMAP = push_bit 0 1"
definition ZERO_CHUNK :: nat where "ZERO_CHUNK = 64 * 1024"

lemmas blk_types = VIRTIO_BLK_T_IN_def VIRTIO_BLK_T_OUT_def VIRTIO_BLK_T_FLUSH_def VIRTIO_BLK_T_DISCARD_def
  VIRTIO_BLK_T_WRITE_ZEROES_def
lemmas blk_status = VIRTIO_BLK_S_OK_def VIRTIO_BLK_S_IOERR_def VIRTIO_BLK_S_UNSUPP_def

subsection \<open>The host file\<close>

record host_file =
  file_bytes :: bytes
  file_pos :: nat

definition file_seek :: "nat \<Rightarrow> host_file \<Rightarrow> host_file" where
  "file_seek off f = f\<lparr>file_pos := off\<rparr>"

definition file_read_exact :: "nat \<Rightarrow> host_file \<Rightarrow> bytes option \<times> host_file" where
  "file_read_exact n f =
     (let got = take n (drop (file_pos f) (file_bytes f))
      in (then_some (length got = n) got, f\<lparr>file_pos := file_pos f + length got\<rparr>))"

definition file_write_all :: "bytes \<Rightarrow> host_file \<Rightarrow> host_file" where
  "file_write_all data f =
     (let old = file_bytes f; p = file_pos f
      in if data = [] then f
         else f\<lparr>file_bytes := take p old @ replicate (p - length old) 0 @ data @ drop (p + length data) old,
                file_pos := p + length data\<rparr>)"

subsection \<open>The device\<close>

record sqe =
  sq_read :: bool
  sq_offset :: u64
  sq_iovecs :: "(u64 \<times> u32) list"
  sq_user_data :: u64

record pending_request =
  pr_queue_idx :: u16
  pr_head_index :: u16
  pr_status_buf_addr :: u64

record blk_in_flight =
  fl_request :: pending_request
  fl_is_read :: bool

record blk_dev =
  blk_file :: host_file
  capacity_sectors :: u64
  blk_sq :: "sqe list"
  blk_cq :: "(u64 \<times> u32) list"
  next_request_id :: u64
  in_flight :: "u64 \<rightharpoonup> blk_in_flight"

record ring_env =
  push_ok :: "blk_dev \<Rightarrow> bool"
  submit_ok :: "blk_dev \<Rightarrow> bool"
  sync_ok :: "blk_dev \<Rightarrow> bool"

definition blk_open :: "bytes \<Rightarrow> blk_dev" where
  "blk_open img =
     \<lparr>blk_file = \<lparr>file_bytes = img, file_pos = 0\<rparr>, capacity_sectors = of_nat (length img) div SECTOR_SIZE,
      blk_sq = [], blk_cq = [], next_request_id = 0, in_flight = Map.empty\<rparr>"

definition blk_total_len :: "desc_buffer list \<Rightarrow> u64" where
  "blk_total_len bs = sum_list (map (\<lambda>b. ucast (buf_len b)) bs)"

definition checked_range :: "blk_dev \<Rightarrow> u64 \<Rightarrow> u64 \<Rightarrow> u64 option" where
  "checked_range d sector len =
     (case checked_mul (capacity_sectors d) SECTOR_SIZE of
        None \<Rightarrow> None
      | Some capacity_bytes \<Rightarrow>
          (case checked_mul sector SECTOR_SIZE of
             None \<Rightarrow> None
           | Some off \<Rightarrow>
               (case checked_add off len of
                  None \<Rightarrow> None
                | Some end \<Rightarrow> then_some (end \<le> capacity_bytes) off)))"

text \<open>A failed \<open>submit\<close> returns \<open>False\<close> after the push: the entry stays in the submission queue.\<close>

definition submit_io :: "ring_env \<Rightarrow> blk_dev \<Rightarrow> bool \<Rightarrow> u64 \<Rightarrow> desc_buffer list \<Rightarrow> pending_request \<Rightarrow> bool \<times> blk_dev" where
  "submit_io env d is_read sector bs req =
     (case checked_range d sector (blk_total_len bs) of
        None \<Rightarrow> (False, d)
      | Some off \<Rightarrow>
          let iovecs = map (\<lambda>b. (buf_addr b, buf_len b)) bs;
              rid = next_request_id d;
              d = d\<lparr>next_request_id := rid + 1\<rparr>;
              e = \<lparr>sq_read = is_read, sq_offset = off, sq_iovecs = iovecs, sq_user_data = rid\<rparr>
          in if \<not> push_ok env d then (False, d)
             else
               let d = d\<lparr>blk_sq := blk_sq d @ [e]\<rparr> in
               if \<not> submit_ok env d then (False, d)
               else (True, d\<lparr>in_flight := (in_flight d)(rid \<mapsto> \<lparr>fl_request = req, fl_is_read = is_read\<rparr>)\<rparr>))"

fun read_bufs :: "desc_buffer list \<Rightarrow> host_file \<Rightarrow> guest_memory \<Rightarrow> u32 \<Rightarrow> u32 option \<times> host_file \<times> guest_memory" where
  "read_bufs [] f m written = (Some written, f, m)"
| "read_bufs (b # bs) f m written =
     (case file_read_exact (unat (buf_len b)) f of
        (None, f') \<Rightarrow> (None, f', m)
      | (Some data, f') \<Rightarrow>
          (case write_checked m (buf_addr b) data of (ok, m') \<Rightarrow>
             if \<not> ok then (None, f', m') else read_bufs bs f' m' (written + buf_len b)))"

definition read_sectors :: "blk_dev \<Rightarrow> u64 \<Rightarrow> desc_buffer list \<Rightarrow> guest_memory \<Rightarrow> u32 option \<times> blk_dev \<times> guest_memory" where
  "read_sectors d sector bs m =
     (case checked_range d sector (blk_total_len bs) of
        None \<Rightarrow> (None, d, m)
      | Some off \<Rightarrow>
          (case read_bufs bs (file_seek (unat off) (blk_file d)) m 0 of
             (r, f, m') \<Rightarrow> (r, d\<lparr>blk_file := f\<rparr>, m')))"

fun write_bufs :: "desc_buffer list \<Rightarrow> guest_memory \<Rightarrow> host_file \<Rightarrow> bool \<times> host_file" where
  "write_bufs [] m f = (True, f)"
| "write_bufs (b # bs) m f =
     (case read_checked m (buf_addr b) (unat (buf_len b)) of
        None \<Rightarrow> (False, f)
      | Some data \<Rightarrow> write_bufs bs m (file_write_all data f))"

definition write_sectors :: "blk_dev \<Rightarrow> u64 \<Rightarrow> desc_buffer list \<Rightarrow> guest_memory \<Rightarrow> bool \<times> blk_dev" where
  "write_sectors d sector bs m =
     (case checked_range d sector (blk_total_len bs) of
        None \<Rightarrow> (False, d)
      | Some off \<Rightarrow>
          (case write_bufs bs m (file_seek (unat off) (blk_file d)) of (ok, f) \<Rightarrow> (ok, d\<lparr>blk_file := f\<rparr>)))"

function zero_loop :: "nat \<Rightarrow> host_file \<Rightarrow> host_file" where
  "zero_loop remaining f =
     (if 0 < remaining then
        let n = min remaining ZERO_CHUNK in zero_loop (remaining - n) (file_write_all (replicate n 0) f)
      else f)"
  by pat_completeness auto

termination
  by (relation "measure fst") (auto simp: ZERO_CHUNK_def)

declare zero_loop.simps [simp del]

definition zero_range :: "blk_dev \<Rightarrow> u64 \<Rightarrow> u64 \<Rightarrow> bool \<times> blk_dev" where
  "zero_range d sector len =
     (case checked_range d sector len of
        None \<Rightarrow> (False, d)
      | Some off \<Rightarrow>
          if len = 0 then (True, d)
          else (True, d\<lparr>blk_file := zero_loop (unat len) (file_seek (unat off) (blk_file d))\<rparr>))"

fun collect_segments :: "desc_buffer list \<Rightarrow> guest_memory \<Rightarrow> bytes \<Rightarrow> bytes option" where
  "collect_segments [] m raw = Some raw"
| "collect_segments (b # bs) m raw =
     (case read_checked m (buf_addr b) (unat (buf_len b)) of
        None \<Rightarrow> None | Some data \<Rightarrow> collect_segments bs m (raw @ data))"

text \<open>The loop over \<open>raw.as_chunks\<close>; a partial last chunk is ignored.\<close>

function zero_chunks :: "bytes \<Rightarrow> blk_dev \<Rightarrow> bool \<times> blk_dev" where
  "zero_chunks raw d =
     (if length raw < DISCARD_SEGMENT_LEN then (True, d)
      else
        let sector = of_le (subslice raw 0 8); num_sectors = of_le (subslice raw 8 4) :: u32; flags = of_le (subslice raw 12 4) :: u32
        in if flags AND NOT DISCARD_F_UNMAP \<noteq> 0 then (False, d)
           else
             (case zero_range d sector (ucast num_sectors * SECTOR_SIZE) of (ok, d') \<Rightarrow>
                if ok then zero_chunks (drop DISCARD_SEGMENT_LEN raw) d' else (False, d')))"
  by pat_completeness auto

termination
  by (relation "measure (\<lambda>(raw, d). length raw)") (auto simp: DISCARD_SEGMENT_LEN_def)

declare zero_chunks.simps [simp del]

definition zero_segments :: "blk_dev \<Rightarrow> desc_buffer list \<Rightarrow> guest_memory \<Rightarrow> bool \<times> blk_dev" where
  "zero_segments d bs m =
     (case collect_segments bs m [] of None \<Rightarrow> (False, d) | Some raw \<Rightarrow> zero_chunks raw d)"

definition handle_request ::
  "ring_env \<Rightarrow> blk_dev \<Rightarrow> u32 \<Rightarrow> u64 \<Rightarrow> desc_buffer list \<Rightarrow> guest_memory \<Rightarrow> (u8 \<times> u32) \<times> blk_dev \<times> guest_memory" where
  "handle_request env d req_type sector bs m =
     (if req_type = VIRTIO_BLK_T_IN then
        (case read_sectors d sector bs m of
           (Some n, d', m') \<Rightarrow> ((VIRTIO_BLK_S_OK, n), d', m')
         | (None, d', m') \<Rightarrow> ((VIRTIO_BLK_S_IOERR, 0), d', m'))
      else if req_type = VIRTIO_BLK_T_OUT then
        (case write_sectors d sector bs m of
           (ok, d') \<Rightarrow> ((if ok then VIRTIO_BLK_S_OK else VIRTIO_BLK_S_IOERR, 0), d', m))
      else if req_type = VIRTIO_BLK_T_FLUSH then
        ((if sync_ok env d then VIRTIO_BLK_S_OK else VIRTIO_BLK_S_IOERR, 0), d, m)
      else if req_type = VIRTIO_BLK_T_DISCARD \<or> req_type = VIRTIO_BLK_T_WRITE_ZEROES then
        (case zero_segments d bs m of
           (ok, d') \<Rightarrow> ((if ok then VIRTIO_BLK_S_OK else VIRTIO_BLK_S_IOERR, 0), d', m))
      else ((VIRTIO_BLK_S_UNSUPP, 0), d, m))"

definition blk_process_chain ::
  "ring_env \<Rightarrow> blk_dev \<Rightarrow> u16 \<Rightarrow> guest_memory \<Rightarrow> desc_chain \<Rightarrow> chain_outcome \<times> blk_dev \<times> guest_memory" where
  "blk_process_chain env d queue m chain =
     (if buffers chain = [] then (Done 0, d, m)
      else
        let status_buf = last (buffers chain); rest = butlast (buffers chain) in
        if rest = [] then (Done 0, d, m)
        else
          let header_buf = hd rest; data_buffers = tl rest in
          if device_writable header_buf \<or> \<not> device_writable status_buf then (Done 0, d, m)
          else
            (case read_checked m (buf_addr header_buf) REQUEST_HEADER_LEN of
               None \<Rightarrow> (Done 0, d, m)
             | Some header \<Rightarrow>
                 let req_type = of_le (subslice header 0 4); sector = of_le (subslice header 8 8);
                     expected_writable = (req_type = VIRTIO_BLK_T_IN);
                     direction_ok = (req_type = VIRTIO_BLK_T_FLUSH \<or> list_all (\<lambda>b. device_writable b = expected_writable) data_buffers);
                     request = \<lparr>pr_queue_idx = queue, pr_head_index = head_index chain, pr_status_buf_addr = buf_addr status_buf\<rparr>;
                     (submitted, d) =
                       (if direction_ok \<and> data_buffers \<noteq> [] \<and> (req_type = VIRTIO_BLK_T_IN \<or> req_type = VIRTIO_BLK_T_OUT)
                        then submit_io env d (req_type = VIRTIO_BLK_T_IN) sector data_buffers request else (False, d))
                 in if submitted then (Pending, d, m)
                    else
                      let ((status, written), d, m) =
                            (if \<not> direction_ok then ((VIRTIO_BLK_S_UNSUPP, 0), d, m)
                             else handle_request env d req_type sector data_buffers m);
                          (ok, m) = write_checked m (buf_addr status_buf) [status]
                      in (Done (if ok then written + 1 else written), d, m)))"

fun reap :: "(u64 \<times> u32) list \<Rightarrow> (u64 \<rightharpoonup> blk_in_flight) \<Rightarrow> completion_result list \<times> (u64 \<rightharpoonup> blk_in_flight)" where
  "reap [] fl = ([], fl)"
| "reap ((rid, res) # cqes) fl =
     (case fl rid of
        None \<Rightarrow> reap cqes fl
      | Some req \<Rightarrow>
          let (status, written) =
                (if sint res < 0 then (VIRTIO_BLK_S_IOERR, 0)
                 else if fl_is_read req then (VIRTIO_BLK_S_OK, res) else (VIRTIO_BLK_S_OK, 0));
              c = \<lparr>c_queue_idx = pr_queue_idx (fl_request req), c_head_index = pr_head_index (fl_request req),
                   c_written_len = written, c_status_byte = status, c_status_buf_addr = pr_status_buf_addr (fl_request req)\<rparr>;
              (out, fl') = reap cqes (fl(rid := None))
          in (c # out, fl'))"

definition blk_poll_completions :: "blk_dev \<Rightarrow> completion_result list \<times> blk_dev" where
  "blk_poll_completions d =
     (case reap (blk_cq d) (in_flight d) of (out, fl) \<Rightarrow> (out, d\<lparr>blk_cq := [], in_flight := fl\<rparr>))"

definition blk_config :: "blk_dev \<Rightarrow> bytes" where
  "blk_config d =
     (let c = replicate 64 0;
          whole_disk = ucast (min (capacity_sectors d) 0xffffffff) :: u32;
          c = put_at c 0 (le64 (capacity_sectors d));
          c = put_at c 20 (le32 (ucast SECTOR_SIZE));
          c = put_at c 36 (le32 whole_disk);
          c = put_at c 40 (le32 1);
          c = put_at c 44 (le32 1);
          c = put_at c 48 (le32 whole_disk);
          c = put_at c 52 (le32 1)
      in c[56 := 0])"

definition blk_read_config :: "blk_dev \<Rightarrow> u64 \<Rightarrow> nat \<Rightarrow> bytes" where
  "blk_read_config d off n = copy_config (blk_config d) off n"

definition blk_ops :: "ring_env \<Rightarrow> blk_dev device_ops" where
  "blk_ops env = \<lparr>legacy_pci_device_id = (\<lambda>_. 0x1001), virtio_device_type = (\<lambda>_. 2),
     wants_queue_notify = (\<lambda>_ _. True), pci_class_code = (\<lambda>_. 0x018000), num_queues = (\<lambda>_. 1),
     queue_size = (\<lambda>_ _. 128),
     host_features = (\<lambda>_. VIRTIO_BLK_F_BLK_SIZE OR VIRTIO_BLK_F_DISCARD OR VIRTIO_BLK_F_WRITE_ZEROES),
     read_config = blk_read_config, write_config = (\<lambda>d _ _. d), process_chain = blk_process_chain env,
     poll_completions = blk_poll_completions, take_outbox = (\<lambda>d. ([], d))\<rparr>"

subsection \<open>The file\<close>

lemma file_seek_simps [simp]: "file_bytes (file_seek p f) = file_bytes f" "file_pos (file_seek p f) = p"
  by (simp_all add: file_seek_def)

lemma file_write_all_in:
  assumes "file_pos f + length data \<le> length (file_bytes f)"
  shows "file_bytes (file_write_all data f) = put_at (file_bytes f) (file_pos f) data"
    and "file_pos (file_write_all data f) = file_pos f + length data"
  using assms by (auto simp: file_write_all_def Let_def put_at_def)

lemma put_at_Nil [simp]: "off \<le> length buf \<Longrightarrow> put_at buf off [] = buf"
  by (simp add: put_at_def)

lemma put_at_append:
  "off + length xs + length ys \<le> length buf \<Longrightarrow> put_at (put_at buf off xs) (off + length xs) ys = put_at buf off (xs @ ys)"
proof -
  assume "off + length xs + length ys \<le> length buf"
  then have "min (length buf) off = off" by simp
  then show ?thesis by (simp add: put_at_def ac_simps)
qed

lemma gather_Cons: "gather m (b # bs) = mem_read m (unat (buf_addr b)) (unat (buf_len b)) @ gather m bs"
  by (simp add: gather_def)

lemma file_read_exact_in:
  "file_pos f + n \<le> length (file_bytes f) \<Longrightarrow>
   file_read_exact n f = (Some (subslice (file_bytes f) (file_pos f) n), f\<lparr>file_pos := file_pos f + n\<rparr>)"
  by (simp add: file_read_exact_def Let_def subslice_def then_some_def)

lemma write_bufs_spec:
  assumes "list_all (buf_ok m) bs" and "file_pos f + total_len bs \<le> length (file_bytes f)"
  shows "fst (write_bufs bs m f) \<and> file_bytes (snd (write_bufs bs m f)) = put_at (file_bytes f) (file_pos f) (gather m bs)"
  using assms
proof (induction bs m f rule: write_bufs.induct)
  case (1 m f)
  then show ?case by (simp add: gather_def)
next
  case (2 b bs m f)
  let ?d = "mem_read m (unat (buf_addr b)) (unat (buf_len b))" and ?f = "file_write_all (mem_read m (unat (buf_addr b)) (unat (buf_len b))) f"
  have r: "read_checked m (buf_addr b) (unat (buf_len b)) = Some ?d"
    using 2(2) by (simp add: read_checked_eq buf_ok_def mem_fits_def)
  have w: "file_bytes ?f = put_at (file_bytes f) (file_pos f) ?d" "file_pos ?f = file_pos f + unat (buf_len b)"
    using 2(3) file_write_all_in [of f ?d] by simp_all
  have "fst (write_bufs bs m ?f) \<and> file_bytes (snd (write_bufs bs m ?f)) = put_at (file_bytes ?f) (file_pos ?f) (gather m bs)"
    using 2(2,3) by (intro 2(1) [OF r]) (simp_all add: w)
  moreover have "put_at (file_bytes ?f) (file_pos ?f) (gather m bs) = put_at (file_bytes f) (file_pos f) (gather m (b # bs))"
    using 2(3) put_at_append [of "file_pos f" ?d "gather m bs" "file_bytes f"] by (simp add: w gather_Cons)
  ultimately show ?case by (simp add: r)
qed

lemma write_bufs_length:
  "file_pos f + total_len bs \<le> length (file_bytes f) \<Longrightarrow> length (file_bytes (snd (write_bufs bs m f))) = length (file_bytes f)"
proof (induction bs m f rule: write_bufs.induct)
  case (2 b bs m f)
  show ?case
  proof (cases "read_checked m (buf_addr b) (unat (buf_len b))")
    case (Some d)
    then have l: "length d = unat (buf_len b)" by (auto simp: read_checked_eq split: if_splits)
    then have w: "file_bytes (file_write_all d f) = put_at (file_bytes f) (file_pos f) d" "file_pos (file_write_all d f) = file_pos f + unat (buf_len b)"
      using 2(2) file_write_all_in [of f d] by simp_all
    then show ?thesis using 2(1) [OF Some] 2(2) l Some by simp
  qed simp
qed simp

lemma read_bufs_spec:
  assumes "list_all (buf_ok m) bs" and "file_pos f + total_len bs \<le> length (file_bytes f)"
  shows "read_bufs bs f m w = (Some (w + sum_list (map buf_len bs)), f\<lparr>file_pos := file_pos f + total_len bs\<rparr>,
    scatter m bs (subslice (file_bytes f) (file_pos f) (total_len bs)))"
  using assms
proof (induction bs f m w rule: read_bufs.induct)
  case (1 f m w)
  then show ?case by simp
next
  case (2 b bs f m w)
  let ?n = "unat (buf_len b)" and ?f = "f\<lparr>file_pos := file_pos f + unat (buf_len b)\<rparr>"
  let ?d = "subslice (file_bytes f) (file_pos f) ?n" and ?m = "mem_write m (unat (buf_addr b)) (subslice (file_bytes f) (file_pos f) (unat (buf_len b)))"
  have r: "file_read_exact ?n f = (Some ?d, ?f)" using 2(3) by (intro file_read_exact_in) simp
  have l: "length ?d = ?n" using 2(3) by simp
  have w: "write_checked m (buf_addr b) ?d = (True, ?m)"
    using 2(2) l by (simp add: write_checked_eq buf_ok_def mem_fits_def)
  have ok: "list_all (buf_ok ?m) bs" using 2(2) buf_ok_mem_size [of ?m m] by simp
  have IH: "read_bufs bs ?f ?m (w + buf_len b) = (Some (w + buf_len b + sum_list (map buf_len bs)), ?f\<lparr>file_pos := file_pos ?f + total_len bs\<rparr>,
      scatter ?m bs (subslice (file_bytes ?f) (file_pos ?f) (total_len bs)))"
    by (rule 2(1) [OF r [symmetric] refl w [symmetric] _ ok]) (use 2(3) in simp_all)
  have "take ?n (subslice (file_bytes f) (file_pos f) (?n + total_len bs)) = ?d"
    "drop ?n (subslice (file_bytes f) (file_pos f) (?n + total_len bs)) = subslice (file_bytes f) (file_pos f + ?n) (total_len bs)"
    by (simp_all add: subslice_def min_def drop_take ac_simps)
  with IH show ?case by (simp add: r w add.assoc)
qed

lemma read_bufs_file: "read_bufs bs f m w = (r, f', m') \<Longrightarrow> file_bytes f' = file_bytes f"
proof (induction bs f m w rule: read_bufs.induct)
  case (2 b bs f m w)
  have "file_bytes (snd (file_read_exact n f)) = file_bytes f" for n by (simp add: file_read_exact_def Let_def)
  with 2 show ?case by (auto split: prod.splits option.splits if_splits) (metis snd_conv)+
qed simp

lemma read_bufs_foot:
  "read_bufs bs f m w = (r, f', m') \<Longrightarrow> same_outside (\<Union>b \<in> set bs. buf_span b) m m'"
proof (induction bs f m w rule: read_bufs.induct)
  case (2 b bs f m w)
  obtain o1 f1 where r: "file_read_exact (unat (buf_len b)) f = (o1, f1)" by (cases "file_read_exact (unat (buf_len b)) f")
  show ?case
  proof (cases o1)
    case (Some data)
    then have l: "length data = unat (buf_len b)" using r by (auto simp: file_read_exact_def Let_def)
    obtain ok m1 where w: "write_checked m (buf_addr b) data = (ok, m1)" by (cases "write_checked m (buf_addr b) data")
    have s: "same_outside (buf_span b) m m1"
      using same_outside_write_checked [of "buf_addr b" data m] w l by (simp add: buf_span_def)
    show ?thesis
    proof (cases ok)
      case True
      then have "read_bufs bs f1 m1 (w + buf_len b) = (r, f', m')" using 2(2) r Some w by simp
      then have "same_outside (\<Union>b \<in> set bs. buf_span b) m1 m'" using 2(1) [OF r [symmetric] Some w [symmetric]] True by simp
      with s show ?thesis by (simp add: same_outside_trans)
    next
      case False
      with 2(2) r Some w s show ?thesis by (auto intro: same_outside_mono)
    qed
  qed (use 2(2) r in simp)
qed simp

lemma zero_loop_spec:
  "file_pos f + n \<le> length (file_bytes f) \<Longrightarrow> file_bytes (zero_loop n f) = put_at (file_bytes f) (file_pos f) (replicate n 0)"
proof (induction n f rule: zero_loop.induct)
  case (1 n f)
  show ?case
  proof (cases "0 < n")
    case True
    let ?k = "min n ZERO_CHUNK"
    let ?f = "file_write_all (replicate ?k 0) f"
    have w: "file_bytes ?f = put_at (file_bytes f) (file_pos f) (replicate ?k 0)" "file_pos ?f = file_pos f + ?k"
      using 1(2) file_write_all_in [of f "replicate ?k 0"] by simp_all
    have "file_bytes (zero_loop (n - ?k) ?f) = put_at (file_bytes ?f) (file_pos ?f) (replicate (n - ?k) 0)"
      using 1(2) by (intro 1(1) [OF True refl]) (simp add: w)
    also have "\<dots> = put_at (file_bytes f) (file_pos f) (replicate ?k 0 @ replicate (n - ?k) 0)"
      using 1(2) put_at_append [of "file_pos f" "replicate ?k 0" "replicate (n - ?k) 0" "file_bytes f"] by (simp add: w)
    also have "replicate ?k 0 @ replicate (n - ?k) (0 :: byte) = replicate n 0" by (simp flip: replicate_add)
    finally show ?thesis using True by (subst zero_loop.simps) (simp add: Let_def)
  qed (use 1(2) in \<open>simp add: zero_loop.simps\<close>)
qed

subsection \<open>Requests\<close>

definition disk :: "blk_dev \<Rightarrow> bytes" where
  "disk d = file_bytes (blk_file d)"

text \<open>The capacity the guest sees is backed by the file.\<close>

definition blk_inv :: "blk_dev \<Rightarrow> bool" where
  "blk_inv d \<longleftrightarrow> unat (capacity_sectors d) * 512 \<le> length (disk d)"

lemma blk_inv_open: "length img < 2 ^ 64 \<Longrightarrow> blk_inv (blk_open img)"
  by (simp add: blk_inv_def blk_open_def disk_def SECTOR_SIZE_def unat_div unat_of_nat)

lemma checked_range_eq:
  "checked_range d sector len =
     (if unat (capacity_sectors d) * 512 < 2 ^ 64 \<and> unat sector * 512 + unat len \<le> unat (capacity_sectors d) * 512
      then Some (sector * 512) else None)"
proof (cases "unat (capacity_sectors d) * 512 < 2 ^ 64")
  case True
  then have c: "unat (capacity_sectors d * 512) = unat (capacity_sectors d) * 512" by (simp add: unat_word_ariths)
  show ?thesis
  proof (cases "unat sector * 512 < 2 ^ 64")
    case s: True
    then have u: "unat (sector * 512) = unat sector * 512" by (simp add: unat_word_ariths)
    show ?thesis
      using True s by (auto simp: checked_range_def checked_mul_def checked_add_def SECTOR_SIZE_def c u then_some_def
          word_le_nat_alt unat_word_ariths)
  next
    case False
    then show ?thesis using True by (auto simp: checked_range_def checked_mul_def SECTOR_SIZE_def)
  qed
qed (auto simp: checked_range_def checked_mul_def SECTOR_SIZE_def)

lemma unat_checked_range: "checked_range d sector len = Some off \<Longrightarrow>
    unat off = unat sector * 512 \<and> unat off + unat len \<le> unat (capacity_sectors d) * 512"
  by (auto simp: checked_range_eq unat_word_ariths split: if_splits)

lemma unat_blk_total_len: "total_len bs < 2 ^ 64 \<Longrightarrow> unat (blk_total_len bs) = total_len bs"
proof (induction bs)
  case (Cons b bs)
  then have "unat (blk_total_len bs) = total_len bs" by simp
  moreover have "blk_total_len (b # bs) = ucast (buf_len b) + blk_total_len bs" by (simp add: blk_total_len_def)
  ultimately show ?case using Cons.prems by (simp add: unat_word_ariths unat_simps)
qed (simp add: blk_total_len_def)

lemma range_fits:
  assumes "blk_inv d" and "checked_range d sector (blk_total_len bs) = Some off" and "total_len bs < 2 ^ 64"
  shows "unat off + total_len bs \<le> length (disk d)"
  using unat_checked_range [OF assms(2)] unat_blk_total_len [OF assms(3)] assms(1) by (simp add: blk_inv_def)

definition same_device :: "blk_dev \<Rightarrow> blk_dev \<Rightarrow> bool" where
  "same_device d d' \<longleftrightarrow> (\<exists>f. d' = d\<lparr>blk_file := f\<rparr> \<and> length (file_bytes f) = length (disk d))"

lemma same_device_refl [simp]: "same_device d d"
  by (auto simp: same_device_def disk_def intro!: exI [of _ "blk_file d"])

lemma same_device_trans: "same_device d d1 \<Longrightarrow> same_device d1 d2 \<Longrightarrow> same_device d d2"
  by (auto simp: same_device_def disk_def)

lemma same_device_inv: "same_device d d' \<Longrightarrow> blk_inv d' \<longleftrightarrow> blk_inv d"
  by (auto simp: same_device_def blk_inv_def disk_def)

lemma zero_range_exact_raw:
  assumes "blk_inv d" and "checked_range d sector len = Some off"
  shows "fst (zero_range d sector len)" and "same_device d (snd (zero_range d sector len))"
    and "disk (snd (zero_range d sector len)) = put_at (disk d) (unat sector * 512) (replicate (unat len) 0)"
proof -
  note r = unat_checked_range [OF assms(2)]
  have fit: "unat off + unat len \<le> length (disk d)" using r assms(1) by (simp add: blk_inv_def)
  then have z: "file_bytes (zero_loop (unat len) (file_seek (unat off) (blk_file d))) = put_at (disk d) (unat off) (replicate (unat len) 0)"
    using zero_loop_spec [of "file_seek (unat off) (blk_file d)" "unat len"] by (simp add: disk_def)
  show "fst (zero_range d sector len)" by (simp add: zero_range_def assms(2))
  show "disk (snd (zero_range d sector len)) = put_at (disk d) (unat sector * 512) (replicate (unat len) 0)"
    using z r fit by (auto simp: zero_range_def assms(2) disk_def)
  have "same_device d (d\<lparr>blk_file := zero_loop (unat len) (file_seek (unat off) (blk_file d))\<rparr>)"
    unfolding same_device_def by (intro exI conjI, rule refl) (use z fit in simp)
  then show "same_device d (snd (zero_range d sector len))" by (simp add: zero_range_def assms(2))
qed

lemma zero_range_same: "blk_inv d \<Longrightarrow> same_device d (snd (zero_range d sector len))"
  using zero_range_exact_raw(2) by (cases "checked_range d sector len") (simp_all add: zero_range_def)

lemma zero_chunks_same: "blk_inv d \<Longrightarrow> same_device d (snd (zero_chunks raw d))"
proof (induction raw d rule: zero_chunks.induct)
  case (1 raw d)
  let ?sec = "of_le (subslice raw 0 8)" and ?n = "of_le (subslice raw 8 4) :: u32" and ?fl = "of_le (subslice raw 12 4) :: u32"
  show ?case
  proof (cases "length raw < DISCARD_SEGMENT_LEN \<or> ?fl AND NOT DISCARD_F_UNMAP \<noteq> 0")
    case True
    then show ?thesis by (subst zero_chunks.simps) (auto simp: Let_def)
  next
    case False
    obtain ok d1 where z: "zero_range d ?sec (ucast ?n * SECTOR_SIZE) = (ok, d1)" by (cases "zero_range d ?sec (ucast ?n * SECTOR_SIZE)")
    have s: "same_device d d1" using zero_range_same [OF 1(2), of ?sec "ucast ?n * SECTOR_SIZE"] z by simp
    show ?thesis
    proof (cases ok)
      case True
      have "same_device d1 (snd (zero_chunks (drop DISCARD_SEGMENT_LEN raw) d1))"
        using False s 1(2) same_device_inv [OF s] by (intro 1(1) [OF _ refl refl refl _ z [symmetric] True]) auto
      with s False z True show ?thesis by (subst zero_chunks.simps) (simp add: Let_def same_device_trans)
    next
      case f: False
      with s False z show ?thesis by (subst zero_chunks.simps) (simp add: Let_def)
    qed
  qed
qed

lemma handle_request_same:
  assumes "blk_inv d" and "total_len bs < 2 ^ 64" and "handle_request env d ty sector bs m = (r, d', m')"
  shows "same_device d d'"
proof -
  have rd: "same_device d d1" if "read_sectors d sector bs m = (x, d1, m1)" for x d1 m1
  proof (cases "checked_range d sector (blk_total_len bs)")
    case (Some off)
    obtain o1 f1 m2 where b: "read_bufs bs (file_seek (unat off) (blk_file d)) m 0 = (o1, f1, m2)" by (cases "read_bufs bs (file_seek (unat off) (blk_file d)) m 0")
    from read_bufs_file [OF b] that Some b show ?thesis by (auto simp: read_sectors_def same_device_def disk_def)
  qed (use that in \<open>simp add: read_sectors_def\<close>)
  have wr: "same_device d d1" if "write_sectors d sector bs m = (x, d1)" for x d1
  proof (cases "checked_range d sector (blk_total_len bs)")
    case (Some off)
    have "unat off + total_len bs \<le> length (disk d)" by (rule range_fits [OF assms(1) Some assms(2)])
    then have "length (file_bytes (snd (write_bufs bs m (file_seek (unat off) (blk_file d))))) = length (disk d)"
      using write_bufs_length [of "file_seek (unat off) (blk_file d)" bs m] by (simp add: disk_def)
    with that Some show ?thesis by (auto simp: write_sectors_def same_device_def split: prod.splits)
  qed (use that in \<open>simp add: write_sectors_def\<close>)
  have "same_device d d1" if "zero_segments d bs m = (x, d1)" for x d1
    using that zero_chunks_same [OF assms(1)] by (auto simp: zero_segments_def split: option.splits) (metis snd_conv)
  with rd wr assms(3) show ?thesis
    by (auto simp: handle_request_def split: if_splits prod.splits option.splits)
qed

lemma handle_request_foot:
  assumes "handle_request env d ty sector bs m = (r, d', m')"
  shows "same_outside (if ty = VIRTIO_BLK_T_IN then \<Union>b \<in> set bs. buf_span b else {}) m m'"
  using assms read_bufs_foot
  by (fastforce simp: handle_request_def read_sectors_def split: if_splits prod.splits option.splits)

text \<open>A device may write the writable buffers, and the status byte even into an empty status buffer.\<close>

definition blk_foot :: "u16 \<Rightarrow> desc_chain \<Rightarrow> nat set" where
  "blk_foot q c = (\<Union>b \<in> {b \<in> set (buffers c). device_writable b}. span (buf_addr b) (max 1 (unat (buf_len b))))"

text \<open>How a chain is served: dropped, handed to io_uring, or answered at once.\<close>

lemma blk_process_cases:
  assumes "blk_process_chain env d q m c = (out, d', m')"
  obtains (dropped) "out = Done 0" and "d' = d" and "m' = m"
  | (queued) hdr data status rd where "buffers c = hdr # data @ [status]" and "out = Pending" and "m' = m"
      and "submit_io env d rd (of_le (subslice (mem_read m (unat (buf_addr hdr)) 16) 8 8)) data
        \<lparr>pr_queue_idx = q, pr_head_index = head_index c, pr_status_buf_addr = buf_addr status\<rparr> = (True, d')"
      and "list_all (\<lambda>b. device_writable b = rd) data"
  | (served) hdr data status d1 m1 ty sector st w where "buffers c = hdr # data @ [status]" and "device_writable status"
      and "d1 = d \<or> (\<exists>rd req. submit_io env d rd sector data req = (False, d1))"
      and "(st, w) = (VIRTIO_BLK_S_UNSUPP, 0) \<and> d' = d1 \<and> m1 = m \<or>
           (ty = VIRTIO_BLK_T_IN \<longrightarrow> list_all device_writable data) \<and> handle_request env d1 ty sector data m = ((st, w), d', m1)"
      and "m' = snd (write_checked m1 (buf_addr status) [st])" and "out \<noteq> Pending"
proof (cases "buffers c = [] \<or> butlast (buffers c) = []")
  case True
  then have "blk_process_chain env d q m c = (Done 0, d, m)"
    by (cases "buffers c = []") (simp_all add: blk_process_chain_def Let_def)
  with assms dropped show thesis by simp
next
  case False
  define status where "status = last (buffers c)"
  define hdr where "hdr = hd (butlast (buffers c))"
  define data where "data = tl (butlast (buffers c))"
  have b: "buffers c = hdr # data @ [status]"
    using False by (simp add: hdr_def data_def status_def flip: append_Cons)
  show thesis
  proof (cases "device_writable hdr \<or> \<not> device_writable status \<or> read_checked m (buf_addr hdr) 16 = None")
    case True
    then show thesis using assms b dropped
      by (auto simp: blk_process_chain_def Let_def REQUEST_HEADER_LEN_def split: option.splits)
  next
    case ok: False
    then obtain h where h: "read_checked m (buf_addr hdr) 16 = Some h" "device_writable status" "\<not> device_writable hdr" by auto
    then have h': "h = mem_read m (unat (buf_addr hdr)) 16" by (auto simp: read_checked_eq split: if_splits)
    let ?ty = "of_le (subslice h 0 4) :: u32" and ?sec = "of_le (subslice h 8 8) :: u64"
    let ?dir = "?ty = VIRTIO_BLK_T_FLUSH \<or> list_all (\<lambda>b. device_writable b = (?ty = VIRTIO_BLK_T_IN)) data"
    let ?req = "\<lparr>pr_queue_idx = q, pr_head_index = head_index c, pr_status_buf_addr = buf_addr status\<rparr>"
    let ?go = "?dir \<and> data \<noteq> [] \<and> (?ty = VIRTIO_BLK_T_IN \<or> ?ty = VIRTIO_BLK_T_OUT)"
    obtain sub d1 where sub: "(if ?go then submit_io env d (?ty = VIRTIO_BLK_T_IN) ?sec data ?req else (False, d)) = (sub, d1)"
      by (cases "if ?go then submit_io env d (?ty = VIRTIO_BLK_T_IN) ?sec data ?req else (False, d)")
    show thesis
    proof (cases sub)
      case True
      with sub have s: "submit_io env d (?ty = VIRTIO_BLK_T_IN) ?sec data ?req = (True, d1)" "?go" by (auto split: if_splits)
      have out: "out = Pending" "m' = m" "d' = d1"
        using assms b h s True by (auto simp: blk_process_chain_def Let_def REQUEST_HEADER_LEN_def)
      have w: "list_all (\<lambda>b. device_writable b = (?ty = VIRTIO_BLK_T_IN)) data" using s(2) by (auto simp: blk_types)
      show thesis
        by (rule queued [of hdr data status "?ty = VIRTIO_BLK_T_IN", OF b])
          (use out s w h' in simp_all)
    next
      case False
      define res where "res = (if \<not> ?dir then ((VIRTIO_BLK_S_UNSUPP, 0), d1, m) else handle_request env d1 ?ty ?sec data m)"
      obtain st w d2 m1 where r: "res = ((st, w), d2, m1)" by (metis prod.collapse)
      have o: "d' = d2" "m' = snd (write_checked m1 (buf_addr status) [st])" "out \<noteq> Pending"
        using assms b h sub False r by (auto simp: blk_process_chain_def Let_def REQUEST_HEADER_LEN_def res_def split: prod.splits if_splits)
      have d1: "d1 = d \<or> (\<exists>rd req. submit_io env d rd ?sec data req = (False, d1))" using sub False by (auto split: if_splits)
      have "(st, w) = (VIRTIO_BLK_S_UNSUPP, 0) \<and> d' = d1 \<and> m1 = m \<or>
           (?ty = VIRTIO_BLK_T_IN \<longrightarrow> list_all device_writable data) \<and> handle_request env d1 ?ty ?sec data m = ((st, w), d', m1)"
        using r o(1) unfolding res_def by (auto simp: blk_types split: if_splits)
      from served [OF b h(2) d1 this o(2,3)] show thesis .
    qed
  qed
qed

lemma blk_confined: "blk_process_chain env d q m c = (out, d', m') \<Longrightarrow> same_outside (blk_foot q c) m m'"
proof (erule blk_process_cases)
  fix hdr data status d1 m1 ty sector st w
  assume b: "buffers c = hdr # data @ [status]" and st: "device_writable status"
    and r: "(st, w) = (VIRTIO_BLK_S_UNSUPP, 0) \<and> d' = d1 \<and> m1 = m \<or>
      (ty = VIRTIO_BLK_T_IN \<longrightarrow> list_all device_writable data) \<and> handle_request env d1 ty sector data m = ((st, w), d', m1)"
    and m': "m' = snd (write_checked m1 (buf_addr status) [st])"
  have d: "(\<Union>b \<in> set data. buf_span b) \<subseteq> blk_foot q c" if "list_all device_writable data"
    using that by (fastforce simp: blk_foot_def b buf_span_def span_def list_all_iff)
  have m1: "same_outside (blk_foot q c) m m1"
    using r handle_request_foot [of env d1 ty sector data m "(st, w)" d' m1] d by (auto split: if_splits intro: same_outside_mono)
  have "span (buf_addr status) (length [st]) \<subseteq> blk_foot q c" using st by (fastforce simp: blk_foot_def b span_def)
  with same_outside_write_checked [of "buf_addr status" "[st]" m1] have "same_outside (blk_foot q c) m1 m'"
    unfolding m' by (rule same_outside_mono)
  with m1 show ?thesis by (rule same_outside_step)
qed simp_all

interpretation blk: virtio_device "blk_ops env" blk_foot for env
  by unfold_locales (auto simp: blk_ops_def intro: blk_confined)

lemma submit_io_effect:
  assumes "submit_io env d rd sector bs req = (ok, d')"
  shows "blk_file d' = blk_file d" and "capacity_sectors d' = capacity_sectors d"
    and "\<exists>es. blk_sq d' = blk_sq d @ es \<and> (\<forall>e \<in> set es. sq_read e = rd \<and> sq_iovecs e = map (\<lambda>b. (buf_addr b, buf_len b)) bs \<and>
      checked_range d sector (blk_total_len bs) = Some (sq_offset e))"
  using assms by (auto simp: submit_io_def Let_def split: option.splits if_splits)

text \<open>Reaping answers every in-flight request that completed once, however often the host reports it.\<close>

lemma reap_once:
  assumes "finite (dom fl)"
  shows "snd (reap cqes fl) = fl |` (- (fst ` set cqes))" and "length (fst (reap cqes fl)) = card (dom fl \<inter> fst ` set cqes)"
proof -
  have "snd (reap cqes fl) = fl |` (- (fst ` set cqes)) \<and> length (fst (reap cqes fl)) = card (dom fl \<inter> fst ` set cqes)"
    using assms
  proof (induction cqes fl rule: reap.induct)
    case (2 rid res cqes fl)
    show ?case
    proof (cases "fl rid")
      case None
      then have "dom fl \<inter> fst ` set ((rid, res) # cqes) = dom fl \<inter> fst ` set cqes" by auto
      with 2(1) [OF None 2(3)] None show ?thesis by (auto simp: restrict_map_def)
    next
      case (Some req)
      obtain out fl' where r: "reap cqes (fl(rid := None)) = (out, fl')" by (metis prod.collapse)
      have fin: "finite (dom (fl(rid := None)))" using 2(3) by simp
      have IH: "fl' = (fl(rid := None)) |` (- (fst ` set cqes))" "length out = card (dom (fl(rid := None)) \<inter> fst ` set cqes)"
        using 2(2) [OF Some refl surjective_pairing [symmetric] refl fin] unfolding r fst_conv snd_conv by blast+
      have "dom fl \<inter> fst ` set ((rid, res) # cqes) = insert rid (dom (fl(rid := None)) \<inter> fst ` set cqes)"
        using Some by auto
      moreover have "finite (dom (fl(rid := None)) \<inter> fst ` set cqes)" by simp
      ultimately have "length (fst (reap ((rid, res) # cqes) fl)) = card (dom fl \<inter> fst ` set ((rid, res) # cqes))"
        using Some r IH(2) by (simp split: prod.split)
      moreover have "snd (reap ((rid, res) # cqes) fl) = fl'" using Some r by (simp split: prod.split)
      ultimately show ?thesis using IH(1) by (auto simp: restrict_map_def)
    qed
  qed (simp add: restrict_map_def)
  then show "snd (reap cqes fl) = fl |` (- (fst ` set cqes))" and "length (fst (reap cqes fl)) = card (dom fl \<inter> fst ` set cqes)"
    by simp_all
qed

subsection \<open>Properties\<close>

text \<open>What an entry handed to the host may touch: bytes of the image below the capacity and guest memory.\<close>

definition sqe_in_bounds :: "blk_dev \<Rightarrow> guest_memory \<Rightarrow> sqe \<Rightarrow> bool" where
  "sqe_in_bounds d m e \<longleftrightarrow>
     unat (sq_offset e) + sum_list (map (\<lambda>(a, n). unat n) (sq_iovecs e)) \<le> unat (capacity_sectors d) * 512 \<and>
     (\<forall>(a, n) \<in> set (sq_iovecs e). unat a + unat n \<le> unat (mem_size m))"

text \<open>C29: Whatever request the guest posts, the disk image keeps its size and the device its capacity, and every
  entry handed to io_uring reads or writes only bytes of the image below that capacity and of guest
  memory; a request that is queued has touched neither the disk nor guest memory yet.\<close>

theorem blk_disk_safe:
  assumes "blk_inv d" and "list_all (buf_ok m) (buffers c)" and "total_len (buffers c) \<le> unat (mem_size m)"
    and "blk_process_chain env d q m c = (out, d', m')"
  shows "length (disk d') = length (disk d) \<and> capacity_sectors d' = capacity_sectors d \<and> blk_inv d' \<and>
    (\<exists>es. blk_sq d' = blk_sq d @ es \<and> (\<forall>e \<in> set es. sqe_in_bounds d m e)) \<and> (out = Pending \<longrightarrow> m' = m \<and> disk d' = disk d)"
proof -
  have es: "\<exists>es. blk_sq d1 = blk_sq d @ es \<and> (\<forall>e \<in> set es. sqe_in_bounds d m e)"
    if "submit_io env d rd sector data req = (ok, d1)" "buffers c = hdr # data @ [status]" for rd sector data req ok d1 hdr status
  proof -
    have "total_len data < 2 ^ 64" using that(2) assms(3) unat_lt_pow [of "mem_size m"] by simp
    then have "unat (blk_total_len data) = total_len data" by (rule unat_blk_total_len)
    moreover have "sum_list (map (\<lambda>(a, n). unat n) (map (\<lambda>b. (buf_addr b, buf_len b)) data)) = total_len data"
      by (induction data) simp_all
    moreover have "list_all (buf_ok m) data" using assms(2) that(2) by simp
    ultimately show ?thesis using submit_io_effect(3) [OF that(1)]
      by (fastforce simp: sqe_in_bounds_def buf_ok_def mem_fits_def list_all_iff dest: unat_checked_range)
  qed
  from assms(4) show ?thesis
  proof (cases rule: blk_process_cases)
    case dropped
    then show ?thesis using assms(1) by simp
  next
    case (queued hdr data status rd)
    from es [OF queued(4,1)] submit_io_effect [OF queued(4)] queued(3) assms(1) show ?thesis
      by (simp add: blk_inv_def disk_def)
  next
    case (served hdr data status d1 m1 ty sector st w)
    have t: "total_len data < 2 ^ 64" using served(1) assms(3) unat_lt_pow [of "mem_size m"] by simp
    have 1: "disk d1 = disk d" "capacity_sectors d1 = capacity_sectors d" "\<exists>es. blk_sq d1 = blk_sq d @ es \<and> (\<forall>e \<in> set es. sqe_in_bounds d m e)"
      using served(3) es [OF _ served(1)] submit_io_effect by (auto simp: disk_def)
    then have "blk_inv d1" using assms(1) by (simp add: blk_inv_def)
    then have "same_device d1 d'" using served(4) handle_request_same [OF _ t] by auto
    then have "length (disk d') = length (disk d1)" "capacity_sectors d' = capacity_sectors d1" "blk_sq d' = blk_sq d1"
      by (auto simp: same_device_def disk_def)
    then show ?thesis using 1 assms(1) served(6) by (simp add: blk_inv_def)
  qed
qed

text \<open>A disk of four sectors, a guest of 4096 zero bytes and a read request for sector 0.\<close>

definition demo_blk :: blk_dev where
  "demo_blk = blk_open (replicate 2048 7)"

definition demo_env :: "bool \<Rightarrow> ring_env" where
  "demo_env submits = \<lparr>push_ok = (\<lambda>_. True), submit_ok = (\<lambda>_. submits), sync_ok = (\<lambda>_. True)\<rparr>"

definition demo_blk_chain :: desc_chain where
  "demo_blk_chain = \<lparr>head_index = 0, buffers =
     [\<lparr>buf_addr = 0, buf_len = 16, device_writable = False\<rparr>, \<lparr>buf_addr = 0x100, buf_len = 512, device_writable = True\<rparr>,
      \<lparr>buf_addr = 0x800, buf_len = 1, device_writable = True\<rparr>]\<rparr>"

lemma demo_blk_facts [simp]:
  "capacity_sectors demo_blk = 4" "blk_sq demo_blk = []" "disk demo_blk = replicate 2048 7" "blk_inv demo_blk"
  "in_flight demo_blk = Map.empty" "next_request_id demo_blk = 0"
  by (simp_all add: demo_blk_def blk_open_def SECTOR_SIZE_def disk_def blk_inv_def)

lemma demo_range: "checked_range demo_blk 0 (blk_total_len [\<lparr>buf_addr = 0x100, buf_len = 512, device_writable = True\<rparr>]) = Some 0"
  by (simp add: checked_range_eq blk_total_len_def)

lemma demo_blk_chain_ok:
  "list_all (buf_ok (mem_new 0x1000)) (buffers demo_blk_chain) \<and> total_len (buffers demo_blk_chain) \<le> unat (mem_size (mem_new 0x1000))"
  by (simp add: demo_blk_chain_def buf_ok_def mem_fits_def mem_new_def)

theorem blk_disk_safe_witness:
  "\<exists>out d' m'. blk_process_chain (demo_env True) demo_blk 0 (mem_new 0x1000) demo_blk_chain = (out, d', m') \<and>
    length (disk d') = 2048 \<and> (\<exists>es. blk_sq d' = es \<and> (\<forall>e \<in> set es. sqe_in_bounds demo_blk (mem_new 0x1000) e))"
proof -
  obtain out d' m' where p: "blk_process_chain (demo_env True) demo_blk 0 (mem_new 0x1000) demo_blk_chain = (out, d', m')"
    by (metis prod.collapse)
  from blk_disk_safe [OF _ _ _ p] demo_blk_chain_ok p show ?thesis by auto
qed

text \<open>A block write followed by a block read of the same sectors, into buffers that do not overlap,
  both succeed and give the guest the bytes it wrote, however the two requests cut them into
  buffers; the write changes exactly those bytes of the image.\<close>

lemma blk_write_read_roundtrip:
  assumes "blk_inv d" and "unat (capacity_sectors d) * 512 < 2 ^ 64"
    and "unat sector * 512 + total_len out_bufs \<le> unat (capacity_sectors d) * 512" and "total_len in_bufs = total_len out_bufs"
    and "list_all (buf_ok m) out_bufs" and "list_all (buf_ok m) in_bufs" and "bufs_disjoint in_bufs"
  shows "\<exists>d1 d2 m2 n. handle_request env d VIRTIO_BLK_T_OUT sector out_bufs m = ((VIRTIO_BLK_S_OK, 0), d1, m) \<and>
    disk d1 = put_at (disk d) (unat sector * 512) (gather m out_bufs) \<and>
    handle_request env d1 VIRTIO_BLK_T_IN sector in_bufs m = ((VIRTIO_BLK_S_OK, n), d2, m2) \<and>
    disk d2 = disk d1 \<and> gather m2 in_bufs = gather m out_bufs"
proof -
  let ?o = "unat sector * 512" and ?data = "gather m out_bufs"
  have t: "total_len out_bufs < 2 ^ 64" using assms(2,3) by simp
  have off: "unat (sector * 512) = ?o" using assms(2,3) by (simp add: unat_word_ariths)
  have cr: "checked_range d' sector (blk_total_len bs) = Some (sector * 512)"
    if "capacity_sectors d' = capacity_sectors d" "total_len bs = total_len out_bufs" for d' bs
    using assms(2,3) t that by (simp add: checked_range_eq unat_blk_total_len)
  have fit: "?o + total_len out_bufs \<le> length (disk d)" using assms(1,3) by (simp add: blk_inv_def)
  obtain ok f where w: "write_bufs out_bufs m (file_seek ?o (blk_file d)) = (ok, f)" by (metis prod.collapse)
  have f: "ok" "file_bytes f = put_at (disk d) ?o ?data"
    using write_bufs_spec [OF assms(5), of "file_seek ?o (blk_file d)"] fit w by (simp_all add: disk_def)
  define d1 where "d1 = d\<lparr>blk_file := f\<rparr>"
  have out: "handle_request env d VIRTIO_BLK_T_OUT sector out_bufs m = ((VIRTIO_BLK_S_OK, 0), d1, m)"
    using f(1) by (simp add: handle_request_def blk_types write_sectors_def cr off w d1_def)
  have d1: "disk d1 = put_at (disk d) ?o ?data" "capacity_sectors d1 = capacity_sectors d"
    using f(2) by (simp_all add: d1_def disk_def)
  have sub: "subslice (disk d1) ?o (total_len in_bufs) = ?data"
    using fit unfolding d1 assms(4) by (intro subslice_put_at_same) simp_all
  have l: "?o + total_len in_bufs \<le> length (disk d1)" using fit assms(4) by (simp add: d1)
  let ?m2 = "scatter m in_bufs ?data" and ?d2 = "d1\<lparr>blk_file := f\<lparr>file_pos := ?o + total_len in_bufs\<rparr>\<rparr>"
  have "read_bufs in_bufs (file_seek ?o (blk_file d1)) m 0 =
      (Some (sum_list (map buf_len in_bufs)), f\<lparr>file_pos := ?o + total_len in_bufs\<rparr>, ?m2)"
    using read_bufs_spec [OF assms(6), of "file_seek ?o (blk_file d1)" 0] l sub by (simp add: disk_def d1_def file_seek_def)
  then have inn: "handle_request env d1 VIRTIO_BLK_T_IN sector in_bufs m = ((VIRTIO_BLK_S_OK, sum_list (map buf_len in_bufs)), ?d2, ?m2)"
    using assms(4) by (simp add: handle_request_def blk_types read_sectors_def cr d1(2) off)
  have "gather ?m2 in_bufs = ?data" using gather_scatter [OF assms(7), of ?data m] assms(4) by simp
  with out d1(1) inn show ?thesis by (auto simp: disk_def d1_def)
qed

lemma blk_write_read_roundtrip_example:
  "\<exists>d1 d2 m2 n. handle_request (demo_env True) demo_blk VIRTIO_BLK_T_OUT 1 (tl (buffers demo_blk_chain)) (mem_new 0x1000) =
      ((VIRTIO_BLK_S_OK, 0), d1, mem_new 0x1000) \<and>
    handle_request (demo_env True) d1 VIRTIO_BLK_T_IN 1 (tl (buffers demo_blk_chain)) (mem_new 0x1000) = ((VIRTIO_BLK_S_OK, n), d2, m2) \<and>
    gather m2 (tl (buffers demo_blk_chain)) = gather (mem_new 0x1000) (tl (buffers demo_blk_chain))"
proof -
  have "bufs_disjoint (tl (buffers demo_blk_chain))" by (simp add: demo_blk_chain_def buf_span_def span_def)
  with blk_write_read_roundtrip [of demo_blk 1 "tl (buffers demo_blk_chain)" "tl (buffers demo_blk_chain)" "mem_new 0x1000" "demo_env True"]
    demo_blk_chain_ok show ?thesis by (auto simp: demo_blk_chain_def)
qed

text \<open>When io_uring accepts an entry but \<open>submit\<close> fails, the request is served synchronously and finished, yet
  the entry stays in the submission queue: it names buffers that have been given back to the
  guest, and no in-flight record keeps its vector of pointers alive or will match its completion.\<close>

lemma blk_failed_submit_orphans_entry:
  assumes "buffers c = hdr # data @ [status]" and "data \<noteq> []" and "\<not> device_writable hdr" and "device_writable status"
    and "list_all device_writable data" and "read_checked m (buf_addr hdr) 16 = Some h"
    and "of_le (subslice h 0 4) = VIRTIO_BLK_T_IN" and "checked_range d (of_le (subslice h 8 8)) (blk_total_len data) = Some off"
    and "\<forall>d. push_ok env d" and "\<forall>d. \<not> submit_ok env d"
  shows "\<exists>n d' m'. blk_process_chain env d q m c = (Done n, d', m') \<and> in_flight d' = in_flight d \<and>
    blk_sq d' = blk_sq d @ [\<lparr>sq_read = True, sq_offset = off, sq_iovecs = map (\<lambda>b. (buf_addr b, buf_len b)) data,
      sq_user_data = next_request_id d\<rparr>]"
proof -
  let ?e = "\<lparr>sq_read = True, sq_offset = off, sq_iovecs = map (\<lambda>b. (buf_addr b, buf_len b)) data, sq_user_data = next_request_id d\<rparr>"
  let ?sec = "of_le (subslice h 8 8) :: u64"
  define d1 where "d1 = d\<lparr>next_request_id := next_request_id d + 1, blk_sq := blk_sq d @ [?e]\<rparr>"
  have s: "submit_io env d True ?sec data req = (False, d1)" for req
    using assms(8-10) by (simp add: submit_io_def Let_def d1_def)
  obtain r d2 m2 where h: "handle_request env d1 VIRTIO_BLK_T_IN ?sec data m = (r, d2, m2)" by (metis prod.collapse)
  have "\<exists>f. d2 = d1\<lparr>blk_file := f\<rparr>"
    using h by (auto simp: handle_request_def blk_types read_sectors_def split: option.splits prod.splits intro: exI [of _ "blk_file d1"])
  then have "in_flight d2 = in_flight d" "blk_sq d2 = blk_sq d @ [?e]" by (auto simp: d1_def)
  moreover have "\<exists>n m'. blk_process_chain env d q m c = (Done n, d2, m')"
    using assms(1-7) s h by (cases r) (simp add: blk_process_chain_def Let_def REQUEST_HEADER_LEN_def split: prod.split)
  ultimately show ?thesis by blast
qed

lemma blk_failed_submit_orphans_entry_example:
  "\<exists>n d' m'. blk_process_chain (demo_env False) demo_blk 0 (mem_new 0x1000) demo_blk_chain = (Done n, d', m') \<and>
    in_flight d' = Map.empty \<and> blk_sq d' = [\<lparr>sq_read = True, sq_offset = 0, sq_iovecs = [(0x100, 512)], sq_user_data = 0\<rparr>]"
proof -
  have h: "read_checked (mem_new 0x1000) 0 16 = Some (replicate 16 0)"
    by (simp add: read_checked_eq mem_fits_def mem_new_def mem_read_def map_replicate_const)
  have z: "of_le (replicate n (0 :: byte)) = (0 :: 'a::len word)" for n by (induction n) (simp_all add: of_le_def)
  show ?thesis
    using blk_failed_submit_orphans_entry [of demo_blk_chain "\<lparr>buf_addr = 0, buf_len = 16, device_writable = False\<rparr>"
        "[\<lparr>buf_addr = 0x100, buf_len = 512, device_writable = True\<rparr>]" "\<lparr>buf_addr = 0x800, buf_len = 1, device_writable = True\<rparr>"
        "mem_new 0x1000" "replicate 16 0" demo_blk 0 "demo_env False" 0] demo_range h z
    by (simp add: demo_blk_chain_def subslice_def demo_env_def blk_types)
qed

end
