(* ===== verification/Virtio_Vsock.thy ===== *)
theory Virtio_Vsock
  imports Virtio_Modern
begin

text \<open>
  The socket device: the packet format and credit accounting of \<open>src/vsock.rs\<close> and the device of
  \<open>src/virtio_vsock.rs\<close>, which bridges guest streams to a Unix socket of the host.

  The bridge thread is behind two channels: \<open>bridge_cmds\<close> is what the device has sent it, in order,
  \<open>bridge_events\<close> what has arrived from it and is not drained yet. Parameters stand for the host: whether
  a \<open>connect\<close> succeeds, and the order in which the hash map of streams is traversed, which
  the language leaves open (\<open>order_ok\<close>: every key once).
\<close>

definition HDR_LEN :: nat where "HDR_LEN = 44"
definition TYPE_STREAM :: u16 where "TYPE_STREAM = 1"
definition OP_REQUEST :: u16 where "OP_REQUEST = 1"
definition OP_RESPONSE :: u16 where "OP_RESPONSE = 2"
definition OP_RST :: u16 where "OP_RST = 3"
definition OP_SHUTDOWN :: u16 where "OP_SHUTDOWN = 4"
definition OP_RW :: u16 where "OP_RW = 5"
definition OP_CREDIT_UPDATE :: u16 where "OP_CREDIT_UPDATE = 6"
definition OP_CREDIT_REQUEST :: u16 where "OP_CREDIT_REQUEST = 7"
definition SHUTDOWN_RCV :: u32 where "SHUTDOWN_RCV = 1"
definition SHUTDOWN_SEND :: u32 where "SHUTDOWN_SEND = 2"
definition MY_BUF_ALLOC :: u32 where "MY_BUF_ALLOC = 256 * 1024"
definition HOST_CID :: u64 where "HOST_CID = 2"
definition GUEST_CID :: u64 where "GUEST_CID = 3"
definition MAX_RW_CHUNK :: nat where "MAX_RW_CHUNK = 3800"
definition VSOCK_RX_QUEUE :: u16 where "VSOCK_RX_QUEUE = 0"
definition VSOCK_TX_QUEUE :: u16 where "VSOCK_TX_QUEUE = 1"
definition VSOCK_EVENT_QUEUE :: u16 where "VSOCK_EVENT_QUEUE = 2"

lemmas vsock_ops_defs = OP_REQUEST_def OP_RESPONSE_def OP_RST_def OP_SHUTDOWN_def OP_RW_def OP_CREDIT_UPDATE_def OP_CREDIT_REQUEST_def

subsection \<open>Packets\<close>

record packet =
  src_cid :: u64
  dst_cid :: u64
  src_port :: u32
  dst_port :: u32
  pkt_op :: u16
  pkt_flags :: u32
  buf_alloc :: u32
  pkt_fwd_cnt :: u32
  payload :: bytes

definition packet_parse :: "bytes \<Rightarrow> packet option" where
  "packet_parse raw =
     (if length raw < HDR_LEN then None
      else
        let len = unat (of_le (subslice raw 24 4) :: u32)
        in Some \<lparr>src_cid = of_le (subslice raw 0 8), dst_cid = of_le (subslice raw 8 8),
             src_port = of_le (subslice raw 16 4), dst_port = of_le (subslice raw 20 4),
             pkt_op = of_le (subslice raw 30 2), pkt_flags = of_le (subslice raw 32 4),
             buf_alloc = of_le (subslice raw 36 4), pkt_fwd_cnt = of_le (subslice raw 40 4),
             payload = subslice raw HDR_LEN (min len (length raw - HDR_LEN))\<rparr>)"

definition to_bytes :: "packet \<Rightarrow> bytes" where
  "to_bytes p =
     le64 (src_cid p) @ le64 (dst_cid p) @ le32 (src_port p) @ le32 (dst_port p) @
     le32 (of_nat (length (payload p))) @ le16 TYPE_STREAM @ le16 (pkt_op p) @ le32 (pkt_flags p) @
     le32 (buf_alloc p) @ le32 (pkt_fwd_cnt p) @ payload p"

record stream_state =
  tx_cnt :: u32
  fwd_cnt :: u32
  peer_buf_alloc :: u32
  peer_fwd_cnt :: u32
  pending_send :: bytes

definition stream_default :: stream_state where
  "stream_default = \<lparr>tx_cnt = 0, fwd_cnt = 0, peer_buf_alloc = 0, peer_fwd_cnt = 0, pending_send = []\<rparr>"

definition peer_has_space :: "stream_state \<Rightarrow> u32" where
  "peer_has_space s = (let fl = tx_cnt s - peer_fwd_cnt s in if fl \<le> peer_buf_alloc s then peer_buf_alloc s - fl else 0)"

definition observe_peer_credit :: "packet \<Rightarrow> stream_state \<Rightarrow> stream_state" where
  "observe_peer_credit p s = s\<lparr>peer_buf_alloc := buf_alloc p, peer_fwd_cnt := pkt_fwd_cnt p\<rparr>"

definition control_packet :: "u16 \<Rightarrow> u32 \<Rightarrow> u32 \<Rightarrow> u64 \<Rightarrow> u32 \<Rightarrow> stream_state \<Rightarrow> packet" where
  "control_packet opc flags our_port peer_cid peer_port st =
     \<lparr>src_cid = HOST_CID, dst_cid = peer_cid, src_port = our_port, dst_port = peer_port, pkt_op = opc, pkt_flags = flags,
      buf_alloc = MY_BUF_ALLOC, pkt_fwd_cnt = fwd_cnt st, payload = []\<rparr>"

definition stream_key :: "u32 \<Rightarrow> u32 \<Rightarrow> u64" where
  "stream_key a b = push_bit 32 (ucast a) OR ucast b"

definition split_key :: "u64 \<Rightarrow> u32 \<times> u32" where
  "split_key key = (ucast (drop_bit 32 key), ucast key)"

subsection \<open>The device\<close>

datatype bridge_cmd = Add_existing u64 | Bridge_write u64 bytes | Bridge_close u64

datatype bridge_event = Bridge_data u64 bytes | Bridge_closed u64

record vsock_dev =
  streams :: "u64 \<rightharpoonup> stream_state"
  outbox :: "bytes list"
  bridge_cmds :: "bridge_cmd list"
  bridge_events :: "bridge_event list"

record vsock_env =
  connect_ok :: "vsock_dev \<Rightarrow> bool"
  key_order :: "(u64 \<rightharpoonup> stream_state) \<Rightarrow> u64 list"

definition vsock_new :: vsock_dev where
  "vsock_new = \<lparr>streams = Map.empty, outbox = [], bridge_cmds = [], bridge_events = []\<rparr>"

definition bridge_send :: "bridge_cmd \<Rightarrow> vsock_dev \<Rightarrow> vsock_dev" where
  "bridge_send cmd d = d\<lparr>bridge_cmds := bridge_cmds d @ [cmd]\<rparr>"

definition push_reply :: "u16 \<Rightarrow> u32 \<Rightarrow> u32 \<Rightarrow> u64 \<Rightarrow> u32 \<Rightarrow> stream_state \<Rightarrow> vsock_dev \<Rightarrow> vsock_dev" where
  "push_reply opc flags our_port peer_cid peer_port st d =
     d\<lparr>outbox := outbox d @ [to_bytes (control_packet opc flags our_port peer_cid peer_port st)]\<rparr>"

definition handle_guest_packet :: "vsock_env \<Rightarrow> packet \<Rightarrow> vsock_dev \<Rightarrow> vsock_dev" where
  "handle_guest_packet env p d =
     (let key = stream_key (src_port p) (dst_port p);
          reply = (\<lambda>opc st. push_reply opc 0 (dst_port p) (src_cid p) (src_port p) st)
      in
      if pkt_op p = OP_REQUEST then
        let st = observe_peer_credit p stream_default in
        if connect_ok env d then
          (let d = reply OP_RESPONSE st (bridge_send (Add_existing key) d) in d\<lparr>streams := (streams d)(key \<mapsto> st)\<rparr>)
        else reply OP_RST st d
      else if pkt_op p = OP_RW then
        (case streams d key of
           None \<Rightarrow> d
         | Some st \<Rightarrow>
             let st = observe_peer_credit p st;
                 st = st\<lparr>fwd_cnt := fwd_cnt st + of_nat (length (payload p))\<rparr>
             in bridge_send (Bridge_write key (payload p)) (d\<lparr>streams := (streams d)(key \<mapsto> st)\<rparr>))
      else if pkt_op p = OP_CREDIT_UPDATE then
        (case streams d key of
           None \<Rightarrow> d | Some st \<Rightarrow> d\<lparr>streams := (streams d)(key \<mapsto> observe_peer_credit p st)\<rparr>)
      else if pkt_op p = OP_CREDIT_REQUEST then
        (case streams d key of
           None \<Rightarrow> d | Some st \<Rightarrow> reply OP_CREDIT_UPDATE (st\<lparr>pending_send := []\<rparr>) d)
      else if pkt_op p = OP_SHUTDOWN then
        (if pkt_flags p AND (SHUTDOWN_RCV OR SHUTDOWN_SEND) = SHUTDOWN_RCV OR SHUTDOWN_SEND then
           (case streams d key of
              None \<Rightarrow> d
            | Some st \<Rightarrow> reply OP_RST st (bridge_send (Bridge_close key) (d\<lparr>streams := (streams d)(key := None)\<rparr>)))
         else d)
      else if pkt_op p = OP_RST then
        (case streams d key of
           None \<Rightarrow> d | Some st \<Rightarrow> bridge_send (Bridge_close key) (d\<lparr>streams := (streams d)(key := None)\<rparr>))
      else d)"

fun take_event :: "bridge_event \<Rightarrow> vsock_dev \<Rightarrow> vsock_dev" where
  "take_event (Bridge_data key data) d =
     (case streams d key of
        None \<Rightarrow> d
      | Some st \<Rightarrow> d\<lparr>streams := (streams d)(key \<mapsto> st\<lparr>pending_send := pending_send st @ data\<rparr>)\<rparr>)"
| "take_event (Bridge_closed key) d =
     (case streams d key of
        None \<Rightarrow> d
      | Some st \<Rightarrow>
          (case split_key key of (their_port, our_port) \<Rightarrow>
             d\<lparr>streams := (streams d)(key := None),
               outbox := outbox d @ [to_bytes (control_packet OP_RST 0 our_port GUEST_CID their_port stream_default)]\<rparr>))"

definition rw_packet :: "u64 \<Rightarrow> stream_state \<Rightarrow> bytes \<Rightarrow> packet" where
  "rw_packet key st chunk =
     (case split_key key of (their_port, our_port) \<Rightarrow>
        \<lparr>src_cid = HOST_CID, dst_cid = GUEST_CID, src_port = our_port, dst_port = their_port, pkt_op = OP_RW, pkt_flags = 0,
         buf_alloc = MY_BUF_ALLOC, pkt_fwd_cnt = fwd_cnt st, payload = chunk\<rparr>)"

text \<open>The inner loop of \<open>drain_bridge_events\<close>: cut the pending bytes into packets while the peer has room.\<close>

function flush_stream :: "u64 \<Rightarrow> stream_state \<Rightarrow> packet list \<times> stream_state" where
  "flush_stream key st =
     (let room = unat (min (peer_has_space st) (of_nat MAX_RW_CHUNK)) in
      if pending_send st = [] \<or> room = 0 then ([], st)
      else
        let chunk = take room (pending_send st);
            st = st\<lparr>pending_send := drop room (pending_send st), tx_cnt := tx_cnt st + of_nat (length chunk)\<rparr>
        in (case flush_stream key st of (ps, st') \<Rightarrow> (rw_packet key st chunk # ps, st')))"
  by pat_completeness auto

termination
  by (relation "measure (\<lambda>(key, st). length (pending_send st))") auto

declare flush_stream.simps [simp del]

fun flush_all :: "u64 list \<Rightarrow> (u64 \<rightharpoonup> stream_state) \<Rightarrow> packet list \<times> (u64 \<rightharpoonup> stream_state)" where
  "flush_all [] m = ([], m)"
| "flush_all (k # ks) m =
     (case m k of
        None \<Rightarrow> flush_all ks m
      | Some st \<Rightarrow>
          (case flush_stream k st of (ps, st') \<Rightarrow>
             (case flush_all ks (m(k \<mapsto> st')) of (qs, m') \<Rightarrow> (ps @ qs, m'))))"

definition drain_bridge_events :: "vsock_env \<Rightarrow> vsock_dev \<Rightarrow> bytes list \<times> vsock_dev" where
  "drain_bridge_events env d =
     (let d = fold take_event (bridge_events d) (d\<lparr>bridge_events := []\<rparr>);
          out = outbox d
      in (case flush_all (key_order env (streams d)) (streams d) of (ps, m) \<Rightarrow>
            (out @ map to_bytes ps, d\<lparr>outbox := [], streams := m\<rparr>)))"

fun vsock_collect :: "guest_memory \<Rightarrow> desc_buffer list \<Rightarrow> bytes" where
  "vsock_collect m [] = []"
| "vsock_collect m (b # bs) =
     (if device_writable b then []
      else (case read_checked m (buf_addr b) (unat (buf_len b)) of None \<Rightarrow> [] | Some d \<Rightarrow> d)) @ vsock_collect m bs"

definition vsock_process_chain ::
  "vsock_env \<Rightarrow> vsock_dev \<Rightarrow> u16 \<Rightarrow> guest_memory \<Rightarrow> desc_chain \<Rightarrow> chain_outcome \<times> vsock_dev \<times> guest_memory" where
  "vsock_process_chain env d queue m chain =
     (if queue \<noteq> VSOCK_TX_QUEUE then (Done 0, d, m)
      else
        let raw = vsock_collect m (buffers chain) in
        (Done (of_nat (length raw)),
         case packet_parse raw of None \<Rightarrow> d | Some p \<Rightarrow> handle_guest_packet env p d, m))"

definition vsock_take_outbox :: "vsock_dev \<Rightarrow> (u16 \<times> bytes) list \<times> vsock_dev" where
  "vsock_take_outbox d = (map (Pair VSOCK_RX_QUEUE) (outbox d), d\<lparr>outbox := []\<rparr>)"

definition vsock_ops :: "vsock_env \<Rightarrow> vsock_dev device_ops" where
  "vsock_ops env = \<lparr>legacy_pci_device_id = (\<lambda>_. 0), virtio_device_type = (\<lambda>_. 19),
     wants_queue_notify = (\<lambda>_ q. q \<noteq> VSOCK_RX_QUEUE \<and> q \<noteq> VSOCK_EVENT_QUEUE), pci_class_code = (\<lambda>_. 0x020000),
     num_queues = (\<lambda>_. 3), queue_size = (\<lambda>_ _. 64), host_features = (\<lambda>_. 0),
     read_config = (\<lambda>_. copy_config (le64 GUEST_CID)), write_config = (\<lambda>d _ _. d),
     process_chain = vsock_process_chain env, poll_completions = (\<lambda>d. ([], d)), take_outbox = vsock_take_outbox\<rparr>"

interpretation vsock: virtio_device "vsock_ops env" "\<lambda>_ _. {}" for env
  by unfold_locales (auto simp: vsock_ops_def vsock_process_chain_def Let_def split: if_splits)

subsection \<open>Packets and keys\<close>

lemma length_to_bytes [simp]: "length (to_bytes p) = HDR_LEN + length (payload p)"
  by (simp add: to_bytes_def HDR_LEN_def)

lemma packet_parse_to_bytes:
  assumes "length (payload p) < 2 ^ 32"
  shows "packet_parse (to_bytes p @ rest) = Some p"
proof -
  let ?h = "to_bytes p @ rest"
  have f: "subslice ?h 0 8 = le64 (src_cid p)" "subslice ?h 8 8 = le64 (dst_cid p)" "subslice ?h 16 4 = le32 (src_port p)"
    "subslice ?h 20 4 = le32 (dst_port p)" "subslice ?h 24 4 = le32 (of_nat (length (payload p)))"
    "subslice ?h 30 2 = le16 (pkt_op p)" "subslice ?h 32 4 = le32 (pkt_flags p)" "subslice ?h 36 4 = le32 (buf_alloc p)"
    "subslice ?h 40 4 = le32 (pkt_fwd_cnt p)" "subslice ?h 44 (length (payload p)) = payload p"
    by (simp_all add: subslice_def to_bytes_def)
  have "unat (of_nat (length (payload p)) :: u32) = length (payload p)" using assms by (simp add: unat_of_nat)
  then show ?thesis by (simp add: packet_parse_def f HDR_LEN_def Let_def)
qed

lemma split_stream_key [simp]: "split_key (stream_key a b) = (a, b)"
proof -
  have "ucast (drop_bit 32 (push_bit 32 (ucast a) OR ucast b :: u64)) = a" "ucast (push_bit 32 (ucast a) OR ucast b :: u64) = b"
    by (rule bit_word_eqI, auto simp: bit_simps dest: bit_imp_le_length)+
  then show ?thesis by (simp add: split_key_def stream_key_def)
qed

lemma stream_key_split [simp]: "stream_key (fst (split_key k)) (snd (split_key k)) = k"
proof -
  have "push_bit 32 (ucast (ucast (drop_bit 32 k) :: u32)) OR ucast (ucast k :: u32) = k"
    by (rule bit_word_eqI) (auto simp: bit_simps)
  then show ?thesis by (simp add: split_key_def stream_key_def)
qed

subsection \<open>Flow control\<close>

text \<open>Sending \<open>n\<close> bytes that fit takes exactly \<open>n\<close> from the room, also when \<open>tx_cnt\<close> wraps around.\<close>

lemma space_after_send:
  assumes "n \<le> unat (peer_has_space st)"
  shows "unat (peer_has_space (st\<lparr>pending_send := x, tx_cnt := tx_cnt st + of_nat n\<rparr>)) = unat (peer_has_space st) - n"
proof -
  let ?f = "tx_cnt st - peer_fwd_cnt st" and ?A = "peer_buf_alloc st"
  have n: "n < 2 ^ 32" using assms unat_lt_pow [of "peer_has_space st"] by simp
  have e: "tx_cnt st + of_nat n - peer_fwd_cnt st = ?f + of_nat n" by simp
  show ?thesis
  proof (cases "?f \<le> ?A")
    case True
    then have sp: "unat (peer_has_space st) = unat ?A - unat ?f" by (simp add: peer_has_space_def Let_def unat_sub)
    then have "unat ?f + n \<le> unat ?A" using assms True by (simp add: word_le_nat_alt)
    moreover from this have "unat ?f + n < 2 ^ 32" using unat_lt_pow [of ?A] by simp
    ultimately have u: "unat (?f + of_nat n) = unat ?f + n" using n by (simp add: unat_word_ariths unat_of_nat)
    then have "?f + of_nat n \<le> ?A" using \<open>unat ?f + n \<le> unat ?A\<close> by (simp add: word_le_nat_alt)
    then show ?thesis using sp u by (simp add: peer_has_space_def Let_def e unat_sub)
  next
    case False
    then have "peer_has_space st = 0" by (simp add: peer_has_space_def Let_def)
    with assms have "n = 0" by simp
    with False show ?thesis by (simp add: peer_has_space_def Let_def)
  qed
qed

lemma unat_room: "unat (min (peer_has_space st) (of_nat MAX_RW_CHUNK)) = min (unat (peer_has_space st)) 3800"
  by (simp add: min_def MAX_RW_CHUNK_def word_le_nat_alt)

definition sent :: "packet list \<Rightarrow> bytes" where
  "sent ps = concat (map payload ps)"

lemma rw_packet_simps [simp]:
  "payload (rw_packet key st x) = x" "pkt_op (rw_packet key st x) = OP_RW"
  "stream_key (dst_port (rw_packet key st x)) (src_port (rw_packet key st x)) = key"
  "rw_packet key (st\<lparr>pending_send := a, tx_cnt := b\<rparr>) = rw_packet key st"
  by (simp_all add: rw_packet_def split_beta fun_eq_iff)

lemma flush_stream_spec:
  "flush_stream key st = (ps, st') \<Longrightarrow>
     sent ps @ pending_send st' = pending_send st \<and> length (sent ps) \<le> unat (peer_has_space st) \<and>
     (pending_send st' = [] \<or> peer_has_space st' = 0) \<and>
     st' = st\<lparr>pending_send := pending_send st', tx_cnt := tx_cnt st + of_nat (length (sent ps))\<rparr> \<and>
     (\<forall>p \<in> set ps. payload p \<noteq> [] \<and> length (payload p) \<le> 3800 \<and> p = rw_packet key st (payload p))"
proof (induction key st arbitrary: ps st' rule: flush_stream.induct)
  case (1 key st)
  define room where "room = unat (min (peer_has_space st) (of_nat MAX_RW_CHUNK))"
  have room: "room = min (unat (peer_has_space st)) 3800" unfolding room_def by (rule unat_room)
  show ?case
  proof (cases "pending_send st = [] \<or> room = 0")
    case True
    then have "ps = []" "st' = st" using "1.prems" unfolding room_def by (subst (asm) flush_stream.simps, simp add: Let_def)+
    moreover from True have "pending_send st = [] \<or> peer_has_space st = 0" using room by (auto simp: min_def unsigned_eq_0_iff split: if_splits)
    ultimately show ?thesis by (simp add: sent_def)
  next
    case False
    let ?chunk = "take room (pending_send st)"
    let ?st = "st\<lparr>pending_send := drop room (pending_send st), tx_cnt := tx_cnt st + of_nat (length ?chunk)\<rparr>"
    obtain qs where f: "flush_stream key ?st = (qs, st')" and ps: "ps = rw_packet key ?st ?chunk # qs"
      using "1.prems" False unfolding room_def by (subst (asm) (2) flush_stream.simps) (auto simp: Let_def split: prod.splits)
    have c: "length ?chunk \<le> unat (peer_has_space st)" using room by simp
    note sp = space_after_send [OF c, of "drop room (pending_send st)"]
    have IH: "sent qs @ pending_send st' = pending_send ?st \<and> length (sent qs) \<le> unat (peer_has_space ?st) \<and>
     (pending_send st' = [] \<or> peer_has_space st' = 0) \<and>
     st' = ?st\<lparr>pending_send := pending_send st', tx_cnt := tx_cnt ?st + of_nat (length (sent qs))\<rparr> \<and>
     (\<forall>p \<in> set qs. payload p \<noteq> [] \<and> length (payload p) \<le> 3800 \<and> p = rw_packet key ?st (payload p))"
      using False "1.IH" [OF room_def _ refl refl] f by simp
    have s: "sent ps = ?chunk @ sent qs" by (simp add: ps sent_def)
    have "\<forall>p \<in> set ps. payload p \<noteq> [] \<and> length (payload p) \<le> 3800 \<and> p = rw_packet key st (payload p)"
      using IH False room by (auto simp: ps)
    moreover have "sent ps @ pending_send st' = pending_send st" using IH by (simp add: s)
    moreover have "length (sent ps) \<le> unat (peer_has_space st)"
    proof -
      have "length (sent qs) \<le> unat (peer_has_space st) - length ?chunk" using IH unfolding sp by blast
      with c show ?thesis unfolding s by simp
    qed
    moreover have "st' = st\<lparr>pending_send := pending_send st', tx_cnt := tx_cnt st + of_nat (length (sent ps))\<rparr>"
      using IH by (cases st') (simp add: s)
    ultimately show ?thesis using IH by blast
  qed
qed

text \<open>What the guest, parsing the packets it is handed, receives on a stream.\<close>

definition guest_view :: "u64 \<Rightarrow> bytes list \<Rightarrow> bytes" where
  "guest_view key out =
     concat (map (\<lambda>b. case packet_parse b of
        None \<Rightarrow> [] | Some p \<Rightarrow> if pkt_op p = OP_RW \<and> stream_key (dst_port p) (src_port p) = key then payload p else []) out)"

lemma guest_view_append [simp]: "guest_view key (xs @ ys) = guest_view key xs @ guest_view key ys"
  by (simp add: guest_view_def)

lemma guest_view_flush:
  assumes "\<forall>p \<in> set ps. length (payload p) \<le> 3800 \<and> p = rw_packet k st (payload p)"
  shows "guest_view key (map to_bytes ps) = (if key = k then sent ps else [])"
  using assms
proof (induction ps)
  case (Cons p ps)
  then have p: "p = rw_packet k st (payload p)" "length (payload p) < 2 ^ 32" by auto
  have "packet_parse (to_bytes p) = Some p" using packet_parse_to_bytes [OF p(2), of "[]"] by simp
  moreover have "pkt_op p = OP_RW" "stream_key (dst_port p) (src_port p) = k"
    using rw_packet_simps(2,3) [of k st "payload p"] by (simp_all flip: p(1))
  ultimately show ?case using Cons by (simp add: guest_view_def sent_def)
qed (simp add: guest_view_def sent_def)

text \<open>What a drain does to one stream, whatever the traversal order.\<close>

lemma flush_all_stream:
  assumes "flush_all ks m = (ps, m')" and "distinct ks" and "m key = Some st"
  shows "if key \<in> set ks
    then \<exists>qs. flush_stream key st = (qs, the (m' key)) \<and> m' key \<noteq> None \<and> guest_view key (map to_bytes ps) = sent qs
    else m' key = Some st \<and> guest_view key (map to_bytes ps) = []"
  using assms
proof (induction ks m arbitrary: ps m' st rule: flush_all.induct)
  case (1 m)
  then show ?case by (simp add: guest_view_def)
next
  case (2 k ks m)
  show ?case
  proof (cases "m k")
    case None
    then show ?thesis using 2(1) [OF None] 2(3-) by auto
  next
    case (Some s)
    obtain p1 s1 where f: "flush_stream k s = (p1, s1)" by (cases "flush_stream k s")
    obtain p2 where g: "flush_all ks (m(k \<mapsto> s1)) = (p2, m')" and ps: "ps = p1 @ p2"
      using 2(3) Some f by (auto split: prod.splits)
    have v: "guest_view key (map to_bytes p1) = (if key = k then sent p1 else [])"
      using flush_stream_spec [OF f] by (intro guest_view_flush [where st = s]) blast
    show ?thesis
    proof (cases "key = k")
      case True
      have "(m(k \<mapsto> s1)) key = Some s1" using True by simp
      from 2(2) [OF Some f [symmetric] g _ this] True 2(4)
      have "m' key = Some s1 \<and> guest_view key (map to_bytes p2) = []" by simp
      with True v f Some 2(5) ps show ?thesis by simp
    next
      case False
      then have "(m(k \<mapsto> s1)) key = Some st" using 2(5) by simp
      from 2(2) [OF Some f [symmetric] g _ this] False 2(4) v ps show ?thesis by (simp del: not_None_eq)
    qed
  qed
qed

subsection \<open>The device between two drains\<close>

definition order_ok :: "vsock_env \<Rightarrow> bool" where
  "order_ok env \<longleftrightarrow> (\<forall>m. finite (dom m) \<longrightarrow> distinct (key_order env m) \<and> set (key_order env m) = dom m)"

text \<open>The outbox holds control packets only; the stream table is finite.\<close>

definition vsock_inv :: "vsock_dev \<Rightarrow> bool" where
  "vsock_inv d \<longleftrightarrow> finite (dom (streams d)) \<and>
     (\<forall>b \<in> set (outbox d). \<exists>p. b = to_bytes p \<and> payload p = [] \<and> pkt_op p \<noteq> OP_RW)"

lemma vsock_inv_new: "vsock_inv vsock_new"
  by (simp add: vsock_inv_def vsock_new_def)

lemma vsock_inv_simps [simp]:
  "vsock_inv d \<Longrightarrow> finite (dom m) \<Longrightarrow> vsock_inv (d\<lparr>streams := m\<rparr>)"
  "vsock_inv d \<Longrightarrow> finite (dom (streams d))"
  "vsock_inv (bridge_send cmd d) \<longleftrightarrow> vsock_inv d"
  "vsock_inv (d\<lparr>bridge_events := evs\<rparr>) \<longleftrightarrow> vsock_inv d"
  by (auto simp: vsock_inv_def bridge_send_def)

lemma vsock_inv_reply: "vsock_inv d \<Longrightarrow> opc \<noteq> OP_RW \<Longrightarrow> vsock_inv (push_reply opc fl a b c st d)"
  by (auto simp: vsock_inv_def push_reply_def control_packet_def)

lemma streams_reply [simp]: "streams (push_reply opc fl a b c st d) = streams d" "streams (bridge_send cmd d) = streams d"
  by (simp_all add: push_reply_def bridge_send_def)

lemma handle_guest_packet_inv: "vsock_inv d \<Longrightarrow> vsock_inv (handle_guest_packet env p d)"
  by (auto simp: handle_guest_packet_def Let_def vsock_inv_reply vsock_ops_defs split: option.split)

lemma take_event_inv: "vsock_inv d \<Longrightarrow> vsock_inv (take_event e d)"
proof (cases e)
  case (Bridge_closed key)
  assume "vsock_inv d"
  moreover have "OP_RST \<noteq> OP_RW" by (simp add: vsock_ops_defs)
  ultimately show ?thesis using Bridge_closed by (auto simp: vsock_inv_def control_packet_def split: option.split prod.split)
qed (auto split: option.split)

lemma fold_take_event_inv: "vsock_inv d \<Longrightarrow> vsock_inv (fold take_event evs d)"
  by (induction evs arbitrary: d) (simp_all add: take_event_inv)

fun data_for :: "u64 \<Rightarrow> bridge_event list \<Rightarrow> bytes" where
  "data_for key [] = []"
| "data_for key (Bridge_data k data # evs) = (if k = key then data else []) @ data_for key evs"
| "data_for key (Bridge_closed k # evs) = data_for key evs"

lemma fold_take_event_stream:
  "streams d key = Some st \<Longrightarrow> Bridge_closed key \<notin> set evs \<Longrightarrow>
   streams (fold take_event evs d) key = Some (st\<lparr>pending_send := pending_send st @ data_for key evs\<rparr>)"
proof (induction evs arbitrary: d st)
  case (Cons e evs)
  show ?case
  proof (cases e)
    case (Bridge_data k data)
    show ?thesis
    proof (cases "k = key")
      case True
      then have "streams (take_event e d) key = Some (st\<lparr>pending_send := pending_send st @ data\<rparr>)"
        using Cons.prems(1) Bridge_data by simp
      from Cons.IH [OF this] Cons.prems(2) Bridge_data True show ?thesis by simp
    next
      case False
      then have "streams (take_event e d) key = Some st" using Cons.prems(1) Bridge_data by (auto split: option.split)
      from Cons.IH [OF this] Cons.prems(2) Bridge_data False show ?thesis by simp
    qed
  next
    case (Bridge_closed k)
    then have "streams (take_event e d) key = Some st" using Cons.prems by (auto split: option.split prod.split)
    from Cons.IH [OF this] Cons.prems(2) Bridge_closed show ?thesis by simp
  qed
qed simp

lemma guest_view_control: "vsock_inv d \<Longrightarrow> guest_view key (outbox d) = []"
proof -
  assume "vsock_inv d"
  then have "\<forall>b \<in> set (outbox d). guest_view key [b] = []"
    using packet_parse_to_bytes [where rest = "[]"] by (fastforce simp: vsock_inv_def guest_view_def)
  then show ?thesis by (induction "outbox d" rule: list.induct) (auto simp: guest_view_def)
qed

subsection \<open>Properties\<close>

text \<open>Packets round-trip: a serialised packet parses back to itself, also with bytes behind it.\<close>

lemma vsock_packet_roundtrip:
  assumes "length (payload p) < 2 ^ 32"
  shows "packet_parse (to_bytes p @ rest) = Some p"
  using assms by (rule packet_parse_to_bytes)

text \<open>A drain flushes each open stream, with what the bridge delivered for it appended.\<close>

lemma drain_flushes_stream:
  assumes "order_ok env" and "vsock_inv d" and "streams d key = Some st" and "Bridge_closed key \<notin> set (bridge_events d)"
    and "drain_bridge_events env d = (out, d')"
  shows "\<exists>qs st'. flush_stream key (st\<lparr>pending_send := pending_send st @ data_for key (bridge_events d)\<rparr>) = (qs, st') \<and>
    streams d' key = Some st' \<and> guest_view key out = sent qs"
proof -
  define d1 where "d1 = fold take_event (bridge_events d) (d\<lparr>bridge_events := []\<rparr>)"
  let ?st = "st\<lparr>pending_send := pending_send st @ data_for key (bridge_events d)\<rparr>"
  have inv: "vsock_inv d1" unfolding d1_def using assms(2) by (intro fold_take_event_inv) simp
  have s: "streams d1 key = Some ?st" unfolding d1_def using assms(3,4) by (intro fold_take_event_stream) simp_all
  obtain ps m where f: "flush_all (key_order env (streams d1)) (streams d1) = (ps, m)" by (metis prod.collapse)
  have out: "out = outbox d1 @ map to_bytes ps" "streams d' = m"
    using assms(5) f by (auto simp: drain_bridge_events_def Let_def d1_def)
  have "finite (dom (streams d1))" using inv by (simp add: vsock_inv_def)
  then have o: "distinct (key_order env (streams d1))" "key \<in> set (key_order env (streams d1))"
    using assms(1) s by (auto simp: order_ok_def)
  from flush_all_stream [OF f o(1) s] o(2) obtain qs where
    q: "flush_stream key ?st = (qs, the (m key))" "m key \<noteq> None" "guest_view key (map to_bytes ps) = sent qs" by auto
  then show ?thesis by (auto simp: out guest_view_control [OF inv])
qed

lemma flush_stream_shrinks: "length (pending_send (snd (flush_stream key st))) \<le> length (pending_send st)"
proof (induction key st rule: flush_stream.induct)
  case (1 key st)
  show ?case by (subst flush_stream.simps) (use 1 in \<open>fastforce simp: Let_def split: prod.split\<close>)
qed

lemma flush_stream_progress:
  assumes "pending_send st \<noteq> []" and "peer_has_space st \<noteq> 0"
  shows "length (pending_send (snd (flush_stream key st))) < length (pending_send st)"
proof -
  let ?room = "unat (min (peer_has_space st) (of_nat MAX_RW_CHUNK))"
  have room: "?room \<noteq> 0" using assms(2) by (simp add: MAX_RW_CHUNK_def min_def unat_eq_zero)
  let ?st = "st\<lparr>pending_send := drop ?room (pending_send st), tx_cnt := tx_cnt st + of_nat (length (take ?room (pending_send st)))\<rparr>"
  have "pending_send (snd (flush_stream key st)) = pending_send (snd (flush_stream key ?st))"
    using assms(1) room by (subst flush_stream.simps) (simp add: Let_def split: prod.split)
  also have "length \<dots> \<le> length (pending_send ?st)" by (rule flush_stream_shrinks)
  also have "\<dots> < length (pending_send st)" using assms(1) room by simp
  finally show ?thesis .
qed


text \<open>C37: A drain of the bridge moves a stream's bytes without loss, duplication or reordering and within the
  peer's credit: what the guest receives on an open stream followed by what stays pending is what was
  pending followed by what the bridge delivered; at most the peer's free space is sent, and
  bytes stay pending only when that space is used up.\<close>

theorem vsock_drain_stream:
  assumes "order_ok env" and "vsock_inv d" and "streams d key = Some st" and "Bridge_closed key \<notin> set (bridge_events d)"
    and "drain_bridge_events env d = (out, d')"
  shows "\<exists>st'. streams d' key = Some st' \<and>
    guest_view key out @ pending_send st' = pending_send st @ data_for key (bridge_events d) \<and>
    length (guest_view key out) \<le> unat (peer_has_space st) \<and> (pending_send st' = [] \<or> peer_has_space st' = 0)"
proof -
  let ?st = "st\<lparr>pending_send := pending_send st @ data_for key (bridge_events d)\<rparr>"
  obtain qs st' where q: "flush_stream key ?st = (qs, st')" "streams d' key = Some st'" "guest_view key out = sent qs"
    using drain_flushes_stream [OF assms] by auto
  have "peer_has_space ?st = peer_has_space st" by (simp add: peer_has_space_def Let_def)
  with flush_stream_spec [OF q(1)] q(2,3) show ?thesis by auto
qed

definition demo_vsock_env :: vsock_env where
  "demo_vsock_env = \<lparr>connect_ok = (\<lambda>_. True), key_order = (\<lambda>m. sorted_list_of_set (dom m))\<rparr>"

definition demo_vsock :: "bytes \<Rightarrow> vsock_dev" where
  "demo_vsock data = vsock_new\<lparr>streams := [5 \<mapsto> stream_default\<lparr>peer_buf_alloc := 4\<rparr>], bridge_events := [Bridge_data 5 data]\<rparr>"

lemma demo_order_ok: "order_ok demo_vsock_env"
  by (simp add: order_ok_def demo_vsock_env_def)

lemma demo_vsock_inv: "vsock_inv (demo_vsock data)"
  by (simp add: demo_vsock_def vsock_new_def vsock_inv_def)

theorem vsock_drain_stream_witness:
  "\<exists>out d' st'. drain_bridge_events demo_vsock_env (demo_vsock [1, 2, 3, 4, 5, 6]) = (out, d') \<and> streams d' 5 = Some st' \<and>
    guest_view 5 out @ pending_send st' = [1, 2, 3, 4, 5, 6] \<and> length (guest_view 5 out) \<le> 4"
proof -
  obtain out d' where x: "drain_bridge_events demo_vsock_env (demo_vsock [1, 2, 3, 4, 5, 6]) = (out, d')" by (metis prod.collapse)
  have s: "streams (demo_vsock [1, 2, 3, 4, 5, 6]) 5 = Some (stream_default\<lparr>peer_buf_alloc := 4\<rparr>)" by (simp add: demo_vsock_def)
  show ?thesis
    using vsock_drain_stream [OF demo_order_ok demo_vsock_inv s _ x] x
    by (auto simp: demo_vsock_def stream_default_def peer_has_space_def)
qed

text \<open>A credit update does not resume a stream: however many bytes are pending and however much room the guest
  has announced, handling the packet queues nothing for the guest, so that pending bytes wait
  for the next event of the bridge, which may never come.\<close>

lemma vsock_credit_update_stalls:
  assumes "streams d key = Some st" and "pkt_op p = OP_CREDIT_UPDATE" and "key = stream_key (src_port p) (dst_port p)"
    and "outbox d = []"
  shows "streams (handle_guest_packet env p d) key = Some (observe_peer_credit p st) \<and>
    vsock_take_outbox (handle_guest_packet env p d) = ([], handle_guest_packet env p d) \<and>
    bridge_cmds (handle_guest_packet env p d) = bridge_cmds d"
  using assms by (auto simp: handle_guest_packet_def Let_def vsock_ops_defs vsock_take_outbox_def)

lemma vsock_credit_update_stalls_example:
  "\<exists>d p. pending_send (the (streams d 5)) = [1, 2] \<and> peer_has_space (the (streams (handle_guest_packet demo_vsock_env p d) 5)) = 9 \<and>
     vsock_take_outbox (handle_guest_packet demo_vsock_env p d) = ([], handle_guest_packet demo_vsock_env p d)"
proof -
  let ?st = "stream_default\<lparr>pending_send := [1, 2]\<rparr>"
  let ?d = "vsock_new\<lparr>streams := [5 \<mapsto> ?st]\<rparr>"
  let ?p = "(control_packet OP_CREDIT_UPDATE 0 0 3 5 stream_default)\<lparr>buf_alloc := 9\<rparr>"
  have k: "5 = stream_key (src_port ?p) (dst_port ?p)" by (simp add: control_packet_def stream_key_def)
  have "streams ?d 5 = Some ?st" "outbox ?d = []" "pkt_op ?p = OP_CREDIT_UPDATE" by (simp_all add: vsock_new_def control_packet_def)
  note t = vsock_credit_update_stalls [OF this(1,3) k this(2), of demo_vsock_env]
  have "peer_has_space (observe_peer_credit ?p ?st) = 9"
    by (simp add: control_packet_def stream_default_def observe_peer_credit_def peer_has_space_def)
  with t have "peer_has_space (the (streams (handle_guest_packet demo_vsock_env ?p ?d) 5)) = 9" by simp
  with t show ?thesis by (intro exI [of _ ?d] exI [of _ ?p] conjI) (simp_all add: stream_default_def)
qed

end
