(* ===== verification/Machine_Build.thy ===== *)
theory Machine_Build
  imports Vcpu_Dispatch Plugin_Transports Launch_Config Virtio_Blk Virtio_Net Virtio_Rng Virtio_Vsock
begin

text \<open>
  Assembling the machine (\<open>src/machine.rs\<close>): every device the arguments ask for is loaded or
  created, put on its bus or PCI slot and given an interrupt line. With \<open>Vcpu_Dispatch\<close> this
  makes the devices of the other theories one running machine: \<open>machine_table\<close> is the device table
  of the exit handlers.

  The host is the record \<open>host_env\<close>: files, foreign code, TAP, sockets, the ioctls of an irqfd. All
  foreign code has states of one type \<open>'s\<close>. A shared handle \<open>Arc<Mutex<..>>\<close> is the index of the device in the list
  of allocated devices. Guest memory is one and is handed to a plugin for the time of a call;
  what a sandboxed child does to it on its own is a step of the environment.
\<close>

definition SLOT_HOST_BRIDGE :: u8 where "SLOT_HOST_BRIDGE = 0"
definition SLOT_BLK_BASE :: u8 where "SLOT_BLK_BASE = 4"
definition SLOT_BLK_MAX_DISKS :: nat where "SLOT_BLK_MAX_DISKS = 8"
definition SLOT_NET :: u8 where "SLOT_NET = 16"
definition SLOT_RNG :: u8 where "SLOT_RNG = 17"
definition SLOT_I2C :: u8 where "SLOT_I2C = 18"
definition SLOT_GPIO_BASE :: u8 where "SLOT_GPIO_BASE = 19"
definition SLOT_GPIO_MAX_BANKS :: nat where "SLOT_GPIO_MAX_BANKS = 4"
definition SLOT_VSOCK :: u8 where "SLOT_VSOCK = 23"
definition GSI_BLK :: u8 where "GSI_BLK = 10"
definition GSI_NET :: u8 where "GSI_NET = 11"
definition GSI_RNG :: u8 where "GSI_RNG = 12"
definition GSI_I2C :: u8 where "GSI_I2C = 13"
definition GSI_GPIO :: u8 where "GSI_GPIO = 14"
definition GSI_VSOCK :: u8 where "GSI_VSOCK = 15"

subsection \<open>PCI functions of the transports\<close>

definition legacy_function :: "'d device_ops \<Rightarrow> 'd legacy_pci \<Rightarrow> pci_device" where
  "legacy_function ops s = \<lparr>dev_identity = \<lparr>id_vendor_id = VIRTIO_VENDOR_ID, id_device_id = legacy_pci_device_id ops (l_dev s),
       id_subsystem_vendor_id = VIRTIO_VENDOR_ID, id_subsystem_device_id = virtio_device_type ops (l_dev s),
       id_class_code = pci_class_code ops (l_dev s), id_revision_id = 0, id_interrupt_line = l_irq s, id_interrupt_pin = 1,
       id_msi_capable = False, id_extra_caps = []\<rparr>,
     dev_bar_sizes = legacy_bar_sizes, dev_bar_is_io = legacy_bar_is_io, dev_ioevent_entries = legacy_ioevent_entries ops s\<rparr>"

definition modern_function :: "'d device_ops \<Rightarrow> 'd modern_pci \<Rightarrow> pci_device" where
  "modern_function ops s = \<lparr>dev_identity = \<lparr>id_vendor_id = VIRTIO_VENDOR_ID, id_device_id = modern_device_id s,
       id_subsystem_vendor_id = 0, id_subsystem_device_id = 0, id_class_code = pci_class_code ops (m_dev s), id_revision_id = 1,
       id_interrupt_line = m_irq s, id_interrupt_pin = 1, id_msi_capable = False, id_extra_caps = extra_capabilities s\<rparr>,
     dev_bar_sizes = modern_bar_sizes s, dev_bar_is_io = (\<lambda>_. False), dev_ioevent_entries = []\<rparr>"

subsection \<open>Devices of a machine\<close>

datatype 's plugin_transport =
    In_process_t "'s in_process" | Sandboxed_t child sandbox | Native_t "'s native_transport" | Wasm_t "'s wasm_transport"

definition plugin_ops :: "'s plugin_transport transport_ops" where
  "plugin_ops =
     \<lparr>call_read = (\<lambda>off data t. case t of
         In_process_t p \<Rightarrow> map_prod id In_process_t (call_read in_process_ops off data p)
       | Sandboxed_t c p \<Rightarrow> map_prod id (Sandboxed_t c) (call_read (sandbox_ops c) off data p)
       | Native_t p \<Rightarrow> map_prod id Native_t (call_read native_ops off data p)
       | Wasm_t p \<Rightarrow> map_prod id Wasm_t (call_read wasm_ops off data p)),
      call_write = (\<lambda>off data t. case t of
         In_process_t p \<Rightarrow> map_prod id In_process_t (call_write in_process_ops off data p)
       | Sandboxed_t c p \<Rightarrow> map_prod id (Sandboxed_t c) (call_write (sandbox_ops c) off data p)
       | Native_t p \<Rightarrow> map_prod id Native_t (call_write native_ops off data p)
       | Wasm_t p \<Rightarrow> map_prod id Wasm_t (call_write wasm_ops off data p)),
      call_tick = (\<lambda>t. case t of
         In_process_t p \<Rightarrow> map_prod id In_process_t (call_tick in_process_ops p)
       | Sandboxed_t c p \<Rightarrow> map_prod id (Sandboxed_t c) (call_tick (sandbox_ops c) p)
       | Native_t p \<Rightarrow> map_prod id Native_t (call_tick native_ops p)
       | Wasm_t p \<Rightarrow> map_prod id Wasm_t (call_tick wasm_ops p)),
      has_tick = (\<lambda>t. case t of
         In_process_t p \<Rightarrow> has_tick in_process_ops p | Sandboxed_t c p \<Rightarrow> has_tick (sandbox_ops c) p
       | Native_t p \<Rightarrow> has_tick native_ops p | Wasm_t p \<Rightarrow> has_tick wasm_ops p),
      call_reset = (\<lambda>t. case t of
         In_process_t p \<Rightarrow> map_prod id In_process_t (call_reset in_process_ops p)
       | Sandboxed_t c p \<Rightarrow> map_prod id (Sandboxed_t c) (call_reset (sandbox_ops c) p)
       | Native_t p \<Rightarrow> map_prod id Native_t (call_reset native_ops p)
       | Wasm_t p \<Rightarrow> map_prod id Wasm_t (call_reset wasm_ops p)),
      has_reset = (\<lambda>t. case t of
         In_process_t p \<Rightarrow> has_reset in_process_ops p | Sandboxed_t c p \<Rightarrow> has_reset (sandbox_ops c) p
       | Native_t p \<Rightarrow> has_reset native_ops p | Wasm_t p \<Rightarrow> has_reset wasm_ops p),
      irq_flag = (\<lambda>t. case t of
         In_process_t p \<Rightarrow> irq_flag in_process_ops p | Sandboxed_t c p \<Rightarrow> irq_flag (sandbox_ops c) p
       | Native_t p \<Rightarrow> irq_flag native_ops p | Wasm_t p \<Rightarrow> irq_flag wasm_ops p),
      clear_irq_flag = (\<lambda>t. case t of
         In_process_t p \<Rightarrow> In_process_t (clear_irq_flag in_process_ops p)
       | Sandboxed_t c p \<Rightarrow> Sandboxed_t c (clear_irq_flag (sandbox_ops c) p)
       | Native_t p \<Rightarrow> Native_t (clear_irq_flag native_ops p) | Wasm_t p \<Rightarrow> Wasm_t (clear_irq_flag wasm_ops p))\<rparr>"

text \<open>Handing guest memory to a plugin and taking it back.\<close>

fun lend_mem :: "guest_memory \<Rightarrow> 's plugin_transport \<Rightarrow> 's plugin_transport" where
  "lend_mem m (In_process_t p) = In_process_t (p\<lparr>ip_host := (ip_host p)\<lparr>ph_mem := m\<rparr>\<rparr>)"
| "lend_mem m (Sandboxed_t c p) = Sandboxed_t c p"
| "lend_mem m (Native_t p) = Native_t (p\<lparr>nt_host := (nt_host p)\<lparr>ph_mem := m\<rparr>\<rparr>)"
| "lend_mem m (Wasm_t p) = Wasm_t (p\<lparr>wt_store := (wt_store p)\<lparr>ws_host := (ws_host (wt_store p))\<lparr>ph_mem := m\<rparr>\<rparr>\<rparr>)"

fun returned_mem :: "guest_memory \<Rightarrow> 's plugin_transport \<Rightarrow> guest_memory" where
  "returned_mem m (In_process_t p) = ph_mem (ip_host p)"
| "returned_mem m (Sandboxed_t c p) = m"
| "returned_mem m (Native_t p) = ph_mem (nt_host p)"
| "returned_mem m (Wasm_t p) = ph_mem (ws_host (wt_store p))"

datatype ('s, 'e) machine_device =
    Dev_sleep | Dev_reset | Dev_bridge
  | Dev_blk "blk_dev legacy_pci" | Dev_net "net_dev legacy_pci" | Dev_rng "'e rng_dev legacy_pci"
  | Dev_rng_modern "'e rng_dev modern_pci" | Dev_i2c "'s py_i2c_target i2c_bus modern_pci"
  | Dev_gpio "'s py_gpio_bank gpio_dev modern_pci" | Dev_vsock "vsock_dev modern_pci"
  | Dev_plugin "'s plugin_transport scripted_device"

subsection \<open>The host\<close>

datatype build_msg =
    Too_many_disks nat | Too_many_banks nat | Load_failed string load_error | Sandbox_failed string plugin_msg | Spawn_failed string
  | Disk_image string | Tap_failed | Uart_log string | I2c_conflict i2c_error | Slot_conflict pci_error | Vsock_failed
  | Control_failed string | Irqfd_failed u32 | Kvm_ioctl string | Unhandled_vm_exit u8 string | Gdb_failure string

type_synonym build_error = "build_msg hyperbug_error"

record ('s, 'e) host_env =
  irqfd_failure :: "u32 \<Rightarrow> build_error option"
  event_fds :: "device_id \<Rightarrow> nat option list"
  read_file :: "string \<Rightarrow> string option"
  py_class :: "string \<Rightarrow> string \<Rightarrow> u64 \<Rightarrow> string \<Rightarrow> 's py_instance option"
  py_i2c_class :: "string \<Rightarrow> string \<Rightarrow> u64 \<Rightarrow> string \<Rightarrow> 's py_i2c_instance option"
  py_gpio_class :: "string \<Rightarrow> string \<Rightarrow> u64 \<Rightarrow> string \<Rightarrow> 's py_gpio_instance option"
  sandbox_child :: "string \<Rightarrow> string \<Rightarrow> resource_limits option \<Rightarrow> (child \<times> recv) option"
  dlopen :: "string \<Rightarrow> 's native_lib option"
  wasm_file :: "string \<Rightarrow> 's wasm_module option"
  disk_image :: "string \<Rightarrow> bytes option"
  tap_ok :: bool
  uart_log_ok :: "string \<Rightarrow> bool"
  vsock_ok :: bool
  control_ok :: "string \<Rightarrow> bool"
  ring :: ring_env
  entropy :: 'e
  entropy_source :: "'e getrandom"
  clock_source :: clock
  vsock_host :: vsock_env

subsection \<open>The builder\<close>

datatype plugin_selector = Sel_mmio u64 | Sel_pci u8

datatype transport_kind = InProcess | Sandboxed | Native | Wasm

record plugin_registry_entry =
  pr_selector :: plugin_selector
  pr_path :: string
  pr_class :: "string option"
  pr_dma_range :: dma_range
  pr_limits :: "resource_limits option"
  pr_transport :: transport_kind
  pr_is_pci :: bool
  pr_device :: device_id

record notify_target =
  nt_eventfd :: nat
  nt_device :: device_id
  nt_datamatch :: u16
  nt_gsi :: u32

record ('k, 's, 'e) builder =
  b_mem :: guest_memory
  b_devices :: "('s, 'e) machine_device list"
  b_mmio :: bus
  b_io :: bus
  b_pci :: "'k pci_bus"
  b_irqs :: "u32 list"
  b_uarts :: "serial option list"
  b_registry :: "plugin_registry_entry list"
  b_sources :: "(device_id \<times> u32) list"
  b_msi :: "(u32 \<times> u8) list"
  b_notifies :: "notify_target list"
  b_snapshots :: "device_id list"
  b_blk :: "device_id list"
  b_net :: "device_id list"
  b_gpio :: "device_id list"
  b_vsock :: "device_id option"
  b_module_id :: u64

definition builder_new :: "guest_memory \<Rightarrow> 'k \<Rightarrow> u64 \<Rightarrow> ('k, 's, 'e) builder" where
  "builder_new m k next_id = \<lparr>b_mem = m, b_devices = [], b_mmio = bus_new, b_io = bus_new, b_pci = pci_with_vm k, b_irqs = [],
     b_uarts = [], b_registry = [], b_sources = [], b_msi = [], b_notifies = [], b_snapshots = [], b_blk = [], b_net = [],
     b_gpio = [], b_vsock = None, b_module_id = next_id\<rparr>"

definition add_irq :: "('s, 'e) host_env \<Rightarrow> u32 \<Rightarrow> ('k, 's, 'e) builder \<Rightarrow> build_error + ('k, 's, 'e) builder" where
  "add_irq env gsi b = try_bind (irq_register (irqfd_failure env) (b_irqs b) gsi) (\<lambda>lines. Inr (b\<lparr>b_irqs := lines\<rparr>))"

definition new_device :: "('s, 'e) machine_device \<Rightarrow> ('k, 's, 'e) builder \<Rightarrow> device_id \<times> ('k, 's, 'e) builder" where
  "new_device d b = (length (b_devices b), b\<lparr>b_devices := b_devices b @ [d]\<rparr>)"

definition register_io :: "u16 \<Rightarrow> u64 \<Rightarrow> ('s, 'e) machine_device \<Rightarrow> ('k, 's, 'e) builder \<Rightarrow> ('k, 's, 'e) builder" where
  "register_io port sz d b =
     (case new_device d b of (i, b) \<Rightarrow> b\<lparr>b_io := register (b_io b) (ucast port) sz i None\<rparr>)"

definition register_pci :: "('s, 'e) host_env \<Rightarrow> u8 \<Rightarrow> pci_device \<Rightarrow> device_id \<Rightarrow> ('k, 's, 'e) builder \<Rightarrow>
    build_error + ((nat \<times> u16) list \<times> ('k, 's, 'e) builder)" where
  "register_pci env devnum dev i b =
     (case pci_register (b_pci b) (push_bit 3 devnum) dev i (event_fds env i) of
        Inl e \<Rightarrow> Inl (Config (Slot_conflict e))
      | Inr (events, bus) \<Rightarrow> Inr (events, b\<lparr>b_pci := bus\<rparr>))"

definition push_virtio_notifies :: "(nat \<times> u16) list \<Rightarrow> device_id \<Rightarrow> u8 \<Rightarrow> ('k, 's, 'e) builder \<Rightarrow> ('k, 's, 'e) builder" where
  "push_virtio_notifies events i gsi b = b\<lparr>b_notifies := b_notifies b @
     map (\<lambda>(fd, dm). \<lparr>nt_eventfd = fd, nt_device = i, nt_datamatch = dm, nt_gsi = ucast gsi\<rparr>) events\<rparr>"

text \<open>A \<open>for\<close> loop whose body may return early with an error.\<close>

fun try_each :: "('x \<Rightarrow> 'b \<Rightarrow> 'e + 'b) \<Rightarrow> 'x list \<Rightarrow> 'b \<Rightarrow> 'e + 'b" where
  "try_each f [] b = Inr b"
| "try_each f (x # xs) b = try_bind (f x b) (try_each f xs)"

subsection \<open>Plugins\<close>

text \<open>One loader of \<open>pydevice\<close>, \<open>pydevice_proc\<close>, \<open>native_plugin\<close> or \<open>wasm_plugin\<close>, with its errors.\<close>

definition load_in_process :: "('s, 'e) host_env \<Rightarrow> string \<Rightarrow> string \<Rightarrow> dma_range \<Rightarrow> bool \<Rightarrow> guest_memory \<Rightarrow> u64 \<Rightarrow>
    (load_error + 's plugin_transport scripted_device) \<times> u64" where
  "load_in_process env path class_name rng is_pci m next_id =
     (case load_inner (read_file env) (py_class env) path class_name m rng is_pci next_id of (r, next_id) \<Rightarrow>
        (map_sum id (\<lambda>d. scripted_new (In_process_t (sd_transport d)) (sd_identity d)) r, next_id))"

definition load_sandboxed :: "('s, 'e) host_env \<Rightarrow> string \<Rightarrow> string \<Rightarrow> resource_limits option \<Rightarrow> bool \<Rightarrow>
    build_msg + 's plugin_transport scripted_device" where
  "load_sandboxed env path class_name limits is_pci =
     (case sandbox_child env path class_name limits of
        None \<Rightarrow> Inl (Spawn_failed path)
      | Some (child, loaded) \<Rightarrow>
          (case sandbox_spawn child loaded is_pci of
             Inl e \<Rightarrow> Inl (Sandbox_failed path e)
           | Inr (s, identity) \<Rightarrow> Inr (scripted_new (Sandboxed_t child s) identity)))"

definition load_native :: "('s, 'e) host_env \<Rightarrow> string \<Rightarrow> dma_range \<Rightarrow> bool \<Rightarrow> guest_memory \<Rightarrow>
    load_error + 's plugin_transport scripted_device" where
  "load_native env path rng is_pci m =
     map_sum id (\<lambda>d. scripted_new (Native_t (sd_transport d)) (sd_identity d)) (native_spawn (dlopen env) path m rng is_pci)"

definition load_wasm :: "('s, 'e) host_env \<Rightarrow> string \<Rightarrow> dma_range \<Rightarrow> bool \<Rightarrow> guest_memory \<Rightarrow>
    load_error + 's plugin_transport scripted_device" where
  "load_wasm env path rng is_pci m =
     map_sum id (\<lambda>d. scripted_new (Wasm_t (sd_transport d)) (sd_identity d)) (wasm_spawn (wasm_file env) path m rng is_pci)"

text \<open>What to load: the fields the loaders and the registry take from a specification.\<close>

record plugin_spec =
  sp_path :: string
  sp_class :: "string option"
  sp_dma_range :: dma_range
  sp_limits :: "resource_limits option"
  sp_kind :: transport_kind

definition load_plugin :: "('s, 'e) host_env \<Rightarrow> plugin_spec \<Rightarrow> bool \<Rightarrow> ('k, 's, 'e) builder \<Rightarrow>
    build_error + ('s plugin_transport scripted_device \<times> ('k, 's, 'e) builder)" where
  "load_plugin env sp is_pci b =
     (let path = sp_path sp; class_name = the (sp_class sp);
          keep = (\<lambda>d b. (d, b\<lparr>b_mem := returned_mem (b_mem b) (sd_transport d)\<rparr>)) in
      case sp_kind sp of
        InProcess \<Rightarrow>
          (case load_in_process env path class_name (sp_dma_range sp) is_pci (b_mem b) (b_module_id b) of (r, next_id) \<Rightarrow>
             (case r of Inl e \<Rightarrow> Inl (Python (Load_failed path e)) | Inr d \<Rightarrow> Inr (keep d (b\<lparr>b_module_id := next_id\<rparr>))))
      | Sandboxed \<Rightarrow>
          (case load_sandboxed env path class_name (sp_limits sp) is_pci of Inl e \<Rightarrow> Inl (Python e) | Inr d \<Rightarrow> Inr (keep d b))
      | Native \<Rightarrow>
          (case load_native env path (sp_dma_range sp) is_pci (b_mem b) of
             Inl e \<Rightarrow> Inl (Io (Load_failed path e)) | Inr d \<Rightarrow> Inr (keep d b))
      | Wasm \<Rightarrow>
          (case load_wasm env path (sp_dma_range sp) is_pci (b_mem b) of
             Inl e \<Rightarrow> Inl (Io (Load_failed path e)) | Inr d \<Rightarrow> Inr (keep d b)))"

definition registry_entry :: "plugin_spec \<Rightarrow> plugin_selector \<Rightarrow> bool \<Rightarrow> device_id \<Rightarrow> plugin_registry_entry" where
  "registry_entry sp sel is_pci i = \<lparr>pr_selector = sel, pr_path = sp_path sp, pr_class = sp_class sp, pr_dma_range = sp_dma_range sp,
     pr_limits = sp_limits sp, pr_transport = sp_kind sp, pr_is_pci = is_pci, pr_device = i\<rparr>"

text \<open>The body of the four \<open>add_*mmio_plugins\<close> loops, which differ in the loader, and that of the four loops of
  \<open>add_pci_plugins\<close>.\<close>

definition add_mmio_plugin :: "('s, 'e) host_env \<Rightarrow> plugin_spec \<times> u64 \<times> u64 \<Rightarrow> ('k, 's, 'e) builder \<Rightarrow> build_error + ('k, 's, 'e) builder" where
  "add_mmio_plugin env = (\<lambda>(sp, bs, sz) b.
     try_bind (load_plugin env sp False b) (\<lambda>(d, b).
       case new_device (Dev_plugin d) b of (i, b) \<Rightarrow>
         Inr (b\<lparr>b_mmio := register (b_mmio b) bs sz i None, b_registry := b_registry b @ [registry_entry sp (Sel_mmio bs) False i]\<rparr>)))"

definition add_pci_plugin :: "('s, 'e) host_env \<Rightarrow> plugin_spec \<times> u8 \<Rightarrow> ('k, 's, 'e) builder \<Rightarrow> build_error + ('k, 's, 'e) builder" where
  "add_pci_plugin env = (\<lambda>(sp, devnum) b.
     try_bind (load_plugin env sp True b) (\<lambda>(d, b).
       let dev = scripted_pci (sd_identity d); line = id_interrupt_line (dev_identity dev);
           msi = id_msi_capable (dev_identity dev); devfn = push_bit 3 devnum in
       try_bind (if line \<noteq> 0 then
                   map_sum id (\<lambda>b. if msi then b\<lparr>b_msi := b_msi b @ [(ucast line, devfn)]\<rparr> else b) (add_irq env (ucast line) b)
                 else Inr b) (\<lambda>b.
       case new_device (Dev_plugin d) b of (i, b) \<Rightarrow>
         try_bind (register_pci env devnum dev i b) (\<lambda>(_, b).
           let b = b\<lparr>b_registry := b_registry b @ [registry_entry sp (Sel_pci devnum) True i]\<rparr>
           in Inr (if line \<noteq> 0 then b\<lparr>b_sources := b_sources b @ [(i, ucast line)]\<rparr> else b)))))"

fun mmio_spec :: "transport_kind \<Rightarrow> device_spec \<Rightarrow> plugin_spec \<times> u64 \<times> u64" where
  "mmio_spec k s = (\<lparr>sp_path = ds_path s, sp_class = Some (ds_class s), sp_dma_range = ds_dma_range s,
     sp_limits = (if k = Sandboxed then ds_limits s else None), sp_kind = k\<rparr>, ds_base s, ds_size s)"

fun native_mmio_spec :: "transport_kind \<Rightarrow> native_device_spec \<Rightarrow> plugin_spec \<times> u64 \<times> u64" where
  "native_mmio_spec k s = (\<lparr>sp_path = ns_path s, sp_class = None, sp_dma_range = ns_dma_range s, sp_limits = None, sp_kind = k\<rparr>,
     ns_base s, ns_size s)"

fun pci_spec :: "transport_kind \<Rightarrow> pci_device_spec \<Rightarrow> plugin_spec \<times> u8" where
  "pci_spec k s = (\<lparr>sp_path = ps_path s, sp_class = Some (ps_class s), sp_dma_range = ps_dma_range s,
     sp_limits = (if k = Sandboxed then ps_limits s else None), sp_kind = k\<rparr>, ps_device_number s)"

fun native_pci_spec :: "transport_kind \<Rightarrow> native_pci_device_spec \<Rightarrow> plugin_spec \<times> u8" where
  "native_pci_spec k s = (\<lparr>sp_path = np_path s, sp_class = None, sp_dma_range = np_dma_range s, sp_limits = None, sp_kind = k\<rparr>,
     np_device_number s)"

definition add_mmio_plugins :: "('s, 'e) host_env \<Rightarrow> args \<Rightarrow> ('k, 's, 'e) builder \<Rightarrow> build_error + ('k, 's, 'e) builder" where
  "add_mmio_plugins env a =
     try_each (add_mmio_plugin env) (map (mmio_spec InProcess) (devices a) @ map (mmio_spec Sandboxed) (sandboxed_devices a) @
       map (native_mmio_spec Native) (native_devices a) @ map (native_mmio_spec Wasm) (wasm_devices a))"

definition add_pci_plugins :: "('s, 'e) host_env \<Rightarrow> args \<Rightarrow> ('k, 's, 'e) builder \<Rightarrow> build_error + ('k, 's, 'e) builder" where
  "add_pci_plugins env a =
     try_each (add_pci_plugin env) (map (pci_spec InProcess) (pci_devices a) @ map (pci_spec Sandboxed) (sandboxed_pci_devices a) @
       map (native_pci_spec Native) (native_pci_devices a) @ map (native_pci_spec Wasm) (wasm_pci_devices a))"

subsection \<open>Built-in devices\<close>

definition add_uart :: "('s, 'e) host_env \<Rightarrow> string option \<times> u16 \<times> u32 \<Rightarrow> ('k, 's, 'e) builder \<Rightarrow> build_error + ('k, 's, 'e) builder" where
  "add_uart env = (\<lambda>(log_path, port, irq) b.
     case log_path of
       None \<Rightarrow> Inr (b\<lparr>b_uarts := b_uarts b @ [None]\<rparr>)
     | Some path \<Rightarrow>
         if \<not> uart_log_ok env path then Inl (Io (Uart_log path))
         else try_bind (add_irq env irq b) (\<lambda>b. Inr (b\<lparr>b_uarts := b_uarts b @ [Some (new_capture port)]\<rparr>)))"

definition add_extra_uarts :: "('s, 'e) host_env \<Rightarrow> args \<Rightarrow> ('k, 's, 'e) builder \<Rightarrow> build_error + ('k, 's, 'e) builder" where
  "add_extra_uarts env a =
     try_each (add_uart env)
       [(uart2_log a, COM2_BASE, COM2_IRQ), (uart3_log a, COM3_BASE, COM3_IRQ), (uart4_log a, COM4_BASE, COM4_IRQ)]"

definition add_disk :: "('s, 'e) host_env \<Rightarrow> u8 \<times> string \<Rightarrow> ('k, 's, 'e) builder \<Rightarrow> build_error + ('k, 's, 'e) builder" where
  "add_disk env = (\<lambda>(devnum, path) b.
     case disk_image env path of
       None \<Rightarrow> Inl (Io (Disk_image path))
     | Some img \<Rightarrow>
         let s = legacy_new (blk_ops (ring env)) (blk_open img) GSI_BLK in
         case new_device (Dev_blk s) b of (i, b) \<Rightarrow>
           try_bind (register_pci env devnum (legacy_function (blk_ops (ring env)) s) i
               (b\<lparr>b_snapshots := b_snapshots b @ [i], b_blk := b_blk b @ [i]\<rparr>)) (\<lambda>(events, b).
             Inr (push_virtio_notifies events i GSI_BLK b)))"

definition add_disks :: "('s, 'e) host_env \<Rightarrow> args \<Rightarrow> ('k, 's, 'e) builder \<Rightarrow> build_error + ('k, 's, 'e) builder" where
  "add_disks env a b =
     (if SLOT_BLK_MAX_DISKS < length (disks a) then Inl (Config (Too_many_disks (length (disks a))))
      else if disks a = [] then Inr b
      else
        try_bind (add_irq env (ucast GSI_BLK) b)
          (try_each (add_disk env) (zip (map (\<lambda>k. SLOT_BLK_BASE + of_nat k) [0..<length (disks a)]) (disks a))))"

definition add_net :: "('s, 'e) host_env \<Rightarrow> args \<Rightarrow> ('k, 's, 'e) builder \<Rightarrow> build_error + ('k, 's, 'e) builder" where
  "add_net env a b =
     (if \<not> net_tap a then Inr b
      else if \<not> tap_ok env then Inl (Io Tap_failed)
      else
        let s = legacy_new net_ops (net_new [0x52, 0x54, 0x00, 0x12, 0x34, 0x56]) GSI_NET in
        case new_device (Dev_net s) b of (i, b) \<Rightarrow>
          try_bind (register_pci env SLOT_NET (legacy_function net_ops s) i b) (\<lambda>(events, b).
          try_bind (add_irq env (ucast GSI_NET) (push_virtio_notifies events i GSI_NET b)) (\<lambda>b.
            Inr (b\<lparr>b_net := b_net b @ [i], b_snapshots := b_snapshots b @ [i]\<rparr>))))"

definition i2c_add_target :: "('s, 'e) host_env \<Rightarrow> i2c_device_spec \<Rightarrow> ('s py_i2c_target i2c_bus \<times> u64) \<Rightarrow>
    build_error + ('s py_i2c_target i2c_bus \<times> u64)" where
  "i2c_add_target env spec = (\<lambda>(bus, next_id).
     case load_i2c (read_file env) (py_i2c_class env) (is_path spec) (is_class spec) next_id of (r, next_id) \<Rightarrow>
       (case r of
          Inl e \<Rightarrow> Inl (Python (Load_failed (is_path spec) e))
        | Inr t \<Rightarrow>
            (case i2c_register bus (is_addr spec) t of Inl e \<Rightarrow> Inl (Config (I2c_conflict e)) | Inr bus \<Rightarrow> Inr (bus, next_id))))"

definition add_i2c :: "('s, 'e) host_env \<Rightarrow> args \<Rightarrow> ('k, 's, 'e) builder \<Rightarrow> build_error + ('k, 's, 'e) builder" where
  "add_i2c env a b =
     (if i2c_devices a = [] then Inr b
      else
        try_bind (try_each (i2c_add_target env) (i2c_devices a) (Map.empty, b_module_id b)) (\<lambda>(bus, next_id).
          let s = modern_new (i2c_ops py_target_ops) bus GSI_I2C 34 0 in
          case new_device (Dev_i2c s) (b\<lparr>b_module_id := next_id\<rparr>) of (i, b) \<Rightarrow>
            try_bind (register_pci env SLOT_I2C (modern_function (i2c_ops py_target_ops) s) i b) (\<lambda>(_, b).
            try_bind (add_irq env (ucast GSI_I2C) b) (\<lambda>b.
              Inr (b\<lparr>b_snapshots := b_snapshots b @ [i]\<rparr>)))))"

definition add_gpio_bank :: "('s, 'e) host_env \<Rightarrow> u8 \<times> gpio_device_spec \<Rightarrow> ('k, 's, 'e) builder \<Rightarrow> build_error + ('k, 's, 'e) builder" where
  "add_gpio_bank env = (\<lambda>(devnum, spec) b.
     case load_gpio_bank (read_file env) (py_gpio_class env) (gs_path spec) (gs_class spec) (b_module_id b) of (r, next_id) \<Rightarrow>
       (case r of
          Inl e \<Rightarrow> Inl (Python (Load_failed (gs_path spec) e))
        | Inr bank \<Rightarrow>
            let s = modern_new (gpio_ops py_bank_ops) (gpio_new py_bank_ops bank) GSI_GPIO 41 8 in
            case new_device (Dev_gpio s) (b\<lparr>b_module_id := next_id\<rparr>) of (i, b) \<Rightarrow>
              try_bind (register_pci env devnum (modern_function (gpio_ops py_bank_ops) s) i b) (\<lambda>(_, b).
                Inr (b\<lparr>b_gpio := b_gpio b @ [i]\<rparr>))))"

definition add_gpio :: "('s, 'e) host_env \<Rightarrow> args \<Rightarrow> ('k, 's, 'e) builder \<Rightarrow> build_error + ('k, 's, 'e) builder" where
  "add_gpio env a b =
     (if gpio_devices a = [] then Inr b
      else if SLOT_GPIO_MAX_BANKS < length (gpio_devices a) then Inl (Config (Too_many_banks (length (gpio_devices a))))
      else
        try_bind (add_irq env (ucast GSI_GPIO) b) (\<lambda>b.
        try_bind (try_each (add_gpio_bank env)
            (zip (map (\<lambda>k. SLOT_GPIO_BASE + of_nat k) [0..<length (gpio_devices a)]) (gpio_devices a)) b) (\<lambda>b.
          Inr (b\<lparr>b_snapshots := b_snapshots b @ b_gpio b\<rparr>))))"

definition add_vsock :: "('s, 'e) host_env \<Rightarrow> args \<Rightarrow> ('k, 's, 'e) builder \<Rightarrow> build_error + ('k, 's, 'e) builder" where
  "add_vsock env a b =
     (case vsock_uds a of
        None \<Rightarrow> Inr b
      | Some uds_path \<Rightarrow>
          if \<not> vsock_ok env then Inl (Io Vsock_failed)
          else
            let s = modern_new (vsock_ops (vsock_host env)) vsock_new GSI_VSOCK 19 8 in
            case new_device (Dev_vsock s) b of (i, b) \<Rightarrow>
              try_bind (register_pci env SLOT_VSOCK (modern_function (vsock_ops (vsock_host env)) s) i b) (\<lambda>(_, b).
              try_bind (add_irq env (ucast GSI_VSOCK) b) (\<lambda>b. Inr (b\<lparr>b_vsock := Some i\<rparr>))))"

text \<open>The entropy device is always there, on the transport \<open>--rng-modern\<close> chooses.\<close>

definition add_rng :: "('s, 'e) host_env \<Rightarrow> args \<Rightarrow> (bytes \<times> nat) option \<Rightarrow> replayer option \<Rightarrow> ('k, 's, 'e) builder \<Rightarrow>
    build_error + ('k, 's, 'e) builder" where
  "add_rng env a rec rep b =
     (let ops = rng_ops (entropy_source env) (clock_source env);
          rng = \<lparr>rng_entropy = entropy env, rng_recorder = rec, rng_replayer = rep\<rparr> in
      try_bind
        (if rng_modern a then
           let s = modern_new ops rng GSI_RNG 4 0 in
           case new_device (Dev_rng_modern s) b of (i, b) \<Rightarrow>
             try_bind (register_pci env SLOT_RNG (modern_function ops s) i (b\<lparr>b_snapshots := b_snapshots b @ [i]\<rparr>)) (\<lambda>(_, b). Inr b)
         else
           let s = legacy_new ops rng GSI_RNG in
           case new_device (Dev_rng s) b of (i, b) \<Rightarrow>
             try_bind (register_pci env SLOT_RNG (legacy_function ops s) i (b\<lparr>b_snapshots := b_snapshots b @ [i]\<rparr>)) (\<lambda>(events, b).
               Inr (push_virtio_notifies events i GSI_RNG b)))
        (add_irq env (ucast GSI_RNG)))"

definition add_host_bridge :: "('s, 'e) host_env \<Rightarrow> ('k, 's, 'e) builder \<Rightarrow> build_error + ('k, 's, 'e) builder" where
  "add_host_bridge env b =
     (case new_device Dev_bridge b of (i, b) \<Rightarrow> try_bind (register_pci env SLOT_HOST_BRIDGE host_bridge i b) (\<lambda>(_, b). Inr b))"

definition bind_control :: "('s, 'e) host_env \<Rightarrow> args \<Rightarrow> ('k, 's, 'e) builder \<Rightarrow> build_error + ('k, 's, 'e) builder" where
  "bind_control env a b =
     (case control_socket a of
        None \<Rightarrow> Inr b
      | Some path \<Rightarrow> if control_ok env path then Inr b else Inl (Io (Control_failed path)))"

definition machine_build :: "('s, 'e) host_env \<Rightarrow> args \<Rightarrow> (bytes \<times> nat) option \<Rightarrow> replayer option \<Rightarrow> ('k, 's, 'e) builder \<Rightarrow>
    build_error + ('k, 's, 'e) builder" where
  "machine_build env a rec rep b =
     try_bind (add_irq env COM1_IRQ b) (\<lambda>b.
     try_bind (add_extra_uarts env a b) (\<lambda>b.
     let b = register_io RESET_PORT 1 Dev_reset (register_io SLEEP_CONTROL_PORT 2 Dev_sleep b) in
     try_bind (add_mmio_plugins env a b) (\<lambda>b.
     try_bind (add_host_bridge env b) (\<lambda>b.
     try_bind (add_disks env a b) (\<lambda>b.
     try_bind (add_net env a b) (\<lambda>b.
     try_bind (add_i2c env a b) (\<lambda>b.
     try_bind (add_gpio env a b) (\<lambda>b.
     try_bind (add_vsock env a b) (\<lambda>b.
     try_bind (add_rng env a rec rep b) (\<lambda>b.
     try_bind (add_pci_plugins env a b) (bind_control env a)))))))))))"

subsection \<open>The running machine\<close>

record ('s, 'e) machine_world =
  w_mem :: guest_memory
  w_exit :: "build_msg exit_signal"
  w_devices :: "('s, 'e) machine_device list"

definition put_device :: "device_id \<Rightarrow> ('s, 'e) machine_device \<Rightarrow> ('s, 'e) machine_world \<Rightarrow> ('s, 'e) machine_world" where
  "put_device i d w = w\<lparr>w_devices := (w_devices w)[i := d]\<rparr>"

text \<open>Runs an operation of a plugin with guest memory lent to it.\<close>

definition with_plugin :: "device_id \<Rightarrow> ('s plugin_transport scripted_device \<Rightarrow> 'r \<times> 's plugin_transport scripted_device) \<Rightarrow>
    's plugin_transport scripted_device \<Rightarrow> ('s, 'e) machine_world \<Rightarrow> 'r \<times> ('s, 'e) machine_world" where
  "with_plugin i f d w =
     (case f (d\<lparr>sd_transport := lend_mem (w_mem w) (sd_transport d)\<rparr>) of (r, d') \<Rightarrow>
        (r, put_device i (Dev_plugin d') (w\<lparr>w_mem := returned_mem (w_mem w) (sd_transport d')\<rparr>)))"

definition machine_read :: "('s, 'e) host_env \<Rightarrow> device_id \<Rightarrow> u64 \<Rightarrow> nat \<Rightarrow> ('s, 'e) machine_world \<Rightarrow> bytes \<times> ('s, 'e) machine_world" where
  "machine_read env i off n w =
     (case w_devices w ! i of
        Dev_sleep \<Rightarrow> (sleep_control_read off n, w)
      | Dev_reset \<Rightarrow> (reset_control_read off n, w)
      | Dev_bridge \<Rightarrow> (replicate n 0, w)
      | Dev_blk s \<Rightarrow> (case legacy_read (blk_ops (ring env)) s off n of (bs, s) \<Rightarrow> (bs, put_device i (Dev_blk s) w))
      | Dev_net s \<Rightarrow> (case legacy_read net_ops s off n of (bs, s) \<Rightarrow> (bs, put_device i (Dev_net s) w))
      | Dev_rng s \<Rightarrow>
          (case legacy_read (rng_ops (entropy_source env) (clock_source env)) s off n of (bs, s) \<Rightarrow> (bs, put_device i (Dev_rng s) w))
      | Dev_rng_modern s \<Rightarrow>
          (case modern_read (rng_ops (entropy_source env) (clock_source env)) s off n of (bs, s) \<Rightarrow> (bs, put_device i (Dev_rng_modern s) w))
      | Dev_i2c s \<Rightarrow> (case modern_read (i2c_ops py_target_ops) s off n of (bs, s) \<Rightarrow> (bs, put_device i (Dev_i2c s) w))
      | Dev_gpio s \<Rightarrow> (case modern_read (gpio_ops py_bank_ops) s off n of (bs, s) \<Rightarrow> (bs, put_device i (Dev_gpio s) w))
      | Dev_vsock s \<Rightarrow> (case modern_read (vsock_ops (vsock_host env)) s off n of (bs, s) \<Rightarrow> (bs, put_device i (Dev_vsock s) w))
      | Dev_plugin d \<Rightarrow> with_plugin i (scripted_read plugin_ops off n) d w)"

definition store_write :: "device_id \<Rightarrow> ('d \<Rightarrow> ('s, 'e) machine_device) \<Rightarrow> (bool \<times> 'd \<times> guest_memory) option \<Rightarrow> ('s, 'e) machine_world \<Rightarrow>
    (bool \<times> ('s, 'e) machine_world) option" where
  "store_write i mk r w = map_option (\<lambda>(irq, s, m). (irq, put_device i (mk s) (w\<lparr>w_mem := m\<rparr>))) r"

definition machine_write :: "('s, 'e) host_env \<Rightarrow> device_id \<Rightarrow> u64 \<Rightarrow> bytes \<Rightarrow> ('s, 'e) machine_world \<Rightarrow>
    (bool \<times> ('s, 'e) machine_world) option" where
  "machine_write env i off data w =
     (case w_devices w ! i of
        Dev_sleep \<Rightarrow> (case sleep_control_write (w_exit w) off data of (irq, e) \<Rightarrow> Some (irq, w\<lparr>w_exit := e\<rparr>))
      | Dev_reset \<Rightarrow> (case reset_control_write (w_exit w) off data of (irq, e) \<Rightarrow> Some (irq, w\<lparr>w_exit := e\<rparr>))
      | Dev_bridge \<Rightarrow> Some (False, w)
      | Dev_blk s \<Rightarrow> store_write i Dev_blk (legacy_write (blk_ops (ring env)) s (w_mem w) off data) w
      | Dev_net s \<Rightarrow> store_write i Dev_net (legacy_write net_ops s (w_mem w) off data) w
      | Dev_rng s \<Rightarrow> store_write i Dev_rng (legacy_write (rng_ops (entropy_source env) (clock_source env)) s (w_mem w) off data) w
      | Dev_rng_modern s \<Rightarrow>
          store_write i Dev_rng_modern (modern_write (rng_ops (entropy_source env) (clock_source env)) s (w_mem w) off data) w
      | Dev_i2c s \<Rightarrow> store_write i Dev_i2c (modern_write (i2c_ops py_target_ops) s (w_mem w) off data) w
      | Dev_gpio s \<Rightarrow> store_write i Dev_gpio (modern_write (gpio_ops py_bank_ops) s (w_mem w) off data) w
      | Dev_vsock s \<Rightarrow> store_write i Dev_vsock (modern_write (vsock_ops (vsock_host env)) s (w_mem w) off data) w
      | Dev_plugin d \<Rightarrow> Some (with_plugin i (scripted_write plugin_ops off data) d w))"

definition machine_tick :: "device_id \<Rightarrow> ('s, 'e) machine_world \<Rightarrow> ('s, 'e) machine_world" where
  "machine_tick i w =
     (case w_devices w ! i of
        Dev_plugin d \<Rightarrow> snd (with_plugin i (\<lambda>d. ((), scripted_tick plugin_ops d)) d w)
      | _ \<Rightarrow> w)"

definition machine_take_pending_irq :: "device_id \<Rightarrow> ('s, 'e) machine_world \<Rightarrow> bool \<times> ('s, 'e) machine_world" where
  "machine_take_pending_irq i w =
     (case w_devices w ! i of
        Dev_plugin d \<Rightarrow> with_plugin i (scripted_take_pending_irq plugin_ops) d w
      | _ \<Rightarrow> (False, w))"

definition machine_table :: "('s, 'e) host_env \<Rightarrow> ('s, 'e) machine_world device_table" where
  "machine_table env = \<lparr>dt_read = machine_read env, dt_write = machine_write env, dt_tick = machine_tick,
     dt_take_pending_irq = machine_take_pending_irq\<rparr>"

definition start_vm :: "('k, 's, 'e) builder \<Rightarrow> ('k, ('s, 'e) machine_world) vm" where
  "start_vm b = \<lparr>shared = \<lparr>serial_port = serial_new, extra_uarts = b_uarts b, mmio_bus = b_mmio b, io_bus = b_io b, sh_pci = b_pci b,
       plugin_pci_devices = b_sources b, msi_devfns = b_msi b\<rparr>,
     world = \<lparr>w_mem = b_mem b, w_exit = new_exit_slot, w_devices = b_devices b\<rparr>, irq_lines = b_irqs b, pulses = [], irq_bugs = [],
     msis = [], debug_out = []\<rparr>"

subsection \<open>Reloading a plugin\<close>

datatype reload_error = Reload_load build_msg | Identity_changed plugin_identity plugin_identity

definition reload_load :: "('s, 'e) host_env \<Rightarrow> plugin_registry_entry \<Rightarrow> guest_memory \<Rightarrow> u64 \<Rightarrow>
    (build_msg + 's plugin_transport scripted_device) \<times> u64" where
  "reload_load env e m next_id =
     (let path = pr_path e; class_name = the (pr_class e); wrap = map_sum (Load_failed path) id in
      case pr_transport e of
        Sandboxed \<Rightarrow> (load_sandboxed env path class_name (pr_limits e) (pr_is_pci e), next_id)
      | InProcess \<Rightarrow> map_prod wrap id (load_in_process env path class_name (pr_dma_range e) (pr_is_pci e) m next_id)
      | Native \<Rightarrow> (wrap (load_native env path (pr_dma_range e) (pr_is_pci e) m), next_id)
      | Wasm \<Rightarrow> (wrap (load_wasm env path (pr_dma_range e) (pr_is_pci e) m), next_id))"

text \<open>\<open>old\<close> is the device behind the registry entry; the fresh plugin may have used guest memory while loading.\<close>

definition reload_plugin :: "('s, 'e) host_env \<Rightarrow> plugin_registry_entry \<Rightarrow> u64 \<Rightarrow> ('s, 'e) machine_world \<Rightarrow>
    (reload_error option \<times> ('s, 'e) machine_world) \<times> u64" where
  "reload_plugin env e next_id w =
     (case reload_load env e (w_mem w) next_id of (r, next_id) \<Rightarrow>
        (case r of
           Inl er \<Rightarrow> ((Some (Reload_load er), w), next_id)
         | Inr fresh \<Rightarrow>
             let w = w\<lparr>w_mem := returned_mem (w_mem w) (sd_transport fresh)\<rparr> in
             (case w_devices w ! pr_device e of
                Dev_plugin old \<Rightarrow>
                  if pr_is_pci e \<and> sd_identity fresh \<noteq> sd_identity old
                  then ((Some (Identity_changed (sd_identity old) (sd_identity fresh)), w), next_id)
                  else ((None, put_device (pr_device e) (Dev_plugin (scripted_reload fresh old)) w), next_id)
              | _ \<Rightarrow> ((None, w), next_id))))"

subsection \<open>What every step of the assembly keeps\<close>

text \<open>The lines that devices may raise, and that each of them has an irqfd but for those in \<open>X\<close>.\<close>

definition machine_lines :: "('k, 's, 'e) builder \<Rightarrow> u32 set" where
  "machine_lines b = bus_lines (b_mmio b) \<union> bus_lines (b_io b) \<union> pci_lines (b_pci b) \<union> snd ` set (b_sources b)"

definition builder_ok :: "u32 set \<Rightarrow> ('k, 's, 'e) builder \<Rightarrow> bool" where
  "builder_ok X b \<longleftrightarrow> pci_inv (b_pci b) (b_mmio b, b_io b) \<and>
     machine_lines b \<subseteq> set (b_irqs b) \<union> X \<and>
     (\<forall>i < length (b_uarts b). b_uarts b ! i \<noteq> None \<longrightarrow> uart_irqs ! i \<in> set (b_irqs b))"

text \<open>\<open>grows ds b b'\<close>: \<open>b'\<close> has the PCI functions \<open>ds\<close> added, and loses no interrupt line.\<close>

definition grows :: "u8 list \<Rightarrow> ('k, 's, 'e) builder \<Rightarrow> ('k, 's, 'e) builder \<Rightarrow> bool" where
  "grows ds b b' \<longleftrightarrow> map fst (slots (b_pci b')) = map fst (slots (b_pci b)) @ ds \<and> set (b_irqs b) \<subseteq> set (b_irqs b') \<and>
     b_uarts b' = b_uarts b"

lemma grows_refl [simp]: "grows [] b b"
  by (simp add: grows_def)

lemma grows_trans: "grows ds b b1 \<Longrightarrow> grows es b1 b2 \<Longrightarrow> grows (ds @ es) b b2"
  by (auto simp: grows_def)

lemma try_bind_InrE:
  assumes "try_bind r f = Inr y"
  obtains x where "r = Inr x" and "f x = Inr y"
  using assms by (cases r) (auto simp: try_bind_def)

lemma builder_ok_mono: "builder_ok X b \<Longrightarrow> X \<subseteq> Y \<Longrightarrow> builder_ok Y b"
  by (auto simp: builder_ok_def)

lemma add_irq_ok:
  assumes "builder_ok X b" and "add_irq env g b = Inr b'"
  shows "builder_ok (X - {g}) b' \<and> grows [] b b' \<and> g \<in> set (b_irqs b') \<and> (\<exists>l. b' = b\<lparr>b_irqs := l\<rparr>)"
proof -
  obtain l where b': "b' = b\<lparr>b_irqs := l\<rparr>" and l: "set l = insert g (set (b_irqs b))"
    using assms(2) by (auto simp: add_irq_def irq_register_def elim!: try_bind_InrE split: if_splits option.splits)
  have "machine_lines b' = machine_lines b" by (simp add: b' machine_lines_def)
  with assms(1) show ?thesis by (auto simp: b' l builder_ok_def grows_def)
qed

text \<open>Fields that neither notion looks at.\<close>

lemma builder_frame [simp]:
  "builder_ok X (b\<lparr>b_devices := x0\<rparr>) = builder_ok X b"
  "builder_ok X (b\<lparr>b_registry := x1\<rparr>) = builder_ok X b"
  "builder_ok X (b\<lparr>b_snapshots := x2\<rparr>) = builder_ok X b"
  "builder_ok X (b\<lparr>b_blk := x3\<rparr>) = builder_ok X b"
  "builder_ok X (b\<lparr>b_net := x4\<rparr>) = builder_ok X b"
  "builder_ok X (b\<lparr>b_gpio := x5\<rparr>) = builder_ok X b"
  "builder_ok X (b\<lparr>b_vsock := x6\<rparr>) = builder_ok X b"
  "builder_ok X (b\<lparr>b_module_id := x7\<rparr>) = builder_ok X b"
  "builder_ok X (b\<lparr>b_mem := x8\<rparr>) = builder_ok X b"
  "builder_ok X (b\<lparr>b_msi := x9\<rparr>) = builder_ok X b"
  "builder_ok X (b\<lparr>b_notifies := x10\<rparr>) = builder_ok X b"
  "grows ds (b\<lparr>b_devices := x0\<rparr>) c = grows ds b c"
  "grows ds (b\<lparr>b_registry := x1\<rparr>) c = grows ds b c"
  "grows ds (b\<lparr>b_snapshots := x2\<rparr>) c = grows ds b c"
  "grows ds (b\<lparr>b_blk := x3\<rparr>) c = grows ds b c"
  "grows ds (b\<lparr>b_net := x4\<rparr>) c = grows ds b c"
  "grows ds (b\<lparr>b_gpio := x5\<rparr>) c = grows ds b c"
  "grows ds (b\<lparr>b_vsock := x6\<rparr>) c = grows ds b c"
  "grows ds (b\<lparr>b_module_id := x7\<rparr>) c = grows ds b c"
  "grows ds (b\<lparr>b_mem := x8\<rparr>) c = grows ds b c"
  "grows ds (b\<lparr>b_msi := x9\<rparr>) c = grows ds b c"
  "grows ds (b\<lparr>b_notifies := x10\<rparr>) c = grows ds b c"
  "grows ds c (b\<lparr>b_devices := x0\<rparr>) = grows ds c b"
  "grows ds c (b\<lparr>b_registry := x1\<rparr>) = grows ds c b"
  "grows ds c (b\<lparr>b_snapshots := x2\<rparr>) = grows ds c b"
  "grows ds c (b\<lparr>b_blk := x3\<rparr>) = grows ds c b"
  "grows ds c (b\<lparr>b_net := x4\<rparr>) = grows ds c b"
  "grows ds c (b\<lparr>b_gpio := x5\<rparr>) = grows ds c b"
  "grows ds c (b\<lparr>b_vsock := x6\<rparr>) = grows ds c b"
  "grows ds c (b\<lparr>b_module_id := x7\<rparr>) = grows ds c b"
  "grows ds c (b\<lparr>b_mem := x8\<rparr>) = grows ds c b"
  "grows ds c (b\<lparr>b_msi := x9\<rparr>) = grows ds c b"
  "grows ds c (b\<lparr>b_notifies := x10\<rparr>) = grows ds c b"
  by (simp_all add: builder_ok_def machine_lines_def grows_def)

lemma fresh_slot_ok: "slot_ok \<lparr>s_identity = x, s_device = i, s_bars = map (\<lambda>i. \<lparr>bar_size = f i, bar_io = g i, bar_base = None,
    bar_sizing = False\<rparr>) [0..<NUM_BARS], s_command = 0, s_msi = msi_default, s_ioevents = es\<rparr>"
  by (simp add: slot_ok_def bar_ok_def list_all_iff msi_default_def)

lemma register_pci_ok:
  assumes "builder_ok X b" and "register_pci env devnum dev i b = Inr (events, b')"
  shows "builder_ok (X \<union> set_option (identity_irq (dev_identity dev))) b' \<and> grows [push_bit 3 devnum] b b'"
proof -
  obtain bus where r: "pci_register (b_pci b) (push_bit 3 devnum) dev i (event_fds env i) = Inr (events, bus)" and b': "b' = b\<lparr>b_pci := bus\<rparr>"
    using assms(2) by (auto simp: register_pci_def split: sum.splits)
  from r obtain s where "slots bus = slots (b_pci b) @ [(push_bit 3 devnum, s)]" "slot_ok s" "s_identity s = dev_identity dev"
    "\<forall>x \<in> set (slots (b_pci b)). fst x \<noteq> push_bit 3 devnum"
    by (auto simp: pci_register_def Let_def fresh_slot_ok list_ex_iff case_prod_beta split: if_splits option.splits)
  note s = this
  have "pci_lines bus = pci_lines (b_pci b) \<union> set_option (identity_irq (dev_identity dev))"
    by (auto simp: pci_lines_def identities_def s)
  then have "machine_lines b' = machine_lines b \<union> set_option (identity_irq (dev_identity dev))" by (auto simp: machine_lines_def b')
  with assms(1) s show ?thesis by (auto simp: b' builder_ok_def grows_def pci_inv_def)
qed

lemma bus_register_ok:
  "builder_ok X b \<Longrightarrow> b_mmio b = c \<Longrightarrow> builder_ok X (b\<lparr>b_mmio := register c bs sz i None\<rparr>)"
  "builder_ok X b \<Longrightarrow> b_io b = c \<Longrightarrow> builder_ok X (b\<lparr>b_io := register c bs sz i None\<rparr>)"
  using bus_lines_register [of c bs sz i None] by (auto simp: builder_ok_def machine_lines_def pci_inv_def register_inv)

lemma sources_ok:
  "builder_ok {} b \<Longrightarrow> b_sources b = c \<Longrightarrow> g \<in> set (b_irqs b) \<Longrightarrow> builder_ok {} (b\<lparr>b_sources := c @ [(i, g)]\<rparr>)"
  by (auto simp: builder_ok_def machine_lines_def)

lemma grows_sources [simp]: "grows ds b (c\<lparr>b_sources := x\<rparr>) = grows ds b c"
  by (simp add: grows_def)

lemma notifies_ok [simp]:
  "builder_ok X (push_virtio_notifies events i gsi b) = builder_ok X b"
  "grows ds (push_virtio_notifies events i gsi b) c = grows ds b c"
  "grows ds c (push_virtio_notifies events i gsi b) = grows ds c b"
  by (simp_all add: push_virtio_notifies_def)

text \<open>Each part of the assembly: no line without irqfd before and after, and the PCI functions it adds.\<close>

definition part_ok :: "u8 list \<Rightarrow> ('k, 's, 'e) builder \<Rightarrow> ('k, 's, 'e) builder \<Rightarrow> bool" where
  "part_ok ds b b' \<longleftrightarrow> (builder_ok {} b \<longrightarrow> builder_ok {} b' \<and> grows ds b b')"

lemma part_ok_trans: "part_ok ds b b1 \<Longrightarrow> part_ok es b1 b2 \<Longrightarrow> part_ok (ds @ es) b b2"
  by (auto simp: part_ok_def intro: grows_trans)

lemma part_ok_refl: "part_ok [] b b"
  by (simp add: part_ok_def)

lemma try_each_ok:
  assumes "\<And>x b b'. f x b = Inr b' \<Longrightarrow> part_ok (g x) b b'" and "try_each f xs b = Inr b'"
  shows "part_ok (concat (map g xs)) b b'"
  using assms(2) by (induction xs arbitrary: b) (auto intro: part_ok_trans assms(1) simp: part_ok_refl elim!: try_bind_InrE)

text \<open>A PCI function whose line is registered before or after it.\<close>

lemma builder_ok_absorb: "builder_ok X b \<Longrightarrow> X \<subseteq> set (b_irqs b) \<Longrightarrow> builder_ok {} b"
  by (auto simp: builder_ok_def)

lemma register_pci_part:
  assumes "register_pci env devnum dev i b = Inr (events, b')" and "set_option (identity_irq (dev_identity dev)) \<subseteq> set (b_irqs b)"
  shows "part_ok [push_bit 3 devnum] b b'"
proof -
  have "builder_ok {} b' \<and> grows [push_bit 3 devnum] b b'" if "builder_ok {} b"
    using register_pci_ok [OF that assms(1)] assms(2) builder_ok_absorb by (fastforce simp: grows_def)
  then show ?thesis by (simp add: part_ok_def)
qed

lemma register_then_irq_part:
  assumes "register_pci env devnum dev i b = Inr (events, b1)" and "add_irq env g b2 = Inr b'"
    and "set_option (identity_irq (dev_identity dev)) \<subseteq> {g}"
    and "\<And>X. builder_ok X b2 = builder_ok X b1" and "\<And>ds. grows ds b b2 = grows ds b b1"
  shows "part_ok [push_bit 3 devnum] b b'"
proof -
  have "builder_ok {} b' \<and> grows [push_bit 3 devnum] b b'" if "builder_ok {} b"
  proof -
    have b2: "builder_ok {g} b2" "grows [push_bit 3 devnum] b b2"
      using register_pci_ok [OF that assms(1)] assms(3-5) builder_ok_mono [of _ b1 "{g}"] by auto
    from add_irq_ok [OF b2(1) assms(2)] grows_trans [OF b2(2)] show ?thesis by force
  qed
  then show ?thesis by (simp add: part_ok_def)
qed

lemma add_irq_part: "add_irq env g b = Inr b' \<Longrightarrow> part_ok [] b b' \<and> g \<in> set (b_irqs b')"
  using add_irq_ok [of "{}" b env g b'] by (auto simp: part_ok_def add_irq_def irq_register_def elim!: try_bind_InrE split: if_splits option.splits)

lemma load_plugin_frame: "load_plugin env sp is_pci b = Inr (d, b') \<Longrightarrow> \<exists>m n. b' = b\<lparr>b_mem := m, b_module_id := n\<rparr>"
  by (auto simp: load_plugin_def Let_def split: transport_kind.splits sum.splits prod.splits)
    (metis builder.surjective builder.update_convs(1,17))+

lemma virtio_lines [simp]:
  "identity_irq (dev_identity (legacy_function ops (legacy_new ops d irq))) = then_some (irq \<noteq> 0) (ucast irq)"
  "identity_irq (dev_identity (modern_function ops (modern_new ops d irq ty len))) = then_some (irq \<noteq> 0) (ucast irq)"
  "identity_irq (dev_identity host_bridge) = None"
  by (simp_all add: legacy_function_def modern_function_def legacy_new_def modern_new_def host_bridge_def identity_irq_def Let_def then_some_def)

lemma then_some_lines: "set_option (then_some c x) \<subseteq> {x}"
  by (simp add: then_some_def)

lemma add_mmio_plugin_part: "add_mmio_plugin env x b = Inr b' \<Longrightarrow> part_ok [] b b'"
  by (auto simp: add_mmio_plugin_def new_device_def part_ok_def bus_register_ok grows_def split: prod.splits
      elim!: try_bind_InrE dest!: load_plugin_frame)

lemma part_frame [simp]:
  "part_ok ds (b\<lparr>b_devices := x0\<rparr>) c = part_ok ds b c"
  "part_ok ds (b\<lparr>b_registry := x1\<rparr>) c = part_ok ds b c"
  "part_ok ds (b\<lparr>b_snapshots := x2\<rparr>) c = part_ok ds b c"
  "part_ok ds (b\<lparr>b_blk := x3\<rparr>) c = part_ok ds b c"
  "part_ok ds (b\<lparr>b_net := x4\<rparr>) c = part_ok ds b c"
  "part_ok ds (b\<lparr>b_gpio := x5\<rparr>) c = part_ok ds b c"
  "part_ok ds (b\<lparr>b_vsock := x6\<rparr>) c = part_ok ds b c"
  "part_ok ds (b\<lparr>b_module_id := x7\<rparr>) c = part_ok ds b c"
  "part_ok ds (b\<lparr>b_mem := x8\<rparr>) c = part_ok ds b c"
  "part_ok ds (b\<lparr>b_msi := x9\<rparr>) c = part_ok ds b c"
  "part_ok ds (b\<lparr>b_notifies := x10\<rparr>) c = part_ok ds b c"
  "part_ok ds b (c\<lparr>b_devices := x0\<rparr>) = part_ok ds b c"
  "part_ok ds b (c\<lparr>b_registry := x1\<rparr>) = part_ok ds b c"
  "part_ok ds b (c\<lparr>b_snapshots := x2\<rparr>) = part_ok ds b c"
  "part_ok ds b (c\<lparr>b_blk := x3\<rparr>) = part_ok ds b c"
  "part_ok ds b (c\<lparr>b_net := x4\<rparr>) = part_ok ds b c"
  "part_ok ds b (c\<lparr>b_gpio := x5\<rparr>) = part_ok ds b c"
  "part_ok ds b (c\<lparr>b_vsock := x6\<rparr>) = part_ok ds b c"
  "part_ok ds b (c\<lparr>b_module_id := x7\<rparr>) = part_ok ds b c"
  "part_ok ds b (c\<lparr>b_mem := x8\<rparr>) = part_ok ds b c"
  "part_ok ds b (c\<lparr>b_msi := x9\<rparr>) = part_ok ds b c"
  "part_ok ds b (c\<lparr>b_notifies := x10\<rparr>) = part_ok ds b c"
  "part_ok ds b (push_virtio_notifies ev i gsi c) = part_ok ds b c"
  by (simp_all add: part_ok_def)

lemma part_irqs: "part_ok ds b b' \<Longrightarrow> builder_ok {} b \<Longrightarrow> set (b_irqs b) \<subseteq> set (b_irqs b')"
  by (simp add: part_ok_def grows_def)

lemma add_pci_plugin_part:
  assumes "add_pci_plugin env x b = Inr b'"
  shows "part_ok [push_bit 3 (snd x)] b b'"
proof -
  obtain sp devnum where x: "x = (sp, devnum)" by (cases x)
  obtain d b1 where l: "load_plugin env sp True b = Inr (d, b1)" using assms by (auto simp: add_pci_plugin_def x elim!: try_bind_InrE)
  let ?dev = "scripted_pci (sd_identity d)"
  let ?line = "id_interrupt_line (dev_identity ?dev)"
  have b1: "part_ok ds b1 c = part_ok ds b c" for ds c using load_plugin_frame [OF l] by auto
  show ?thesis
  proof (cases "?line = 0")
    case True
    then have "identity_irq (dev_identity ?dev) = None" by (simp add: identity_irq_def then_some_def)
    then show ?thesis using assms l True register_pci_part [of env devnum ?dev] b1
      by (fastforce simp: add_pci_plugin_def x Let_def new_device_def elim!: try_bind_InrE)
  next
    case False
    have irq: "identity_irq (dev_identity ?dev) = Some (ucast ?line)" using False by (simp add: identity_irq_def then_some_def)
    from assms l False obtain b2 where 2: "add_irq env (ucast ?line) b1 = Inr b2"
      by (cases "add_irq env (ucast ?line) b1") (simp_all add: add_pci_plugin_def x Let_def try_bind_def)
    define c where "c = (if id_msi_capable (dev_identity ?dev) then b2\<lparr>b_msi := b_msi b2 @ [(ucast ?line, push_bit 3 devnum)]\<rparr> else b2)"
    then have c: "c = b2 \<or> (\<exists>ms. c = b2\<lparr>b_msi := ms\<rparr>)" by auto
    from assms l False 2 obtain b3 i ev rg where 3: "register_pci env devnum ?dev i (c\<lparr>b_devices := b_devices c @ [Dev_plugin d]\<rparr>) = Inr (ev, b3)"
      and b': "b' = b3\<lparr>b_registry := rg, b_sources := b_sources b3 @ [(i, ucast ?line)]\<rparr>"
      by (auto simp: add_pci_plugin_def x Let_def new_device_def try_bind_def [of "Inr _"] simp flip: c_def elim!: try_bind_InrE)
    have pc: "part_ok [] b c" "ucast ?line \<in> set (b_irqs c)" using add_irq_part [OF 2] c b1 by auto
    then have p3: "part_ok [push_bit 3 devnum] c b3" using register_pci_part [OF 3] by (simp add: irq)
    have "builder_ok {} (b3\<lparr>b_registry := rg, b_sources := b_sources b3 @ [(i, ucast ?line)]\<rparr>)" if "builder_ok {} c"
      using part_irqs [OF p3 that] p3 that pc(2) by (intro sources_ok) (auto simp: part_ok_def)
    then have "part_ok [push_bit 3 devnum] c b'" using p3 by (simp add: part_ok_def b')
    from part_ok_trans [OF pc(1) this] show ?thesis by (simp add: x)
  qed
qed

lemma register_pci_both:
  "register_pci env devnum dev i b = Inr (ev, b') \<Longrightarrow> b_irqs b' = b_irqs b \<and>
    (set_option (identity_irq (dev_identity dev)) \<subseteq> set (b_irqs b) \<longrightarrow> part_ok [push_bit 3 devnum] b b')"
  using register_pci_part [of env devnum dev i b ev b'] by (auto simp: register_pci_def split: sum.splits)

lemma line_subset: "g \<in> S \<Longrightarrow> set_option (then_some c g) \<subseteq> S"
  by (simp add: then_some_def)

lemma try_each_line_ok:
  assumes "\<And>x b b'. f x b = Inr b' \<Longrightarrow> g \<in> set (b_irqs b) \<Longrightarrow> part_ok (h x) b b' \<and> b_irqs b' = b_irqs b"
    and "try_each f xs b = Inr b'" and "g \<in> set (b_irqs b)"
  shows "part_ok (concat (map h xs)) b b'"
  using assms(2,3)
proof (induction xs arbitrary: b)
  case (Cons x xs)
  then obtain b1 where 1: "f x b = Inr b1" "try_each f xs b1 = Inr b'" by (auto elim!: try_bind_InrE)
  with Cons assms(1) [OF 1(1)] show ?case by (auto intro: part_ok_trans)
qed (simp add: part_ok_refl)

lemma notifies_irqs [simp]: "b_irqs (push_virtio_notifies ev i gsi b) = b_irqs b"
  by (simp add: push_virtio_notifies_def)

lemma add_host_bridge_part: "add_host_bridge env b = Inr b' \<Longrightarrow> part_ok [push_bit 3 SLOT_HOST_BRIDGE] b b'"
  by (auto simp: add_host_bridge_def new_device_def elim!: try_bind_InrE dest!: register_pci_part)

lemma add_disk_part:
  assumes "add_disk env x b = Inr b'" and "ucast GSI_BLK \<in> set (b_irqs b)"
  shows "part_ok [push_bit 3 (fst x)] b b' \<and> b_irqs b' = b_irqs b"
  using assms
  by (auto simp: add_disk_def Let_def new_device_def line_subset split: prod.splits option.splits elim!: try_bind_InrE
      dest!: register_pci_both)

lemma add_gpio_bank_part:
  assumes "add_gpio_bank env x b = Inr b'" and "ucast GSI_GPIO \<in> set (b_irqs b)"
  shows "part_ok [push_bit 3 (fst x)] b b' \<and> b_irqs b' = b_irqs b"
  using assms
  by (auto simp: add_gpio_bank_def Let_def new_device_def line_subset split: prod.splits sum.splits elim!: try_bind_InrE
      dest!: register_pci_both)

lemma zip_slots: "map (\<lambda>x. f (fst x)) (zip (map g [0..<length ys]) ys) = map (\<lambda>k. f (g k)) [0..<length ys]"
  by (rule nth_equalityI) simp_all

definition disk_slots :: "args \<Rightarrow> u8 list" where
  "disk_slots a = map (\<lambda>k. push_bit 3 (SLOT_BLK_BASE + of_nat k)) [0..<length (disks a)]"

definition gpio_slots :: "args \<Rightarrow> u8 list" where
  "gpio_slots a = map (\<lambda>k. push_bit 3 (SLOT_GPIO_BASE + of_nat k)) [0..<length (gpio_devices a)]"

lemma add_disks_part:
  assumes "add_disks env a b = Inr b'"
  shows "part_ok (disk_slots a) b b' \<and> length (disks a) \<le> 8"
proof (cases "disks a = []")
  case False
  then obtain b1 where 1: "add_irq env (ucast GSI_BLK) b = Inr b1"
    "try_each (add_disk env) (zip (map (\<lambda>k. SLOT_BLK_BASE + of_nat k) [0..<length (disks a)]) (disks a)) b1 = Inr b'"
    using assms by (auto simp: add_disks_def split: if_splits elim!: try_bind_InrE)
  have "part_ok (concat (map (\<lambda>x. [push_bit 3 (fst x)]) (zip (map (\<lambda>k. SLOT_BLK_BASE + of_nat k) [0..<length (disks a)]) (disks a)))) b1 b'"
    by (rule try_each_line_ok [where g = "ucast GSI_BLK", OF _ 1(2)]) (use add_disk_part add_irq_part [OF 1(1)] in blast)+
  then have "part_ok (disk_slots a) b1 b'" by (simp add: disk_slots_def zip_slots)
  moreover have "length (disks a) \<le> 8" using assms by (simp add: add_disks_def SLOT_BLK_MAX_DISKS_def split: if_splits)
  ultimately show ?thesis using part_ok_trans [of "[]" b b1] add_irq_part [OF 1(1)] by simp
qed (use assms in \<open>auto simp: add_disks_def part_ok_refl disk_slots_def\<close>)

lemma add_gpio_part:
  assumes "add_gpio env a b = Inr b'"
  shows "part_ok (gpio_slots a) b b' \<and> length (gpio_devices a) \<le> 4"
proof (cases "gpio_devices a = []")
  case False
  then obtain b1 b2 where 1: "add_irq env (ucast GSI_GPIO) b = Inr b1"
    "try_each (add_gpio_bank env) (zip (map (\<lambda>k. SLOT_GPIO_BASE + of_nat k) [0..<length (gpio_devices a)]) (gpio_devices a)) b1 = Inr b2"
    "b' = b2\<lparr>b_snapshots := b_snapshots b2 @ b_gpio b2\<rparr>"
    using assms by (auto simp: add_gpio_def split: if_splits elim!: try_bind_InrE)
  have "part_ok (concat (map (\<lambda>x. [push_bit 3 (fst x)]) (zip (map (\<lambda>k. SLOT_GPIO_BASE + of_nat k) [0..<length (gpio_devices a)]) (gpio_devices a)))) b1 b2"
    by (rule try_each_line_ok [where g = "ucast GSI_GPIO", OF _ 1(2)]) (use add_gpio_bank_part add_irq_part [OF 1(1)] in blast)+
  then have "part_ok (gpio_slots a) b1 b2" by (simp add: gpio_slots_def zip_slots)
  moreover have "length (gpio_devices a) \<le> 4" using assms False by (simp add: add_gpio_def SLOT_GPIO_MAX_BANKS_def split: if_splits)
  ultimately show ?thesis using part_ok_trans [of "[]" b b1] add_irq_part [OF 1(1)] 1(3) by simp
qed (use assms in \<open>auto simp: add_gpio_def part_ok_refl gpio_slots_def\<close>)

lemma add_net_part:
  assumes "add_net env a b = Inr b'"
  shows "part_ok (if net_tap a then [push_bit 3 SLOT_NET] else []) b b'"
proof (cases "net_tap a")
  case True
  define s where "s = legacy_new net_ops (net_new [0x52, 0x54, 0x00, 0x12, 0x34, 0x56]) GSI_NET"
  from assms True obtain i d ev b1 b2 where 1: "register_pci env SLOT_NET (legacy_function net_ops s) i (b\<lparr>b_devices := d\<rparr>) = Inr (ev, b1)"
    and 2: "add_irq env (ucast GSI_NET) (push_virtio_notifies ev i GSI_NET b1) = Inr b2"
    and b': "b' = b2\<lparr>b_net := b_net b2 @ [i], b_snapshots := b_snapshots b2 @ [i]\<rparr>"
    by (auto simp: add_net_def Let_def new_device_def simp flip: s_def split: if_splits elim!: try_bind_InrE)
  from register_then_irq_part [OF 1 2] show ?thesis using True by (simp add: b' s_def then_some_lines)
qed (use assms in \<open>auto simp: add_net_def part_ok_refl\<close>)

lemma add_i2c_part:
  fixes env :: "('s, 'e) host_env"
  assumes "add_i2c env a b = Inr b'"
  shows "part_ok (if i2c_devices a \<noteq> [] then [push_bit 3 SLOT_I2C] else []) b b'"
proof (cases "i2c_devices a = []")
  case False
  from assms False obtain bus :: "'s py_i2c_target i2c_bus" and n i d ev b1 b2
    where 1: "register_pci env SLOT_I2C (modern_function (i2c_ops py_target_ops) (modern_new (i2c_ops py_target_ops) bus GSI_I2C 34 0)) i (b\<lparr>b_module_id := n, b_devices := d\<rparr>) = Inr (ev, b1)"
    and 2: "add_irq env (ucast GSI_I2C) b1 = Inr b2" and b': "b' = b2\<lparr>b_snapshots := b_snapshots b2 @ [i]\<rparr>"
    by (auto simp: add_i2c_def Let_def new_device_def elim!: try_bind_InrE)
  from register_then_irq_part [OF 1 2] show ?thesis using False by (simp add: b' then_some_lines)
qed (use assms in \<open>auto simp: add_i2c_def part_ok_refl\<close>)

lemma add_vsock_part:
  assumes "add_vsock env a b = Inr b'"
  shows "part_ok (if vsock_uds a \<noteq> None then [push_bit 3 SLOT_VSOCK] else []) b b'"
proof (cases "vsock_uds a")
  case (Some u)
  define s where "s = modern_new (vsock_ops (vsock_host env)) vsock_new GSI_VSOCK 19 8"
  from assms Some obtain i d ev b1 b2
    where 1: "register_pci env SLOT_VSOCK (modern_function (vsock_ops (vsock_host env)) s) i (b\<lparr>b_devices := d\<rparr>) = Inr (ev, b1)"
    and 2: "add_irq env (ucast GSI_VSOCK) b1 = Inr b2" and b': "b' = b2\<lparr>b_vsock := Some i\<rparr>"
    by (auto simp: add_vsock_def Let_def new_device_def simp flip: s_def split: if_splits elim!: try_bind_InrE)
  from register_then_irq_part [OF 1 2] show ?thesis using Some by (simp add: b' s_def then_some_lines)
qed (use assms in \<open>auto simp: add_vsock_def part_ok_refl\<close>)

lemma add_rng_part:
  assumes "add_rng env a rec rep b = Inr b'"
  shows "part_ok [push_bit 3 SLOT_RNG] b b'"
proof -
  let ?ops = "rng_ops (entropy_source env) (clock_source env)"
  obtain dev i d sn ev b1 b2 where dev: "set_option (identity_irq (dev_identity dev)) \<subseteq> {ucast GSI_RNG}"
    and 1: "register_pci env SLOT_RNG dev i (b\<lparr>b_devices := d, b_snapshots := sn\<rparr>) = Inr (ev, b1)"
    and b2: "b2 = b1 \<or> b2 = push_virtio_notifies ev i GSI_RNG b1" and 2: "add_irq env (ucast GSI_RNG) b2 = Inr b'"
  proof (cases "rng_modern a")
    case True
    define s where "s = modern_new ?ops \<lparr>rng_entropy = entropy env, rng_recorder = rec, rng_replayer = rep\<rparr> GSI_RNG 4 0"
    have "set_option (identity_irq (dev_identity (modern_function ?ops s))) \<subseteq> {ucast GSI_RNG}" by (simp add: s_def then_some_lines)
    with assms True show ?thesis
      by (clarsimp simp: add_rng_def Let_def new_device_def simp flip: s_def elim!: try_bind_InrE) (erule (1) that, rule disjI1 [OF refl])
  next
    case False
    define s where "s = legacy_new ?ops \<lparr>rng_entropy = entropy env, rng_recorder = rec, rng_replayer = rep\<rparr> GSI_RNG"
    have "set_option (identity_irq (dev_identity (legacy_function ?ops s))) \<subseteq> {ucast GSI_RNG}" by (simp add: s_def then_some_lines)
    with assms False show ?thesis
      by (clarsimp simp: add_rng_def Let_def new_device_def simp flip: s_def elim!: try_bind_InrE) (erule (1) that, rule disjI2 [OF refl])
  qed
  from register_then_irq_part [OF 1 2 dev] b2 show ?thesis by auto
qed

lemma concat_map_Nil [simp]: "concat (map (\<lambda>_. []) xs) = []"
  by (induction xs) simp_all

lemma add_mmio_plugins_part:
  assumes "add_mmio_plugins env a b = Inr b'"
  shows "part_ok [] b b'"
proof -
  note each = assms [unfolded add_mmio_plugins_def]
  from try_each_ok [where g = "\<lambda>_. []", OF _ each] show ?thesis using add_mmio_plugin_part by (simp add: comp_def) blast
qed

definition plugin_slots :: "args \<Rightarrow> u8 list" where
  "plugin_slots a = map (push_bit 3) (map ps_device_number (pci_devices a) @ map ps_device_number (sandboxed_pci_devices a) @
     map np_device_number (native_pci_devices a) @ map np_device_number (wasm_pci_devices a))"

lemma add_pci_plugins_part:
  assumes "add_pci_plugins env a b = Inr b'"
  shows "part_ok (plugin_slots a) b b'"
proof -
  note each = assms [unfolded add_pci_plugins_def]
  from try_each_ok [where g = "\<lambda>x. [push_bit 3 (snd x)]", OF _ each] show ?thesis
    using add_pci_plugin_part by (simp add: plugin_slots_def comp_def) blast
qed

lemma bind_control_part: "bind_control env a b = Inr b' \<Longrightarrow> part_ok [] b b'"
  by (auto simp: bind_control_def part_ok_refl split: option.splits if_splits)

lemma register_io_part: "part_ok [] b (register_io port sz d b)"
  by (auto simp: register_io_def new_device_def part_ok_def grows_def intro!: bus_register_ok)

text \<open>One port of \<open>add_extra_uarts\<close>, the \<open>i\<close>-th.\<close>

lemma uart_step:
  assumes "builder_ok {} b" and "irq = uart_irqs ! length (b_uarts b)" and "add_uart env (log_path, port, irq) b = Inr b'"
  shows "builder_ok {} b' \<and> length (b_uarts b') = Suc (length (b_uarts b)) \<and> set (b_irqs b) \<subseteq> set (b_irqs b') \<and> b_pci b' = b_pci b"
proof -
  have lines: "machine_lines (c\<lparr>b_uarts := u\<rparr>) = machine_lines c" for c :: "('a, 'b, 'c) builder" and u by (simp add: machine_lines_def)
  show ?thesis
  proof (cases log_path)
    case None
    with assms show ?thesis by (auto simp: add_uart_def builder_ok_def lines nth_append less_Suc_eq)
  next
    case (Some path)
    with assms(3) obtain b1 where 1: "add_irq env irq b = Inr b1" and b': "b' = b1\<lparr>b_uarts := b_uarts b1 @ [Some (new_capture port)]\<rparr>"
      by (auto simp: add_uart_def split: if_splits elim!: try_bind_InrE)
    from add_irq_ok [OF assms(1) 1] assms(2) show ?thesis
      by (auto simp: b' builder_ok_def lines nth_append less_Suc_eq grows_def)
  qed
qed

lemma add_extra_uarts_ok:
  assumes "builder_ok {} b" and "b_uarts b = []" and "add_extra_uarts env a b = Inr b'"
  shows "builder_ok {} b' \<and> length (b_uarts b') = 3 \<and> set (b_irqs b) \<subseteq> set (b_irqs b') \<and> b_pci b' = b_pci b"
proof -
  obtain b1 b2 where u: "add_uart env (uart2_log a, COM2_BASE, COM2_IRQ) b = Inr b1"
      "add_uart env (uart3_log a, COM3_BASE, COM3_IRQ) b1 = Inr b2" "add_uart env (uart4_log a, COM4_BASE, COM4_IRQ) b2 = Inr b'"
    using assms(3) by (auto simp: add_extra_uarts_def elim!: try_bind_InrE)
  note 1 = uart_step [OF assms(1) _ u(1)]
  from 1 assms(2) have "builder_ok {} b1" "length (b_uarts b1) = 1" by (simp_all add: uart_irqs_def)
  note 2 = uart_step [OF this(1) _ u(2)] and l1 = this
  from 2 l1 have "builder_ok {} b2" "length (b_uarts b2) = 2" by (simp_all add: uart_irqs_def)
  note 3 = uart_step [OF this(1) _ u(3)] and l2 = this
  from 1 2 3 l1 l2 assms(2) show ?thesis by (auto simp: uart_irqs_def)
qed

subsection \<open>The assembled machine\<close>

text \<open>Where the PCI functions of a machine are, in registration order.\<close>

definition machine_slots :: "args \<Rightarrow> u8 list" where
  "machine_slots a = [push_bit 3 SLOT_HOST_BRIDGE] @ disk_slots a @ (if net_tap a then [push_bit 3 SLOT_NET] else []) @
     (if i2c_devices a \<noteq> [] then [push_bit 3 SLOT_I2C] else []) @ gpio_slots a @
     (if vsock_uds a \<noteq> None then [push_bit 3 SLOT_VSOCK] else []) @ [push_bit 3 SLOT_RNG] @ plugin_slots a"

lemma builder_new_ok: "builder_ok {} (builder_new m k n)"
  by (simp add: builder_ok_def builder_new_def machine_lines_def bus_lines_def pci_lines_def identities_def pci_inv_def bus_new_def pci_with_vm_def)

lemma machine_build_ok:
  assumes "machine_build env a rec rep (builder_new m k n) = Inr b'"
  shows "builder_ok {} b' \<and> length (b_uarts b') = 3 \<and> COM1_IRQ \<in> set (b_irqs b') \<and> map fst (slots (b_pci b')) = machine_slots a \<and>
    length (disks a) \<le> 8 \<and> length (gpio_devices a) \<le> 4"
proof -
  let ?b = "builder_new m k n"
  let ?io = "\<lambda>b. register_io RESET_PORT 1 Dev_reset (register_io SLEEP_CONTROL_PORT 2 Dev_sleep b)"
  obtain b1 b2 b4 b5 b6 b7 b8 b9 b10 b11 b12 where
    s: "add_irq env COM1_IRQ ?b = Inr b1" "add_extra_uarts env a b1 = Inr b2" "add_mmio_plugins env a (?io b2) = Inr b4"
    "add_host_bridge env b4 = Inr b5" "add_disks env a b5 = Inr b6" "add_net env a b6 = Inr b7" "add_i2c env a b7 = Inr b8"
    "add_gpio env a b8 = Inr b9" "add_vsock env a b9 = Inr b10" "add_rng env a rec rep b10 = Inr b11"
    "add_pci_plugins env a b11 = Inr b12" "bind_control env a b12 = Inr b'"
    using assms unfolding machine_build_def Let_def by (elim try_bind_InrE) (rule that; assumption)
  have 1: "builder_ok {} b1" "b_uarts b1 = []" "slots (b_pci b1) = []" "COM1_IRQ \<in> set (b_irqs b1)"
    using add_irq_ok [OF builder_new_ok s(1)] by (auto simp: grows_def builder_new_def pci_with_vm_def)
  have 2: "builder_ok {} b2" "length (b_uarts b2) = 3" "COM1_IRQ \<in> set (b_irqs b2)" "slots (b_pci b2) = []"
    using add_extra_uarts_ok [OF 1(1,2) s(2)] 1(3,4) by auto
  have "part_ok [] b2 (?io b2)" using part_ok_trans [OF register_io_part register_io_part] by simp
  note parts = this add_mmio_plugins_part [OF s(3)] add_host_bridge_part [OF s(4)] conjunct1 [OF add_disks_part [OF s(5)]]
    add_net_part [OF s(6)] add_i2c_part [OF s(7)] conjunct1 [OF add_gpio_part [OF s(8)]] add_vsock_part [OF s(9)]
    add_rng_part [OF s(10)] add_pci_plugins_part [OF s(11)] bind_control_part [OF s(12)]
  have "part_ok (machine_slots a) b2 b'"
    using part_ok_trans [OF part_ok_trans [OF part_ok_trans [OF part_ok_trans [OF part_ok_trans [OF part_ok_trans [OF part_ok_trans
      [OF part_ok_trans [OF part_ok_trans [OF part_ok_trans [OF parts(1-2)] parts(3)] parts(4)] parts(5)] parts(6)] parts(7)] parts(8)]
      parts(9)] parts(10)] parts(11)] by (simp only: machine_slots_def append_assoc append_Nil append_Nil2)
  with 2 add_disks_part [OF s(5)] add_gpio_part [OF s(8)] show ?thesis by (auto simp: part_ok_def grows_def)
qed

lemma start_vm_inv:
  assumes "machine_build env a rec rep (builder_new m k n) = Inr b"
  shows "vm_inv (start_vm b)"
  using machine_build_ok [OF assms] by (auto simp: vm_inv_def start_vm_def builder_ok_def machine_lines_def)

text \<open>A host on which everything that needs none of its files succeeds.\<close>

definition demo_host :: "(unit, unit) host_env" where
  "demo_host = \<lparr>irqfd_failure = (\<lambda>_. None), event_fds = (\<lambda>i. map Some [0..<8]), read_file = (\<lambda>_. None), py_class = (\<lambda>_ _ _ _. None),
     py_i2c_class = (\<lambda>_ _ _ _. None), py_gpio_class = (\<lambda>_ _ _ _. None), sandbox_child = (\<lambda>_ _ _. None), dlopen = (\<lambda>_. None),
     wasm_file = (\<lambda>_. None), disk_image = (\<lambda>_. Some (replicate 512 0)), tap_ok = True, uart_log_ok = (\<lambda>_. True), vsock_ok = True,
     control_ok = (\<lambda>_. True), ring = \<lparr>push_ok = (\<lambda>_. False), submit_ok = (\<lambda>_. False), sync_ok = (\<lambda>_. True)\<rparr>, entropy = (),
     entropy_source = (\<lambda>e n. (replicate n 0, e)), clock_source = (\<lambda>_. (0, 0)),
     vsock_host = \<lparr>connect_ok = (\<lambda>_. False), key_order = (\<lambda>_. [])\<rparr>\<rparr>"

lemmas build_defs = machine_build_def add_irq_def irq_register_def try_bind_def add_extra_uarts_def add_uart_def register_io_def
  new_device_def add_mmio_plugins_def add_host_bridge_def register_pci_def pci_register_def add_disks_def add_disk_def add_net_def
  add_i2c_def add_gpio_def add_vsock_def add_rng_def add_pci_plugins_def bind_control_def push_virtio_notifies_def

lemma demo_machine:
  "\<exists>b. machine_build demo_host (args_default\<lparr>disks := [''disk'']\<rparr>) None None (builder_new (mem_new 0x1000) () 0) = Inr b"
  by (simp add: build_defs demo_host_def args_default_def builder_new_def pci_with_vm_def Let_def host_bridge_def
      SLOT_BLK_MAX_DISKS_def SLOT_HOST_BRIDGE_def SLOT_RNG_def SLOT_BLK_BASE_def legacy_function_def legacy_ioevent_entries_def
      legacy_new_def blk_ops_def rng_ops_def upt_rec)

subsection \<open>Properties\<close>



text \<open>C32: The PCI layout of a machine is a function of its arguments: the host bridge at device 0, disks from 4,
  network at 16, I2C at 18, GPIO banks from 19, vsock at 23, entropy at 17, then the plugins at the numbers
  they ask for. A machine is built only if no two functions collide.\<close>

theorem machine_slot_layout:
  assumes "machine_build env a rec rep (builder_new m k n) = Inr b"
  shows "map fst (slots (b_pci b)) = machine_slots a \<and> distinct (machine_slots a) \<and>
    length (disks a) \<le> SLOT_BLK_MAX_DISKS \<and> length (gpio_devices a) \<le> SLOT_GPIO_MAX_BANKS"
  using machine_build_ok [OF assms]
  by (auto simp: builder_ok_def pci_inv_def SLOT_BLK_MAX_DISKS_def SLOT_GPIO_MAX_BANKS_def)

theorem machine_slot_layout_witness:
  "\<exists>b. machine_build demo_host (args_default\<lparr>disks := [''disk'']\<rparr>) None None (builder_new (mem_new 0x1000) () 0) = Inr b \<and>
     map fst (slots (b_pci b)) = [0, 32, 136]"
proof -
  obtain b where b: "machine_build demo_host (args_default\<lparr>disks := [''disk'']\<rparr>) None None (builder_new (mem_new 0x1000) () 0) = Inr b"
    using demo_machine by blast
  from machine_slot_layout [OF b] b show ?thesis
    by (auto simp: machine_slots_def disk_slots_def gpio_slots_def plugin_slots_def args_default_def SLOT_HOST_BRIDGE_def
        SLOT_BLK_BASE_def SLOT_RNG_def)
qed


text \<open>A WebAssembly plugin with the module of \<open>Plugin_Transports\<close> behind it, and its registry entry.\<close>

definition demo_entry :: plugin_registry_entry where
  "demo_entry = \<lparr>pr_selector = Sel_pci 3, pr_path = ''demo.wasm'', pr_class = None, pr_dma_range = None, pr_limits = None,
     pr_transport = Wasm, pr_is_pci = True, pr_device = 0\<rparr>"


end
