(* ===== verification/Reactor.thy ===== *)
theory Reactor
  imports Machine_Build
begin

text \<open>
  The reactor thread (\<open>src/reactor.rs\<close>): which file descriptors it watches under which token, what it does
  when one of them is ready, and the rendezvous that parks it (\<open>ReactorPause\<close>).

  A device is its index in the machine's device list, as in \<open>Machine_Build\<close>. What the host has queued for
  standard input and for each TAP device is part of the state: a read takes from it. A device whose queue
  processing does not return leaves the reactor without a result (\<open>None\<close>).
\<close>

definition ESCAPE_BYTE :: u8 where "ESCAPE_BYTE = 0x1d"
definition STDIN_TOKEN :: u64 where "STDIN_TOKEN = 0"
definition RX_BUF_LEN :: nat where "RX_BUF_LEN = 65536"
definition STDIN_BUF_LEN :: nat where "STDIN_BUF_LEN = 256"

record reactor_config =
  rc_net :: "device_id list"
  rc_notifies :: "notify_target list"
  rc_blk :: "device_id list"
  rc_gpio :: "device_id list"
  rc_vsock :: "device_id option"
  rc_suppress_stdin :: bool

text \<open>
  \<open>re_stdin\<close> lists the results of the next reads of standard input: \<open>None\<close> is the end of the input, \<open>Some []\<close> that
  nothing is queued. \<open>re_tap\<close> lists the frames waiting at each TAP device. \<open>re_recording\<close> is the
  recorder's file when there is one; \<open>re_now\<close> is its branch counter and clock.
\<close>

record ('k, 's, 'e) reactor =
  re_vm :: "('k, ('s, 'e) machine_world) vm"
  re_recording :: "bytes option"
  re_now :: "u64 \<times> u64"
  re_stdin_watched :: bool
  re_stdin :: "bytes option list"
  re_tap :: "device_id \<Rightarrow> bytes list"

subsection \<open>Tokens\<close>

datatype target = Stdin | Tap device_id | Notify notify_target | Blk_done device_id | Gpio_done device_id | Vsock_bridge device_id

definition virtio_notify_base :: "reactor_config \<Rightarrow> u64" where
  "virtio_notify_base c = of_nat (length (rc_net c)) + 1"

definition blk_completion_base :: "reactor_config \<Rightarrow> u64" where
  "blk_completion_base c = virtio_notify_base c + of_nat (length (rc_notifies c))"

definition gpio_completion_base :: "reactor_config \<Rightarrow> u64" where
  "gpio_completion_base c = blk_completion_base c + of_nat (length (rc_blk c))"

definition vsock_token :: "reactor_config \<Rightarrow> u64" where
  "vsock_token c = gpio_completion_base c + of_nat (length (rc_gpio c))"

definition enumerated :: "(nat \<Rightarrow> 'a \<Rightarrow> 'b) \<Rightarrow> 'a list \<Rightarrow> 'b list" where
  "enumerated f xs = map (\<lambda>(i, x). f i x) (enumerate 0 xs)"

text \<open>What \<open>run\<close> asks epoll to watch; \<open>has_fd\<close> tells which adapters have a completion eventfd.\<close>

definition registrations :: "(device_id \<Rightarrow> bool) \<Rightarrow> reactor_config \<Rightarrow> (target \<times> u64) list" where
  "registrations has_fd c =
     (if rc_suppress_stdin c then [] else [(Stdin, STDIN_TOKEN)]) @
     enumerated (\<lambda>i d. (Tap d, of_nat i + 1)) (rc_net c) @
     enumerated (\<lambda>i t. (Notify t, virtio_notify_base c + of_nat i)) (rc_notifies c) @
     filter (\<lambda>(t, _). case t of Blk_done d \<Rightarrow> has_fd d | _ \<Rightarrow> True)
       (enumerated (\<lambda>i d. (Blk_done d, blk_completion_base c + of_nat i)) (rc_blk c)) @
     filter (\<lambda>(t, _). case t of Gpio_done d \<Rightarrow> has_fd d | _ \<Rightarrow> True)
       (enumerated (\<lambda>i d. (Gpio_done d, gpio_completion_base c + of_nat i)) (rc_gpio c)) @
     (case rc_vsock c of None \<Rightarrow> [] | Some d \<Rightarrow> [(Vsock_bridge d, vsock_token c)])"

definition get_at :: "'a list \<Rightarrow> u64 \<Rightarrow> 'a option" where
  "get_at xs i = (if unat i < length xs then Some (xs ! unat i) else None)"

definition dispatch :: "reactor_config \<Rightarrow> u64 \<Rightarrow> target option" where
  "dispatch c token =
     (if token = STDIN_TOKEN then Some Stdin
      else if token < virtio_notify_base c then map_option Tap (get_at (rc_net c) (token - 1))
      else if token < blk_completion_base c then map_option Notify (get_at (rc_notifies c) (token - virtio_notify_base c))
      else if token < gpio_completion_base c then map_option Blk_done (get_at (rc_blk c) (token - blk_completion_base c))
      else if token < vsock_token c then map_option Gpio_done (get_at (rc_gpio c) (token - gpio_completion_base c))
      else map_option Vsock_bridge (rc_vsock c))"

subsection \<open>Handlers\<close>

definition re_pulse :: "u32 \<Rightarrow> ('k, 's, 'e) reactor \<Rightarrow> ('k, 's, 'e) reactor" where
  "re_pulse irq r = r\<lparr>re_vm := irq_pulse irq (re_vm r)\<rparr>"

definition re_record :: "event_kind \<Rightarrow> bytes \<Rightarrow> ('k, 's, 'e) reactor \<Rightarrow> ('k, 's, 'e) reactor" where
  "re_record kind bs r = r\<lparr>re_recording := map_option (\<lambda>f. recorder_record f (re_now r) kind bs) (re_recording r)\<rparr>"

definition push_rx :: "bytes \<Rightarrow> ('k, 's, 'e) reactor \<Rightarrow> ('k, 's, 'e) reactor" where
  "push_rx bs r =
     (if bs = [] then r
      else
        let r = re_record KeyboardRx bs r; v = re_vm r in
        (case push_keys bs (serial_port (shared v)) of (wants_irq, ser) \<Rightarrow>
           let r = r\<lparr>re_vm := v\<lparr>shared := (shared v)\<lparr>serial_port := ser\<rparr>\<rparr>\<rparr>
           in if wants_irq then re_pulse COM1_IRQ r else r))"

definition quit_request :: "('k, 's, 'e) reactor \<Rightarrow> ('k, 's, 'e) reactor" where
  "quit_request r =
     (let v = re_vm r; w = world v
      in r\<lparr>re_vm := v\<lparr>world := w\<lparr>w_exit := request_exit (w_exit w) (Inr UserQuit)\<rparr>\<rparr>\<rparr>)"

datatype stdin_state = Stdin_open | Stdin_closed

text \<open>The loop of \<open>handle_stdin\<close> on the reads that are left, which it returns.\<close>

fun stdin_loop :: "bytes option list \<Rightarrow> ('k, 's, 'e) reactor \<Rightarrow> stdin_state \<times> bytes option list \<times> ('k, 's, 'e) reactor" where
  "stdin_loop [] r = (Stdin_open, [], r)"
| "stdin_loop (None # reads) r = (Stdin_closed, reads, r)"
| "stdin_loop (Some buf # reads) r =
     (if buf = [] then (Stdin_open, reads, r)
      else if ESCAPE_BYTE \<in> set buf
      then (Stdin_open, reads, quit_request (push_rx (takeWhile (\<lambda>b. b \<noteq> ESCAPE_BYTE) buf) r))
      else let r = push_rx buf r in
        if length buf < STDIN_BUF_LEN then (Stdin_open, reads, r) else stdin_loop reads r)"

definition handle_stdin :: "('k, 's, 'e) reactor \<Rightarrow> stdin_state \<times> ('k, 's, 'e) reactor" where
  "handle_stdin r = (case stdin_loop (re_stdin r) r of (st, reads, r') \<Rightarrow> (st, r'\<lparr>re_stdin := reads\<rparr>))"

text \<open>\<open>handle_ioevent\<close> of the device behind a notify target: the legacy transport drains the queue, other devices ignore it.\<close>

definition machine_handle_ioevent :: "('s, 'e) host_env \<Rightarrow> device_id \<Rightarrow> u16 \<Rightarrow> ('s, 'e) machine_world \<Rightarrow> (bool \<times> ('s, 'e) machine_world) option" where
  "machine_handle_ioevent env i dm w =
     (case w_devices w ! i of
        Dev_blk s \<Rightarrow> store_write i Dev_blk (legacy_handle_ioevent (blk_ops (ring env)) s (w_mem w) dm) w
      | Dev_net s \<Rightarrow> store_write i Dev_net (legacy_handle_ioevent net_ops s (w_mem w) dm) w
      | Dev_rng s \<Rightarrow> store_write i Dev_rng (legacy_handle_ioevent (rng_ops (entropy_source env) (clock_source env)) s (w_mem w) dm) w
      | _ \<Rightarrow> Some (False, w))"

definition put_world :: "('s, 'e) machine_world \<Rightarrow> ('k, 's, 'e) reactor \<Rightarrow> ('k, 's, 'e) reactor" where
  "put_world w r = r\<lparr>re_vm := (re_vm r)\<lparr>world := w\<rparr>\<rparr>"

definition handle_virtio_notify :: "('s, 'e) host_env \<Rightarrow> notify_target \<Rightarrow> ('k, 's, 'e) reactor \<Rightarrow> ('k, 's, 'e) reactor option" where
  "handle_virtio_notify env t r =
     (case machine_handle_ioevent env (nt_device t) (nt_datamatch t) (world (re_vm r)) of
        None \<Rightarrow> None
      | Some (wants_irq, w) \<Rightarrow>
          let r = put_world w r in Some (if wants_irq then re_pulse (nt_gsi t) r else r))"

definition finish_completion :: "device_id \<Rightarrow> ('d \<Rightarrow> ('s, 'e) machine_device) \<Rightarrow> u32 option \<times> 'd \<times> guest_memory \<Rightarrow>
    ('k, 's, 'e) reactor \<Rightarrow> ('k, 's, 'e) reactor" where
  "finish_completion i mk res r =
     (case res of (irq, s, m) \<Rightarrow>
        let r = put_world (put_device i (mk s) ((world (re_vm r))\<lparr>w_mem := m\<rparr>)) r
        in case irq of None \<Rightarrow> r | Some n \<Rightarrow> re_pulse n r)"

definition handle_blk_completion :: "('s, 'e) host_env \<Rightarrow> device_id \<Rightarrow> ('k, 's, 'e) reactor \<Rightarrow> ('k, 's, 'e) reactor" where
  "handle_blk_completion env i r =
     (let w = world (re_vm r) in
      case w_devices w ! i of
        Dev_blk s \<Rightarrow> finish_completion i Dev_blk (legacy_drain_completions (blk_ops (ring env)) s (w_mem w)) r
      | _ \<Rightarrow> r)"

definition handle_gpio_completion :: "device_id \<Rightarrow> ('k, 's, 'e) reactor \<Rightarrow> ('k, 's, 'e) reactor" where
  "handle_gpio_completion i r =
     (let w = world (re_vm r) in
      case w_devices w ! i of
        Dev_gpio s \<Rightarrow> finish_completion i Dev_gpio (modern_drain_completions (gpio_ops py_bank_ops) s (w_mem w)) r
      | _ \<Rightarrow> r)"

text \<open>The loop over the packets of \<open>handle_vsock_bridge\<close>; the last interrupt line delivered to is the one pulsed.\<close>

fun deliver_each :: "bytes list \<Rightarrow> u32 option \<Rightarrow> 'd modern_pci \<Rightarrow> guest_memory \<Rightarrow> u32 option \<times> 'd modern_pci \<times> guest_memory" where
  "deliver_each [] irq s m = (irq, s, m)"
| "deliver_each (p # ps) irq s m =
     (case try_deliver_async s m VSOCK_RX_QUEUE p of (got, s, m) \<Rightarrow>
        deliver_each ps (if got = None then irq else got) s m)"

definition handle_vsock_bridge :: "('s, 'e) host_env \<Rightarrow> device_id \<Rightarrow> ('k, 's, 'e) reactor \<Rightarrow> ('k, 's, 'e) reactor" where
  "handle_vsock_bridge env i r =
     (let w = world (re_vm r) in
      case w_devices w ! i of
        Dev_vsock s \<Rightarrow>
          (case drain_bridge_events (vsock_host env) (m_dev s) of (packets, d) \<Rightarrow>
             finish_completion i Dev_vsock (deliver_each packets None (s\<lparr>m_dev := d\<rparr>) (w_mem w)) r)
      | _ \<Rightarrow> r)"

text \<open>\<open>handle_tap\<close> on the frames waiting: a read takes one frame, cut to the buffer; an empty one ends the loop.\<close>

fun tap_loop :: "device_id \<Rightarrow> bytes list \<Rightarrow> ('k, 's, 'e) reactor \<Rightarrow> bytes list \<times> ('k, 's, 'e) reactor" where
  "tap_loop i [] r = ([], r)"
| "tap_loop i (f # fs) r =
     (let frame = take RX_BUF_LEN f; w = world (re_vm r) in
      if frame = [] then (fs, r)
      else case w_devices w ! i of
        Dev_net s \<Rightarrow>
          (case try_deliver_rx s (w_mem w) RX_QUEUE (replicate VNET_HDR_LEN 0) frame of
             (Some irq, s, m) \<Rightarrow>
               tap_loop i fs (re_pulse irq (re_record NetRx frame (put_world (put_device i (Dev_net s) (w\<lparr>w_mem := m\<rparr>)) r)))
           | (None, s, m) \<Rightarrow> (fs, put_world (put_device i (Dev_net s) (w\<lparr>w_mem := m\<rparr>)) r))
      | _ \<Rightarrow> (f # fs, r))"

definition handle_tap :: "device_id \<Rightarrow> ('k, 's, 'e) reactor \<Rightarrow> ('k, 's, 'e) reactor" where
  "handle_tap i r = (case tap_loop i (re_tap r i) r of (fs, r') \<Rightarrow> r'\<lparr>re_tap := (re_tap r')(i := fs)\<rparr>)"

subsection \<open>The event loop\<close>

definition reactor_event :: "('s, 'e) host_env \<Rightarrow> reactor_config \<Rightarrow> u64 \<Rightarrow> ('k, 's, 'e) reactor \<Rightarrow> ('k, 's, 'e) reactor option" where
  "reactor_event env c token r =
     (case dispatch c token of
        None \<Rightarrow> Some r
      | Some Stdin \<Rightarrow>
          (case handle_stdin r of
             (Stdin_open, r) \<Rightarrow> Some r
           | (Stdin_closed, r) \<Rightarrow> Some (r\<lparr>re_stdin_watched := False\<rparr>))
      | Some (Tap i) \<Rightarrow> Some (handle_tap i r)
      | Some (Notify t) \<Rightarrow> handle_virtio_notify env t r
      | Some (Blk_done i) \<Rightarrow> Some (handle_blk_completion env i r)
      | Some (Gpio_done i) \<Rightarrow> Some (handle_gpio_completion i r)
      | Some (Vsock_bridge i) \<Rightarrow> Some (handle_vsock_bridge env i r))"

text \<open>One round of the loop of \<open>run\<close>: the tokens \<open>epoll_wait\<close> returned, in order. The exit slot is checked between rounds.\<close>

primrec reactor_round :: "('s, 'e) host_env \<Rightarrow> reactor_config \<Rightarrow> u64 list \<Rightarrow> ('k, 's, 'e) reactor \<Rightarrow> ('k, 's, 'e) reactor option" where
  "reactor_round env c [] r = Some r"
| "reactor_round env c (t # ts) r = Option.bind (reactor_event env c t r) (reactor_round env c ts)"

primrec reactor_run :: "('s, 'e) host_env \<Rightarrow> reactor_config \<Rightarrow> u64 list list \<Rightarrow> ('k, 's, 'e) reactor \<Rightarrow> ('k, 's, 'e) reactor option" where
  "reactor_run env c [] r = Some r"
| "reactor_run env c (ts # rounds) r =
     (if is_requested (w_exit (world (re_vm r))) then Some r
      else Option.bind (reactor_round env c ts r) (reactor_run env c rounds))"

section \<open>Tokens identify their targets\<close>

definition watched :: "reactor_config \<Rightarrow> nat" where
  "watched c = length (rc_net c) + length (rc_notifies c) + length (rc_blk c) + length (rc_gpio c) + 2"

lemma base_unat:
  assumes "watched c < 2 ^ 64"
  shows "unat (virtio_notify_base c) = length (rc_net c) + 1"
    and "unat (blk_completion_base c) = length (rc_net c) + 1 + length (rc_notifies c)"
    and "unat (gpio_completion_base c) = length (rc_net c) + 1 + length (rc_notifies c) + length (rc_blk c)"
    and "unat (vsock_token c) = length (rc_net c) + 1 + length (rc_notifies c) + length (rc_blk c) + length (rc_gpio c)"
proof -
  have e: "virtio_notify_base c = of_nat (length (rc_net c) + 1)"
    "blk_completion_base c = of_nat (length (rc_net c) + 1 + length (rc_notifies c))"
    "gpio_completion_base c = of_nat (length (rc_net c) + 1 + length (rc_notifies c) + length (rc_blk c))"
    "vsock_token c = of_nat (length (rc_net c) + 1 + length (rc_notifies c) + length (rc_blk c) + length (rc_gpio c))"
    by (simp_all add: virtio_notify_base_def blk_completion_base_def gpio_completion_base_def vsock_token_def)
  have w: "watched c < 2 ^ LENGTH(64)" using assms by simp
  show "unat (virtio_notify_base c) = length (rc_net c) + 1"
    "unat (blk_completion_base c) = length (rc_net c) + 1 + length (rc_notifies c)"
    "unat (gpio_completion_base c) = length (rc_net c) + 1 + length (rc_notifies c) + length (rc_blk c)"
    "unat (vsock_token c) = length (rc_net c) + 1 + length (rc_notifies c) + length (rc_blk c) + length (rc_gpio c)"
    unfolding e by (rule unat_of_nat_lt, use w in \<open>simp add: watched_def\<close>)+
qed

lemma token_unat:
  assumes "unat (b::u64) + i < 2 ^ 64" shows "unat (b + of_nat i) = unat b + i"
proof -
  have "b + of_nat i = of_nat (unat b + i)" by simp
  then show ?thesis using assms unat_of_nat_lt [of "unat b + i", where ?'a = 64] by simp
qed

lemma map_enumerated: "map snd (enumerated (\<lambda>i x. (g x, h i)) xs) = map h [0..<length xs]"
  by (rule nth_equalityI) (simp_all add: enumerated_def enumerate_eq_zip)

lemma in_enumerated: "x \<in> set (enumerated f xs) \<longleftrightarrow> (\<exists>i < length xs. x = f i (xs ! i))"
  unfolding enumerated_def in_set_conv_nth by (auto simp: enumerate_eq_zip)

text \<open>Tokens that are distinct and lie in an interval of numbers.\<close>

definition tokens_in :: "nat \<Rightarrow> nat \<Rightarrow> u64 list \<Rightarrow> bool" where
  "tokens_in a b ts \<longleftrightarrow> a \<le> b \<and> distinct ts \<and> (\<forall>t \<in> set ts. a \<le> unat t \<and> unat t < b)"

lemma tokens_in_append: "tokens_in a b ts \<Longrightarrow> tokens_in b c us \<Longrightarrow> tokens_in a c (ts @ us)"
  by (fastforce simp: tokens_in_def)

lemma tokens_in_filter: "tokens_in a b (map snd ps) \<Longrightarrow> tokens_in a b (map snd (filter P ps))"
  by (auto simp: tokens_in_def distinct_map_filter)

lemma tokens_in_class:
  assumes "unat (b::u64) + length xs < 2 ^ 64"
  shows "tokens_in (unat b) (unat b + length xs) (map snd (enumerated (\<lambda>i x. (g x, b + of_nat i)) xs))"
proof -
  have t: "unat (b + of_nat i) = unat b + i" if "i < length xs" for i
    using assms that by (intro token_unat) simp
  then have "inj_on (\<lambda>i. b + of_nat i) {0..<length xs}"
    by (intro inj_onI) (metis add_left_cancel atLeastLessThan_iff)
  with t show ?thesis by (simp add: map_enumerated distinct_map tokens_in_def)
qed

lemma get_at_token:
  assumes "unat b + i < 2 ^ 64" and "i < length xs" shows "get_at xs (b + of_nat i - b) = Some (xs ! i)"
  using assms unat_of_nat_lt [of i, where ?'a = 64] by (simp add: get_at_def)

lemma dispatch_class:
  assumes "watched c < 2 ^ 64"
  shows "i < length (rc_net c) \<Longrightarrow> dispatch c (1 + of_nat i) = Some (Tap (rc_net c ! i))"
    and "i < length (rc_notifies c) \<Longrightarrow> dispatch c (virtio_notify_base c + of_nat i) = Some (Notify (rc_notifies c ! i))"
    and "i < length (rc_blk c) \<Longrightarrow> dispatch c (blk_completion_base c + of_nat i) = Some (Blk_done (rc_blk c ! i))"
    and "i < length (rc_gpio c) \<Longrightarrow> dispatch c (gpio_completion_base c + of_nat i) = Some (Gpio_done (rc_gpio c ! i))"
    and "dispatch c (vsock_token c) = map_option Vsock_bridge (rc_vsock c)"
proof -
  note b = base_unat [OF assms]
  have w: "length (rc_net c) + length (rc_notifies c) + length (rc_blk c) + length (rc_gpio c) + 2 < 2 ^ 64"
    using assms by (simp add: watched_def)
  note d = dispatch_def STDIN_TOKEN_def word_less_nat_alt word_unat_eq_iff [of _ 0] b
  have t: "unat (b + of_nat i) = unat b + i" if "unat b + i < watched c" for b :: u64
    using that assms by (intro token_unat) simp
  show "dispatch c (1 + of_nat i) = Some (Tap (rc_net c ! i))" if "i < length (rc_net c)"
    using that t [of 1] w get_at_token [of 1 i "rc_net c"] by (simp add: d watched_def)
  show "dispatch c (virtio_notify_base c + of_nat i) = Some (Notify (rc_notifies c ! i))" if "i < length (rc_notifies c)"
    using that t [of "virtio_notify_base c"] w get_at_token [of "virtio_notify_base c" i "rc_notifies c"]
    by (simp add: d watched_def)
  show "dispatch c (blk_completion_base c + of_nat i) = Some (Blk_done (rc_blk c ! i))" if "i < length (rc_blk c)"
    using that t [of "blk_completion_base c"] w get_at_token [of "blk_completion_base c" i "rc_blk c"]
    by (simp add: d watched_def)
  show "dispatch c (gpio_completion_base c + of_nat i) = Some (Gpio_done (rc_gpio c ! i))" if "i < length (rc_gpio c)"
    using that t [of "gpio_completion_base c"] w get_at_token [of "gpio_completion_base c" i "rc_gpio c"]
    by (simp add: d watched_def)
  show "dispatch c (vsock_token c) = map_option Vsock_bridge (rc_vsock c)"
    by (simp add: d)
qed

text \<open>Every file descriptor the reactor registers is registered under a token of its own, and the token selects exactly
  the handler and the device of that descriptor when epoll reports it.\<close>

lemma reactor_tokens_dispatch:
  assumes "watched c < 2 ^ 64"
  shows "distinct (map snd (registrations has_fd c)) \<and>
    (\<forall>(t, token) \<in> set (registrations has_fd c). dispatch c token = Some t)"
proof
  note b = base_unat [OF assms]
  have w: "length (rc_net c) + length (rc_notifies c) + length (rc_blk c) + length (rc_gpio c) + 2 < 2 ^ 64"
    using assms by (simp add: watched_def)
  have "tokens_in 0 (unat (1::u64)) (map snd (if rc_suppress_stdin c then [] else [(Stdin, STDIN_TOKEN)]))"
    by (simp add: tokens_in_def STDIN_TOKEN_def)
  moreover have "tokens_in (unat (1::u64)) (unat (virtio_notify_base c)) (map snd (enumerated (\<lambda>i d. (Tap d, of_nat i + 1)) (rc_net c)))"
    using tokens_in_class [of 1 "rc_net c" Tap] w by (simp add: b add.commute)
  moreover have "tokens_in (unat (virtio_notify_base c)) (unat (blk_completion_base c))
      (map snd (enumerated (\<lambda>i t. (Notify t, virtio_notify_base c + of_nat i)) (rc_notifies c)))"
    using tokens_in_class [of "virtio_notify_base c" "rc_notifies c" Notify] w by (simp add: b)
  moreover have "tokens_in (unat (blk_completion_base c)) (unat (gpio_completion_base c))
      (map snd (enumerated (\<lambda>i t. (Blk_done t, blk_completion_base c + of_nat i)) (rc_blk c)))"
    using tokens_in_class [of "blk_completion_base c" "rc_blk c" Blk_done] w by (simp add: b)
  moreover have "tokens_in (unat (gpio_completion_base c)) (unat (vsock_token c))
      (map snd (enumerated (\<lambda>i t. (Gpio_done t, gpio_completion_base c + of_nat i)) (rc_gpio c)))"
    using tokens_in_class [of "gpio_completion_base c" "rc_gpio c" Gpio_done] w by (simp add: b)
  moreover have "tokens_in (unat (vsock_token c)) (unat (vsock_token c) + 1)
      (map snd (case rc_vsock c of None \<Rightarrow> [] | Some d \<Rightarrow> [(Vsock_bridge d, vsock_token c)]))"
    by (simp add: tokens_in_def split: option.split)
  ultimately have "tokens_in 0 (unat (vsock_token c) + 1) (map snd (registrations has_fd c))"
    unfolding registrations_def map_append by (intro tokens_in_append tokens_in_filter) assumption+
  then show "distinct (map snd (registrations has_fd c))" by (simp add: tokens_in_def)
  show "\<forall>(t, token) \<in> set (registrations has_fd c). dispatch c token = Some t"
    using dispatch_class [OF assms]
    by (auto simp: registrations_def in_enumerated add.commute [of _ 1] split: option.splits if_splits) (simp add: dispatch_def)
qed

definition demo_reactor_config :: reactor_config where
  "demo_reactor_config = \<lparr>rc_net = [4], rc_notifies = [], rc_blk = [1, 2], rc_gpio = [], rc_vsock = Some 5, rc_suppress_stdin = False\<rparr>"

lemma reactor_tokens_dispatch_example:
  "distinct (map snd (registrations (\<lambda>_. True) demo_reactor_config)) \<and> dispatch demo_reactor_config 3 = Some (Blk_done 2) \<and>
   (Blk_done 2, 3) \<in> set (registrations (\<lambda>_. True) demo_reactor_config)"
proof -
  have "watched demo_reactor_config < 2 ^ 64" by (simp add: watched_def demo_reactor_config_def)
  moreover have i: "(Blk_done 2, 3) \<in> set (registrations (\<lambda>_. True) demo_reactor_config)"
    by (simp add: registrations_def enumerated_def demo_reactor_config_def blk_completion_base_def virtio_notify_base_def)
  ultimately show ?thesis using reactor_tokens_dispatch [of demo_reactor_config "\<lambda>_. True"] by auto
qed

section \<open>The console input\<close>

text \<open>What successive reads of the terminal return when \<open>bs\<close> is queued there.\<close>

function tty_reads :: "bytes \<Rightarrow> bytes option list" where
  "tty_reads bs = (if bs = [] then [Some []] else Some (take STDIN_BUF_LEN bs) # tty_reads (drop STDIN_BUF_LEN bs))"
  by pat_completeness auto

termination
  by (relation "measure length") (auto simp: STDIN_BUF_LEN_def)

declare tty_reads.simps [simp del]

lemma push_keys_spec: "push_keys bs s = (bs \<noteq> [] \<and> ier s AND IER_RDI \<noteq> 0, s\<lparr>rx := rx s @ bs\<rparr>)"
  by (induction bs arbitrary: s) (auto simp: push_rx_byte_def)

text \<open>The bytes \<open>bs\<close> reached the console receive queue, the recording and the guest's interrupt line, and nothing else changed.\<close>

definition typed :: "bytes \<Rightarrow> ('k, 's, 'e) reactor \<Rightarrow> ('k, 's, 'e) reactor \<Rightarrow> bool" where
  "typed bs r r' \<longleftrightarrow>
     shared (re_vm r') = (shared (re_vm r))\<lparr>serial_port := (serial_port (shared (re_vm r)))\<lparr>rx := rx (serial_port (shared (re_vm r))) @ bs\<rparr>\<rparr> \<and>
     world (re_vm r') = world (re_vm r) \<and> irq_lines (re_vm r') = irq_lines (re_vm r) \<and>
     (\<exists>n. (bs \<noteq> [] \<and> ier (serial_port (shared (re_vm r))) AND IER_RDI \<noteq> 0 \<longleftrightarrow> 0 < n) \<and>
        (COM1_IRQ \<in> set (irq_lines (re_vm r)) \<longrightarrow> pulses (re_vm r') = pulses (re_vm r) @ replicate n COM1_IRQ)) \<and>
     (\<exists>evs. re_recording r' = map_option (\<lambda>f. f @ concat (map encode_event evs)) (re_recording r) \<and>
        concat (map ev_data evs) = bs \<and> list_all (\<lambda>e. ev_kind e = KeyboardRx \<and> length (ev_data e) \<le> STDIN_BUF_LEN) evs)"

lemma typed_nothing: "typed [] r r"
  by (cases "re_recording r") (auto simp: typed_def intro!: exI [of _ 0] exI [of _ "[]"])

lemma typed_append:
  assumes "typed as r r1" and "typed bs r1 r2" shows "typed (as @ bs) r r2"
proof -
  from assms(1) obtain n es where
    "as \<noteq> [] \<and> ier (serial_port (shared (re_vm r))) AND IER_RDI \<noteq> 0 \<longleftrightarrow> 0 < n"
    "COM1_IRQ \<in> set (irq_lines (re_vm r)) \<longrightarrow> pulses (re_vm r1) = pulses (re_vm r) @ replicate n COM1_IRQ"
    "re_recording r1 = map_option (\<lambda>f. f @ concat (map encode_event es)) (re_recording r)" "concat (map ev_data es) = as"
    "list_all (\<lambda>e. ev_kind e = KeyboardRx \<and> length (ev_data e) \<le> STDIN_BUF_LEN) es"
    unfolding typed_def by blast
  moreover from assms(2) obtain m fs where
    "bs \<noteq> [] \<and> ier (serial_port (shared (re_vm r1))) AND IER_RDI \<noteq> 0 \<longleftrightarrow> 0 < m"
    "COM1_IRQ \<in> set (irq_lines (re_vm r1)) \<longrightarrow> pulses (re_vm r2) = pulses (re_vm r1) @ replicate m COM1_IRQ"
    "re_recording r2 = map_option (\<lambda>f. f @ concat (map encode_event fs)) (re_recording r1)" "concat (map ev_data fs) = bs"
    "list_all (\<lambda>e. ev_kind e = KeyboardRx \<and> length (ev_data e) \<le> STDIN_BUF_LEN) fs"
    unfolding typed_def by blast
  ultimately show ?thesis using assms unfolding typed_def
    by (intro conjI exI [of _ "n + m"] exI [of _ "es @ fs"]) (auto simp: option.map_comp comp_def replicate_add)
qed

lemma typed_push_rx:
  assumes "length bs \<le> STDIN_BUF_LEN" shows "typed bs r (push_rx bs r)"
proof (cases "bs = []")
  case True
  then show ?thesis using typed_nothing [of r] by (simp add: push_rx_def)
next
  case False
  let ?e = "\<lparr>branch_count = fst (re_now r), elapsed_ms = snd (re_now r), ev_kind = KeyboardRx, ev_data = bs\<rparr>"
  let ?n = "if ier (serial_port (shared (re_vm r))) AND IER_RDI \<noteq> 0 then 1 else 0 :: nat"
  show ?thesis using False assms unfolding typed_def
    by (intro conjI exI [of _ ?n] exI [of _ "[?e]"])
      (simp_all add: push_rx_def push_keys_spec re_record_def re_pulse_def irq_pulse_def encode_event_def recorder_record_def Let_def)
qed

lemma typed_quit: "typed bs r r' \<Longrightarrow>
  quit_request r' = r'\<lparr>re_vm := (re_vm r')\<lparr>world := (world (re_vm r'))\<lparr>w_exit := request_exit (w_exit (world (re_vm r'))) (Inr UserQuit)\<rparr>\<rparr>\<rparr>"
  by (simp add: quit_request_def Let_def)

text \<open>What \<open>handle_stdin\<close> makes of \<open>bs\<close> waiting at the terminal: \<open>r1\<close> is the state once the bytes before the escape arrived.\<close>

lemma stdin_loop_spec:
  "\<exists>r1. typed (takeWhile (\<lambda>b. b \<noteq> ESCAPE_BYTE) bs) r r1 \<and>
    (\<exists>rest. stdin_loop (tty_reads bs) r = (Stdin_open, rest, if ESCAPE_BYTE \<in> set bs then quit_request r1 else r1))"
proof (induction bs arbitrary: r rule: tty_reads.induct)
  case (1 bs)
  let ?buf = "take STDIN_BUF_LEN bs" and ?rest = "drop STDIN_BUF_LEN bs" and ?key = "\<lambda>b. b \<noteq> ESCAPE_BYTE"
  have bs: "set bs = set ?buf \<union> set ?rest" by (metis append_take_drop_id set_append)
  have tw: "takeWhile ?key bs = (if \<forall>b \<in> set ?buf. ?key b then ?buf @ takeWhile ?key ?rest else takeWhile ?key ?buf)"
    by (subst append_take_drop_id [of STDIN_BUF_LEN bs, symmetric]) (simp only: takeWhile_append)
  show ?case
  proof (cases "bs = []")
    case True
    then show ?thesis using typed_nothing [of r] by (auto simp: tty_reads.simps [of "[]"])
  next
    case False
    then have buf: "?buf \<noteq> []" by (simp add: STDIN_BUF_LEN_def)
    show ?thesis
    proof (cases "ESCAPE_BYTE \<in> set ?buf")
      case True
      then have "takeWhile ?key bs = takeWhile ?key ?buf" using tw by auto
      moreover have "typed (takeWhile ?key ?buf) r (push_rx (takeWhile ?key ?buf) r)"
        by (rule typed_push_rx) (rule order_trans [OF length_takeWhile_le], simp)
      ultimately show ?thesis using True False buf bs by (auto simp: tty_reads.simps [of bs])
    next
      case noesc: False
      then have tw: "takeWhile ?key bs = ?buf @ takeWhile ?key ?rest" using tw by auto
      have t: "typed ?buf r (push_rx ?buf r)" by (rule typed_push_rx) simp
      obtain r1 rest where r1: "typed (takeWhile ?key ?rest) (push_rx ?buf r) r1"
        "stdin_loop (tty_reads ?rest) (push_rx ?buf r) = (Stdin_open, rest, if ESCAPE_BYTE \<in> set ?rest then quit_request r1 else r1)"
        using "1.IH" [OF False, of "push_rx ?buf r"] by auto
      show ?thesis
      proof (cases "length bs < STDIN_BUF_LEN")
        case True
        then have "?rest = []" "?buf = bs" by simp_all
        then have eq: "takeWhile ?key bs = ?buf" using tw by (simp only: takeWhile.simps append_Nil2)
        show ?thesis unfolding eq using True False noesc t by (auto simp: tty_reads.simps [of bs])
      next
        case False
        with r1 typed_append [OF t r1(1)] show ?thesis using buf noesc bs tw \<open>bs \<noteq> []\<close>
          by (auto simp: tty_reads.simps [of bs] Let_def)
      qed
    qed
  qed
qed


definition demo_reactor :: "bytes option list \<Rightarrow> (unit, unit) machine_device list \<Rightarrow> (unit, unit, unit) reactor" where
  "demo_reactor input devs =
     \<lparr>re_vm = \<lparr>shared = (shared demo_vm)\<lparr>serial_port := serial_new\<lparr>ier := IER_RDI\<rparr>\<rparr>,
        world = \<lparr>w_mem = mem_new 0x1000, w_exit = new_exit_slot, w_devices = devs\<rparr>,
        irq_lines = [4, 5], pulses = [], irq_bugs = [], msis = [], debug_out = []\<rparr>,
      re_recording = Some (recording 0x1000 True []), re_now = (7, 8), re_stdin_watched = True, re_stdin = input, re_tap = (\<lambda>_. [])\<rparr>"


section \<open>The vsock bridge without a receive buffer\<close>

text \<open>The guest has posted no buffer on queue \<open>q\<close>.\<close>

definition no_buffer :: "virtqueue \<Rightarrow> guest_memory \<Rightarrow> bool" where
  "no_buffer q m \<longleftrightarrow> is_live q \<and> read_u16_checked m (q_avail q + 2) = Some (last_avail_idx q)"

lemma deliver_each_no_buffer:
  assumes "get_queue (m_queues s) VSOCK_RX_QUEUE = Some q" and "no_buffer q m"
  shows "deliver_each ps irq s m = (irq, s, m)"
proof (induction ps arbitrary: irq)
  case (Cons p ps)
  have "try_deliver_async s m VSOCK_RX_QUEUE p = (None, s, m)"
    using assms by (cases s) (auto simp: try_deliver_async_def try_pop_def no_buffer_def get_queue_def split: if_splits)
  with Cons show ?case by simp
qed simp

lemma fold_take_event_events: "bridge_events (fold take_event evs d) = bridge_events d"
proof (induction evs arbitrary: d)
  case (Cons e evs)
  then show ?case by (cases e) (auto split: option.split prod.split)
qed simp


text \<open>A guest that gave the device an empty receive ring.\<close>

definition demo_vsock_pci :: "vsock_dev modern_pci" where
  "demo_vsock_pci = (modern_new (vsock_ops demo_vsock_env) (demo_vsock [1, 2, 3, 4, 5, 6]) 9 19 24)
     \<lparr>m_queues := [\<lparr>q_size = 8, q_pfn = 0, q_desc = 0x400, q_avail = 0x100, q_used = 0x200, q_enabled = True, last_avail_idx = 0\<rparr>]\<rparr>"

definition demo_vsock_host :: "(unit, unit) host_env" where
  "demo_vsock_host = demo_host\<lparr>vsock_host := demo_vsock_env\<rparr>"


end
