(* ===== verification/Reactor_Pause.thy ===== *)
theory Reactor_Pause
  imports Hb_Prelude
begin

text \<open>
  The rendezvous that parks the reactor thread (\<open>ReactorPause\<close> of \<open>src/reactor.rs\<close>), with the two threads that use it:
  the reactor, which checks in once per round of its loop, and the thread of vCPU 0, which serves a control command with the lock of
  \<open>SharedState\<close> held (\<open>poll_host\<close> of \<open>src/vcpu.rs\<close>) and asks for a pause there (\<open>handle_fork\<close>, \<open>handle_migrate\<close>).

  Each operation of \<open>ReactorPause\<close> runs under its mutex, which \<open>wait\<close> releases: the part before and the part after a
  wait are one step each. The reactor takes and releases the locks of its handlers while it dispatches.
\<close>

datatype pause_state = Running | Requested | Paused

definition pause_new :: pause_state where "pause_new = Running"

text \<open>\<open>check_in\<close> up to its wait: the new state and whether the reactor parks; and the condition it waits on.\<close>

definition check_in :: "pause_state \<Rightarrow> pause_state \<times> bool" where
  "check_in p = (if p \<noteq> Requested then (p, False) else (Paused, True))"

definition stays_parked :: "pause_state \<Rightarrow> bool" where
  "stays_parked p \<longleftrightarrow> p = Paused"

text \<open>\<open>request_and_wait\<close>: the request, and the end of its wait. \<open>None\<close> is that the wait goes on; a result comes with the answer returned.\<close>

definition request_pause :: "pause_state \<Rightarrow> pause_state" where
  "request_pause p = Requested"

definition end_wait :: "bool \<Rightarrow> pause_state \<Rightarrow> (pause_state \<times> bool) option" where
  "end_wait timed_out p = (if p = Paused then Some (p, True) else if timed_out then Some (Running, False) else None)"

definition resume_pause :: "pause_state \<Rightarrow> pause_state" where
  "resume_pause p = Running"

section \<open>The two threads\<close>

datatype lock = Shared_lock | Memory_lock | Device_lock nat
datatype thread = Reactor_thread | Bsp_thread

datatype reactor_pc = Loop_top | Parked | Dispatching | Locking lock
datatype bsp_pc = Outside | In_command | Waiting_ack | Quiesced

record rendezvous =
  pause :: pause_state
  reactor_at :: reactor_pc
  bsp_at :: bsp_pc
  owner :: "lock \<Rightarrow> thread option"

definition holds :: "rendezvous \<Rightarrow> thread \<Rightarrow> lock set" where
  "holds s t = {l. owner s l = Some t}"

inductive pause_step :: "rendezvous \<Rightarrow> rendezvous \<Rightarrow> bool" where
  pass: "reactor_at s = Loop_top \<Longrightarrow> check_in (pause s) = (p, False) \<Longrightarrow> pause_step s (s\<lparr>pause := p, reactor_at := Dispatching\<rparr>)"
| park: "reactor_at s = Loop_top \<Longrightarrow> check_in (pause s) = (p, True) \<Longrightarrow> pause_step s (s\<lparr>pause := p, reactor_at := Parked\<rparr>)"
| wake: "reactor_at s = Parked \<Longrightarrow> \<not> stays_parked (pause s) \<Longrightarrow> pause_step s (s\<lparr>reactor_at := Dispatching\<rparr>)"
| want: "reactor_at s = Dispatching \<Longrightarrow> owner s l \<noteq> Some Reactor_thread \<Longrightarrow> pause_step s (s\<lparr>reactor_at := Locking l\<rparr>)"
| lock: "reactor_at s = Locking l \<Longrightarrow> owner s l = None \<Longrightarrow>
    pause_step s (s\<lparr>reactor_at := Dispatching, owner := (owner s)(l := Some Reactor_thread)\<rparr>)"
| unlock: "reactor_at s = Dispatching \<Longrightarrow> owner s l = Some Reactor_thread \<Longrightarrow> pause_step s (s\<lparr>owner := (owner s)(l := None)\<rparr>)"
| round: "reactor_at s = Dispatching \<Longrightarrow> holds s Reactor_thread = {} \<Longrightarrow> pause_step s (s\<lparr>reactor_at := Loop_top\<rparr>)"
| command: "bsp_at s = Outside \<Longrightarrow> owner s Shared_lock = None \<Longrightarrow>
    pause_step s (s\<lparr>bsp_at := In_command, owner := (owner s)(Shared_lock := Some Bsp_thread)\<rparr>)"
| bsp_lock: "bsp_at s \<in> {In_command, Quiesced} \<Longrightarrow> owner s l = None \<Longrightarrow>
    pause_step s (s\<lparr>owner := (owner s)(l := Some Bsp_thread)\<rparr>)"
| bsp_unlock: "bsp_at s \<in> {In_command, Quiesced} \<Longrightarrow> l \<noteq> Shared_lock \<Longrightarrow> owner s l = Some Bsp_thread \<Longrightarrow>
    pause_step s (s\<lparr>owner := (owner s)(l := None)\<rparr>)"
| request: "bsp_at s = In_command \<Longrightarrow> pause_step s (s\<lparr>pause := request_pause (pause s), bsp_at := Waiting_ack\<rparr>)"
| acknowledged: "bsp_at s = Waiting_ack \<Longrightarrow> end_wait timed_out (pause s) = Some (p, True) \<Longrightarrow>
    pause_step s (s\<lparr>pause := p, bsp_at := Quiesced\<rparr>)"
| timed_out: "bsp_at s = Waiting_ack \<Longrightarrow> end_wait True (pause s) = Some (p, False) \<Longrightarrow>
    pause_step s (s\<lparr>pause := p, bsp_at := In_command\<rparr>)"
| resume: "bsp_at s = Quiesced \<Longrightarrow> pause_step s (s\<lparr>pause := resume_pause (pause s), bsp_at := In_command\<rparr>)"
| end_command: "bsp_at s = In_command \<Longrightarrow> holds s Bsp_thread = {Shared_lock} \<Longrightarrow>
    pause_step s (s\<lparr>bsp_at := Outside, owner := (owner s)(Shared_lock := None)\<rparr>)"

inductive_cases pause_stepE: "pause_step s s'"

lemmas pause_defs = check_in_def stays_parked_def request_pause_def end_wait_def resume_pause_def pause_new_def

definition pause_start :: rendezvous where
  "pause_start = \<lparr>pause = pause_new, reactor_at = Loop_top, bsp_at = Outside, owner = (\<lambda>_. None)\<rparr>"

text \<open>A paused state is one the reactor is parked in, a request is outstanding only while the requester waits, and the
  reactor holds locks only while it dispatches.\<close>

definition pause_inv :: "rendezvous \<Rightarrow> bool" where
  "pause_inv s \<longleftrightarrow>
     (pause s = Paused \<longrightarrow> reactor_at s = Parked) \<and> (pause s = Requested \<longrightarrow> bsp_at s = Waiting_ack) \<and>
     (bsp_at s = Quiesced \<longrightarrow> pause s = Paused) \<and> (bsp_at s \<noteq> Outside \<longrightarrow> owner s Shared_lock = Some Bsp_thread) \<and>
     (reactor_at s \<in> {Loop_top, Parked} \<longrightarrow> holds s Reactor_thread = {})"

lemma pause_inv_step: "pause_step s s' \<Longrightarrow> pause_inv s \<Longrightarrow> pause_inv s'"
  by (induction rule: pause_step.induct) (auto simp: pause_inv_def pause_defs holds_def split: if_splits)

lemma pause_inv_reachable: "pause_step\<^sup>*\<^sup>* pause_start s \<Longrightarrow> pause_inv s"
  by (induction rule: rtranclp_induct) (auto simp: pause_start_def pause_inv_def pause_defs holds_def dest: pause_inv_step)

text \<open>C18: Under every interleaving, when \<open>request_and_wait\<close> has answered true and until \<open>resume\<close> is called, the reactor is parked: it
  holds no lock, and whatever other steps happen it stays parked and takes none. A child forked then inherits no lock
  held by a thread it does not have.\<close>

theorem quiesced_reactor_parked:
  assumes "pause_step\<^sup>*\<^sup>* pause_start s" and "bsp_at s = Quiesced"
  shows "reactor_at s = Parked \<and> holds s Reactor_thread = {} \<and>
    (\<forall>s'. pause_step s s' \<and> bsp_at s' = Quiesced \<longrightarrow> reactor_at s' = Parked \<and> holds s' Reactor_thread = {})"
proof -
  have "pause_inv s" using assms(1) by (rule pause_inv_reachable)
  then have s: "pause_inv t \<Longrightarrow> bsp_at t = Quiesced \<Longrightarrow> reactor_at t = Parked \<and> holds t Reactor_thread = {}" for t
    by (auto simp: pause_inv_def)
  from \<open>pause_inv s\<close> s assms(2) pause_inv_step show ?thesis by blast
qed

text \<open>C24: A pause cannot be granted while the reactor waits for \<open>SharedState\<close>, as it does for every keystroke: the
  control command that asks holds that lock until it has its answer. From such a state the only step left is
  the timeout, so that the fork or migration is refused after two seconds in which guest and console stand still.\<close>

theorem keystroke_blocks_pause:
  assumes "pause_step\<^sup>*\<^sup>* pause_start s" and "bsp_at s = Waiting_ack" and "reactor_at s = Locking Shared_lock"
  shows "pause_step s s' \<longleftrightarrow> s' = s\<lparr>pause := Running, bsp_at := In_command\<rparr>"
proof -
  have "pause_inv s" using assms(1) by (rule pause_inv_reachable)
  then have n: "pause s \<noteq> Paused" "owner s Shared_lock = Some Bsp_thread" using assms by (auto simp: pause_inv_def)
  show ?thesis
  proof
    assume "pause_step s s'"
    then show "s' = s\<lparr>pause := Running, bsp_at := In_command\<rparr>"
      using assms(2,3) n by (cases rule: pause_step.cases) (simp_all add: pause_defs split: if_splits)
  next
    assume "s' = s\<lparr>pause := Running, bsp_at := In_command\<rparr>"
    then show "pause_step s s'" using pause_step.timed_out [of s Running] assms(2) n(1) by (simp add: pause_defs)
  qed
qed

text \<open>Runs that end in a granted pause and in a blocked one.\<close>

definition demo_quiesced :: rendezvous where
  "demo_quiesced = \<lparr>pause = Paused, reactor_at = Parked, bsp_at = Quiesced, owner = (\<lambda>_. None)(Shared_lock := Some Bsp_thread)\<rparr>"

definition demo_blocked :: rendezvous where
  "demo_blocked = \<lparr>pause = Requested, reactor_at = Locking Shared_lock, bsp_at = Waiting_ack, owner = (\<lambda>_. None)(Shared_lock := Some Bsp_thread)\<rparr>"

lemma reach_command: "pause_step pause_start (pause_start\<lparr>bsp_at := In_command, owner := (\<lambda>_. None)(Shared_lock := Some Bsp_thread)\<rparr>)"
  using pause_step.command [of pause_start] by (simp add: pause_start_def)

lemma reach_quiesced: "pause_step\<^sup>*\<^sup>* pause_start demo_quiesced"
proof -
  let ?s1 = "pause_start\<lparr>bsp_at := In_command, owner := (\<lambda>_. None)(Shared_lock := Some Bsp_thread)\<rparr>"
  let ?s2 = "?s1\<lparr>pause := Requested, bsp_at := Waiting_ack\<rparr>"
  let ?s3 = "?s2\<lparr>pause := Paused, reactor_at := Parked\<rparr>"
  have "pause_step ?s1 ?s2" using pause_step.request [of ?s1] by (simp add: pause_start_def pause_defs)
  moreover have "pause_step ?s2 ?s3" using pause_step.park [of ?s2 Paused] by (simp add: pause_start_def pause_defs)
  moreover have "pause_step ?s3 demo_quiesced"
    using pause_step.acknowledged [of ?s3 False Paused] by (simp add: pause_start_def pause_defs demo_quiesced_def)
  ultimately show ?thesis using reach_command by (meson converse_rtranclp_into_rtranclp rtranclp.rtrancl_refl)
qed

lemma reach_blocked: "pause_step\<^sup>*\<^sup>* pause_start demo_blocked"
proof -
  let ?s1 = "pause_start\<lparr>bsp_at := In_command, owner := (\<lambda>_. None)(Shared_lock := Some Bsp_thread)\<rparr>"
  let ?s2 = "?s1\<lparr>reactor_at := Dispatching\<rparr>"
  let ?s3 = "?s2\<lparr>reactor_at := Locking Shared_lock\<rparr>"
  have "pause_step ?s1 ?s2" using pause_step.pass [of ?s1 Running] by (simp add: pause_start_def pause_defs)
  moreover have "pause_step ?s2 ?s3" using pause_step.want [of ?s2 Shared_lock] by (simp add: pause_start_def)
  moreover have "pause_step ?s3 demo_blocked" using pause_step.request [of ?s3] by (simp add: pause_start_def pause_defs demo_blocked_def)
  ultimately show ?thesis using reach_command by (meson converse_rtranclp_into_rtranclp rtranclp.rtrancl_refl)
qed

theorem quiesced_reactor_parked_witness:
  "pause_step\<^sup>*\<^sup>* pause_start demo_quiesced \<and> bsp_at demo_quiesced = Quiesced \<and> holds demo_quiesced Reactor_thread = {}"
  using quiesced_reactor_parked [OF reach_quiesced] reach_quiesced by (simp add: demo_quiesced_def)

theorem keystroke_blocks_pause_witness:
  "pause_step demo_blocked (demo_blocked\<lparr>pause := Running, bsp_at := In_command\<rparr>)"
  using keystroke_blocks_pause [OF reach_blocked] by (simp add: demo_blocked_def)

end
