(* ===== verification/Migration.thy ===== *)
theory Migration
  imports Snapshot_Stream Reactor Reactor_Pause
begin

text \<open>
  Live migration and forking (\<open>src/migrate.rs\<close>, \<open>src/fork.rs\<close>) and the restore half of a launch (\<open>src/lib.rs\<close>): the
  running machine is captured, the reactor parked, and the captured state with the guest memory sent or inherited; the
  receiver loads the memory, sets the vCPU up and restores each device into a machine built afresh.

  The network is a parameter (\<open>connect\<close>, \<open>write_all\<close>, \<open>flush\<close>), and so are the KVM ioctls. The wait for the reactor
  is an argument: whether it parked in time, and the events it served until then.
\<close>

section \<open>Capture\<close>

text \<open>\<open>save_state\<close> and \<open>restore_state\<close> of a device in the snapshot list; the others are never on it.\<close>

definition device_save :: "('s, 'e) machine_device \<Rightarrow> bytes" where
  "device_save d =
     (case d of
        Dev_blk s \<Rightarrow> legacy_save_state s | Dev_net s \<Rightarrow> legacy_save_state s | Dev_rng s \<Rightarrow> legacy_save_state s
      | Dev_rng_modern s \<Rightarrow> modern_save_state s | Dev_i2c s \<Rightarrow> modern_save_state s | Dev_gpio s \<Rightarrow> modern_save_state s
      | Dev_vsock s \<Rightarrow> modern_save_state s | _ \<Rightarrow> [])"

definition device_restore :: "bytes \<Rightarrow> ('s, 'e) machine_device \<Rightarrow> (snap_error + unit) \<times> ('s, 'e) machine_device" where
  "device_restore blob d =
     (case d of
        Dev_blk s \<Rightarrow> map_prod id Dev_blk (legacy_restore_state blob s)
      | Dev_net s \<Rightarrow> map_prod id Dev_net (legacy_restore_state blob s)
      | Dev_rng s \<Rightarrow> map_prod id Dev_rng (legacy_restore_state blob s)
      | Dev_rng_modern s \<Rightarrow> map_prod id Dev_rng_modern (modern_restore_state blob s)
      | Dev_i2c s \<Rightarrow> map_prod id Dev_i2c (modern_restore_state blob s)
      | Dev_gpio s \<Rightarrow> map_prod id Dev_gpio (modern_restore_state blob s)
      | Dev_vsock s \<Rightarrow> map_prod id Dev_vsock (modern_restore_state blob s)
      | _ \<Rightarrow> (Inr (), d))"

text \<open>The call of \<open>capture_live_state\<close>, with the devices of the snapshot list \<open>snaps\<close>.\<close>

definition capture_machine ::
  "'v capture_ops \<Rightarrow> device_id list \<Rightarrow> 'v \<Rightarrow> ('k, ('s, 'e) machine_world) vm \<Rightarrow> capture_error + captured_state" where
  "capture_machine ops snaps v vm =
     capture_live_state ops v (serial_port (shared vm)) (sh_pci (shared vm)) (map (\<lambda>i. device_save (w_devices (world vm) ! i)) snaps)"

section \<open>The source\<close>

record ('f, 'x) network =
  connect :: "string \<Rightarrow> 'x + 'f"
  write_all :: "bytes \<Rightarrow> 'f \<Rightarrow> 'x + 'f"
  flush :: "'f \<Rightarrow> 'x + 'f"

datatype 'x move_error =
    Not_capturable boot_msg | Move_capture capture_error | Did_not_pause | Connecting string 'x | Writing 'x | Flushing string 'x | Fork_failed 'x

text \<open>The answer of the rendezvous, with the events the reactor still served before it parked.\<close>

definition wait_for_reactor ::
  "('s, 'e) host_env \<Rightarrow> reactor_config \<Rightarrow> bool \<times> u64 list \<Rightarrow> ('k, 's, 'e) reactor \<Rightarrow> (bool \<times> ('k, 's, 'e) reactor) option" where
  "wait_for_reactor env c wait r = map_option (Pair (fst wait)) (reactor_round env c (snd wait) r)"

definition send_machine :: "('f, 'x) network \<Rightarrow> string \<Rightarrow> captured_state \<Rightarrow> guest_memory \<Rightarrow> 'x move_error + 'f" where
  "send_machine net dest cap m =
     try_bind (map_sum (Connecting dest) id (connect net dest)) (\<lambda>f.
     try_bind (map_sum Writing id (write_to (write_all net) cap m f)) (\<lambda>f.
     map_sum (Flushing dest) id (flush net f)))"

text \<open>The result is the error or the connection, the state the rendezvous is left in, and the machine.\<close>

definition handle_migrate ::
  "('s, 'e) host_env \<Rightarrow> reactor_config \<Rightarrow> ('f, 'x) network \<Rightarrow> 'v capture_ops \<Rightarrow> device_id list \<Rightarrow> args \<Rightarrow> bool \<times> u64 list \<Rightarrow> string \<Rightarrow>
   'v \<Rightarrow> ('k, 's, 'e) reactor \<Rightarrow> (('x move_error + 'f) \<times> pause_state \<times> ('k, 's, 'e) reactor) option" where
  "handle_migrate env c net ops snaps a wait dest v r =
     (case validate_capturable a of
        Inl e \<Rightarrow> Some (Inl (Not_capturable e), Running, r)
      | Inr _ \<Rightarrow>
     (case capture_machine ops snaps v (re_vm r) of
        Inl e \<Rightarrow> Some (Inl (Move_capture e), Running, r)
      | Inr cap \<Rightarrow>
     (case wait_for_reactor env c wait r of
        None \<Rightarrow> None
      | Some (False, r) \<Rightarrow> Some (Inl Did_not_pause, Running, r)
      | Some (True, r) \<Rightarrow>
          (case send_machine net dest cap (w_mem (world (re_vm r))) of
             Inl e \<Rightarrow> Some (Inl e, resume_pause Paused, r)
           | Inr f \<Rightarrow>
               let v = re_vm r; w = world v
               in Some (Inr f, Paused, r\<lparr>re_vm := v\<lparr>world := w\<lparr>w_exit := request_exit (w_exit w) (Inr MigratedAway)\<rparr>\<rparr>\<rparr>)))))"

section \<open>Forking\<close>

definition child_args :: "string \<Rightarrow> args \<Rightarrow> args" where
  "child_args sock a = a\<lparr>control_socket := Some sock, restore := None, migrate_listen := None, record_path := None,
     replay := None, gdb_stub := None, trace_file := None\<rparr>"

text \<open>What a child starts from: its arguments, the captured state and the inherited guest memory.\<close>

record fork_child =
  fc_args :: args
  fc_captured :: captured_state
  fc_memory :: guest_memory

text \<open>\<open>forked\<close> is the answer of \<open>fork()\<close> in the parent, whose result this is; the child never returns.\<close>

definition handle_fork ::
  "('s, 'e) host_env \<Rightarrow> reactor_config \<Rightarrow> 'v capture_ops \<Rightarrow> device_id list \<Rightarrow> args \<Rightarrow> bool \<times> u64 list \<Rightarrow> 'x + int \<Rightarrow> string \<Rightarrow>
   'v \<Rightarrow> ('k, 's, 'e) reactor \<Rightarrow> (('x move_error + int \<times> fork_child) \<times> pause_state \<times> ('k, 's, 'e) reactor) option" where
  "handle_fork env c ops snaps a wait forked sock v r =
     (case validate_capturable a of
        Inl e \<Rightarrow> Some (Inl (Not_capturable e), Running, r)
      | Inr _ \<Rightarrow>
     (case capture_machine ops snaps v (re_vm r) of
        Inl e \<Rightarrow> Some (Inl (Move_capture e), Running, r)
      | Inr cap \<Rightarrow>
     (case wait_for_reactor env c wait r of
        None \<Rightarrow> None
      | Some (False, r) \<Rightarrow> Some (Inl Did_not_pause, Running, r)
      | Some (True, r) \<Rightarrow>
          Some (case forked of
              Inl e \<Rightarrow> Inl (Fork_failed e)
            | Inr pid \<Rightarrow> Inr (pid, \<lparr>fc_args = child_args sock a, fc_captured = cap, fc_memory = w_mem (world (re_vm r))\<rparr>),
            resume_pause Paused, r))))"

section \<open>The destination\<close>

datatype 'x receive_error = Binding string 'x | Accepting 'x | Reading snapshot_error

definition receive_and_wait ::
  "(string \<Rightarrow> 'x + 'l) \<Rightarrow> ('l \<Rightarrow> 'x + bytes) \<Rightarrow> layout \<Rightarrow> string \<Rightarrow> ('x receive_error + loaded_snapshot) option" where
  "receive_and_wait bind accept lay addr =
     (case bind addr of
        Inl e \<Rightarrow> Some (Inl (Binding addr e))
      | Inr l \<Rightarrow>
          (case accept l of
             Inl e \<Rightarrow> Some (Inl (Accepting e))
           | Inr stream \<Rightarrow> map_option (map_sum Reading fst) (read_from lay stream)))"

record 'v restore_ops =
  ro_struct :: "kvm_struct \<Rightarrow> bytes \<Rightarrow> 'v \<Rightarrow> string + 'v"
  ro_create :: "u8 \<Rightarrow> 'v \<Rightarrow> string + 'v"
  ro_msrs :: "(u32 \<times> u64) list \<Rightarrow> 'v \<Rightarrow> string + 'v"

primrec set_structs :: "'v restore_ops \<Rightarrow> captured_state \<Rightarrow> kvm_struct list \<Rightarrow> 'v \<Rightarrow> string + 'v" where
  "set_structs ops cap [] v = Inr v"
| "set_structs ops cap (k # ks) v = try_bind (ro_struct ops k (cs_struct cap k) v) (set_structs ops cap ks)"

text \<open>\<open>ro_create\<close> is the creation of the vCPU and of its CPUID table for the given number of processors.\<close>

definition restore_vcpu :: "'v restore_ops \<Rightarrow> captured_state \<Rightarrow> 'v \<Rightarrow> string + 'v" where
  "restore_vcpu ops cap v =
     try_bind (set_structs ops cap [Pic_master, Pic_slave, Ioapic, Pit] v) (\<lambda>v.
     try_bind (ro_create ops (cs_num_cpus cap) v) (\<lambda>v.
     try_bind (set_structs ops cap [Sregs, Regs, Mp_state, Xcrs, Xsave, Vcpu_events, Lapic] v) (\<lambda>v.
     ro_msrs ops (cs_msrs cap) v)))"

datatype restore_error =
    Mem_size_differs u64 u64 | Dump_does_not_fit | Restore_vcpu string | Building build_error | Restore_blob snap_error | Device_count nat nat

primrec restore_virtio :: "(device_id \<times> bytes) list \<Rightarrow> ('s, 'e) machine_device list \<Rightarrow> (snap_error + unit) \<times> ('s, 'e) machine_device list" where
  "restore_virtio [] ds = (Inr (), ds)"
| "restore_virtio (x # xs) ds =
     (case device_restore (snd x) (ds ! fst x) of
        (Inl e, d) \<Rightarrow> (Inl e, ds[fst x := d])
      | (Inr _, d) \<Rightarrow> restore_virtio xs (ds[fst x := d]))"

definition restore_device_state ::
  "'k kvm_ops \<Rightarrow> captured_state \<Rightarrow> device_id list \<Rightarrow> ('k, ('s, 'e) machine_world) vm \<Rightarrow> restore_error + ('k, ('s, 'e) machine_world) vm" where
  "restore_device_state kops cap snaps vm =
     (let st = shared vm in
      case serial_restore_state (cs_serial_blob cap) (serial_port st) of
        (Inl e, _) \<Rightarrow> Inl (Restore_blob e)
      | (Inr _, ser) \<Rightarrow>
     (case pci_restore_state kops (cs_pci_blob cap) (sh_pci st) (mmio_bus st, io_bus st) of
        (Inl e, _) \<Rightarrow> Inl (Restore_blob e)
      | (Inr _, bus, mmio, io) \<Rightarrow>
          if length snaps \<noteq> length (cs_virtio_blobs cap) then Inl (Device_count (length (cs_virtio_blobs cap)) (length snaps))
          else
            (case restore_virtio (zip snaps (cs_virtio_blobs cap)) (w_devices (world vm)) of
               (Inl e, _) \<Rightarrow> Inl (Restore_blob e)
             | (Inr _, ds) \<Rightarrow>
                 Inr (vm\<lparr>shared := st\<lparr>serial_port := ser, sh_pci := bus, mmio_bus := mmio, io_bus := io\<rparr>,
                         world := (world vm)\<lparr>w_devices := ds\<rparr>\<rparr>))))"

text \<open>The checks of \<open>run\<close> on a loaded snapshot.\<close>

definition load_memory :: "loaded_snapshot \<Rightarrow> guest_memory \<Rightarrow> restore_error + guest_memory" where
  "load_memory snap m =
     (if ls_mem_size snap \<noteq> mem_size m then Inl (Mem_size_differs (ls_mem_size snap) (mem_size m))
      else case write_checked m 0 (ls_memory snap) of (ok, m') \<Rightarrow> if ok then Inr m' else Inl Dump_does_not_fit)"

text \<open>\<open>run\<close> and \<open>run_from_vcpus\<close> on a snapshot, up to the devices' state. \<open>build\<close> is \<open>Machine::build\<close> on the loaded memory: the
  snapshot list and the machine.\<close>

definition resume_machine ::
  "'k kvm_ops \<Rightarrow> 'v restore_ops \<Rightarrow> (guest_memory \<Rightarrow> build_error + device_id list \<times> ('k, ('s, 'e) machine_world) vm) \<Rightarrow>
   loaded_snapshot \<Rightarrow> guest_memory \<Rightarrow> 'v \<Rightarrow> restore_error + 'v \<times> ('k, ('s, 'e) machine_world) vm" where
  "resume_machine kops rops build snap m v =
     try_bind (load_memory snap m) (\<lambda>m.
     try_bind (map_sum Restore_vcpu id (restore_vcpu rops (ls_captured snap) v)) (\<lambda>v.
     try_bind (map_sum Building id (build m)) (\<lambda>(snaps, vm).
     map_sum id (Pair v) (restore_device_state kops (ls_captured snap) snaps vm))))"

definition build_fresh ::
  "('s, 'e) host_env \<Rightarrow> args \<Rightarrow> 'k \<Rightarrow> u64 \<Rightarrow> guest_memory \<Rightarrow> build_error + device_id list \<times> ('k, ('s, 'e) machine_world) vm" where
  "build_fresh env a k next_id m =
     map_sum id (\<lambda>b. (b_snapshots b, start_vm b)) (machine_build env a None None (builder_new m k next_id))"

text \<open>\<open>run_forked_child\<close>: the memory is inherited, so nothing is loaded.\<close>

definition run_forked_child ::
  "'k kvm_ops \<Rightarrow> 'v restore_ops \<Rightarrow> (args \<Rightarrow> guest_memory \<Rightarrow> build_error + device_id list \<times> ('k, ('s, 'e) machine_world) vm) \<Rightarrow>
   fork_child \<Rightarrow> 'v \<Rightarrow> restore_error + 'v \<times> ('k, ('s, 'e) machine_world) vm" where
  "run_forked_child kops rops build fc v =
     try_bind (map_sum Restore_vcpu id (restore_vcpu rops (fc_captured fc) v)) (\<lambda>v.
     try_bind (map_sum Building id (build (fc_args fc) (fc_memory fc))) (\<lambda>(snaps, vm).
     map_sum id (Pair v) (restore_device_state kops (fc_captured fc) snaps vm)))"

section \<open>A restored machine is the captured one\<close>

text \<open>A transport as saved: live state on the left, a transport with the same queues on the right; and what a restore makes equal.\<close>

definition legacy_twin :: "'d legacy_pci \<Rightarrow> 'd legacy_pci \<Rightarrow> bool" where
  "legacy_twin s t \<longleftrightarrow> legacy_inv s \<and> map q_size (l_queues t) = map q_size (l_queues s) \<and> length (l_queues s) < 2 ^ 32"

definition modern_twin :: "'d modern_pci \<Rightarrow> 'd modern_pci \<Rightarrow> bool" where
  "modern_twin s t \<longleftrightarrow> map (\<lambda>q. (q_size q, q_pfn q)) (m_queues t) = map (\<lambda>q. (q_size q, q_pfn q)) (m_queues s) \<and> length (m_queues s) < 2 ^ 32"

definition legacy_same :: "'d legacy_pci \<Rightarrow> 'd legacy_pci \<Rightarrow> bool" where
  "legacy_same s t \<longleftrightarrow> l_guest_features t = l_guest_features s \<and> l_queue_select t = l_queue_select s \<and> l_status t = l_status s \<and>
     l_isr t = l_isr s \<and> list_all2 queue_equiv (l_queues t) (l_queues s)"

definition modern_same :: "'d modern_pci \<Rightarrow> 'd modern_pci \<Rightarrow> bool" where
  "modern_same s t \<longleftrightarrow> m_device_feature_select t = m_device_feature_select s \<and> m_guest_feature_select t = m_guest_feature_select s \<and>
     m_guest_features t = m_guest_features s \<and> m_status t = m_status s \<and> m_config_generation t = m_config_generation s \<and>
     m_queue_select t = m_queue_select s \<and> m_isr t = m_isr s \<and> m_queues t = m_queues s"

fun twin :: "('s, 'e) machine_device \<Rightarrow> ('s, 'e) machine_device \<Rightarrow> bool" where
  "twin (Dev_blk s) (Dev_blk t) = legacy_twin s t"
| "twin (Dev_net s) (Dev_net t) = legacy_twin s t"
| "twin (Dev_rng s) (Dev_rng t) = legacy_twin s t"
| "twin (Dev_rng_modern s) (Dev_rng_modern t) = modern_twin s t"
| "twin _ _ = False"

fun restored_device :: "('s, 'e) machine_device \<Rightarrow> ('s, 'e) machine_device \<Rightarrow> bool" where
  "restored_device (Dev_blk s) (Dev_blk t) = legacy_same s t"
| "restored_device (Dev_net s) (Dev_net t) = legacy_same s t"
| "restored_device (Dev_rng s) (Dev_rng t) = legacy_same s t"
| "restored_device (Dev_rng_modern s) (Dev_rng_modern t) = modern_same s t"
| "restored_device _ _ = False"

lemma legacy_restored:
  assumes "legacy_twin s t" shows "\<exists>t'. legacy_restore_state (legacy_save_state s) t = (Inr (), t') \<and> legacy_same s t'"
  using legacy_snapshot_roundtrip [of s t] assms by (auto simp: legacy_twin_def legacy_same_def)

lemma modern_restored:
  assumes "modern_twin s t" shows "\<exists>t'. modern_restore_state (modern_save_state s) t = (Inr (), t') \<and> modern_same s t'"
  using modern_snapshot_roundtrip [of t s] assms by (auto simp: modern_twin_def modern_same_def)

lemma device_restored:
  assumes "twin d e" shows "\<exists>e'. device_restore (device_save d) e = (Inr (), e') \<and> restored_device d e'"
  using assms
  by (induction d e rule: twin.induct) (auto simp: device_restore_def device_save_def dest!: legacy_restored modern_restored)

lemma virtio_restored:
  assumes "list_all2 (\<lambda>d i. i < length es \<and> twin d (es ! i)) ds is" and "distinct is"
  shows "\<exists>es'. restore_virtio (zip is (map device_save ds)) es = (Inr (), es') \<and> length es' = length es \<and>
    list_all2 (\<lambda>d i. restored_device d (es' ! i)) ds is \<and> (\<forall>i. i \<notin> set is \<longrightarrow> es' ! i = es ! i)"
  using assms
proof (induction "is" arbitrary: ds es rule: list.induct)
  case Nil
  from Nil.prems(1) have "ds = []" by (cases ds) simp_all
  then show ?case by simp
next
  case (Cons i "is")
  then obtain d ds' where ds: "ds = d # ds'" "i < length es" "twin d (es ! i)" "list_all2 (\<lambda>d i. i < length es \<and> twin d (es ! i)) ds' is"
    by (auto simp: list_all2_Cons2)
  then obtain e' where e': "device_restore (device_save d) (es ! i) = (Inr (), e')" "restored_device d e'"
    using device_restored by blast
  have "list_all2 (\<lambda>d j. j < length (es[i := e']) \<and> twin d (es[i := e'] ! j)) ds' is"
    using ds(4) Cons.prems(2) by (auto simp: list_all2_conv_all_nth) (metis nth_list_update_neq nth_mem)
  from Cons.IH [OF this] Cons.prems(2) obtain es' where
    "restore_virtio (zip is (map device_save ds')) (es[i := e']) = (Inr (), es')" "length es' = length es"
    "list_all2 (\<lambda>d i. restored_device d (es' ! i)) ds' is" "\<forall>j. j \<notin> set is \<longrightarrow> es' ! j = es[i := e'] ! j" by auto
  with ds(1,2) e' Cons.prems(2) show ?case by auto
qed

text \<open>A machine built afresh with the device configuration of the captured one, and what the two agree on after a restore.\<close>

definition ready :: "device_id list \<Rightarrow> ('k, ('s, 'e) machine_world) vm \<Rightarrow> device_id list \<Rightarrow> ('k, ('s, 'e) machine_world) vm \<Rightarrow> bool" where
  "ready snaps vm snaps' vm' \<longleftrightarrow>
     pci_inv (sh_pci (shared vm)) (mmio_bus (shared vm), io_bus (shared vm)) \<and> length (slots (sh_pci (shared vm))) < 2 ^ 32 \<and>
     (\<forall>(d, s) \<in> set (slots (sh_pci (shared vm))). \<exists>t. find_slot (slots (sh_pci (shared vm'))) d = Some t \<and> fresh_shape s t) \<and>
     length (rx (serial_port (shared vm))) < 2 ^ 32 \<and> distinct snaps' \<and>
     list_all2 (\<lambda>i j. j < length (w_devices (world vm')) \<and> twin (w_devices (world vm) ! i) (w_devices (world vm') ! j)) snaps snaps'"

definition same_machine :: "device_id list \<Rightarrow> ('k, ('s, 'e) machine_world) vm \<Rightarrow> device_id list \<Rightarrow> ('k, ('s, 'e) machine_world) vm \<Rightarrow> bool" where
  "same_machine snaps vm snaps' vm' \<longleftrightarrow>
     (let s = serial_port (shared vm); t = serial_port (shared vm') in ier t = ier s \<and> scratch t = scratch s \<and> rx t = rx s) \<and>
     (\<forall>(d, s) \<in> set (slots (sh_pci (shared vm))). \<exists>t. find_slot (slots (sh_pci (shared vm'))) d = Some t \<and> same_config s t) \<and>
     list_all2 (\<lambda>i j. restored_device (w_devices (world vm) ! i) (w_devices (world vm') ! j)) snaps snaps'"

lemma capture_parts:
  assumes "capture_machine ops snaps v vm = Inr cap"
  shows "cs_serial_blob cap = serial_save_state (serial_port (shared vm))" "cs_pci_blob cap = pci_save_state (sh_pci (shared vm))"
    "cs_virtio_blobs cap = map device_save (map (\<lambda>i. w_devices (world vm) ! i) snaps)" "cs_num_cpus cap = 1"
    "co_msrs ops MSR_INDICES v = Inr (cs_msrs cap)"
  using assms by (auto simp: capture_machine_def capture_live_state_def try_bind_def comp_def split: sum.splits)

lemma devices_restored:
  assumes "capture_machine ops snaps v vm = Inr cap" and "ready snaps vm snaps' vm0"
  shows "\<exists>vm'. restore_device_state kops cap snaps' vm0 = Inr vm' \<and> same_machine snaps vm snaps' vm' \<and> w_mem (world vm') = w_mem (world vm0)"
proof -
  note c = capture_parts [OF assms(1)] and r = assms(2) [unfolded ready_def]
  have ser: "serial_restore_state (cs_serial_blob cap) t = (Inr (), t\<lparr>ier := ier (serial_port (shared vm)),
      scratch := scratch (serial_port (shared vm)), rx := rx (serial_port (shared vm))\<rparr>)" for t
    unfolding c(1) using r by (intro serial_snapshot_roundtrip) simp
  obtain bus mmio io where pci: "pci_restore_state kops (cs_pci_blob cap) (sh_pci (shared vm0)) (mmio_bus (shared vm0), io_bus (shared vm0)) = (Inr (), bus, mmio, io)"
    "\<forall>(d, s) \<in> set (slots (sh_pci (shared vm))). \<exists>t. find_slot (slots bus) d = Some t \<and> same_config s t"
    using pci_snapshot_roundtrip [of "sh_pci (shared vm)" "(mmio_bus (shared vm), io_bus (shared vm))" "sh_pci (shared vm0)" kops
        "(mmio_bus (shared vm0), io_bus (shared vm0))"] r unfolding c(2) by (auto simp del: split_paired_All)
  obtain es where es: "restore_virtio (zip snaps' (cs_virtio_blobs cap)) (w_devices (world vm0)) = (Inr (), es)"
    "list_all2 (\<lambda>d i. restored_device d (es ! i)) (map (\<lambda>i. w_devices (world vm) ! i) snaps) snaps'"
    using virtio_restored [of "w_devices (world vm0)" "map (\<lambda>i. w_devices (world vm) ! i) snaps" snaps'] r unfolding c(3)
    by (auto simp: list_all2_map1)
  have "length snaps' = length (cs_virtio_blobs cap)" using r c(3) by (auto dest: list_all2_lengthD)
  with ser pci es show ?thesis
    by (simp add: restore_device_state_def same_machine_def Let_def list_all2_map1)
qed

section \<open>The whole move\<close>

text \<open>
  What is relied on of KVM: an ioctl that sets a structure of the right size succeeds, the same get returns it
  afterwards, and the other structures are unchanged; creating the vCPU leaves the interrupt controllers and the timer alone.
\<close>

definition kvm_faithful :: "layout \<Rightarrow> 'v capture_ops \<Rightarrow> 'v restore_ops \<Rightarrow> bool" where
  "kvm_faithful lay ops rops \<longleftrightarrow>
     (\<forall>k b v. length b = lay k \<longrightarrow> (\<exists>v'. ro_struct rops k b v = Inr v' \<and> co_struct ops k v' = Inr b \<and>
        (\<forall>j. j \<noteq> k \<longrightarrow> co_struct ops j v' = co_struct ops j v))) \<and>
     (\<forall>n v. \<exists>v'. ro_create rops n v = Inr v' \<and> (\<forall>k \<in> set VM_ORDER. co_struct ops k v' = co_struct ops k v)) \<and>
     (\<forall>ms v. map fst ms = MSR_INDICES \<longrightarrow> (\<exists>v'. ro_msrs rops ms v = Inr v' \<and> co_msrs ops MSR_INDICES v' = Inr ms \<and>
        (\<forall>k. co_struct ops k v' = co_struct ops k v)))"

text \<open>A get returns a structure of its size, and the MSRs asked for.\<close>

definition kvm_sized :: "layout \<Rightarrow> 'v capture_ops \<Rightarrow> 'v \<Rightarrow> bool" where
  "kvm_sized lay ops v \<longleftrightarrow> (\<forall>k b. co_struct ops k v = Inr b \<longrightarrow> length b = lay k) \<and> (\<forall>k. lay k < 2 ^ 63) \<and>
     (\<forall>ms. co_msrs ops MSR_INDICES v = Inr ms \<longrightarrow> map fst ms = MSR_INDICES)"

lemma get_structs_all:
  "get_structs ops v ks f = Inr g \<Longrightarrow> (if k \<in> set ks then co_struct ops k v = Inr (g k) else g k = f k)"
  by (induction ks arbitrary: f) (force split: sum.splits if_splits)+

lemma capture_structs:
  assumes "capture_machine ops snaps v vm = Inr cap" shows "co_struct ops k v = Inr (cs_struct cap k)"
proof -
  obtain f where f: "get_structs ops v VCPU_ORDER (\<lambda>_. []) = Inr f" "get_structs ops v VM_ORDER f = Inr (cs_struct cap)"
    using assms by (auto simp: capture_machine_def capture_live_state_def try_bind_def split: sum.splits)
  show ?thesis using get_structs_all [OF f(1), of k] get_structs_all [OF f(2), of k]
    by (cases k) (simp_all add: VCPU_ORDER_def VM_ORDER_def)
qed

lemma set_structs_all:
  assumes "kvm_faithful lay ops rops" and "\<forall>k. length (cs_struct cap k) = lay k" and "distinct ks"
  shows "\<exists>v'. set_structs rops cap ks v = Inr v' \<and>
    (\<forall>k. co_struct ops k v' = (if k \<in> set ks then Inr (cs_struct cap k) else co_struct ops k v))"
  using assms(3)
proof (induction ks arbitrary: v)
  case (Cons k ks)
  obtain v1 where "ro_struct rops k (cs_struct cap k) v = Inr v1" "co_struct ops k v1 = Inr (cs_struct cap k)"
    "\<forall>j. j \<noteq> k \<longrightarrow> co_struct ops j v1 = co_struct ops j v"
    using assms(1,2) unfolding kvm_faithful_def by blast
  with Cons.IH [of v1] Cons.prems show ?case by (auto simp: try_bind_def)
qed simp

lemma vcpu_restored:
  assumes "kvm_faithful lay ops rops" and "kvm_sized lay ops v" and "capture_machine ops snaps v vm = Inr cap"
  shows "\<exists>v'. restore_vcpu rops cap v0 = Inr v' \<and> (\<forall>k. co_struct ops k v' = co_struct ops k v) \<and>
    co_msrs ops MSR_INDICES v' = co_msrs ops MSR_INDICES v"
proof -
  have len: "\<forall>k. length (cs_struct cap k) = lay k" using assms(2) capture_structs [OF assms(3)] by (auto simp: kvm_sized_def)
  obtain v1 where v1: "set_structs rops cap [Pic_master, Pic_slave, Ioapic, Pit] v0 = Inr v1"
    "\<forall>k. co_struct ops k v1 = (if k \<in> set [Pic_master, Pic_slave, Ioapic, Pit] then Inr (cs_struct cap k) else co_struct ops k v0)"
    using set_structs_all [OF assms(1) len, of "[Pic_master, Pic_slave, Ioapic, Pit]" v0] by auto
  obtain v2 where v2: "ro_create rops (cs_num_cpus cap) v1 = Inr v2" "\<forall>k \<in> set VM_ORDER. co_struct ops k v2 = co_struct ops k v1"
    using assms(1) unfolding kvm_faithful_def by blast
  let ?ks = "[Sregs, Regs, Mp_state, Xcrs, Xsave, Vcpu_events, Lapic]"
  obtain v3 where v3: "set_structs rops cap ?ks v2 = Inr v3"
    "\<forall>k. co_struct ops k v3 = (if k \<in> set ?ks then Inr (cs_struct cap k) else co_struct ops k v2)"
    using set_structs_all [OF assms(1) len, of ?ks v2] by auto
  have m: "co_msrs ops MSR_INDICES v = Inr (cs_msrs cap)" using capture_parts(5) [OF assms(3)] .
  with assms(2) have "map fst (cs_msrs cap) = MSR_INDICES" by (auto simp: kvm_sized_def)
  with assms(1) obtain v4 where v4: "ro_msrs rops (cs_msrs cap) v3 = Inr v4" "co_msrs ops MSR_INDICES v4 = Inr (cs_msrs cap)"
    "\<forall>k. co_struct ops k v4 = co_struct ops k v3" unfolding kvm_faithful_def by blast
  have "co_struct ops k v4 = co_struct ops k v" for k
    using v1(2) v2(2) v3(2) v4(3) capture_structs [OF assms(3), of k] by (cases k) (simp_all add: VM_ORDER_def)
  with v1(1) v2(1) v3(1) v4(1,2) m show ?thesis by (simp add: restore_vcpu_def try_bind_def)
qed

lemma whole_memory_written:
  assumes "length bs = unat (mem_size m)"
  shows "\<exists>m'. write_checked m 0 bs = (True, m') \<and> mem_size m' = mem_size m \<and> mem_read m' 0 (unat (mem_size m)) = bs"
  using assms mem_read_write_same [of m 0 bs] by (simp add: write_checked_eq)

text \<open>The network that delivers what is written, and a destination whose machine has the configuration of \<open>vm\<close>.\<close>

definition lossless :: "(bytes, 'x) network \<Rightarrow> bool" where
  "lossless net \<longleftrightarrow> connect net = (\<lambda>_. Inr []) \<and> write_all net = (\<lambda>bs f. Inr (f @ bs)) \<and> flush net = Inr"

definition matching_build ::
  "device_id list \<Rightarrow> ('k, ('s, 'e) machine_world) vm \<Rightarrow> device_id list \<Rightarrow>
   (guest_memory \<Rightarrow> build_error + device_id list \<times> ('k, ('s, 'e) machine_world) vm) \<Rightarrow> bool" where
  "matching_build snaps vm snaps' build \<longleftrightarrow> (\<forall>m. \<exists>fresh. build m = Inr (snaps', fresh) \<and> w_mem (world fresh) = m \<and> ready snaps vm snaps' fresh)"

definition blobs_fit :: "captured_state \<Rightarrow> bool" where
  "blobs_fit cap \<longleftrightarrow> length (all_blobs cap) < 2 ^ 32 \<and> (\<forall>b \<in> set (all_blobs cap). length b < 2 ^ 32)"

lemma captured_fits:
  assumes "kvm_sized lay ops v" and "capture_machine ops snaps v vm = Inr cap" and "blobs_fit cap"
  shows "captured_ok lay cap"
proof -
  have "length (cs_struct cap k) = lay k \<and> lay k < 2 ^ 63" for k
    using assms(1) capture_structs [OF assms(2), of k] by (auto simp: kvm_sized_def)
  moreover have "map fst (cs_msrs cap) = MSR_INDICES" using assms(1) capture_parts(5) [OF assms(2)] by (auto simp: kvm_sized_def)
  then have "length (cs_msrs cap) = length MSR_INDICES" by (metis length_map)
  ultimately show ?thesis using assms(3) by (auto simp: captured_ok_def blobs_fit_def MSR_INDICES_def)
qed

text \<open>What a destination resumes: the devices as captured from \<open>r\<close>, the memory as sent, after the reactor's last round.\<close>

lemma migrated_state:
  fixes net :: "(bytes, 'x) network"
  assumes net: "lossless net" and sent: "handle_migrate env c net ops snaps a (True, tokens) dest v r = Some (Inr stream, p, r')"
    and kvm: "kvm_faithful lay ops rops" "kvm_sized lay ops v"
    and cap: "capture_machine ops snaps v (re_vm r) = Inr cap" "blobs_fit cap"
    and last: "reactor_round env c tokens r = Some r1"
    and size: "mem_size m0 = mem_size (w_mem (world (re_vm r1)))" "mem_size m0 < 2 ^ 63"
    and build: "matching_build snaps (re_vm r) snaps' build"
  shows "\<exists>snap v' vm'. receive_and_wait Inr (\<lambda>_. Inr stream) lay addr = Some (Inr snap :: 'x receive_error + loaded_snapshot) \<and>
    resume_machine kops rops build snap m0 v0 = Inr (v', vm') \<and> mem_size (w_mem (world vm')) = mem_size m0 \<and>
    mem_read (w_mem (world vm')) 0 (unat (mem_size m0)) = mem_read (w_mem (world (re_vm r1))) 0 (unat (mem_size m0)) \<and>
    (\<forall>k. co_struct ops k v' = co_struct ops k v) \<and> co_msrs ops MSR_INDICES v' = co_msrs ops MSR_INDICES v \<and>
    same_machine snaps (re_vm r) snaps' vm' \<and>
    p = Paused \<and> w_exit (world (re_vm r')) = request_exit (w_exit (world (re_vm r1))) (Inr MigratedAway)"
proof -
  let ?m = "w_mem (world (re_vm r1))"
  have stream: "stream = header_bytes cap (mem_size ?m) @ mem_read ?m 0 (unat (mem_size ?m))"
    and r': "p = Paused" "w_exit (world (re_vm r')) = request_exit (w_exit (world (re_vm r1))) (Inr MigratedAway)"
    using sent net cap(1) last
    by (auto simp: handle_migrate_def wait_for_reactor_def send_machine_def write_to_def try_bind_def lossless_def Let_def split: sum.splits)
  let ?snap = "\<lparr>ls_mem_size = mem_size ?m, ls_captured = cap, ls_memory = mem_read ?m 0 (unat (mem_size ?m))\<rparr>"
  have read: "read_from lay stream = Some (Inr (?snap, []))"
    using reads_stream [OF captured_fits [OF kvm(2) cap], of ?m] size unfolding stream reads_def by (metis append_Nil2)
  obtain m1 where m1: "write_checked m0 0 (mem_read ?m 0 (unat (mem_size ?m))) = (True, m1)" "mem_size m1 = mem_size m0"
    "mem_read m1 0 (unat (mem_size m0)) = mem_read ?m 0 (unat (mem_size m0))"
    using whole_memory_written [of "mem_read ?m 0 (unat (mem_size ?m))" m0] size(1) by auto
  obtain v' where v': "restore_vcpu rops cap v0 = Inr v'" "\<forall>k. co_struct ops k v' = co_struct ops k v"
    "co_msrs ops MSR_INDICES v' = co_msrs ops MSR_INDICES v" using vcpu_restored [OF kvm cap(1)] by blast
  obtain fresh where f: "build m1 = Inr (snaps', fresh)" "w_mem (world fresh) = m1" "ready snaps (re_vm r) snaps' fresh"
    using build by (auto simp: matching_build_def)
  obtain vm' where vm': "restore_device_state kops cap snaps' fresh = Inr vm'" "same_machine snaps (re_vm r) snaps' vm'" "w_mem (world vm') = m1"
    using devices_restored [OF cap(1) f(3)] f(2) by auto
  have "resume_machine kops rops build ?snap m0 v0 = Inr (v', vm')"
    using size(1) m1(1) v'(1) vm'(1) f(1) by (simp add: resume_machine_def load_memory_def try_bind_def)
  moreover have "receive_and_wait Inr (\<lambda>_. Inr stream) lay addr = Some (Inr ?snap :: 'x receive_error + loaded_snapshot)"
    by (simp add: receive_and_wait_def read)
  ultimately show ?thesis using m1(2,3) v'(2,3) vm'(2,3) r' by auto
qed


text \<open>A machine with one virtio-net device and a PCI function, and a KVM that stores what it is given.\<close>

definition demo_net_pci :: "u32 \<Rightarrow> net_dev legacy_pci" where
  "demo_net_pci p = \<lparr>l_dev = net_new [], l_irq = 5, l_guest_features = p, l_queue_select = 0, l_status = 4, l_isr = 0,
     l_queues = [set_pfn p (vq_new 4), vq_new 4], l_chain = chain_default\<rparr>"

definition demo_move_vm :: "u32 \<Rightarrow> guest_memory \<Rightarrow> (unit, (unit, unit) machine_world) vm" where
  "demo_move_vm p m = \<lparr>shared = (shared demo_vm)\<lparr>sh_pci := demo_pci, mmio_bus := [], io_bus := []\<rparr>,
     world = \<lparr>w_mem = m, w_exit = new_exit_slot, w_devices = [Dev_net (demo_net_pci p)]\<rparr>,
     irq_lines = [4, 5], pulses = [], irq_bugs = [], msis = [], debug_out = []\<rparr>"

definition demo_source :: "u32 \<Rightarrow> guest_memory \<Rightarrow> bytes list \<Rightarrow> (unit, unit, unit) reactor" where
  "demo_source p m frames = \<lparr>re_vm = demo_move_vm p m, re_recording = None, re_now = (0, 0), re_stdin_watched = True, re_stdin = [],
     re_tap = (\<lambda>_. frames)\<rparr>"

type_synonym demo_vcpu = "(kvm_struct \<Rightarrow> bytes) \<times> (u32 \<times> u64) list"

definition demo_get :: "demo_vcpu capture_ops" where
  "demo_get = \<lparr>co_struct = (\<lambda>k v. Inr (fst v k)), co_msrs = (\<lambda>_ v. Inr (snd v))\<rparr>"

definition demo_set :: "demo_vcpu restore_ops" where
  "demo_set = \<lparr>ro_struct = (\<lambda>k b v. Inr ((fst v)(k := b), snd v)), ro_create = (\<lambda>_. Inr), ro_msrs = (\<lambda>ms v. Inr (fst v, ms))\<rparr>"

definition demo_running :: demo_vcpu where
  "demo_running = (\<lambda>_. [7], map (\<lambda>i. (i, 0)) MSR_INDICES)"

definition demo_wire :: "(bytes, unit) network" where
  "demo_wire = \<lparr>connect = (\<lambda>_. Inr []), write_all = (\<lambda>bs f. Inr (f @ bs)), flush = Inr\<rparr>"

definition demo_move_config :: reactor_config where
  "demo_move_config = \<lparr>rc_net = [0], rc_notifies = [], rc_blk = [], rc_gpio = [], rc_vsock = None, rc_suppress_stdin = False\<rparr>"

lemma demo_kvm_ok: "kvm_faithful (\<lambda>_. 1) demo_get demo_set" "kvm_sized (\<lambda>_. 1) demo_get demo_running"
  by (simp_all add: kvm_faithful_def kvm_sized_def demo_get_def demo_set_def demo_running_def comp_def)

lemma demo_lossless: "lossless demo_wire"
  by (simp add: lossless_def demo_wire_def)

lemma demo_capture: "\<exists>cap. capture_machine demo_get [0] demo_running (demo_move_vm p m) = Inr cap \<and> blobs_fit cap"
  by (simp add: capture_machine_def capture_live_state_def try_bind_def VCPU_ORDER_def VM_ORDER_def demo_get_def blobs_fit_def all_blobs_def
      demo_move_vm_def device_save_def legacy_save_state_def demo_net_pci_def demo_vm_def serial_save_state_def serial_new_def pci_save_state_def
      demo_pci_def save_slot_def save_bar_def demo_slot_def demo_bars_def length_concat sum_list_replicate)

lemma demo_matching: "matching_build [0] (demo_move_vm p m) [0] (\<lambda>m. Inr ([0], demo_move_vm 0 m))"
proof -
  have "fresh_shape demo_slot demo_slot" by (simp add: fresh_shape_def demo_slot_def demo_bars_def list_all_iff)
  moreover have "legacy_twin (demo_net_pci p) (demo_net_pci 0)" by (simp add: legacy_twin_def demo_net_pci_def legacy_inv_def)
  ultimately show ?thesis using demo_pci_inv
    by (simp add: matching_build_def ready_def demo_move_vm_def demo_pci_def demo_vm_def serial_new_def)
qed


section \<open>A packet between the capture and the pause\<close>

text \<open>Two memories with the same bytes in range pop the same chain.\<close>

lemma read_checked_contents:
  assumes "mem_size m' = mem_size m" and "mem_read m' 0 (unat (mem_size m)) = mem_read m 0 (unat (mem_size m))"
  shows "read_checked m' = read_checked m"
proof (intro ext)
  fix addr n
  have b: "mem_bytes m' i = mem_bytes m i" if "i < unat (mem_size m)" for i
    using arg_cong [OF assms(2), of "\<lambda>l. l ! i"] that by (simp add: mem_read_def)
  show "read_checked m' addr n = read_checked m addr n"
    by (auto simp: read_checked_eq assms(1) mem_read_def b)
qed

lemma try_pop_contents:
  assumes "mem_size m' = mem_size m" and "mem_read m' 0 (unat (mem_size m)) = mem_read m 0 (unat (mem_size m))"
  shows "try_pop q m' chain = try_pop q m chain"
proof -
  note r = read_checked_contents [OF assms]
  have "in_bounds m' = in_bounds m" by (simp add: fun_eq_iff in_bounds_iff assms(1))
  then have "desc_at q m' = desc_at q m" by (intro ext) (simp only: desc_at_def r)
  then have "walk_chain n q m' idx tot bufs = walk_chain n q m idx tot bufs" for n idx tot bufs
    by (induction n arbitrary: idx tot bufs) (simp_all add: walk_chain_Suc assms(1) Let_def split: option.split)
  then show ?thesis by (simp only: try_pop_def read_u16_checked_def r)
qed

lemma popped_avail:
  assumes "try_pop q m chain = (True, q', c)"
  shows "\<exists>a. read_u16_checked m (q_avail q + 2) = Some a \<and> a \<noteq> last_avail_idx q" and "avail_chain q m (last_avail_idx q) = Some c"
  using assms by (auto simp: try_pop_def avail_chain_def Let_def split: if_splits option.splits prod.splits)

definition chain_mem :: "desc_chain \<Rightarrow> nat set" where
  "chain_mem c = (\<Union>b \<in> set (buffers c). buf_span b)"

lemma pop_after_delivery:
  assumes "try_pop q m ch0 = (True, q', c)" and "legacy_q_ok q" and "chain_mem c \<inter> queue_mem q = {}"
  shows "mem_size (push_used q' (scatter m (takeWhile device_writable (buffers c)) d) c n) = mem_size m"
    and "try_pop q (push_used q' (scatter m (takeWhile device_writable (buffers c)) d) c n) ch = (True, q', c)"
proof -
  let ?bs = "takeWhile device_writable (buffers c)" and ?S = "chain_mem c \<union> used_foot q"
  have q': "q' = q\<lparr>last_avail_idx := last_avail_idx q + 1\<rparr>" using try_pop_Some(2) [OF assms(1)] .
  have "same_outside (chain_mem c) m (scatter m ?bs d)"
    by (auto simp: same_outside_def chain_mem_def intro!: scatter_outside dest: set_takeWhileD)
  moreover have "same_outside (used_foot q) (scatter m ?bs d) (push_used q' (scatter m ?bs d) c n)"
    using push_used_foot [of q'] by (simp add: q')
  ultimately have S: "same_outside ?S m (push_used q' (scatter m ?bs d) c n)" by (rule same_outside_trans)
  then show "mem_size (push_used q' (scatter m ?bs d) c n) = mem_size m" by (rule same_outside_size)
  note p = popped_avail [OF assms(1)]
  have "?S \<inter> queue_mem q = {}" using assms(3) legacy_used_separate [OF assms(2)] try_pop_Some(1) [OF assms(1)] by (auto simp: is_live_def)
  note f = avail_frame [OF S this]
  from p obtain a where "read_u16_checked (push_used q' (scatter m ?bs d) c n) (q_avail q + 2) = Some a" "a \<noteq> last_avail_idx q"
    using f(1) by auto
  with try_pop_avail(2) [OF this, of c ch] f(2) p(2) q'
  show "try_pop q (push_used q' (scatter m ?bs d) c n) ch = (True, q', c)" by simp
qed

lemma tap_round:
  assumes "rc_net c = [i]" and "re_tap r i = [frame]" and "frame \<noteq> []" and "length frame \<le> RX_BUF_LEN"
    and "w_devices (world (re_vm r)) ! i = Dev_net s"
    and "try_deliver_rx s (w_mem (world (re_vm r))) RX_QUEUE (replicate VNET_HDR_LEN 0) frame = (Some irq, s', m')"
  shows "\<exists>r1. reactor_round env c [1] r = Some r1 \<and> w_mem (world (re_vm r1)) = m'"
proof -
  have "dispatch c 1 = Some (Tap i)"
    using assms(1) by (simp add: dispatch_def STDIN_TOKEN_def virtio_notify_base_def get_at_def)
  then show ?thesis using assms(2-6)
    by (simp add: reactor_event_def handle_tap_def Let_def re_pulse_def re_record_def put_world_def put_device_def irq_pulse_def)
qed


text \<open>A guest that posted one receive buffer of 64 bytes.\<close>

definition demo_late_mem :: guest_memory where
  "demo_late_mem = mem_write (mem_write (mem_new 0x4000) 0x1000 (le64 0x3000 @ le32 64 @ le16 2 @ le16 0)) 0x1042 (le16 1)"

definition demo_late_queue :: virtqueue where
  "demo_late_queue = set_pfn 1 (vq_new 4)"

definition demo_late_chain :: desc_chain where
  "demo_late_chain = \<lparr>head_index = 0, buffers = [\<lparr>buf_addr = 0x3000, buf_len = 64, device_writable = True\<rparr>]\<rparr>"

lemma demo_late_simps:
  "mem_size demo_late_mem = 0x4000" "mem_read demo_late_mem 0x1000 16 = le64 0x3000 @ le32 64 @ le16 2 @ le16 0"
  "mem_read demo_late_mem 0x1042 2 = le16 1" "mem_read demo_late_mem 0x1044 2 = le16 0"
  by (simp_all add: demo_late_mem_def mem_new_def mem_read_write_inside mem_read_write_disjoint subslice_def le_bytes_zero)
    (simp add: mem_read_def numeral_2_eq_2)

lemma demo_late_queue_eq:
  "demo_late_queue = \<lparr>q_size = 4, q_pfn = 1, q_desc = 0x1000, q_avail = 0x1040, q_used = 0x2000, q_enabled = True, last_avail_idx = 0\<rparr>"
  by (simp add: demo_late_queue_def set_pfn_def vq_new_def Let_def div_ceil_def DESC_SIZE_def QUEUE_ALIGN_def)

lemma demo_late_pop: "try_pop demo_late_queue demo_late_mem chain_default = (True, demo_late_queue\<lparr>last_avail_idx := 1\<rparr>, demo_late_chain)"
proof -
  have "desc_at demo_late_queue demo_late_mem 0 = Some (\<lparr>buf_addr = 0x3000, buf_len = 64, device_writable = True\<rparr>, 2, 0)"
    by (simp add: desc_at_def demo_late_queue_eq DESC_SIZE_def read_checked_eq demo_late_simps in_bounds_iff VIRTQ_DESC_F_WRITE_def word_le_nat_alt)
  then have "desc_path demo_late_queue demo_late_mem 0 (buffers demo_late_chain)"
    unfolding demo_late_chain_def desc_chain.select_convs by (rule path_end) (simp add: VIRTQ_DESC_F_NEXT_def)
  then have "walk_chain 4 demo_late_queue demo_late_mem 0 0 [] = (True, [] @ buffers demo_late_chain)"
    by (rule walk_chain_complete) (simp_all add: demo_late_chain_def demo_late_simps)
  then show ?thesis
    by (simp add: try_pop_def is_live_def read_u16_checked_def read_checked_eq demo_late_simps demo_late_chain_def demo_late_queue_eq)
qed


end
