(* ===== verification/Control_Socket.thy ===== *)
theory Control_Socket
  imports Gdb_Stub Migration
begin

text \<open>
  The control socket (\<open>src/control.rs\<close>): connections with their line buffers, the commands, and the server that vCPU 0 polls.

  A command works on the whole machine. Its reply is text, or an error value that is sent as \<open>ERR\<close> and a message; the
  texts of messages are the parameter \<open>msg\<close>. Files, the network and \<open>fork()\<close> are parameters, and so is the
  reactor's answer to a pause. A command whose device processing does not return has no result (\<open>None\<close>).
\<close>

definition MAX_LINE :: nat where "MAX_LINE = 2 ^ 20"
definition MAX_READ_LEN :: u64 where "MAX_READ_LEN = 2 ^ 20"
definition MAX_CLIENTS :: nat where "MAX_CLIENTS = 8"

section \<open>Words\<close>

text \<open>The code units of the whitespace character a string starts with, 0 when it starts with another (\<open>char::is_whitespace\<close>).\<close>

definition unit_at :: "string \<Rightarrow> nat \<Rightarrow> nat" where
  "unit_at s i = (if i < length s then of_char (s ! i) else 0)"

definition ws_len :: "string \<Rightarrow> nat" where
  "ws_len s =
     (let a = unit_at s 0; b = unit_at s 1; c = unit_at s 2 in
      if s = [] then 0
      else if 9 \<le> a \<and> a \<le> 13 \<or> a = 32 then 1
      else if a = 0xc2 \<and> (b = 0x85 \<or> b = 0xa0) then 2
      else if a = 0xe1 \<and> b = 0x9a \<and> c = 0x80 then 3
      else if a = 0xe2 \<and> b = 0x80 \<and> (0x80 \<le> c \<and> c \<le> 0x8a \<or> c = 0xa8 \<or> c = 0xa9 \<or> c = 0xaf) then 3
      else if a = 0xe2 \<and> b = 0x81 \<and> c = 0x9f then 3
      else if a = 0xe3 \<and> b = 0x80 \<and> c = 0x80 then 3
      else 0)"

function (sequential) words_from :: "string \<Rightarrow> string \<Rightarrow> string list" where
  "words_from w [] = (if w = [] then [] else [w])"
| "words_from w (c # cs) =
     (let n = ws_len (c # cs) in
      if n = 0 then words_from (w @ [c]) cs
      else (if w = [] then [] else [w]) @ words_from [] (drop n (c # cs)))"
  by pat_completeness auto

termination
  by (relation "measure (\<lambda>(_, s). length s)") auto

definition split_whitespace :: "string \<Rightarrow> string list" where
  "split_whitespace s = words_from [] s"

fun trim_0x :: "string \<Rightarrow> string" where
  "trim_0x (a # b # s) = (if a = CHR ''0'' \<and> b = CHR ''x'' then trim_0x s else a # b # s)"
| "trim_0x s = s"

definition parse_addr :: "string \<Rightarrow> u64 option" where
  "parse_addr s = from_str_radix 16 (trim_0x s)"

section \<open>Registers\<close>

definition reg_field :: "string \<Rightarrow> (u64 \<Rightarrow> gp_regs \<Rightarrow> gp_regs) option" where
  "reg_field name =
     (if name = ''rip'' then Some (\<lambda>v. g_rip_update (\<lambda>_. v))
      else if name = ''rsp'' then Some (\<lambda>v. g_rsp_update (\<lambda>_. v))
      else if name = ''rbp'' then Some (\<lambda>v. g_rbp_update (\<lambda>_. v))
      else if name = ''rflags'' then Some (\<lambda>v. g_rflags_update (\<lambda>_. v))
      else if name = ''rax'' then Some (\<lambda>v. g_rax_update (\<lambda>_. v))
      else if name = ''rbx'' then Some (\<lambda>v. g_rbx_update (\<lambda>_. v))
      else if name = ''rcx'' then Some (\<lambda>v. g_rcx_update (\<lambda>_. v))
      else if name = ''rdx'' then Some (\<lambda>v. g_rdx_update (\<lambda>_. v))
      else if name = ''rsi'' then Some (\<lambda>v. g_rsi_update (\<lambda>_. v))
      else if name = ''rdi'' then Some (\<lambda>v. g_rdi_update (\<lambda>_. v))
      else if name = ''r8'' then Some (\<lambda>v. g_r8_update (\<lambda>_. v))
      else if name = ''r9'' then Some (\<lambda>v. g_r9_update (\<lambda>_. v))
      else if name = ''r10'' then Some (\<lambda>v. g_r10_update (\<lambda>_. v))
      else if name = ''r11'' then Some (\<lambda>v. g_r11_update (\<lambda>_. v))
      else if name = ''r12'' then Some (\<lambda>v. g_r12_update (\<lambda>_. v))
      else if name = ''r13'' then Some (\<lambda>v. g_r13_update (\<lambda>_. v))
      else if name = ''r14'' then Some (\<lambda>v. g_r14_update (\<lambda>_. v))
      else if name = ''r15'' then Some (\<lambda>v. g_r15_update (\<lambda>_. v))
      else None)"

definition show_regs :: "gp_regs \<Rightarrow> string list" where
  "show_regs r =
     [''rip='' @ show_hex (g_rip r), ''rsp='' @ show_hex (g_rsp r), ''rbp='' @ show_hex (g_rbp r), ''rflags='' @ show_hex (g_rflags r),
      ''rax='' @ show_hex (g_rax r), ''rbx='' @ show_hex (g_rbx r), ''rcx='' @ show_hex (g_rcx r), ''rdx='' @ show_hex (g_rdx r),
      ''rsi='' @ show_hex (g_rsi r), ''rdi='' @ show_hex (g_rdi r), ''r8='' @ show_hex (g_r8 r), ''r9='' @ show_hex (g_r9 r),
      ''r10='' @ show_hex (g_r10 r), ''r11='' @ show_hex (g_r11 r), ''r12='' @ show_hex (g_r12 r), ''r13='' @ show_hex (g_r13 r),
      ''r14='' @ show_hex (g_r14 r), ''r15='' @ show_hex (g_r15 r)]"

datatype 'x ctl_error =
    Usage string | Bad_address_or_length | Read_too_long u64 | Read_out_of_bounds u64 u64 | Bad_address | Bad_hex
  | Write_out_of_bounds u64 nat | Get_regs_failed string | Reg_syntax string | Reg_value string string | Reg_unknown string
  | Set_regs_failed string | Snapshot_failed "'x save_error" | Move_failed "'x move_error" | Bad_mmio string | Bad_pci string
  | Bad_kind string | No_plugin string string | Reload_failed reload_error | Unknown_command

text \<open>The loop of \<open>apply_reg_assignments\<close>; \<open>any\<close> tells whether there was an assignment.\<close>

fun assign_regs :: "bool \<Rightarrow> gp_regs \<Rightarrow> string list \<Rightarrow> 'x ctl_error + gp_regs" where
  "assign_regs any r [] = (if any then Inr r else Inl (Usage ''write_regs''))"
| "assign_regs any r (item # items) =
     (case split_once (CHR ''='') item of
        None \<Rightarrow> Inl (Reg_syntax item)
      | Some (name, value) \<Rightarrow>
          (case parse_addr value of
             None \<Rightarrow> Inl (Reg_value value name)
           | Some parsed \<Rightarrow>
               (case reg_field name of
                  None \<Rightarrow> Inl (Reg_unknown name)
                | Some put \<Rightarrow> assign_regs True (put parsed r) items)))"

definition apply_reg_assignments :: "gp_regs \<Rightarrow> string list \<Rightarrow> 'x ctl_error + gp_regs" where
  "apply_reg_assignments r items = assign_regs False r items"

section \<open>Commands\<close>

record ('v, 'k, 's, 'e) ctl_state =
  ct_vcpu :: 'v
  ct_machine :: "('k, 's, 'e) reactor"
  ct_next_id :: u64
  ct_pause :: pause_state
  ct_saved :: "(string \<times> bytes) list"
  ct_sent :: "bytes list"
  ct_children :: "(int \<times> fork_child) list"

record ('v, 'k, 's, 'e, 'x) ctl_env =
  ce_host :: "('s, 'e) host_env"
  ce_config :: reactor_config
  ce_args :: args
  ce_snapshots :: "device_id list"
  ce_plugins :: "plugin_registry_entry list"
  ce_regs :: "'v vcpu_ops"
  ce_capture :: "'v capture_ops"
  ce_create :: "string \<Rightarrow> 'x + bytes"
  ce_write :: "bytes \<Rightarrow> bytes \<Rightarrow> 'x + bytes"
  ce_net :: "(bytes, 'x) network"
  ce_wait :: "('v, 'k, 's, 'e) ctl_state \<Rightarrow> bool \<times> u64 list"
  ce_fork :: "('v, 'k, 's, 'e) ctl_state \<Rightarrow> 'x + int"

abbreviation ct_world :: "('v, 'k, 's, 'e) ctl_state \<Rightarrow> ('s, 'e) machine_world" where
  "ct_world st \<equiv> world (re_vm (ct_machine st))"

definition set_world :: "('s, 'e) machine_world \<Rightarrow> ('v, 'k, 's, 'e) ctl_state \<Rightarrow> ('v, 'k, 's, 'e) ctl_state" where
  "set_world w st = st\<lparr>ct_machine := put_world w (ct_machine st)\<rparr>"

definition find_plugin :: "plugin_registry_entry list \<Rightarrow> string \<Rightarrow> string \<Rightarrow> 'x ctl_error + plugin_registry_entry" where
  "find_plugin plugins kind value =
     try_bind
       (if kind = ''mmio'' then (case parse_addr value of None \<Rightarrow> Inl (Bad_mmio value) | Some a \<Rightarrow> Inr (Sel_mmio a))
        else if kind = ''pci'' then (case from_str_radix 10 value of None \<Rightarrow> Inl (Bad_pci value) | Some n \<Rightarrow> Inr (Sel_pci n))
        else Inl (Bad_kind kind))
       (\<lambda>sel. case find (\<lambda>e. pr_selector e = sel) plugins of None \<Rightarrow> Inl (No_plugin kind value) | Some e \<Rightarrow> Inr e)"

type_synonym ('v, 'k, 's, 'e, 'x) command =
  "('v, 'k, 's, 'e, 'x) ctl_env \<Rightarrow> string list \<Rightarrow> ('v, 'k, 's, 'e) ctl_state \<Rightarrow> (('x ctl_error + string) \<times> ('v, 'k, 's, 'e) ctl_state) option"

definition cmd_read_mem :: "('v, 'k, 's, 'e, 'x) command" where
  "cmd_read_mem env args st =
     Some (case args of
         addr # len # _ \<Rightarrow>
           (case parse_addr addr of
              None \<Rightarrow> Inl Bad_address_or_length
            | Some addr \<Rightarrow>
                (case from_str_radix 10 len :: u64 option of
                   None \<Rightarrow> Inl Bad_address_or_length
                 | Some len \<Rightarrow>
                     if MAX_READ_LEN < len then Inl (Read_too_long len)
                     else
                       (case read_checked (w_mem (ct_world st)) addr (unat len) of
                          None \<Rightarrow> Inl (Read_out_of_bounds addr len)
                        | Some data \<Rightarrow> Inr (''OK '' @ to_hex data))))
       | _ \<Rightarrow> Inl (Usage ''read_mem''), st)"

definition cmd_write_mem :: "('v, 'k, 's, 'e, 'x) command" where
  "cmd_write_mem env args st =
     Some (case args of
         addr # hex # _ \<Rightarrow>
           (case parse_addr addr of
              None \<Rightarrow> (Inl Bad_address, st)
            | Some addr \<Rightarrow>
                (case from_hex hex of
                   None \<Rightarrow> (Inl Bad_hex, st)
                 | Some data \<Rightarrow>
                     (case write_checked (w_mem (ct_world st)) addr data of (ok, m) \<Rightarrow>
                        if ok then (Inr ''OK'', set_world ((ct_world st)\<lparr>w_mem := m\<rparr>) st)
                        else (Inl (Write_out_of_bounds addr (length data)), st))))
       | _ \<Rightarrow> (Inl (Usage ''write_mem''), st))"

definition cmd_regs :: "('v, 'k, 's, 'e, 'x) command" where
  "cmd_regs env args st =
     Some (case get_regs (ce_regs env) (ct_vcpu st) of
         Inl e \<Rightarrow> Inl (Get_regs_failed e)
       | Inr r \<Rightarrow> Inr (''OK'' @ concat (map (\<lambda>f. CHR '' '' # f) (show_regs r))), st)"

definition cmd_write_regs :: "('v, 'k, 's, 'e, 'x) command" where
  "cmd_write_regs env args st =
     Some (case get_regs (ce_regs env) (ct_vcpu st) of
         Inl e \<Rightarrow> (Inl (Get_regs_failed e), st)
       | Inr r \<Rightarrow>
           (case apply_reg_assignments r args of
              Inl e \<Rightarrow> (Inl e, st)
            | Inr r \<Rightarrow>
                (case set_regs (ce_regs env) r (ct_vcpu st) of
                   Inl e \<Rightarrow> (Inl (Set_regs_failed e), st)
                 | Inr v \<Rightarrow> (Inr ''OK'', st\<lparr>ct_vcpu := v\<rparr>))))"

definition cmd_snapshot :: "('v, 'k, 's, 'e, 'x) command" where
  "cmd_snapshot env args st =
     Some (case args of
         path # _ \<Rightarrow>
           (let vm = re_vm (ct_machine st) in
            case save_to_file (ce_create env) (ce_write env) (ce_capture env) path (w_mem (world vm)) (ct_vcpu st)
                   (serial_port (shared vm)) (sh_pci (shared vm)) (map (\<lambda>i. device_save (w_devices (world vm) ! i)) (ce_snapshots env)) of
              Inl e \<Rightarrow> (Inl (Snapshot_failed e), st)
            | Inr f \<Rightarrow> (Inr ''OK'', st\<lparr>ct_saved := ct_saved st @ [(path, f)]\<rparr>))
       | [] \<Rightarrow> (Inl (Usage ''snapshot''), st))"

definition cmd_fork :: "('v, 'k, 's, 'e, 'x) command" where
  "cmd_fork env args st =
     (case args of
        sock # _ \<Rightarrow>
          map_option (\<lambda>(res, p, r).
              let st = st\<lparr>ct_machine := r, ct_pause := p\<rparr> in
              case res of
                Inl e \<Rightarrow> (Inl (Move_failed e), st)
              | Inr (pid, child) \<Rightarrow>
                  (Inr (''OK '' @ (if pid < 0 then ''-'' else []) @ show_radix 10 (nat \<bar>pid\<bar>)), st\<lparr>ct_children := ct_children st @ [(pid, child)]\<rparr>))
            (handle_fork (ce_host env) (ce_config env) (ce_capture env) (ce_snapshots env) (ce_args env) (ce_wait env st) (ce_fork env st) sock
              (ct_vcpu st) (ct_machine st))
      | [] \<Rightarrow> Some (Inl (Usage ''fork''), st))"

definition cmd_migrate :: "('v, 'k, 's, 'e, 'x) command" where
  "cmd_migrate env args st =
     (case args of
        dest # _ \<Rightarrow>
          map_option (\<lambda>(res, p, r).
              let st = st\<lparr>ct_machine := r, ct_pause := p\<rparr> in
              case res of
                Inl e \<Rightarrow> (Inl (Move_failed e), st)
              | Inr f \<Rightarrow> (Inr ''OK'', st\<lparr>ct_sent := ct_sent st @ [f]\<rparr>))
            (handle_migrate (ce_host env) (ce_config env) (ce_net env) (ce_capture env) (ce_snapshots env) (ce_args env) (ce_wait env st) dest
              (ct_vcpu st) (ct_machine st))
      | [] \<Rightarrow> Some (Inl (Usage ''migrate''), st))"

definition cmd_reset_device :: "('v, 'k, 's, 'e, 'x) command" where
  "cmd_reset_device env args st =
     Some (case args of
         kind # value # _ \<Rightarrow>
           (case find_plugin (ce_plugins env) kind value of
              Inl e \<Rightarrow> (Inl e, st)
            | Inr entry \<Rightarrow>
                (Inr ''OK'',
                 case w_devices (ct_world st) ! pr_device entry of
                   Dev_plugin d \<Rightarrow> set_world (snd (with_plugin (pr_device entry) (\<lambda>d. ((), scripted_reset plugin_ops d)) d (ct_world st))) st
                 | _ \<Rightarrow> st))
       | _ \<Rightarrow> (Inl (Usage ''reset_device''), st))"

definition cmd_reload_device :: "('v, 'k, 's, 'e, 'x) command" where
  "cmd_reload_device env args st =
     Some (case args of
         kind # value # _ \<Rightarrow>
           (case find_plugin (ce_plugins env) kind value of
              Inl e \<Rightarrow> (Inl e, st)
            | Inr entry \<Rightarrow>
                (case reload_plugin (ce_host env) entry (ct_next_id st) (ct_world st) of ((err, w), n) \<Rightarrow>
                   (case err of None \<Rightarrow> Inr ''OK'' | Some e \<Rightarrow> Inl (Reload_failed e), set_world w (st\<lparr>ct_next_id := n\<rparr>))))
       | _ \<Rightarrow> (Inl (Usage ''reload_device''), st))"

definition handle_command ::
  "('v, 'k, 's, 'e, 'x) ctl_env \<Rightarrow> string \<Rightarrow> ('v, 'k, 's, 'e) ctl_state \<Rightarrow> (('x ctl_error + string) \<times> ('v, 'k, 's, 'e) ctl_state) option" where
  "handle_command env line st =
     (case split_whitespace line of
        [] \<Rightarrow> Some (Inl Unknown_command, st)
      | cmd # args \<Rightarrow>
          (if cmd = ''read_mem'' then cmd_read_mem env args st
           else if cmd = ''write_mem'' then cmd_write_mem env args st
           else if cmd = ''regs'' then cmd_regs env args st
           else if cmd = ''write_regs'' then cmd_write_regs env args st
           else if cmd = ''snapshot'' then cmd_snapshot env args st
           else if cmd = ''fork'' then cmd_fork env args st
           else if cmd = ''migrate'' then cmd_migrate env args st
           else if cmd = ''reset_device'' then cmd_reset_device env args st
           else if cmd = ''reload_device'' then cmd_reload_device env args st
           else Some (Inl Unknown_command, st)))"

section \<open>Connections\<close>

text \<open>What the next reads of a connection return, the bytes not yet served, and how many bytes its send buffer still takes.\<close>

datatype sock_read = Got bytes | Would_block | Closed_by_peer | Read_failed

record client =
  cl_reads :: "sock_read list"
  cl_buf :: bytes
  cl_room :: nat
  cl_sent :: bytes

fun fill_loop :: "sock_read list \<Rightarrow> bytes \<Rightarrow> bool \<times> sock_read list \<times> bytes" where
  "fill_loop [] buf = (True, [], buf)"
| "fill_loop (Would_block # rest) buf = (True, rest, buf)"
| "fill_loop (Closed_by_peer # rest) buf = (False, rest, buf)"
| "fill_loop (Read_failed # rest) buf = (False, rest, buf)"
| "fill_loop (Got bs # rest) buf =
     (let buf = buf @ bs in if MAX_LINE < length buf then (False, rest, buf) else fill_loop rest buf)"

definition client_fill :: "client \<Rightarrow> bool \<times> client" where
  "client_fill c = (case fill_loop (cl_reads c) (cl_buf c) of (ok, rest, buf) \<Rightarrow> (ok, c\<lparr>cl_reads := rest, cl_buf := buf\<rparr>))"

definition NEWLINE :: byte where "NEWLINE = 10"

definition next_line :: "client \<Rightarrow> (string \<times> client) option" where
  "next_line c =
     (if NEWLINE \<notin> set (cl_buf c) then None
      else
        let line = takeWhile (\<lambda>b. b \<noteq> NEWLINE) (cl_buf c)
        in Some (chars_of (from_utf8_lossy line), c\<lparr>cl_buf := drop (Suc (length line)) (cl_buf c)\<rparr>))"

text \<open>\<open>write_all\<close> on a non-blocking socket: what does not fit is an error, after the part that did.\<close>

definition client_send :: "bytes \<Rightarrow> client \<Rightarrow> bool \<times> client" where
  "client_send reply c =
     (length reply \<le> cl_room c, c\<lparr>cl_sent := cl_sent c @ take (cl_room c) reply, cl_room := cl_room c - length reply\<rparr>)"

definition reply_bytes :: "('x ctl_error \<Rightarrow> string) \<Rightarrow> 'x ctl_error + string \<Rightarrow> bytes" where
  "reply_bytes msg r = ascii (case r of Inr s \<Rightarrow> s | Inl e \<Rightarrow> ''ERR '' @ msg e) @ [NEWLINE]"

lemma next_line_shrinks: "next_line c = Some (line, c') \<Longrightarrow> length (cl_buf c') < length (cl_buf c)"
proof -
  assume "next_line c = Some (line, c')"
  then have n: "NEWLINE \<in> set (cl_buf c)" "c' = c\<lparr>cl_buf := drop (Suc (length (takeWhile (\<lambda>b. b \<noteq> NEWLINE) (cl_buf c)))) (cl_buf c)\<rparr>"
    by (auto simp: next_line_def Let_def split: if_splits)
  then show ?thesis by (cases "cl_buf c") auto
qed

text \<open>The loop of \<open>serve_client\<close>: whether the client stays, the client and the machine.\<close>

function serve_lines ::
  "('v, 'k, 's, 'e, 'x) ctl_env \<Rightarrow> ('x ctl_error \<Rightarrow> string) \<Rightarrow> client \<Rightarrow> ('v, 'k, 's, 'e) ctl_state \<Rightarrow>
   (bool \<times> client \<times> ('v, 'k, 's, 'e) ctl_state) option" where
  "serve_lines env msg c st =
     (case next_line c of
        None \<Rightarrow> Some (True, c, st)
      | Some (line, c) \<Rightarrow>
          (case handle_command env line st of
             None \<Rightarrow> None
           | Some (r, st) \<Rightarrow>
               (case client_send (reply_bytes msg r) c of (alive, c) \<Rightarrow>
                  if alive then serve_lines env msg c st else Some (False, c, st))))"
  by pat_completeness auto

termination
  by (relation "measure (\<lambda>(_, _, c, _). length (cl_buf c))")
    (auto simp: client_send_def dest!: next_line_shrinks)

declare serve_lines.simps [simp del]

definition serve_client ::
  "('v, 'k, 's, 'e, 'x) ctl_env \<Rightarrow> ('x ctl_error \<Rightarrow> string) \<Rightarrow> client \<Rightarrow> ('v, 'k, 's, 'e) ctl_state \<Rightarrow>
   (bool \<times> client \<times> ('v, 'k, 's, 'e) ctl_state) option" where
  "serve_client env msg c st = (case client_fill c of (ok, c) \<Rightarrow> if ok then serve_lines env msg c st else Some (False, c, st))"

section \<open>The server\<close>

text \<open>The listen backlog: \<open>None\<close> is an accept that fails, which ends the loop.\<close>

fun accept_loop :: "client option list \<Rightarrow> client list \<Rightarrow> client option list \<times> client list" where
  "accept_loop [] cs = ([], cs)"
| "accept_loop (None # pending) cs = (pending, cs)"
| "accept_loop (Some c # pending) cs = accept_loop pending (if MAX_CLIENTS \<le> length cs then cs else cs @ [c])"

definition swap_remove :: "nat \<Rightarrow> 'a list \<Rightarrow> 'a list" where
  "swap_remove i xs = (if Suc i = length xs then butlast xs else (butlast xs)[i := last xs])"

lemma length_swap_remove [simp]: "length (swap_remove i xs) = length xs - 1"
  by (simp add: swap_remove_def)

function poll_loop ::
  "('v, 'k, 's, 'e, 'x) ctl_env \<Rightarrow> ('x ctl_error \<Rightarrow> string) \<Rightarrow> nat \<Rightarrow> client list \<Rightarrow> ('v, 'k, 's, 'e) ctl_state \<Rightarrow>
   (client list \<times> ('v, 'k, 's, 'e) ctl_state) option" where
  "poll_loop env msg i cs st =
     (if length cs \<le> i then Some (cs, st)
      else
        (case serve_client env msg (cs ! i) st of
           None \<Rightarrow> None
         | Some (True, c, st) \<Rightarrow> poll_loop env msg (Suc i) (cs[i := c]) st
         | Some (False, c, st) \<Rightarrow> poll_loop env msg i (swap_remove i cs) st))"
  by pat_completeness auto

termination
  by (relation "measure (\<lambda>(_, _, i, cs, _). length cs - i)") auto

declare poll_loop.simps [simp del]

record control_server =
  sv_pending :: "client option list"
  sv_clients :: "client list"

definition control_poll ::
  "('v, 'k, 's, 'e, 'x) ctl_env \<Rightarrow> ('x ctl_error \<Rightarrow> string) \<Rightarrow> control_server \<Rightarrow> ('v, 'k, 's, 'e) ctl_state \<Rightarrow>
   (control_server \<times> ('v, 'k, 's, 'e) ctl_state) option" where
  "control_poll env msg sv st =
     (case accept_loop (sv_pending sv) (sv_clients sv) of (pending, cs) \<Rightarrow>
        map_option (\<lambda>(cs, st). (\<lparr>sv_pending = pending, sv_clients = cs\<rparr>, st)) (poll_loop env msg 0 cs st))"

section \<open>Words that survive splitting\<close>

definition plain :: "string \<Rightarrow> bool" where
  "plain s \<longleftrightarrow> s \<noteq> [] \<and> (\<forall>c \<in> set s. 32 < (of_char c :: nat) \<and> (of_char c :: nat) < 128)"

lemma ws_len_plain: "32 < (of_char c :: nat) \<Longrightarrow> (of_char c :: nat) < 128 \<Longrightarrow> ws_len (c # s) = 0"
  by (simp add: ws_len_def unit_at_def Let_def)

lemma ws_len_space [simp]: "ws_len (CHR '' '' # s) = 1"
  by (simp add: ws_len_def unit_at_def)

lemma words_from_plain:
  "\<forall>c \<in> set p. 32 < (of_char c :: nat) \<and> (of_char c :: nat) < 128 \<Longrightarrow> words_from w (p @ s) = words_from (w @ p) s"
  by (induction p arbitrary: w) (simp_all add: ws_len_plain)

lemma words_plain: "plain p \<Longrightarrow> words_from [] (p @ CHR '' '' # s) = p # words_from [] s" "plain p \<Longrightarrow> words_from [] p = [p]"
  using words_from_plain [of p "[]" "CHR '' '' # s"] words_from_plain [of p "[]" "[]"] by (simp_all add: plain_def)

lemma split_words:
  assumes "\<forall>p \<in> set ps. plain p" and "plain p"
  shows "split_whitespace (p @ concat (map (\<lambda>f. CHR '' '' # f) ps)) = p # ps"
  using assms
proof (induction ps arbitrary: p)
  case Nil
  then show ?case by (simp add: split_whitespace_def words_plain)
next
  case (Cons q ps)
  then have "split_whitespace (q @ concat (map (\<lambda>f. CHR '' '' # f) ps)) = q # ps" by simp
  with Cons.prems(2) show ?case by (simp add: split_whitespace_def words_plain)
qed

lemma digit_char_range:
  assumes "d < 16" shows "32 < (of_char (digit_char d) :: nat)" "(of_char (digit_char d) :: nat) < 128" "digit_char d \<noteq> CHR ''x''"
proof -
  have "of_char (digit_char d) = (if d < 10 then 48 + d else 87 + d)" using assms by (simp add: digit_char_def of_char_of)
  then show "32 < (of_char (digit_char d) :: nat)" "(of_char (digit_char d) :: nat) < 128" "digit_char d \<noteq> CHR ''x''"
    using assms by (auto split: if_splits)
qed

lemma show_radix_range:
  assumes "2 \<le> radix" and "radix \<le> 16" and "c \<in> set (show_radix radix n)"
  shows "32 < (of_char c :: nat)" "(of_char c :: nat) < 128" "c \<noteq> CHR ''x''"
proof -
  obtain d where "d < radix" "c = digit_char d" using show_radix_chars [of radix c n] assms by auto
  then show "32 < (of_char c :: nat)" "(of_char c :: nat) < 128" "c \<noteq> CHR ''x''"
    using digit_char_range [of d] assms(2) by auto
qed

lemma plain_show [simp]: "plain (show_hex w)" "plain (show_dec v)"
  using show_radix_range(1,2) [of 16 _ "unat w"] show_radix_range(1,2) [of 10 _ "unat v"]
  by (auto simp: plain_def show_hex_def show_dec_def)

lemma plain_append [simp]: "plain p \<Longrightarrow> plain q \<Longrightarrow> plain (p @ q)"
  by (auto simp: plain_def)

lemma plain_hex [simp]: "bs \<noteq> [] \<Longrightarrow> plain (to_hex bs)"
proof -
  have "32 < (of_char (HEX_DIGITS ! n) :: nat) \<and> (of_char (HEX_DIGITS ! n) :: nat) < 128" if "n < 16" for n
  proof -
    have "n \<in> {0,1,2,3,4,5,6,7,8,9,10,11,12,13,14,15}" using that by simp presburger
    then show ?thesis by (auto simp: HEX_DIGITS_def)
  qed
  then have "\<forall>c \<in> set (to_hex bs). 32 < (of_char c :: nat) \<and> (of_char c :: nat) < 128" for bs
    by (induction bs) (auto simp: half_byte)
  moreover have "bs \<noteq> [] \<Longrightarrow> to_hex bs \<noteq> []" by (cases bs) simp_all
  ultimately show "bs \<noteq> [] \<Longrightarrow> plain (to_hex bs)" by (simp add: plain_def)
qed

lemma trim_0x_plain: "CHR ''x'' \<notin> set s \<Longrightarrow> trim_0x s = s"
  by (induction s rule: trim_0x.induct) auto

lemma parse_addr_show [simp]: "parse_addr (show_hex w) = Some w"
proof -
  have "trim_0x (show_radix 16 (unat w)) = show_radix 16 (unat w)"
    using show_radix_range(3) [of 16] by (intro trim_0x_plain) auto
  then show ?thesis using from_str_radix_show [of 16 "unat w", where 'a = 64] unat_lt_pow [of w]
    by (simp add: parse_addr_def show_hex_def)
qed

lemma plain_Cons: "32 < (of_char c :: nat) \<Longrightarrow> (of_char c :: nat) < 128 \<Longrightarrow> plain s \<Longrightarrow> plain (c # s)"
  by (simp add: plain_def)

lemma assign_show:
  "CHR ''='' \<notin> set name \<Longrightarrow> reg_field name = Some put \<Longrightarrow>
   assign_regs any r ((name @ CHR ''='' # show_hex w) # items) = assign_regs True (put w r) items"
  by simp

section \<open>Properties\<close>

text \<open>Memory written over the control socket reads back: for any bytes (up to the read limit) at any address where they fit,
  the textual \<open>write_mem\<close> command answers \<open>OK\<close>, changes exactly those bytes of the machine and nothing else, and a
  \<open>read_mem\<close> of the same range then answers with the very digits that were sent.\<close>

lemma control_write_read_mem:
  assumes "unat addr + length data \<le> unat (mem_size (w_mem (ct_world st)))" and "data \<noteq> []" and "length data \<le> 2 ^ 20"
  defines "st' \<equiv> set_world ((ct_world st)\<lparr>w_mem := mem_write (w_mem (ct_world st)) (unat addr) data\<rparr>) st"
  shows "handle_command env (''write_mem '' @ show_hex addr @ '' '' @ to_hex data) st = Some (Inr ''OK'', st') \<and>
    handle_command env (''read_mem '' @ show_hex addr @ '' '' @ show_dec (of_nat (length data) :: u64)) st' =
      Some (Inr (''OK '' @ to_hex data), st')"
proof -
  have n: "unat (of_nat (length data) :: u64) = length data" using assms(3) by (intro unat_of_nat_lt) simp
  have w: "split_whitespace (''write_mem '' @ show_hex addr @ '' '' @ to_hex data) = [''write_mem'', show_hex addr, to_hex data]"
    using split_words [of "[show_hex addr, to_hex data]" "''write_mem''"] assms(2) by (simp add: plain_def [of "CHR ''w'' # _"])
  have r: "split_whitespace (''read_mem '' @ show_hex addr @ '' '' @ show_dec (of_nat (length data) :: u64)) =
      [''read_mem'', show_hex addr, show_dec (of_nat (length data) :: u64)]"
    using split_words [of "[show_hex addr, show_dec (of_nat (length data) :: u64)]" "''read_mem''"] by (simp add: plain_def [of "CHR ''r'' # _"])
  have p: "from_str_radix 10 (show_dec (of_nat (length data) :: u64)) = Some (of_nat (length data) :: u64)"
    using from_str_radix_show [of 10 "length data", where 'a = 64] n assms(3) by (simp add: show_dec_def)
  have l: "\<not> MAX_READ_LEN < of_nat (length data)" using assms(3) n by (simp add: MAX_READ_LEN_def word_less_nat_alt)
  have "ct_world st' = (ct_world st)\<lparr>w_mem := mem_write (w_mem (ct_world st)) (unat addr) data\<rparr>" by (simp add: st'_def set_world_def put_world_def)
  then have "read_checked (w_mem (ct_world st')) addr (length data) = Some data"
    using assms(1) by (simp add: read_checked_eq mem_read_write_same)
  with w r p l n assms(1) show ?thesis
    by (simp add: handle_command_def cmd_write_mem_def cmd_read_mem_def write_checked_eq st'_def)
qed

text \<open>C21: A \<open>regs\<close> reply handed back to \<open>write_regs\<close> restores every register: whatever the register file has become
  in between, the command is accepted and loads the vCPU with exactly the registers the reply was printed from.\<close>

theorem control_regs_roundtrip:
  assumes "get_regs (ce_regs env) (ct_vcpu st) = Inr r" and "handle_command env ''regs'' st = Some (Inr reply, st1)"
    and "get_regs (ce_regs env) (ct_vcpu st2) = Inr r2" and "set_regs (ce_regs env) r (ct_vcpu st2) = Inr v"
  shows "handle_command env (''write_regs'' @ drop 2 reply) st2 = Some (Inr ''OK'', st2\<lparr>ct_vcpu := v\<rparr>)"
proof -
  have "split_whitespace ''regs'' = [''regs'']" using split_words [of "[]" "''regs''"] by (simp add: plain_def)
  then have reply: "drop 2 reply = concat (map (\<lambda>f. CHR '' '' # f) (show_regs r))"
    using assms(1,2) by (auto simp: handle_command_def cmd_regs_def)
  have "\<forall>p \<in> set (show_regs r). plain p" by (simp add: show_regs_def plain_Cons)
  then have "split_whitespace (''write_regs'' @ drop 2 reply) = ''write_regs'' # show_regs r"
    unfolding reply by (rule split_words) (simp add: plain_def)
  moreover have "apply_reg_assignments r2 (show_regs r) = (Inr r :: 'e ctl_error + gp_regs)"
    by (cases r; cases r2) (simp add: apply_reg_assignments_def show_regs_def assign_show reg_field_def)
  ultimately show ?thesis using assms(3,4) by (simp add: handle_command_def cmd_write_regs_def)
qed

text \<open>The commands of a list, one after the other: the replies and the final state.\<close>

primrec run_commands ::
  "('v, 'k, 's, 'e, 'x) ctl_env \<Rightarrow> string list \<Rightarrow> ('v, 'k, 's, 'e) ctl_state \<Rightarrow> (('x ctl_error + string) list \<times> ('v, 'k, 's, 'e) ctl_state) option" where
  "run_commands env [] st = Some ([], st)"
| "run_commands env (line # lines) st =
     (case handle_command env line st of
        None \<Rightarrow> None
      | Some (r, st) \<Rightarrow> map_option (\<lambda>(rs, st). (r # rs, st)) (run_commands env lines st))"

definition wire :: "string list \<Rightarrow> bytes" where
  "wire lines = concat (map (\<lambda>l. ascii l @ [NEWLINE]) lines)"

text \<open>A line of seven-bit characters without a line feed.\<close>

definition one_line :: "string \<Rightarrow> bool" where
  "one_line l \<longleftrightarrow> (\<forall>b \<in> set (ascii l). b < 0x80 \<and> b \<noteq> NEWLINE)"

lemma next_line_wire:
  assumes "one_line l" and "cl_buf c = ascii l @ NEWLINE # rest"
  shows "next_line c = Some (l, c\<lparr>cl_buf := rest\<rparr>)"
proof -
  have "takeWhile (\<lambda>b. b \<noteq> NEWLINE) (ascii l @ NEWLINE # rest) = ascii l"
    using assms(1) by (subst takeWhile_append2) (auto simp: one_line_def)
  moreover have "from_utf8_lossy (ascii l) = ascii l" using assms(1) by (intro from_utf8_lossy_ascii) (simp add: one_line_def)
  ultimately show ?thesis using assms(2) by (simp add: next_line_def Let_def)
qed

lemma fill_loop_chunks:
  "length (buf @ concat chunks) \<le> MAX_LINE \<Longrightarrow> fill_loop (map Got chunks @ Would_block # rest) buf = (True, rest, buf @ concat chunks)"
  by (induction chunks arbitrary: buf) (simp_all add: Let_def)

lemma serve_lines_wire:
  assumes "\<forall>l \<in> set lines. one_line l" and "NEWLINE \<notin> set tail" and "cl_buf c = wire lines @ tail"
    and "run_commands env lines st = Some (rs, st')" and "length (concat (map (reply_bytes msg) rs)) \<le> cl_room c"
  shows "\<exists>c'. serve_lines env msg c st = Some (True, c', st') \<and> cl_buf c' = tail \<and> cl_sent c' = cl_sent c @ concat (map (reply_bytes msg) rs)"
  using assms
proof (induction lines arbitrary: c st rs)
  case Nil
  then have "next_line c = None" by (simp add: next_line_def wire_def)
  with Nil show ?case by (subst serve_lines.simps) (simp add: wire_def)
next
  case (Cons l lines)
  obtain r st1 rs' where r: "handle_command env l st = Some (r, st1)" "run_commands env lines st1 = Some (rs', st')" "rs = r # rs'"
    using Cons.prems(4) by (auto split: option.splits)
  let ?c1 = "c\<lparr>cl_buf := wire lines @ tail\<rparr>"
  have n: "next_line c = Some (l, ?c1)" using Cons.prems(1,3) by (intro next_line_wire) (auto simp: wire_def)
  define c2 where "c2 = snd (client_send (reply_bytes msg r) ?c1)"
  have s: "client_send (reply_bytes msg r) ?c1 = (True, c2)" "cl_buf c2 = wire lines @ tail" "cl_room c2 = cl_room c - length (reply_bytes msg r)"
    "cl_sent c2 = cl_sent c @ reply_bytes msg r"
    using Cons.prems(5) by (simp_all add: client_send_def c2_def r(3))
  have "\<exists>c'. serve_lines env msg c2 st1 = Some (True, c', st') \<and> cl_buf c' = tail \<and> cl_sent c' = cl_sent c2 @ concat (map (reply_bytes msg) rs')"
    by (rule Cons.IH) (use Cons.prems r s in auto)
  with n r s show ?case by (subst serve_lines.simps) simp
qed

text \<open>C20: However a client's bytes are cut on their way, the complete lines among them are served as commands, each once and in the
  order sent, each answered by its reply on a line of its own; an unfinished line is kept for the next poll and has no
  effect yet. (The lines are ASCII, they fit the line limit and the replies fit the client's send buffer.)\<close>

theorem control_serves_lines:
  assumes "cl_reads c = map Got chunks @ Would_block # rest" and "cl_buf c @ concat chunks = wire lines @ tail"
    and "\<forall>l \<in> set lines. one_line l" and "NEWLINE \<notin> set tail" and "length (wire lines @ tail) \<le> MAX_LINE"
    and "run_commands env lines st = Some (rs, st')" and "length (concat (map (reply_bytes msg) rs)) \<le> cl_room c"
  shows "\<exists>c'. serve_client env msg c st = Some (True, c', st') \<and> cl_buf c' = tail \<and> cl_sent c' = cl_sent c @ concat (map (reply_bytes msg) rs)"
proof -
  let ?c = "c\<lparr>cl_reads := rest, cl_buf := wire lines @ tail\<rparr>"
  have "client_fill c = (True, ?c)"
    using fill_loop_chunks [of "cl_buf c" chunks rest] assms(1,2,5) by (simp add: client_fill_def)
  moreover have "\<exists>c'. serve_lines env msg ?c st = Some (True, c', st') \<and> cl_buf c' = tail \<and> cl_sent c' = cl_sent ?c @ concat (map (reply_bytes msg) rs)"
    using assms(3-4,6-7) by (intro serve_lines_wire) auto
  ultimately show ?thesis by (simp add: serve_client_def)
qed

text \<open>C26: A client that sends its commands and closes the connection is not served: the end of the input is noticed in the same
  drain that takes the bytes in, the client is dropped, and however many complete commands it had sent none is executed
  and none is answered, although every complete line found so far is promised an answer.\<close>

theorem closing_client_ignored:
  assumes "cl_reads c = map Got chunks @ Closed_by_peer # rest" and "i < length cs" and "cs ! i = c"
  shows "poll_loop env msg i cs st = poll_loop env msg i (swap_remove i cs) st"
proof -
  have "\<not> fst (fill_loop (map Got chunks @ Closed_by_peer # rest) buf)" for buf
    by (induction chunks arbitrary: buf) (simp_all add: Let_def)
  then have "\<exists>c'. client_fill c = (False, c')"
    using assms(1) by (cases "fill_loop (cl_reads c) (cl_buf c)") (auto simp: client_fill_def, metis fst_conv)
  then have "\<exists>c'. serve_client env msg c st = Some (False, c', st)" by (auto simp: serve_client_def)
  with assms(2,3) show ?thesis by (subst poll_loop.simps) auto
qed

definition demo_ctl_env :: "(gp_regs, unit, unit, unit, unit) ctl_env" where
  "demo_ctl_env = \<lparr>ce_host = demo_host, ce_config = demo_move_config, ce_args = args_default, ce_snapshots = [0], ce_plugins = [],
     ce_regs = \<lparr>get_regs = Inr, set_regs = (\<lambda>r _. Inr r), get_sregs = (\<lambda>_. Inl []), set_guest_debug = (\<lambda>_. Inr),
       get_vcpu_events = (\<lambda>_. Inl []), set_vcpu_events = (\<lambda>_. Inr)\<rparr>,
     ce_capture = \<lparr>co_struct = (\<lambda>_ _. Inr []), co_msrs = (\<lambda>_ _. Inr [])\<rparr>, ce_create = (\<lambda>_. Inr []), ce_write = (\<lambda>bs f. Inr (f @ bs)),
     ce_net = demo_wire, ce_wait = (\<lambda>_. (True, [])), ce_fork = (\<lambda>_. Inr 5)\<rparr>"

definition demo_ctl_regs :: "u64 \<Rightarrow> gp_regs" where
  "demo_ctl_regs x = \<lparr>g_rax = x, g_rbx = 0, g_rcx = 0, g_rdx = 0, g_rsi = 0, g_rdi = 0, g_rsp = 0x8000, g_rbp = 0, g_r8 = 0, g_r9 = 0, g_r10 = 0,
     g_r11 = 0, g_r12 = 0, g_r13 = 0, g_r14 = 0, g_r15 = 0, g_rip = 0x100000, g_rflags = 2\<rparr>"

definition demo_ctl :: "u64 \<Rightarrow> (gp_regs, unit, unit, unit) ctl_state" where
  "demo_ctl x = \<lparr>ct_vcpu = demo_ctl_regs x, ct_machine = demo_source 7 (mem_new 0x1000) [], ct_next_id = 0, ct_pause = Running, ct_saved = [],
     ct_sent = [], ct_children = []\<rparr>"

lemma control_write_read_mem_example:
  "\<exists>st'. handle_command demo_ctl_env (''write_mem '' @ show_hex 0x20 @ '' '' @ to_hex [0xde, 0xad]) (demo_ctl 0) = Some (Inr ''OK'', st') \<and>
     handle_command demo_ctl_env (''read_mem '' @ show_hex 0x20 @ '' '' @ show_dec (2 :: u64)) st' = Some (Inr (''OK '' @ to_hex [0xde, 0xad]), st')"
  using control_write_read_mem [where addr = "0x20" and data = "[0xde, 0xad]" and st = "demo_ctl 0" and env = demo_ctl_env]
  by (auto simp: demo_ctl_def demo_source_def demo_move_vm_def mem_new_def)

theorem control_regs_roundtrip_witness:
  "\<exists>reply. handle_command demo_ctl_env ''regs'' (demo_ctl 5) = Some (Inr reply, demo_ctl 5) \<and>
     handle_command demo_ctl_env (''write_regs'' @ drop 2 reply) (demo_ctl 9) = Some (Inr ''OK'', demo_ctl 5)"
proof -
  have g: "get_regs (ce_regs demo_ctl_env) (ct_vcpu (demo_ctl x)) = Inr (demo_ctl_regs x)" for x by (simp add: demo_ctl_env_def demo_ctl_def)
  have "split_whitespace ''regs'' = [''regs'']" using split_words [of "[]" "''regs''"] by (simp add: plain_def)
  then obtain reply where h: "handle_command demo_ctl_env ''regs'' (demo_ctl 5) = Some (Inr reply, demo_ctl 5)"
    by (simp add: handle_command_def cmd_regs_def g)
  have "set_regs (ce_regs demo_ctl_env) (demo_ctl_regs 5) (ct_vcpu (demo_ctl 9)) = Inr (demo_ctl_regs 5)" by (simp add: demo_ctl_env_def)
  from control_regs_roundtrip [OF g h g this] h show ?thesis by (auto simp: demo_ctl_def)
qed

definition demo_client :: "sock_read list \<Rightarrow> client" where
  "demo_client ops = \<lparr>cl_reads = ops, cl_buf = [], cl_room = 4096, cl_sent = []\<rparr>"

lemma demo_unknown: "handle_command env ''x'' st = Some (Inl Unknown_command, st)"
  using split_words [of "[]" "''x''"] by (simp add: plain_def handle_command_def)

theorem control_serves_lines_witness:
  "\<exists>c'. serve_client demo_ctl_env (\<lambda>_. ''unknown command'') (demo_client [Got [0x78], Got [10, 0x78, 10, 0x72], Would_block]) (demo_ctl 0) =
       Some (True, c', demo_ctl 0) \<and> cl_buf c' = [0x72] \<and> cl_sent c' = ascii ''ERR unknown command'' @ [10] @ ascii ''ERR unknown command'' @ [10]"
proof -
  let ?c = "demo_client [Got [0x78], Got [10, 0x78, 10, 0x72], Would_block]"
  have "cl_reads ?c = map Got [[0x78], [10, 0x78, 10, 0x72]] @ Would_block # []"
    "cl_buf ?c @ concat [[0x78], [10, 0x78, 10, 0x72]] = wire [''x'', ''x''] @ [0x72]"
    "\<forall>l \<in> set [''x'', ''x'']. one_line l" "NEWLINE \<notin> set [0x72]" "length (wire [''x'', ''x''] @ [0x72]) \<le> MAX_LINE"
    by (simp_all add: demo_client_def wire_def ascii_def NEWLINE_def one_line_def MAX_LINE_def)
  moreover have "run_commands demo_ctl_env [''x'', ''x''] (demo_ctl 0) = Some ([Inl Unknown_command, Inl Unknown_command], demo_ctl 0)"
    by (simp add: demo_unknown)
  moreover have "length (concat (map (reply_bytes (\<lambda>_. ''unknown command'')) [Inl Unknown_command :: unit ctl_error + string, Inl Unknown_command])) \<le> cl_room ?c"
    by (simp add: demo_client_def reply_bytes_def ascii_def)
  ultimately show ?thesis
    by (rule control_serves_lines [THEN exE]) (simp add: demo_client_def reply_bytes_def NEWLINE_def)
qed

theorem closing_client_ignored_witness:
  "poll_loop demo_ctl_env (\<lambda>_. []) 0 [demo_client [Got (ascii ''write_mem 0x20 dead'' @ [10]), Closed_by_peer]] (demo_ctl 0) = Some ([], demo_ctl 0)"
proof -
  let ?c = "demo_client [Got (ascii ''write_mem 0x20 dead'' @ [10]), Closed_by_peer]"
  have "poll_loop demo_ctl_env (\<lambda>_. []) 0 [?c] (demo_ctl 0) = poll_loop demo_ctl_env (\<lambda>_. []) 0 (swap_remove 0 [?c]) (demo_ctl 0)"
    by (rule closing_client_ignored [where chunks = "[ascii ''write_mem 0x20 dead'' @ [10]]" and rest = "[]"]) (simp_all add: demo_client_def)
  then show ?thesis by (simp add: swap_remove_def poll_loop.simps [of _ _ _ "[]"])
qed

end
