(* ===== verification/Diagnostics.thy ===== *)
theory Diagnostics
  imports Text_Protocol Gdb_Stub Vcpu_Dispatch
begin

text \<open>
  What the program tells the guest about the processor and the operator about the run: the CPUID table
  (\<open>src/cpuid.rs\<close>), the trace file (\<open>src/trace.rs\<close>) and the crash dump (\<open>src/crashdump.rs\<close>).

  Text is built as the source's format strings build it. \<open>{:?}\<close> of a string is the string in quotes: the names
  and categories passed are letters, digits and colons, which \<open>Debug\<close> does not escape.
\<close>

section \<open>CPUID\<close>

record cpuid_entry =
  leaf :: u32
  subleaf :: u32
  eax :: u32
  ebx :: u32
  ecx :: u32
  edx :: u32

definition ECX_MONITOR :: u32 where "ECX_MONITOR = push_bit 3 1"
definition EDX_HTT :: u32 where "EDX_HTT = push_bit 28 1"

definition curate_entry :: "u8 \<Rightarrow> u8 \<Rightarrow> cpuid_entry \<Rightarrow> cpuid_entry" where
  "curate_entry apic_id num_cpus e =
     (if leaf e = 1 then
        e\<lparr>ecx := ecx e AND NOT ECX_MONITOR, edx := edx e AND NOT EDX_HTT,
          ebx := ebx e AND NOT 0xffff0000 OR push_bit 24 (ucast apic_id) OR push_bit 16 (ucast num_cpus)\<rparr>
      else if leaf e = 0xb then e\<lparr>edx := 0\<rparr>
      else if leaf e = 0x80000008 then e\<lparr>ecx := ecx e AND NOT 0xf0ff\<rparr>
      else e)"

definition curate :: "u8 \<Rightarrow> u8 \<Rightarrow> cpuid_entry list \<Rightarrow> cpuid_entry list" where
  "curate apic_id num_cpus es = map (curate_entry apic_id num_cpus) es"

text \<open>What a guest reads from leaf 1: its initial APIC id and the number of logical processors.\<close>

definition initial_apic_id :: "cpuid_entry \<Rightarrow> u32" where
  "initial_apic_id e = drop_bit 24 (ebx e)"

definition logical_processors :: "cpuid_entry \<Rightarrow> u32" where
  "logical_processors e = take_bit 8 (drop_bit 16 (ebx e))"

lemma mask_high: "bit (0xffff0000 :: u32) n \<longleftrightarrow> 16 \<le> n \<and> n < 32"
proof -
  have "(0xffff0000 :: u32) = push_bit 16 (mask 16)" by (simp add: mask_eq_exp_minus_1 push_bit_eq_mult)
  moreover have "bit (push_bit 16 (mask 16) :: u32) n \<longleftrightarrow> 16 \<le> n \<and> n < 32"
    unfolding bit_push_bit_iff bit_mask_iff by auto
  ultimately show ?thesis by simp
qed

lemma mask_low: "bit (0xffff :: int) n \<longleftrightarrow> n < 16"
proof -
  have "(0xffff :: int) = mask 16" by (simp add: mask_eq_exp_minus_1)
  moreover have "bit (mask 16 :: int) n \<longleftrightarrow> n < 16" unfolding bit_mask_iff by auto
  ultimately show ?thesis by simp
qed

lemma byte_bit: "bit (b :: u8) n \<Longrightarrow> n < 8"
  using bit_imp_le_length [of b n] by simp

lemma byte_bit_high: "8 \<le> n \<Longrightarrow> \<not> bit (b :: u8) n"
  using byte_bit leD by blast

text \<open>Every vCPU is told its own index as APIC id and the guest's processor count, MONITOR and HTT are hidden, the rest of leaf 1 is
  the host's, and curating twice changes nothing more.\<close>

lemma curate_leaf1:
  assumes "leaf e = 1"
  shows "initial_apic_id (curate_entry a n e) = ucast a" and "logical_processors (curate_entry a n e) = ucast n"
    and "take_bit 16 (ebx (curate_entry a n e)) = take_bit 16 (ebx e)" and "eax (curate_entry a n e) = eax e"
    and "\<not> bit (ecx (curate_entry a n e)) 3" and "\<not> bit (edx (curate_entry a n e)) 28"
proof -
  have e: "ebx (curate_entry a n e) = ebx e AND NOT 0xffff0000 OR push_bit 24 (ucast a) OR push_bit 16 (ucast n)"
    using assms by (simp add: curate_entry_def)
  show "initial_apic_id (curate_entry a n e) = ucast a"
    unfolding initial_apic_id_def e by (rule bit_word_eqI) (auto simp: bit_simps mask_low byte_bit_high dest: byte_bit)
  show "logical_processors (curate_entry a n e) = ucast n"
    unfolding logical_processors_def e by (rule bit_word_eqI) (auto simp: bit_simps mask_low byte_bit_high)
  show "take_bit 16 (ebx (curate_entry a n e)) = take_bit 16 (ebx e)"
    unfolding e by (rule bit_word_eqI) (auto simp: bit_simps mask_low mask_high)
  show "eax (curate_entry a n e) = eax e" using assms by (simp add: curate_entry_def)
  show "\<not> bit (ecx (curate_entry a n e)) 3" "\<not> bit (edx (curate_entry a n e)) 28"
    using assms by (simp_all add: curate_entry_def ECX_MONITOR_def EDX_HTT_def bit_simps)
qed

lemma curate_idempotent: "curate a n (curate a n es) = curate a n es"
proof -
  have "curate_entry a n (curate_entry a n e) = curate_entry a n e" for e
    by (cases e) (auto simp: curate_entry_def intro!: bit_word_eqI simp: bit_simps mask_high)
  then show ?thesis by (simp add: curate_def)
qed

section \<open>Traces\<close>

definition QUOTE :: char where "QUOTE = CHR 0x22"
definition BACKSLASH :: char where "BACKSLASH = CHR 0x5c"

definition json_char :: "char \<Rightarrow> string" where
  "json_char c =
     (if c = QUOTE then [BACKSLASH, QUOTE]
      else if c = BACKSLASH then [BACKSLASH, BACKSLASH]
      else if c = CHR 0x0a then [BACKSLASH, CHR ''n'']
      else if c = CHR 0x0d then [BACKSLASH, CHR ''r'']
      else if c = CHR 0x09 then [BACKSLASH, CHR ''t'']
      else if (of_char c :: nat) < 0x20 then BACKSLASH # ''u00'' @ to_hex [of_char c]
      else [c])"

definition json_string :: "string \<Rightarrow> string" where
  "json_string s = QUOTE # concat (map json_char s) @ [QUOTE]"

definition quoted :: "string \<Rightarrow> string" where
  "quoted s = QUOTE # s @ [QUOTE]"

record tracer =
  tw_file :: string
  tw_wrote_any :: bool

definition trace_create :: tracer where
  "trace_create = \<lparr>tw_file = [CHR ''['', CHR 0x0a], tw_wrote_any = False\<rparr>"

definition trace_write_event :: "string \<Rightarrow> tracer \<Rightarrow> tracer" where
  "trace_write_event json t =
     t\<lparr>tw_file := tw_file t @ (if tw_wrote_any t then [CHR '','', CHR 0x0a] else []) @ json, tw_wrote_any := True\<rparr>"

definition trace_close :: "tracer \<Rightarrow> string" where
  "trace_close t = tw_file t @ [CHR 0x0a, CHR '']'', CHR 0x0a]"

definition key :: "string \<Rightarrow> string \<Rightarrow> string" where
  "key k v = quoted k @ CHR '':'' # v"

fun object :: "(string \<times> string) list \<Rightarrow> string" where
  "object [] = []"
| "object [(k, v)] = key k v"
| "object ((k, v) # fs) = key k v @ CHR '','' # object fs"

definition braces :: "string \<Rightarrow> string" where
  "braces s = CHR ''{'' # s @ ''}''"

definition duration_event :: "u8 \<Rightarrow> string \<Rightarrow> string \<Rightarrow> u64 \<Rightarrow> u64 \<Rightarrow> string \<Rightarrow> tracer \<Rightarrow> tracer" where
  "duration_event cpu_id name cat start_us dur_us args =
     trace_write_event (braces (object
       [(''name'', quoted name), (''cat'', quoted cat), (''ph'', quoted ''X''), (''ts'', show_dec start_us), (''dur'', show_dec dur_us),
        (''pid'', ''0''), (''tid'', show_dec cpu_id), (''args'', args)]))"

definition instant_event :: "u8 \<Rightarrow> string \<Rightarrow> string \<Rightarrow> u64 \<Rightarrow> string \<Rightarrow> tracer \<Rightarrow> tracer" where
  "instant_event cpu_id name cat ts args =
     trace_write_event (braces (object
       [(''name'', quoted name), (''cat'', quoted cat), (''ph'', quoted ''i''), (''ts'', show_dec ts), (''pid'', ''0''),
        (''tid'', show_dec cpu_id), (''s'', quoted ''g''), (''args'', args)]))"

definition exit_trace_name :: "exit_record \<Rightarrow> string" where
  "exit_trace_name r =
     (case rec_kind r of
        K_IoOut \<Rightarrow> ''IoOut:'' @ show_hex (rec_addr r) | K_IoIn \<Rightarrow> ''IoIn:'' @ show_hex (rec_addr r)
      | K_MmioRead \<Rightarrow> ''MmioRead:'' @ show_hex (rec_addr r) | K_MmioWrite \<Rightarrow> ''MmioWrite:'' @ show_hex (rec_addr r)
      | K_Hlt \<Rightarrow> ''Hlt'' | K_Other \<Rightarrow> ''Other'')"

text \<open>What \<open>trace_exit\<close> writes for an exit whose dispatch began and ended at the given times.\<close>

definition trace_exit :: "u8 \<Rightarrow> exit_record \<Rightarrow> u64 \<Rightarrow> u64 \<Rightarrow> tracer \<Rightarrow> tracer" where
  "trace_exit cpu_id r start now =
     duration_event cpu_id (exit_trace_name r) ''vmexit'' start (if now \<le> start then 0 else now - start)
       (braces (object [(''addr'', json_string (show_hex (rec_addr r)))]))"

text \<open>A closed trace is the array of its events, each once, in order, separated by commas.\<close>

fun separated_by :: "string \<Rightarrow> string list \<Rightarrow> string" where
  "separated_by sep [] = []"
| "separated_by sep [x] = x"
| "separated_by sep (x # xs) = x @ sep @ separated_by sep xs"

lemma separated_by_snoc: "xs \<noteq> [] \<Longrightarrow> separated_by sep (xs @ [x]) = separated_by sep xs @ sep @ x"
  by (induction sep xs rule: separated_by.induct) simp_all

lemma trace_is_array:
  "trace_close (fold trace_write_event es trace_create) = [CHR ''['', CHR 0x0a] @ separated_by [CHR '','', CHR 0x0a] es @ [CHR 0x0a, CHR '']'', CHR 0x0a]"
proof -
  have "fold trace_write_event es trace_create =
      \<lparr>tw_file = [CHR ''['', CHR 0x0a] @ separated_by [CHR '','', CHR 0x0a] es, tw_wrote_any = (es \<noteq> [])\<rparr>"
    by (induction es rule: rev_induct) (simp_all add: trace_create_def trace_write_event_def separated_by_snoc)
  then show ?thesis by (simp add: trace_close_def)
qed

text \<open>Reading a JSON string body back, up to the closing quote.\<close>

fun json_body :: "string \<Rightarrow> (string \<times> string) option" where
  "json_body [] = None"
| "json_body (c # s) =
     (if c = QUOTE then Some ([], s)
      else if c = BACKSLASH then
        (case s of
           [] \<Rightarrow> None
         | d # s' \<Rightarrow>
             if d = CHR ''n'' then map_option (map_prod ((#) (CHR 0x0a)) id) (json_body s')
             else if d = CHR ''r'' then map_option (map_prod ((#) (CHR 0x0d)) id) (json_body s')
             else if d = CHR ''t'' then map_option (map_prod ((#) (CHR 0x09)) id) (json_body s')
             else if d = CHR ''u'' then
               (case s' of
                  z1 # z2 # h # l # s'' \<Rightarrow>
                    (case from_hex [h, l] of
                       Some [b] \<Rightarrow> if z1 = CHR ''0'' \<and> z2 = CHR ''0'' then map_option (map_prod ((#) (char_of (unat b))) id) (json_body s'') else None
                     | _ \<Rightarrow> None)
                | _ \<Rightarrow> None)
             else map_option (map_prod ((#) d) id) (json_body s'))
      else map_option (map_prod ((#) c) id) (json_body s))"

lemma json_body_hex:
  "json_body (BACKSLASH # ''u00'' @ to_hex [b] @ s) = map_option (map_prod ((#) (char_of (unat b))) id) (json_body s)"
proof -
  obtain h l where hl: "to_hex [b] = [h, l]" by simp
  moreover have "from_hex (to_hex [b]) = Some [b]" by (rule from_hex_to_hex)
  ultimately have "from_hex [h, l] = Some [b]" by (simp only:)
  then show ?thesis unfolding hl by (simp add: BACKSLASH_def QUOTE_def del: from_hex.simps)
qed

lemma json_body_char: "json_body (json_char c @ s) = map_option (map_prod ((#) c) id) (json_body s)"
proof (cases "c \<in> {QUOTE, BACKSLASH, CHR 0x0a, CHR 0x0d, CHR 0x09} \<or> \<not> (of_char c :: nat) < 0x20")
  case True
  then show ?thesis by (auto simp: json_char_def QUOTE_def BACKSLASH_def)
next
  case False
  have "chars_of (ascii [c]) = [c]" by simp
  then have c: "char_of (unat (of_char c :: u8)) = c" by (simp add: chars_of_def ascii_def)
  from False have "json_char c = BACKSLASH # ''u00'' @ to_hex [of_char c]" unfolding json_char_def by (simp del: to_hex.simps)
  then show ?thesis using json_body_hex [of "of_char c" s] c by (simp only: append.simps append_assoc)
qed

lemma json_string_decodes: "json_body (tl (json_string s) @ rest) = Some (s, rest)"
proof -
  have "json_body (concat (map json_char s) @ QUOTE # rest) = Some (s, rest)"
    by (induction s) (simp_all add: json_body_char)
  then show ?thesis by (simp add: json_string_def)
qed

section \<open>Crash dumps\<close>

record special_regs =
  sr_cr0 :: u64
  sr_cr2 :: u64
  sr_cr3 :: u64
  sr_cr4 :: u64
  sr_efer :: u64
  sr_cs_selector :: u16
  sr_cs_long :: bool

definition kind_name :: "exit_kind \<Rightarrow> string" where
  "kind_name k =
     (case k of K_IoOut \<Rightarrow> ''IoOut'' | K_IoIn \<Rightarrow> ''IoIn'' | K_MmioRead \<Rightarrow> ''MmioRead'' | K_MmioWrite \<Rightarrow> ''MmioWrite'' | K_Hlt \<Rightarrow> ''Hlt''
      | K_Other \<Rightarrow> ''Other'')"

definition dump_exit :: "exit_record \<Rightarrow> string" where
  "dump_exit r = braces (object [(''kind'', quoted (kind_name (rec_kind r))), (''addr'', quoted (show_hex (rec_addr r)))])"

definition hex_field :: "string \<Rightarrow> u64 \<Rightarrow> string \<times> string" where
  "hex_field k v = (k, quoted (show_hex v))"

definition build_dump_json :: "u8 \<Rightarrow> string \<Rightarrow> gp_regs \<Rightarrow> special_regs \<Rightarrow> exit_record list \<Rightarrow> string" where
  "build_dump_json cpu_id reason r s history =
     (let nl = [CHR 0x0a] in
      ''{'' @ nl @ key ''reason'' (quoted reason) @ '','' @ nl @ key ''cpu_id'' (show_dec cpu_id) @ '','' @ nl @
      key ''regs'' (braces (object
        [hex_field ''rip'' (g_rip r), hex_field ''rsp'' (g_rsp r), hex_field ''rbp'' (g_rbp r), hex_field ''rflags'' (g_rflags r),
         hex_field ''rax'' (g_rax r), hex_field ''rbx'' (g_rbx r), hex_field ''rcx'' (g_rcx r), hex_field ''rdx'' (g_rdx r),
         hex_field ''rsi'' (g_rsi r), hex_field ''rdi'' (g_rdi r), hex_field ''r8'' (g_r8 r), hex_field ''r9'' (g_r9 r),
         hex_field ''r10'' (g_r10 r), hex_field ''r11'' (g_r11 r), hex_field ''r12'' (g_r12 r), hex_field ''r13'' (g_r13 r),
         hex_field ''r14'' (g_r14 r), hex_field ''r15'' (g_r15 r)])) @ '','' @ nl @
      key ''sregs'' (braces (object
        [hex_field ''cr0'' (sr_cr0 s), hex_field ''cr2'' (sr_cr2 s), hex_field ''cr3'' (sr_cr3 s), hex_field ''cr4'' (sr_cr4 s),
         hex_field ''efer'' (sr_efer s), hex_field ''cs_selector'' (ucast (sr_cs_selector s)),
         (''cs_long_mode'', if sr_cs_long s then ''true'' else ''false'')])) @ '','' @ nl @
      key ''recent_exits'' (''['' @ separated_by '','' (map dump_exit history) @ '']'') @ nl @ ''}'' @ nl)"

end
