(* ===== verification/Vcpu_Loop.thy ===== *)
theory Vcpu_Loop
  imports Control_Socket Diagnostics
begin

text \<open>
  One vCPU thread from its first entry into the guest to the end of the run (\<open>run\<close> and \<open>Runner\<close> of \<open>src/vcpu.rs\<close>): the exit
  slot, the wait for a start-up IPI, the debugger's gate, the dispatch of the exit, the crash report and the host's polling.
  \<open>KVM_RUN\<close> is the parameter \<open>ve_run\<close>: it changes the vCPU and whatever else the guest and the other threads change
  meanwhile, and says why it came back. \<open>ve_complete\<close> hands the bytes of a read exit to the vCPU. The run is one without a
  trace file, so that \<open>trace_exit\<close> only calls the dispatch.

  An iteration, and with it the loop, is \<open>None\<close> when a call it makes never returns; the loop is \<open>None\<close> also when it runs
  forever.
\<close>

section \<open>The thread\<close>

datatype kvm_outcome = Exited vcpu_exit | Debug_exit u64 | Interrupted | Run_failed string

record ('v, 'k, 's, 'e) vcpu_thread =
  vt_ctl :: "('v, 'k, 's, 'e) ctl_state"
  vt_server :: "control_server option"
  vt_gdb :: "'v gdb_state option"
  vt_replayer :: "replayer option"
  vt_history :: "exit_record list"
  vt_dumps :: "string list"

record ('v, 'k, 's, 'e, 'x) vcpu_env =
  ve_ctl :: "('v, 'k, 's, 'e, 'x) ctl_env"
  ve_msg :: "'x ctl_error \<Rightarrow> string"
  ve_kvm :: "'k kvm_ops"
  ve_cpu :: u8
  ve_bsp :: bool
  ve_run :: "('v, 'k, 's, 'e) ctl_state \<Rightarrow> kvm_outcome \<times> ('v, 'k, 's, 'e) ctl_state"
  ve_complete :: "bytes \<Rightarrow> 'v \<Rightarrow> 'v"
  ve_runnable :: "'v \<Rightarrow> string + bool"
  ve_sregs :: "'v \<Rightarrow> string + special_regs"
  ve_branches :: "('v, 'k, 's, 'e) ctl_state \<Rightarrow> u64 \<times> u64"
  ve_io_text :: "io_error \<Rightarrow> string"
  ve_exit_text :: "nat \<Rightarrow> string"
  ve_debug_text :: "u64 \<Rightarrow> string"

abbreviation vt_vm :: "('v, 'k, 's, 'e) vcpu_thread \<Rightarrow> ('k, ('s, 'e) machine_world) vm" where
  "vt_vm t \<equiv> re_vm (ct_machine (vt_ctl t))"

abbreviation vt_exit :: "('v, 'k, 's, 'e) vcpu_thread \<Rightarrow> build_msg run_result option" where
  "vt_exit t \<equiv> exit_take (w_exit (world (vt_vm t)))"

definition put_vm :: "('k, ('s, 'e) machine_world) vm \<Rightarrow> ('v, 'k, 's, 'e) vcpu_thread \<Rightarrow> ('v, 'k, 's, 'e) vcpu_thread" where
  "put_vm v t = t\<lparr>vt_ctl := (vt_ctl t)\<lparr>ct_machine := (ct_machine (vt_ctl t))\<lparr>re_vm := v\<rparr>\<rparr>\<rparr>"

definition put_vcpu :: "'v \<Rightarrow> ('v, 'k, 's, 'e) vcpu_thread \<Rightarrow> ('v, 'k, 's, 'e) vcpu_thread" where
  "put_vcpu v t = t\<lparr>vt_ctl := (vt_ctl t)\<lparr>ct_vcpu := v\<rparr>\<rparr>"

text \<open>The stub works on the vCPU and the guest memory it is handed.\<close>

definition lend_gdb :: "('v, 'k, 's, 'e) vcpu_thread \<Rightarrow> 'v gdb_state \<Rightarrow> 'v gdb_state" where
  "lend_gdb t g = g\<lparr>gs_vcpu := ct_vcpu (vt_ctl t), gs_mem := w_mem (world (vt_vm t))\<rparr>"

definition return_gdb :: "'v gdb_state \<Rightarrow> ('v, 'k, 's, 'e) vcpu_thread \<Rightarrow> ('v, 'k, 's, 'e) vcpu_thread" where
  "return_gdb g t =
     (let v = vt_vm t
      in put_vcpu (gs_vcpu g) (put_vm (v\<lparr>world := (world v)\<lparr>w_mem := gs_mem g\<rparr>\<rparr>) t)\<lparr>vt_gdb := Some g\<rparr>)"

section \<open>Polling the host\<close>

definition poll_replayed :: "('v, 'k, 's, 'e, 'x) vcpu_env \<Rightarrow> ('v, 'k, 's, 'e) vcpu_thread \<Rightarrow> ('v, 'k, 's, 'e) vcpu_thread" where
  "poll_replayed env t =
     (case vt_replayer t of
        None \<Rightarrow> t
      | Some r \<Rightarrow> (case poll_replay r (ve_branches env (vt_ctl t)) (vt_vm t) of (r, v) \<Rightarrow> put_vm v t\<lparr>vt_replayer := Some r\<rparr>))"

definition poll_control :: "('v, 'k, 's, 'e, 'x) vcpu_env \<Rightarrow> ('v, 'k, 's, 'e) vcpu_thread \<Rightarrow> ('v, 'k, 's, 'e) vcpu_thread option" where
  "poll_control env t =
     (case vt_server t of
        None \<Rightarrow> Some t
      | Some sv \<Rightarrow>
          map_option (\<lambda>(sv, ctl). t\<lparr>vt_server := Some sv, vt_ctl := ctl\<rparr>) (control_poll (ve_ctl env) (ve_msg env) sv (vt_ctl t)))"

definition poll_host ::
  "('v, 'k, 's, 'e, 'x) vcpu_env \<Rightarrow> bool \<Rightarrow> bool \<Rightarrow> ('v, 'k, 's, 'e) vcpu_thread \<Rightarrow> ('v, 'k, 's, 'e) vcpu_thread option" where
  "poll_host env has_control has_plugin_devices t =
     map_option (\<lambda>t. if has_plugin_devices then put_vm (poll_plugins (machine_table (ce_host (ve_ctl env))) (vt_vm t)) t else t)
       (if has_control then poll_control env (poll_replayed env t) else Some (poll_replayed env t))"

section \<open>One iteration\<close>

type_synonym ('v, 'k, 's, 'e) iteration = "(build_msg run_result option \<times> ('v, 'k, 's, 'e) vcpu_thread) option"

definition wait_for_sipi :: "('v, 'k, 's, 'e, 'x) vcpu_env \<Rightarrow> 'v \<Rightarrow> build_msg hyperbug_error + bool" where
  "wait_for_sipi env v = map_sum (\<lambda>e. Kvm (Kvm_ioctl e)) id (ve_runnable env v)"

definition report_triple_fault ::
  "('v, 'k, 's, 'e, 'x) vcpu_env \<Rightarrow> ('v, 'k, 's, 'e) vcpu_thread \<Rightarrow> build_msg hyperbug_error + ('v, 'k, 's, 'e) vcpu_thread" where
  "report_triple_fault env t =
     (case get_regs (ce_regs (ve_ctl env)) (ct_vcpu (vt_ctl t)) of
        Inl e \<Rightarrow> Inl (Kvm (Kvm_ioctl e))
      | Inr r \<Rightarrow>
          (case ve_sregs env (ct_vcpu (vt_ctl t)) of
             Inl e \<Rightarrow> Inl (Kvm (Kvm_ioctl e))
           | Inr s \<Rightarrow> Inr (t\<lparr>vt_dumps := vt_dumps t @ [build_dump_json (ve_cpu env) ''TripleFault'' r s (vt_history t)]\<rparr>)))"

text \<open>What follows an exit that was handled: \<open>polls_host\<close> of \<open>run\<close>.\<close>

definition after_exit ::
  "('v, 'k, 's, 'e, 'x) vcpu_env \<Rightarrow> bool \<Rightarrow> bool \<Rightarrow> ('v, 'k, 's, 'e) vcpu_thread \<Rightarrow> ('v, 'k, 's, 'e) iteration" where
  "after_exit env has_control has_plugins t =
     (if ve_bsp env \<and> (has_control \<or> has_plugins \<or> vt_replayer t \<noteq> None)
      then map_option (Pair None) (poll_host env has_control has_plugins t)
      else Some (None, t))"

definition enter_guest ::
  "('v, 'k, 's, 'e, 'x) vcpu_env \<Rightarrow> bool \<Rightarrow> bool \<Rightarrow> ('v, 'k, 's, 'e) vcpu_thread \<Rightarrow> ('v, 'k, 's, 'e) iteration" where
  "enter_guest env hc hp t =
     (case ve_run env (vt_ctl t) of (outcome, ctl) \<Rightarrow>
        let t = t\<lparr>vt_ctl := ctl\<rparr> in
        case outcome of
          Interrupted \<Rightarrow> after_exit env hc hp t
        | Run_failed e \<Rightarrow> Some (Some (Inl (Kvm (Kvm_ioctl e))), t)
        | Debug_exit pc \<Rightarrow>
            let t = t\<lparr>vt_history := history_push (vt_history t) \<lparr>rec_kind = K_Other, rec_addr = 0\<rparr>\<rparr> in
            (case vt_gdb t of
               None \<Rightarrow> Some (Some (Inl (Kvm (Unhandled_vm_exit (ve_cpu env) (ve_debug_text env pc)))), t)
             | Some g \<Rightarrow> after_exit env hc hp (return_gdb (gdb_after_debug_exit (ce_regs (ve_ctl env)) pc (lend_gdb t g)) t))
        | Exited exit \<Rightarrow>
            let t = t\<lparr>vt_history := history_push (vt_history t) (classify_exit exit)\<rparr> in
            (case handle_exit (ve_kvm env) (machine_table (ce_host (ve_ctl env))) exit (vt_vm t) of
               None \<Rightarrow> None
             | Some (Continue bs, v) \<Rightarrow>
                 after_exit env hc hp (put_vcpu (ve_complete env bs (ct_vcpu (vt_ctl t))) (put_vm v t))
             | Some (Unhandled_exit n, v) \<Rightarrow>
                 Some (Some (Inl (Kvm (Unhandled_vm_exit (ve_cpu env) (ve_exit_text env n)))), put_vm v t)
             | Some (Triple_fault, v) \<Rightarrow>
                 (case report_triple_fault env (put_vm v t) of
                    Inl e \<Rightarrow> Some (Some (Inl e), put_vm v t)
                  | Inr t \<Rightarrow> Some (Some (Inr TripleFault), t))))"

definition gdb_gate ::
  "('v, 'k, 's, 'e, 'x) vcpu_env \<Rightarrow> bool \<Rightarrow> bool \<Rightarrow> ('v, 'k, 's, 'e) vcpu_thread \<Rightarrow> ('v, 'k, 's, 'e) iteration" where
  "gdb_gate env hc hp t =
     (case vt_gdb t of
        None \<Rightarrow> enter_guest env hc hp t
      | Some g \<Rightarrow>
          (case gdb_before_run (ce_regs (ve_ctl env)) (lend_gdb t g) of
             (Quit, _) \<Rightarrow> Some (Some (Inr UserQuit), t)
           | (Gdb_failed e, g) \<Rightarrow> Some (Some (Inl (Io (Gdb_failure (ve_io_text env e)))), return_gdb g t)
           | (Served, g) \<Rightarrow> Some (None, return_gdb g t)
           | (Enter, _) \<Rightarrow> enter_guest env hc hp t))"

definition vcpu_iteration ::
  "('v, 'k, 's, 'e, 'x) vcpu_env \<Rightarrow> bool \<Rightarrow> bool \<Rightarrow> ('v, 'k, 's, 'e) vcpu_thread \<Rightarrow> ('v, 'k, 's, 'e) iteration" where
  "vcpu_iteration env hc hp t =
     (case vt_exit t of
        Some r \<Rightarrow> Some (Some r, t)
      | None \<Rightarrow>
          (case if ve_bsp env then Inr True else wait_for_sipi env (ct_vcpu (vt_ctl t)) of
             Inl e \<Rightarrow> Some (Some (Inl e), t)
           | Inr False \<Rightarrow> Some (None, t)
           | Inr True \<Rightarrow> gdb_gate env hc hp t))"

section \<open>The loop\<close>

partial_function (option) vcpu_loop ::
  "('v, 'k, 's, 'e, 'x) vcpu_env \<Rightarrow> bool \<Rightarrow> bool \<Rightarrow> ('v, 'k, 's, 'e) vcpu_thread \<Rightarrow> (build_msg run_result \<times> ('v, 'k, 's, 'e) vcpu_thread) option" where
  "vcpu_loop env hc hp t =
     Option.bind (vcpu_iteration env hc hp t) (\<lambda>(res, t).
       case res of Some r \<Rightarrow> Some (r, t) | None \<Rightarrow> vcpu_loop env hc hp t)"

definition runner_run ::
  "('v, 'k, 's, 'e, 'x) vcpu_env \<Rightarrow> ('v, 'k, 's, 'e) vcpu_thread \<Rightarrow> (build_msg run_result \<times> ('v, 'k, 's, 'e) vcpu_thread) option" where
  "runner_run env t = vcpu_loop env (vt_server t \<noteq> None) (plugin_pci_devices (shared (vt_vm t)) \<noteq> []) (t\<lparr>vt_history := []\<rparr>)"

definition vcpu_run ::
  "('v, 'k, 's, 'e, 'x) vcpu_env \<Rightarrow> ('v, 'k, 's, 'e) vcpu_thread \<Rightarrow> (build_msg run_result \<times> ('v, 'k, 's, 'e) vcpu_thread) option" where
  "vcpu_run env t =
     map_option (\<lambda>(r, t). let v = vt_vm t; w = world v in (r, put_vm (v\<lparr>world := w\<lparr>w_exit := request_exit (w_exit w) r\<rparr>\<rparr>) t))
       (runner_run env t)"

section \<open>A recorded exit stays recorded\<close>

text \<open>The exit slot is unchanged, or one request was made.\<close>

definition exit_kept :: "('s, 'e) machine_world \<Rightarrow> ('s, 'e) machine_world \<Rightarrow> bool" where
  "exit_kept w w' \<longleftrightarrow> w_exit w' = w_exit w \<or> (\<exists>r. w_exit w' = request_exit (w_exit w) r)"

text \<open>The flag of the slot agrees with its result.\<close>

definition exit_slot_ok :: "'m exit_signal \<Rightarrow> bool" where
  "exit_slot_ok s \<longleftrightarrow> requested s = (exit_result s \<noteq> None)"

lemma request_twice [simp]: "request_exit (request_exit s r) r' = request_exit s r"
  by (simp add: request_exit_def)

lemma kept_refl [simp]: "exit_kept w w"
  by (simp add: exit_kept_def)

lemma kept_trans: "exit_kept u v \<Longrightarrow> exit_kept v w \<Longrightarrow> exit_kept u w"
  by (auto simp: exit_kept_def)

lemma kept_same: "w_exit w' = w_exit w \<Longrightarrow> exit_kept w w'"
  by (simp add: exit_kept_def)

lemma kept_request: "exit_kept w (w\<lparr>w_exit := request_exit (w_exit w) r\<rparr>)"
  by (auto simp: exit_kept_def)

lemma kept_take: "exit_kept w w' \<Longrightarrow> exit_take (w_exit w) = Some r \<Longrightarrow> exit_take (w_exit w') = Some r"
  by (auto simp: exit_kept_def exit_take_def request_exit_def is_requested_def split: if_splits)

lemma kept_ok: "exit_kept w w' \<Longrightarrow> exit_slot_ok (w_exit w) \<Longrightarrow> exit_slot_ok (w_exit w')"
  by (auto simp: exit_kept_def exit_slot_ok_def request_exit_def)

lemma take_request: "exit_slot_ok s \<Longrightarrow> exit_take (request_exit s r) \<noteq> None"
  by (auto simp: exit_take_def request_exit_def is_requested_def exit_slot_ok_def)

lemma put_device_exit [simp]: "w_exit (put_device i d w) = w_exit w"
  by (simp add: put_device_def)

lemma with_plugin_exit [simp]: "w_exit (snd (with_plugin i f d w)) = w_exit w"
  by (simp add: with_plugin_def split: prod.split)

lemma with_plugin_exit_pair [simp]: "with_plugin i f d w = (r, w') \<Longrightarrow> w_exit w' = w_exit w"
  using with_plugin_exit [of i f d w] by simp

lemma store_write_exit: "store_write i mk r w = Some (irq, w') \<Longrightarrow> w_exit w' = w_exit w"
  by (auto simp: store_write_def)

subsection \<open>The reactor\<close>

abbreviation re_world :: "('k, 's, 'e) reactor \<Rightarrow> ('s, 'e) machine_world" where
  "re_world r \<equiv> world (re_vm r)"

lemma irq_pulse_world [simp]: "world (irq_pulse g v) = world v"
  by (simp add: irq_pulse_def)

lemma re_pulse_world [simp]: "re_world (re_pulse g r) = re_world r"
  by (simp add: re_pulse_def)

lemma re_record_world [simp]: "re_world (re_record k bs r) = re_world r"
  by (simp add: re_record_def)

lemma put_world_world [simp]: "re_world (put_world w r) = w"
  by (simp add: put_world_def)

lemma push_rx_world [simp]: "re_world (push_rx bs r) = re_world r"
  by (simp add: push_rx_def Let_def split: prod.split)

lemma stdin_kept: "exit_kept (re_world r) (re_world (snd (snd (stdin_loop ins r))))"
proof (induction ins r rule: stdin_loop.induct)
  case (3 buf ins r)
  have "exit_kept (re_world r) (re_world (quit_request (push_rx bs r)))" for bs
    by (simp add: quit_request_def Let_def kept_request)
  with 3 show ?case by (simp add: Let_def)
qed simp_all

lemma finish_exit [simp]: "w_exit (re_world (finish_completion i mk res r)) = w_exit (re_world r)"
  by (simp add: finish_completion_def Let_def split: prod.split option.split)

lemma tap_exit: "w_exit (re_world (snd (tap_loop i fs r))) = w_exit (re_world r)"
proof (induction i fs r rule: tap_loop.induct)
  case (2 i f fs r)
  then show ?case by (simp add: Let_def split: machine_device.split prod.split option.split)
qed simp

lemma notify_exit: "handle_virtio_notify env t r = Some r' \<Longrightarrow> w_exit (re_world r') = w_exit (re_world r)"
  by (auto simp: handle_virtio_notify_def machine_handle_ioevent_def Let_def store_write_exit
      split: option.splits machine_device.splits if_splits)

lemma event_kept:
  assumes "reactor_event env c token r = Some r'" shows "exit_kept (re_world r) (re_world r')"
proof (cases "dispatch c token")
  case None
  with assms show ?thesis by (simp add: reactor_event_def)
next
  case (Some a)
  have s: "exit_kept (re_world r) (re_world (snd (handle_stdin r)))"
    using stdin_kept [of r "re_stdin r"] by (simp add: handle_stdin_def case_prod_beta)
  have t: "w_exit (re_world (handle_tap i r)) = w_exit (re_world r)" for i
    using tap_exit [of i "re_tap r i" r] by (simp add: handle_tap_def case_prod_beta)
  show ?thesis
  proof (cases a)
    case Stdin
    with assms Some s show ?thesis by (auto simp: reactor_event_def split: prod.splits stdin_state.splits)
  next
    case (Tap i)
    with assms Some t show ?thesis by (auto simp: reactor_event_def intro!: kept_same)
  next
    case (Notify n)
    with assms Some show ?thesis by (auto simp: reactor_event_def intro!: kept_same dest: notify_exit)
  next
    case (Blk_done i)
    with assms Some show ?thesis
      by (auto simp: reactor_event_def handle_blk_completion_def Let_def intro!: kept_same split: machine_device.split)
  next
    case (Gpio_done i)
    with assms Some show ?thesis
      by (auto simp: reactor_event_def handle_gpio_completion_def Let_def intro!: kept_same split: machine_device.split)
  next
    case (Vsock_bridge i)
    with assms Some show ?thesis
      by (auto simp: reactor_event_def handle_vsock_bridge_def Let_def intro!: kept_same split: machine_device.split prod.split)
  qed
qed

lemma round_kept: "reactor_round env c ts r = Some r' \<Longrightarrow> exit_kept (re_world r) (re_world r')"
  by (induction ts arbitrary: r) (auto simp: bind_eq_Some_conv dest: event_kept intro: kept_trans)

subsection \<open>Control commands\<close>

text \<open>A command keeps a recorded exit, and the machine is sent away only together with the request to exit.\<close>

definition move_exits :: "('v, 'k, 's, 'e) ctl_state \<Rightarrow> ('v, 'k, 's, 'e) ctl_state \<Rightarrow> bool" where
  "move_exits st st' \<longleftrightarrow> exit_kept (ct_world st) (ct_world st') \<and>
     (exit_slot_ok (w_exit (ct_world st)) \<longrightarrow> ct_sent st' = ct_sent st \<or> exit_take (w_exit (ct_world st')) \<noteq> None)"

lemma move_exits_refl [simp]: "move_exits st st"
  by (simp add: move_exits_def)

lemma move_exits_trans: "move_exits st st' \<Longrightarrow> move_exits st' st'' \<Longrightarrow> move_exits st st''"
  unfolding move_exits_def by (auto intro: kept_trans kept_ok dest: kept_take)

lemma move_exits_take:
  "move_exits st st' \<Longrightarrow> exit_take (w_exit (ct_world st)) = Some r \<Longrightarrow> exit_take (w_exit (ct_world st')) = Some r"
  unfolding move_exits_def by (blast dest: kept_take)

lemma move_exits_world: "w_exit w = w_exit (ct_world st) \<Longrightarrow> move_exits st (set_world w st)"
  by (simp add: move_exits_def set_world_def kept_same)

lemma move_exits_quiet: "exit_kept (ct_world st) (ct_world st') \<Longrightarrow> ct_sent st' = ct_sent st \<Longrightarrow> move_exits st st'"
  by (simp add: move_exits_def)

lemma wait_kept: "wait_for_reactor env c wait r = Some (b, r') \<Longrightarrow> exit_kept (re_world r) (re_world r')"
  by (auto simp: wait_for_reactor_def dest: round_kept)

lemma handle_fork_kept:
  "handle_fork env c ops snaps a wait forked sock v r = Some (res, p, r') \<Longrightarrow> exit_kept (re_world r) (re_world r')"
  by (auto simp: handle_fork_def dest: wait_kept split: sum.splits option.splits bool.splits prod.splits)

lemma kept_requested: "exit_kept w w' \<Longrightarrow> exit_kept w (w'\<lparr>w_exit := request_exit (w_exit w') r\<rparr>)"
  by (rule kept_trans [OF _ kept_request])

lemma take_requested: "exit_kept w w' \<Longrightarrow> exit_slot_ok (w_exit w) \<Longrightarrow> \<exists>y. exit_take (request_exit (w_exit w') r) = Some y"
  using take_request kept_ok by blast

lemma handle_migrate_kept:
  assumes "handle_migrate env c net ops snaps a wait dest v r = Some (res, p, r')"
  shows "exit_kept (re_world r) (re_world r') \<and>
    (\<forall>f. res = Inr f \<longrightarrow> exit_slot_ok (w_exit (re_world r)) \<longrightarrow> exit_take (w_exit (re_world r')) \<noteq> None)"
  using assms
  by (auto simp: handle_migrate_def Let_def dest!: wait_kept intro: kept_requested take_requested
      split: sum.splits option.splits bool.splits prod.splits)

lemma reload_exit: "w_exit (snd (fst (reload_plugin env e n w))) = w_exit w"
proof (cases "reload_load env e (w_mem w) n")
  case (Pair r n')
  show ?thesis
  proof (cases r)
    case (Inl er)
    with Pair show ?thesis by (simp add: reload_plugin_def)
  next
    case (Inr fresh)
    with Pair show ?thesis by (simp add: reload_plugin_def Let_def split: machine_device.split)
  qed
qed

lemma fork_exits:
  assumes "cmd_fork env args st = Some (r, st')" shows "move_exits st st'"
proof (cases args)
  case (Cons sock rest)
  with assms obtain res p m where h: "handle_fork (ce_host env) (ce_config env) (ce_capture env) (ce_snapshots env) (ce_args env)
      (ce_wait env st) (ce_fork env st) sock (ct_vcpu st) (ct_machine st) = Some (res, p, m)"
    by (auto simp: cmd_fork_def)
  have "ct_machine st' = m \<and> ct_sent st' = ct_sent st"
    using assms h Cons by (auto simp: cmd_fork_def Let_def split: sum.splits prod.splits)
  with handle_fork_kept [OF h] show ?thesis by (simp add: move_exits_quiet)
qed (use assms in \<open>simp add: cmd_fork_def\<close>)

lemma migrate_exits:
  assumes "cmd_migrate env args st = Some (r, st')" shows "move_exits st st'"
proof (cases args)
  case (Cons dest rest)
  with assms obtain res p m where h: "handle_migrate (ce_host env) (ce_config env) (ce_net env) (ce_capture env) (ce_snapshots env)
      (ce_args env) (ce_wait env st) dest (ct_vcpu st) (ct_machine st) = Some (res, p, m)"
    by (auto simp: cmd_migrate_def)
  have "ct_machine st' = m \<and> (ct_sent st' = ct_sent st \<or> (\<exists>f. res = Inr f))"
    using assms h Cons by (auto simp: cmd_migrate_def Let_def split: sum.splits)
  with handle_migrate_kept [OF h] show ?thesis unfolding move_exits_def by blast
qed (use assms in \<open>simp add: cmd_migrate_def\<close>)

lemma reload_exits:
  assumes "cmd_reload_device env args st = Some (r, st')" shows "move_exits st st'"
proof -
  have "move_exits st (set_world (snd (fst (reload_plugin (ce_host env) e n (ct_world st)))) (st\<lparr>ct_next_id := m\<rparr>))" for e n m
    by (simp add: move_exits_def set_world_def kept_same reload_exit)
  then show ?thesis
    using assms by (auto simp: cmd_reload_device_def case_prod_beta split: list.splits sum.splits)
qed

lemma command_exits:
  assumes "handle_command env line st = Some (r, st')" shows "move_exits st st'"
proof -
  have "move_exits st st'" if "cmd_read_mem env args st = Some (r, st')" for args
    using that by (simp add: cmd_read_mem_def)
  moreover have "move_exits st st'" if "cmd_write_mem env args st = Some (r, st')" for args
    using that by (auto simp: cmd_write_mem_def intro!: move_exits_world split: list.splits option.splits prod.splits if_splits)
  moreover have "move_exits st st'" if "cmd_regs env args st = Some (r, st')" for args
    using that by (simp add: cmd_regs_def)
  moreover have "move_exits st st'" if "cmd_write_regs env args st = Some (r, st')" for args
    using that by (auto simp: cmd_write_regs_def intro!: move_exits_quiet split: sum.splits)
  moreover have "move_exits st st'" if "cmd_snapshot env args st = Some (r, st')" for args
    using that by (auto simp: cmd_snapshot_def Let_def intro!: move_exits_quiet split: list.splits sum.splits)
  moreover have "move_exits st st'" if "cmd_reset_device env args st = Some (r, st')" for args
    using that by (auto simp: cmd_reset_device_def intro!: move_exits_world split: list.splits sum.splits machine_device.splits)
  ultimately show ?thesis
    using assms fork_exits migrate_exits reload_exits unfolding handle_command_def by (auto split: list.splits if_splits)
qed

lemma serve_lines_exits: "serve_lines env msg c st = Some (b, c', st') \<Longrightarrow> move_exits st st'"
proof (induction env msg c st rule: serve_lines.induct)
  case (1 env msg c st)
  show ?case
  proof (cases "next_line c")
    case None
    with 1(2) show ?thesis by (simp add: serve_lines.simps)
  next
    case (Some p)
    then obtain line c1 where l: "next_line c = Some (line, c1)" by (cases p) simp
    with 1(2) obtain r st1 where h: "handle_command env line st = Some (r, st1)"
      by (subst (asm) serve_lines.simps) (auto split: option.splits)
    obtain alive c2 where snd: "client_send (reply_bytes msg r) c1 = (alive, c2)" by fastforce
    have "move_exits st1 st'"
    proof (cases alive)
      case True
      with 1(2) l h snd have "serve_lines env msg c2 st1 = Some (b, c', st')" by (subst (asm) serve_lines.simps) simp
      with True show ?thesis using 1(1) [OF l refl h refl snd [symmetric] True] by simp
    next
      case False
      with 1(2) l h snd show ?thesis by (subst (asm) serve_lines.simps) simp
    qed
    with command_exits [OF h] show ?thesis by (rule move_exits_trans)
  qed
qed

lemma serve_client_exits: "serve_client env msg c st = Some (b, c', st') \<Longrightarrow> move_exits st st'"
  by (auto simp: serve_client_def dest: serve_lines_exits split: prod.splits if_splits)

lemma poll_loop_exits: "poll_loop env msg i cs st = Some (cs', st') \<Longrightarrow> move_exits st st'"
proof (induction env msg i cs st rule: poll_loop.induct)
  case (1 env msg i cs st)
  show ?case
  proof (cases "length cs \<le> i")
    case True
    with 1(3) show ?thesis by (subst (asm) poll_loop.simps) simp
  next
    case False
    with 1(3) obtain b c st1 where s: "serve_client env msg (cs ! i) st = Some (b, c, st1)"
      by (subst (asm) poll_loop.simps) (auto split: option.splits)
    have "move_exits st1 st'"
    proof (cases b)
      case True
      with 1(3) s False have "poll_loop env msg (Suc i) (cs[i := c]) st1 = Some (cs', st')" by (subst (asm) poll_loop.simps) simp
      with True s show ?thesis using 1(1) [OF False] by simp
    next
      case no: False
      with 1(3) s False have "poll_loop env msg i (swap_remove i cs) st1 = Some (cs', st')" by (subst (asm) poll_loop.simps) simp
      with no s show ?thesis using 1(2) [OF False] by simp
    qed
    with serve_client_exits [OF s] show ?thesis by (rule move_exits_trans)
  qed
qed

lemma control_exits: "control_poll env msg sv st = Some (sv', st') \<Longrightarrow> move_exits st st'"
  by (auto simp: control_poll_def dest: poll_loop_exits split: prod.splits)

subsection \<open>The whole poll\<close>

lemma put_vm_vm [simp]: "vt_vm (put_vm v t) = v" "ct_sent (vt_ctl (put_vm v t)) = ct_sent (vt_ctl t)" "vt_server (put_vm v t) = vt_server t"
  by (simp_all add: put_vm_def)

lemma put_vcpu_vm [simp]: "vt_vm (put_vcpu c t) = vt_vm t" "ct_sent (vt_ctl (put_vcpu c t)) = ct_sent (vt_ctl t)"
  by (simp_all add: put_vcpu_def)

lemma move_exits_vm: "w_exit (world v) = w_exit (world (vt_vm t)) \<Longrightarrow> move_exits (vt_ctl t) (vt_ctl (put_vm v t))"
  by (simp add: move_exits_def kept_same)

lemma return_gdb_exits: "move_exits (vt_ctl t) (vt_ctl (return_gdb g t))"
  by (simp add: move_exits_def return_gdb_def Let_def kept_same)

lemma tick_devices_exit:
  "w_exit (snd (tick_devices (machine_table env) ds w)) = w_exit w"
proof (induction ds arbitrary: w)
  case (Cons d ds)
  have "w_exit (machine_tick i w) = w_exit w" "w_exit (snd (machine_take_pending_irq i w)) = w_exit w" for i and w :: "('a, 'b) machine_world"
    by (simp_all add: machine_tick_def machine_take_pending_irq_def split: machine_device.split)
  with Cons show ?case by (cases d) (simp add: machine_table_def case_prod_beta)
qed simp

lemma signal_world [simp]: "world (signal_pci_irq g v) = world v"
  by (simp add: signal_pci_irq_def split: option.split prod.split)

lemma signals_world [simp]: "world (fold signal_pci_irq gs v) = world v"
  by (induction gs arbitrary: v) simp_all

lemma poll_plugins_exit: "w_exit (world (poll_plugins (machine_table env) v)) = w_exit (world v)"
  using tick_devices_exit [of env "plugin_pci_devices (shared v)" "world v"] by (simp add: poll_plugins_def case_prod_beta)

lemma poll_replay_world [simp]: "world (snd (poll_replay r now v)) = world v"
  by (cases now) (simp add: poll_replay_def Let_def split: prod.split option.split)

lemma poll_replayed_exits: "move_exits (vt_ctl t) (vt_ctl (poll_replayed env t))"
  by (simp add: poll_replayed_def case_prod_beta move_exits_def split: option.split)

lemma poll_control_exits: "poll_control env t = Some t' \<Longrightarrow> move_exits (vt_ctl t) (vt_ctl t')"
  by (auto simp: poll_control_def dest: control_exits split: option.splits)

lemma poll_host_exits:
  assumes "poll_host env hc hp t = Some t'" shows "move_exits (vt_ctl t) (vt_ctl t')"
proof -
  from assms obtain t1 where t1: "(if hc then poll_control env (poll_replayed env t) else Some (poll_replayed env t)) = Some t1"
    and t': "t' = (if hp then put_vm (poll_plugins (machine_table (ce_host (ve_ctl env))) (vt_vm t1)) t1 else t1)"
    by (auto simp: poll_host_def)
  have "move_exits (vt_ctl (poll_replayed env t)) (vt_ctl t1)" using t1 by (auto dest: poll_control_exits split: if_splits)
  moreover have "move_exits (vt_ctl t1) (vt_ctl t')" unfolding t' by (simp add: move_exits_vm poll_plugins_exit)
  ultimately show ?thesis using poll_replayed_exits move_exits_trans by blast
qed

lemma after_exit_exits: "after_exit env hc hp t = Some (r, t') \<Longrightarrow> r = None \<and> move_exits (vt_ctl t) (vt_ctl t')"
  by (auto simp: after_exit_def dest: poll_host_exits split: if_splits)

lemma after_exit_returns: "poll_host env hc hp t \<noteq> None \<Longrightarrow> \<exists>t'. after_exit env hc hp t = Some (None, t')"
  by (auto simp: after_exit_def)

subsection \<open>Dispatching an exit\<close>

lemma machine_read_exit: "w_exit (snd (machine_read env i off n w)) = w_exit w"
  by (simp add: machine_read_def split: machine_device.split prod.split)

lemma machine_write_kept:
  assumes "machine_write env i off data w = Some (irq, w')" shows "exit_kept w w'"
proof -
  have "exit_kept w (w\<lparr>w_exit := snd (sleep_control_write (w_exit w) off data)\<rparr>)"
    "exit_kept w (w\<lparr>w_exit := snd (reset_control_write (w_exit w) off data)\<rparr>)"
    by (auto simp: sleep_control_write_def reset_control_write_def exit_kept_def split: list.split)
  with assms show ?thesis
    by (auto simp: machine_write_def case_prod_beta intro!: kept_same dest: store_write_exit split: machine_device.splits)
qed

lemma dispatch_write_kept: "dispatch_write (machine_table env) io a data v = Some (q, v') \<Longrightarrow> exit_kept (world v) (world v')"
  by (auto simp: dispatch_write_def machine_table_def dest: machine_write_kept split: option.splits prod.splits)

lemma dispatch_read_kept: "dispatch_read (machine_table env) io a n v = (q, v') \<Longrightarrow> exit_kept (world v) (world v')"
  using machine_read_exit [of env]
  by (auto simp: dispatch_read_def machine_table_def case_prod_beta intro!: kept_same split: option.splits)

lemma raise_kept: "raise_result r = Some (act, v') \<Longrightarrow> \<exists>q v. r = Some (q, v) \<and> world v' = world v"
  by (auto simp: raise_result_def split: option.splits prod.splits)

lemma uart_world [simp]: "world (handle_extra_uart_out s g p d v) = world v" "world (snd (handle_extra_uart_in s p n v)) = world v"
  by (simp_all add: handle_extra_uart_out_def handle_extra_uart_in_def Let_def split: option.split prod.split)

lemma handle_exit_kept:
  assumes "handle_exit kops (machine_table env) exit v = Some (act, v')" shows "exit_kept (world v) (world v')"
proof (cases exit)
  case (IoOut p d)
  have "exit_kept (world v) (world v')" if "raise_result (dispatch_write (machine_table env) False (ucast p) d v) = Some (act, v')"
    using raise_kept [OF that] by (auto dest: dispatch_write_kept)
  with assms IoOut show ?thesis
    by (auto simp: Let_def intro!: kept_same split: if_splits prod.splits)
next
  case (IoIn p n)
  have "exit_kept (world v) (world (snd (dispatch_read (machine_table env) False (ucast p) n v)))"
    using dispatch_read_kept [of env False "ucast p" n v] by (metis prod.collapse)
  with assms IoIn show ?thesis
    by (auto simp: Let_def case_prod_beta kept_same split: if_splits option.splits)
next
  case (MmioRead a n)
  with assms show ?thesis by (auto dest: dispatch_read_kept split: prod.splits option.splits)
next
  case (MmioWrite a d)
  with assms show ?thesis using raise_kept by (fastforce dest: dispatch_write_kept)
qed (use assms in simp_all)

section \<open>How runs end\<close>

lemma loop_ends: "vt_exit t = Some r \<Longrightarrow> vcpu_loop env hc hp t = Some (r, t)"
  by (subst vcpu_loop.simps) (simp add: vcpu_iteration_def)

lemma loop_goes_on: "vcpu_iteration env hc hp t = Some (None, t') \<Longrightarrow> vcpu_loop env hc hp t = vcpu_loop env hc hp t'"
  by (subst vcpu_loop.simps) simp

lemma enter_exits:
  assumes "enter_guest env hc hp t = Some (None, t')" shows "move_exits (snd (ve_run env (vt_ctl t))) (vt_ctl t')"
proof -
  obtain outcome ctl where run: "ve_run env (vt_ctl t) = (outcome, ctl)" by fastforce
  have "\<exists>t1. after_exit env hc hp t1 = Some (None, t') \<and> move_exits ctl (vt_ctl t1)"
  proof (cases outcome)
    case (Exited e)
    let ?t = "t\<lparr>vt_ctl := ctl, vt_history := history_push (vt_history t) (classify_exit e)\<rparr>"
    obtain bs v where h: "handle_exit (ve_kvm env) (machine_table (ce_host (ve_ctl env))) e (vt_vm ?t) = Some (Continue bs, v)"
      and a: "after_exit env hc hp (put_vcpu (ve_complete env bs (ct_vcpu ctl)) (put_vm v ?t)) = Some (None, t')"
      using assms run Exited by (auto simp: enter_guest_def Let_def split: option.splits action.splits sum.splits)
    have "move_exits ctl (vt_ctl (put_vcpu (ve_complete env bs (ct_vcpu ctl)) (put_vm v ?t)))"
      using handle_exit_kept [OF h] by (simp add: move_exits_def)
    with a show ?thesis by blast
  next
    case (Debug_exit pc)
    let ?t = "t\<lparr>vt_ctl := ctl, vt_history := history_push (vt_history t) \<lparr>rec_kind = K_Other, rec_addr = 0\<rparr>\<rparr>"
    obtain g where "after_exit env hc hp (return_gdb g ?t) = Some (None, t')"
      using assms run Debug_exit by (auto simp: enter_guest_def Let_def split: option.splits)
    moreover have "move_exits ctl (vt_ctl (return_gdb g ?t))" using return_gdb_exits [of ?t g] by simp
    ultimately show ?thesis by blast
  next
    case Interrupted
    with assms run have "after_exit env hc hp (t\<lparr>vt_ctl := ctl\<rparr>) = Some (None, t')" by (simp add: enter_guest_def Let_def)
    then show ?thesis by (intro exI [of _ "t\<lparr>vt_ctl := ctl\<rparr>"]) simp
  next
    case (Run_failed e)
    with assms run show ?thesis by (simp add: enter_guest_def Let_def)
  qed
  then show ?thesis using after_exit_exits move_exits_trans by (metis run snd_conv)
qed

text \<open>C14: Once the machine was sent away the guest never runs here again. Whatever an iteration of the loop does, if a client made it
  send the machine to another host, the run ends with that iteration: the vCPU and the guest memory stay what they
  were, and the recorded reason is the result. (The guest and the other threads send nothing themselves, and the flag of
  the exit slot agrees with its contents when the vCPU comes back.)\<close>

theorem sent_machine_stops:
  assumes "ct_sent (snd (ve_run env (vt_ctl t))) = ct_sent (vt_ctl t)"
    and "exit_slot_ok (w_exit (ct_world (snd (ve_run env (vt_ctl t)))))"
    and "vcpu_iteration env hc hp t = Some (None, t')" and "ct_sent (vt_ctl t') \<noteq> ct_sent (vt_ctl t)"
  shows "\<exists>r. vcpu_loop env hc hp t = Some (r, t') \<and> vt_exit t' = Some r"
proof -
  have quiet: "ct_sent (vt_ctl (return_gdb g t)) = ct_sent (vt_ctl t)" for g by (simp add: return_gdb_def Let_def)
  have g: "gdb_gate env hc hp t = Some (None, t')"
    using assms(3,4) by (auto simp: vcpu_iteration_def split: option.splits sum.splits bool.splits)
  have "enter_guest env hc hp t = Some (None, t')"
  proof (cases "vt_gdb t")
    case None
    with g show ?thesis by (simp add: gdb_gate_def)
  next
    case (Some gs)
    obtain w gs' where b: "gdb_before_run (ce_regs (ve_ctl env)) (lend_gdb t gs) = (w, gs')" by fastforce
    show ?thesis using g Some b assms(4) quiet [of gs'] by (cases w) (auto simp: gdb_gate_def)
  qed
  from enter_exits [OF this] assms(1,2,4) have "vt_exit t' \<noteq> None" by (auto simp: move_exits_def)
  then show ?thesis using loop_ends loop_goes_on [OF assms(3)] by fastforce
qed


section \<open>Two runs\<close>

definition demo_vcpu_env :: "kvm_outcome \<Rightarrow> (gp_regs, unit, unit, unit, unit) vcpu_env" where
  "demo_vcpu_env out = \<lparr>ve_ctl = demo_ctl_env, ve_msg = (\<lambda>_. []), ve_kvm = demo_kvm, ve_cpu = 0, ve_bsp = True, ve_run = Pair out,
     ve_complete = (\<lambda>_ v. v), ve_runnable = (\<lambda>_. Inr True), ve_sregs = (\<lambda>_. Inl []), ve_branches = (\<lambda>_. (0, 0)), ve_io_text = (\<lambda>_. []),
     ve_exit_text = (\<lambda>_. []), ve_debug_text = (\<lambda>_. [])\<rparr>"

definition demo_thread :: "client list \<Rightarrow> (gp_regs, unit, unit, unit) ctl_state \<Rightarrow> (gp_regs, unit, unit, unit) vcpu_thread" where
  "demo_thread cs ctl = \<lparr>vt_ctl = ctl, vt_server = (if cs = [] then None else Some \<lparr>sv_pending = [], sv_clients = cs\<rparr>), vt_gdb = None,
     vt_replayer = None, vt_history = [], vt_dumps = []\<rparr>"

lemma demo_migrate: "\<exists>st. handle_command demo_ctl_env ''migrate x'' (demo_ctl 0) = Some (Inr ''OK'', st) \<and> ct_sent st \<noteq> []"
proof -
  have "split_whitespace ''migrate x'' = [''migrate'', ''x'']" using split_words [of "[''x'']" "''migrate''"] by (simp add: plain_def)
  then show ?thesis
    by (simp add: handle_command_def cmd_migrate_def demo_ctl_env_def demo_ctl_def handle_migrate_def validate_capturable_def args_default_def
        capture_machine_def capture_live_state_def VCPU_ORDER_def VM_ORDER_def wait_for_reactor_def send_machine_def write_to_def try_bind_def
        demo_wire_def Let_def)
qed

theorem sent_machine_stops_witness:
  "\<exists>t' r. vcpu_loop (demo_vcpu_env Interrupted) True False (demo_thread [demo_client [Got (wire [''migrate x'']), Would_block]] (demo_ctl 0)) = Some (r, t') \<and>
     ct_sent (vt_ctl t') \<noteq> []"
proof -
  let ?c = "demo_client [Got (wire [''migrate x'']), Would_block]" and ?env = "demo_vcpu_env Interrupted"
  obtain st where h: "handle_command demo_ctl_env ''migrate x'' (demo_ctl 0) = Some (Inr ''OK'', st)" "ct_sent st \<noteq> []"
    using demo_migrate by blast
  have "client_fill ?c = (True, ?c\<lparr>cl_reads := [], cl_buf := wire [''migrate x'']\<rparr>)"
    using fill_loop_chunks [of "[]" "[wire [''migrate x'']]" "[]"]
    by (simp add: client_fill_def demo_client_def wire_def ascii_def MAX_LINE_def)
  moreover have "\<exists>c'. serve_lines demo_ctl_env (\<lambda>_. []) (?c\<lparr>cl_reads := [], cl_buf := wire [''migrate x'']\<rparr>) (demo_ctl 0) = Some (True, c', st) \<and>
      cl_buf c' = [] \<and> cl_sent c' = cl_sent (?c\<lparr>cl_reads := [], cl_buf := wire [''migrate x'']\<rparr>) @ concat (map (reply_bytes (\<lambda>_ :: unit ctl_error. [])) [Inr ''OK''])"
    by (rule serve_lines_wire [where lines = "[''migrate x'']"]) (simp_all add: one_line_def ascii_def NEWLINE_def h(1) demo_client_def reply_bytes_def)
  ultimately obtain c' where "serve_client demo_ctl_env (\<lambda>_. []) ?c (demo_ctl 0) = Some (True, c', st)"
    by (auto simp: serve_client_def)
  then have "poll_loop demo_ctl_env (\<lambda>_. []) 0 [?c] (demo_ctl 0) = Some ([c'], st)"
    by (simp add: poll_loop.simps)
  then obtain t' where t': "vcpu_iteration ?env True False (demo_thread [?c] (demo_ctl 0)) = Some (None, t')" "vt_ctl t' = st"
    by (auto simp: vcpu_iteration_def gdb_gate_def enter_guest_def after_exit_def poll_host_def poll_control_def poll_replayed_def control_poll_def
        demo_vcpu_env_def demo_thread_def demo_ctl_def demo_source_def demo_move_vm_def new_exit_slot_def exit_take_def is_requested_def Let_def)
  from sent_machine_stops [OF _ _ t'(1)] h(2) t'(2) show ?thesis
    by (fastforce simp: demo_vcpu_env_def demo_thread_def demo_ctl_def demo_source_def demo_move_vm_def exit_slot_ok_def new_exit_slot_def)
qed

definition demo_acpi_ctl :: "(gp_regs, unit, unit, unit) ctl_state" where
  "demo_acpi_ctl = (demo_ctl 0)\<lparr>ct_machine := (demo_source 7 (mem_new 0x1000) [])\<lparr>re_vm := (demo_move_vm 7 (mem_new 0x1000))\<lparr>
     shared := (shared demo_vm)\<lparr>io_bus := [\<lparr>base = 0x600, last_addr = 0x601, device = 0, region_irq = None\<rparr>], plugin_pci_devices := []\<rparr>,
     world := \<lparr>w_mem = mem_new 0x1000, w_exit = new_exit_slot, w_devices = [Dev_sleep]\<rparr>\<rparr>\<rparr>\<rparr>"


end
