(* ===== verification/Spec2Isabelle.thy ===== *)
theory Spec2Isabelle
  imports Virtio_I2c Virtio_Gpio Virtio_Net Virtio_Rng Boot_Sequence Gdb_Session Vcpu_Loop
begin

text \<open>
  \<^bold>\<open>hyperbug\<close>, a KVM virtual machine monitor with pluggable devices: a verification development.

  \<^bold>\<open>The program.\<close> A launch parses a command line (\<open>src/config.rs\<close>), checks it and loads the guest
  (\<open>src/lib.rs\<close>, \<open>src/loader.rs\<close>, \<open>src/acpi.rs\<close>, \<open>src/smbios.rs\<close>, \<open>src/gdt.rs\<close>) into one flat guest memory
  (\<open>src/mem.rs\<close>). While the guest runs, its port and MMIO accesses are looked up on buses
  (\<open>src/device.rs\<close>) and on the PCI bus (\<open>src/pci.rs\<close>), whose devices are virtio functions behind
  one of two transports (\<open>src/virtio.rs\<close>). A transport owns the queues, which live in guest
  memory and are written by the guest at any time, and hands descriptor chains to a device: entropy,
  network, block, I2C, GPIO, vsock. Further devices are plugins, Python, native or WebAssembly code behind
  one interface (\<open>src/plugin.rs\<close>), in the process or in a sandboxed child. All of them are put together by
  \<open>src/machine.rs\<close>, and the vCPU threads dispatch VM exits to them and to the UARTs (\<open>src/vcpu.rs\<close>, \<open>src/serial.rs\<close>), while a
  reactor thread serves the terminal, the TAP devices, queue notifications and completions (\<open>src/reactor.rs\<close>). A debugger
  (\<open>src/gdbstub.rs\<close>) and control clients (\<open>src/control.rs\<close>) work on the stopped or running guest; the latter can save, fork and migrate
  it (\<open>src/snapshot.rs\<close>, \<open>src/fork.rs\<close>, \<open>src/migrate.rs\<close>). Sources of non-determinism can be recorded and replayed
  (\<open>src/record.rs\<close>), and every thread and the ACPI power registers end the run through a shared exit signal (\<open>src/error.rs\<close>).

  \<^bold>\<open>The theories\<close>, in import order.
  \<^item> \<open>Hb_Prelude\<close>: machine integers as words, Rust's checked and saturating arithmetic, little-endian
    bytes with their round trips. \<open>usize\<close> is \<open>u64\<close>: the program runs on x86-64 only.
  \<^item> \<open>Guest_Memory\<close> (\<open>mem.rs\<close>): memory as a size and a byte function, the checked accessors. The locale
    \<open>checked_memory\<close> is what clients rely on, interpreted on the accessors as \<open>gm\<close>.
  \<^item> \<open>Snapshot_Codec\<close> (\<open>snapshot.rs\<close>): the cursor decoders; locale \<open>wire_codec\<close> with the round trip,
    interpreted for each width.
  \<^item> \<open>Device_Bus\<close> (\<open>device.rs\<close>): regions, registration, lookup; locale \<open>address_space\<close>, the bus as a partial
    map from addresses, interpreted on the bus.
  \<^item> \<open>Virtqueue\<close> (\<open>virtio.rs\<close>): queue layout, the bounded descriptor walk, the used ring. \<open>desc_path\<close>
    is the abstract chain relation the walk refines.
  \<^item> \<open>Virtio_Ops\<close> (\<open>virtio.rs\<close>): the trait \<open>VirtioDeviceOps\<close> as a record of functions, the drain loop as a
    partial function (it need not end: \<open>None\<close>), its trace relation, and the locale \<open>virtio_device\<close>: a device
    writes only inside the footprint of the chain it is given. Each device theory interprets it.
  \<^item> \<open>Virtio_Legacy\<close>, \<open>Virtio_Modern\<close> (\<open>virtio.rs\<close>): the two transports, every register, notification,
    completion and delivery path, and their snapshots.
  \<^item> \<open>Pci_Bus\<close> (\<open>pci.rs\<close>): configuration mechanism 1, BARs, MSI, ioevent bindings, snapshot.
  \<^item> \<open>Virtio_I2c\<close>, \<open>Virtio_Gpio\<close>, \<open>Virtio_Net\<close>, \<open>Virtio_Rng\<close>, \<open>Virtio_Blk\<close>, \<open>Virtio_Vsock\<close>: the devices, over parameters for I2C
    targets, GPIO banks, the TAP device, \<open>getrandom\<close>, the io_uring and the bridge of host sockets; \<open>Record_Replay\<close> (\<open>record.rs\<close>): file format and replayer.
  \<^item> \<open>Boot_Memory\<close> (\<open>mem.rs\<close>): the unchecked boot-time writers; a write outside the mapping is \<open>None\<close>.
    Boot steps are lists of writes, and the lemmas say what memory holds afterwards.
  \<^item> \<open>Boot_Paging\<close> (\<open>gdt.rs\<close>), \<open>Kernel_Loader\<close> (\<open>loader.rs\<close>), \<open>Acpi_Tables\<close> (\<open>acpi.rs\<close>), \<open>Smbios_Tables\<close>
    (\<open>smbios.rs\<close>): what is put into memory before the guest runs. Their specifications are the
    consumers: the processor's page walk, the kernel's view of the zero page, an operating
    system's scan for ACPI tables, a DMI scanner.
  \<^item> \<open>Exit_Signal\<close> (\<open>error.rs\<close>, power registers of \<open>acpi.rs\<close>): exit reasons and codes, \<open>request_exit\<close> atomically
    and as a step relation of any number of threads.
  \<^item> \<open>Launch_Config\<close> (\<open>config.rs\<close>): specifications, \<open>Args\<close>, the parsers, Rust's integer parsing.
  \<^item> \<open>Boot_Sequence\<close> (\<open>lib.rs\<close>): launch checks, \<open>load_guest\<close>, \<open>setup_bsp\<close> and their composition \<open>cold_boot\<close>.
  \<^item> \<open>Serial\<close> (\<open>serial.rs\<close>): the UART as two byte streams with interrupt edges.
  \<^item> \<open>Plugin_Device\<close> (\<open>plugin.rs\<close>, \<open>pydevice_proc.rs\<close>): the plugin device and the sandboxed transport down to its
    pipe. The locale \<open>dma_port\<close> is the confinement of a memory port, interpreted on both kinds of callbacks.
    \<open>Plugin_Transports\<close> (\<open>pydevice.rs\<close>, \<open>native_plugin.rs\<close>, \<open>wasm_plugin.rs\<close>): foreign code as a program that asks the host for
    callbacks; locales \<open>confined_host\<close> and \<open>transport_sim\<close> carry confinement from callbacks to device runs.
  \<^item> \<open>Vcpu_Dispatch\<close> (\<open>vcpu.rs\<close>, \<open>irq.rs\<close>): VM exits, interrupt lines and MSI, host polling, runs of a machine over any
    device table. \<open>Machine_Build\<close> (\<open>machine.rs\<close>): assembly from the arguments, the device table made of all devices
    above, plugin reload.
  \<^item> \<open>Reactor\<close> (\<open>reactor.rs\<close>): tokens, dispatch, every handler and the loop, on the machine of \<open>Machine_Build\<close>; \<open>Reactor_Pause\<close>: the pause
    rendezvous as a step relation of two threads and the locks they take.
  \<^item> \<open>Snapshot_Stream\<close> (\<open>snapshot.rs\<close>): capture, the stream and its reader, over opaque KVM structs of a fixed layout.
    \<open>Migration\<close> (\<open>migrate.rs\<close>, \<open>fork.rs\<close>, restore in \<open>lib.rs\<close>): both commands, the receiver, the child, the restore of every device;
    network and ioctls are parameters.
  \<^item> \<open>Text_Protocol\<close>: UTF-8 decoding and hexadecimal text. \<open>Gdb_Stub\<close> (\<open>gdbstub.rs\<close>): packets, commands, breakpoints, stepping, with an
    input/output monad over the state of the stub; \<open>Gdb_Session\<close>: what whole sessions do, against a reference debugger
    on unmodified memory, and the invariant of the stub. \<open>Control_Socket\<close> (\<open>control.rs\<close>): commands, framing, clients.
  \<^item> \<open>Diagnostics\<close> (\<open>cpuid.rs\<close>, \<open>trace.rs\<close>, \<open>crashdump.rs\<close>): the CPUID table, traces and crash dumps.
    \<open>Vcpu_Loop\<close> (\<open>vcpu.rs\<close>): a vCPU thread from its first entry to the end of the run, composed of the exit slot, the debugger's gate,
    \<open>KVM_RUN\<close> (a parameter), the dispatch, the control socket and the plugins.
  \<^item> this theory: isolation and progress of a notification for every device and both a hostile and a
    well-behaved guest.

  \<^bold>\<open>What is shown.\<close> Memory accesses are exact and never wrap; a popped chain lies in guest memory
  whatever the guest wrote; the walk refines the chain relation; a notification changes only the used
  ring and the device's footprint, and processes exactly the pending chains when rings are
  separate; the bus is a partial map; configuration writes keep the PCI invariant; snapshots,
  recordings and specifications round-trip; devices transfer exactly the bytes they should; a boot
  never writes outside guest memory and, up to 21 GiB, ends in the state the boot protocol demands;
  accepted command lines are valid; the first exit reason wins under every interleaving; no block request
  leaves the image; plugins neither change nor learn memory outside their range, and a plugin that hangs is cut
  off; a built machine has the layout its arguments ask for and never pulses a line without irqfd. What is typed
  reaches the console; a granted pause means a parked reactor; a stream reads back as the machine written and a
  migration moves the whole machine; a debugging session is one on unmodified memory; control commands are executed
  once each, in order, and answered; a machine that was sent away never runs here again and a guest that powers off
  ends the run; every vCPU is told its own APIC id, and traces are arrays of their events. Defects are
  theorems too: the ring aliasing that hangs a vCPU, the second BAR that unmaps the first, torn
  recordings, page tables over the command line, the initramfs over the kernel, stale io_uring entries, vsock
  streams that stall or lose bytes, a WebAssembly size that panics the host, MSI messages of the wrong device, breakpoints
  that stay in the guest or are passed over, a packet lost by a migration, a pause that a keystroke blocks,
  commands of a closing client that are dropped.

  \<^bold>\<open>Bounds and fuel.\<close> No definition uses fuel. The drain loop and the vCPU loop are \<open>partial_function\<close>s: that a
  drain ends is a theorem with the hypothesis it needs, and how runs end is proved as the value returned; all other
  loops are structural or come with a measure. Lengths of Rust slices are below \<open>2 ^ 63\<close>, stated where it matters (\<open>fs_ok\<close>).

  \<^bold>\<open>Not modelled.\<close> KVM ioctls and the contents of KVM structs (parameters, or opaque bytes), the code behind CPython,
  \<open>dlopen\<close> and wasmtime and the spawning of sandboxed children, the vsock bridge thread, and what only calls the host:
  terminal modes, signals and timers (\<open>tty.rs\<close>), perf counters (\<open>pmu.rs\<close>), \<open>cgroup.rs\<close>, \<open>seccomp.rs\<close>, \<open>logging.rs\<close>.
\<close>

subsection \<open>Isolation and progress of every virtio device\<close>



text \<open>C3: Progress of a legacy queue notification: if no chain the avail ring can name lets the device write
  into the descriptor table or the avail ring, the notification returns, having processed exactly
  the pending chains, each once and in ring order. The separation of the used ring needs no
  assumption: the legacy layout guarantees it.\<close>

theorem legacy_notify_progress:
  assumes "virtio_device ops foot" and "legacy_inv s" and "get_queue (l_queues s) qi = Some q" and "q_enabled q"
    and "wants_queue_notify ops (l_dev s) qi"
    and "\<And>i c. avail_chain q m i = Some c \<Longrightarrow> foot qi c \<inter> queue_mem q = {}"
  shows "\<exists>b s' m' p d q' ch. legacy_write ops s m REG_QUEUE_NOTIFY (le16 qi) = Some (b, s', m') \<and>
    drain_trace ops qi False (l_dev s) q (l_chain s) m (pending_chains q m) (p, d, q', ch, m') \<and>
    l_dev s' = d \<and> get_queue (l_queues s') qi = Some q'"
proof -
  have i: "unat qi < length (l_queues s)" "legacy_q_ok q"
    using assms(2) get_queue_Some [OF assms(3)] by (simp_all add: legacy_inv_def list_all_length)
  have "separated (foot qi) q m"
    using assms(6) legacy_used_separate [OF i(2) assms(4)] by (auto simp: separated_def)
  from virtio_device.drain_exact [OF assms(1) this, of False "l_dev s" "l_chain s"] obtain p d q' ch m' where
    tr: "drain_trace ops qi False (l_dev s) q (l_chain s) m (pending_chains q m) (p, d, q', ch, m')"
    by (metis prod_cases5)
  let ?s = "s\<lparr>l_dev := d, l_queues := (l_queues s)[unat qi := q'], l_chain := ch\<rparr>"
  have "legacy_drain_queue ops s m qi = Some (p, ?s, m')"
    using drain_trace_loop [OF tr] assms(3,5) by (simp add: legacy_drain_queue_def)
  then have "\<exists>b s'. legacy_write ops s m REG_QUEUE_NOTIFY (le16 qi) = Some (b, s', m') \<and>
      l_dev s' = d \<and> l_queues s' = (l_queues s)[unat qi := q']"
    by (cases p) (auto simp: legacy_write_def legacy_reg_defs)
  then obtain b s' where "legacy_write ops s m REG_QUEUE_NOTIFY (le16 qi) = Some (b, s', m')" "l_dev s' = d"
    "get_queue (l_queues s') qi = Some q'" using i(1) by (auto simp: get_queue_def)
  with tr show ?thesis by blast
qed

theorem legacy_notify_progress_witness:
  "\<exists>b s' m'. legacy_write net_ops demo_net (mem_new 0x100000) REG_QUEUE_NOTIFY (le16 1) = Some (b, s', m')"
proof -
  have "legacy_inv demo_net" by (simp add: legacy_inv_def demo_net_def)
  moreover have "get_queue (l_queues demo_net) 1 = Some (set_pfn 1 (vq_new 256))"
    by (simp add: get_queue_def demo_net_def)
  moreover have "wants_queue_notify net_ops (l_dev demo_net) 1" by (simp add: net_ops_def RX_QUEUE_def)
  ultimately show ?thesis
    using legacy_notify_progress [OF net.virtio_device_axioms, of demo_net 1 "set_pfn 1 (vq_new 256)" "mem_new 0x100000"]
    by auto
qed

end
